(* ===== verification/Prelude.thy ===== *)
theory Prelude
  imports Main "HOL-Library.Word" "HOL-Library.Multiset" "HOL-Library.Product_Lexorder"
begin

text \<open>
  Shared vocabulary of the development: the machine types the program uses, the parts of
  Rust's standard library that several components call (\<open>str::trim\<close>,
  \<open>eq_ignore_ascii_case\<close>, saturating arithmetic, \<open>Option::filter\<close>, stable sorting by a
  key), and the collections of simplification rules the component proofs draw on.

  A Rust \<open>String\<close> / \<open>&str\<close> is a \<^typ>\<open>string\<close> holding its UTF-8 bytes, one \<^typ>\<open>char\<close>
  per byte. A \<open>Uuid\<close> is its 128-bit big-endian value, so the word order is the order
  \<open>Uuid\<close> derives from its bytes.
\<close>

named_theorems std_simps "unfolding of the standard-library helpers"
named_theorems inv_intros "introduction rules for component invariants"

type_synonym uuid = "128 word"

abbreviation uuid_nil :: uuid where "uuid_nil \<equiv> 0"

text \<open>
  One reading of the process clocks: \<open>Instant::now()\<close> and \<open>Utc::now()\<close> in nanoseconds, and
  the worker-local weekday (1 = Monday) and minute of the day.
\<close>

record clock =
  clk_instant :: nat
  clk_utc :: int
  clk_weekday :: nat
  clk_minutes :: nat

subsection \<open>Options\<close>

definition opt_filter :: "('a \<Rightarrow> bool) \<Rightarrow> 'a option \<Rightarrow> 'a option" where
  "opt_filter p o' = (case o' of None \<Rightarrow> None | Some x \<Rightarrow> if p x then Some x else None)"

definition opt_or :: "'a option \<Rightarrow> 'a option \<Rightarrow> 'a option" where
  "opt_or a b = (case a of Some x \<Rightarrow> Some x | None \<Rightarrow> b)"

definition opt_or_default :: "'a \<Rightarrow> 'a option \<Rightarrow> 'a" where
  "opt_or_default d o' = (case o' of None \<Rightarrow> d | Some x \<Rightarrow> x)"

definition is_some_and :: "('a \<Rightarrow> bool) \<Rightarrow> 'a option \<Rightarrow> bool" where
  "is_some_and p o' = (case o' of None \<Rightarrow> False | Some x \<Rightarrow> p x)"

lemma opt_filter_simps [simp]:
  "opt_filter p None = None"
  "opt_filter p (Some x) = (if p x then Some x else None)"
  by (simp_all add: opt_filter_def)

lemma opt_filter_eq_Some [simp]: "opt_filter p o' = Some x \<longleftrightarrow> o' = Some x \<and> p x"
  by (auto simp: opt_filter_def split: option.splits)

lemma opt_or_simps [simp]:
  "opt_or None b = b" "opt_or (Some x) b = Some x" "opt_or a None = a"
  by (simp_all add: opt_or_def split: option.splits)

lemma opt_or_eq_Some: "opt_or a b = Some x \<longleftrightarrow> a = Some x \<or> a = None \<and> b = Some x"
  by (auto simp: opt_or_def split: option.splits)

lemma opt_or_default_simps [simp]:
  "opt_or_default d None = d" "opt_or_default d (Some x) = x"
  by (simp_all add: opt_or_default_def)

lemma is_some_and_simps [simp]:
  "is_some_and p None = False" "is_some_and p (Some x) = p x"
  by (simp_all add: is_some_and_def)

lemma is_some_and_iff: "is_some_and p o' \<longleftrightarrow> (\<exists>x. o' = Some x \<and> p x)"
  by (cases o') auto

subsection \<open>Bytes and strings\<close>

definition byte :: "char \<Rightarrow> nat" where
  "byte c = of_char c"

lemma byte_char_of: "n < 256 \<Longrightarrow> byte (char_of n) = n"
  by (simp add: byte_def)

text \<open>\<open>u8::to_ascii_lowercase\<close>, \<open>str::to_ascii_lowercase\<close>, \<open>str::eq_ignore_ascii_case\<close>.\<close>

definition ascii_lower :: "char \<Rightarrow> char" where
  "ascii_lower c = (if 65 \<le> byte c \<and> byte c \<le> 90 then char_of (byte c + 32) else c)"

definition to_ascii_lowercase :: "string \<Rightarrow> string" where
  "to_ascii_lowercase s = List.map ascii_lower s"

definition eq_ignore_ascii_case :: "string \<Rightarrow> string \<Rightarrow> bool" where
  "eq_ignore_ascii_case a b \<longleftrightarrow> to_ascii_lowercase a = to_ascii_lowercase b"

lemma eq_ignore_ascii_case_refl [simp]: "eq_ignore_ascii_case a a"
  by (simp add: eq_ignore_ascii_case_def)

lemma eq_ignore_ascii_case_sym: "eq_ignore_ascii_case a b \<longleftrightarrow> eq_ignore_ascii_case b a"
  by (auto simp: eq_ignore_ascii_case_def)

text \<open>
  \<open>str::trim\<close> removes the characters with the Unicode property White\_Space from both
  ends: U+0009..U+000D, U+0020, U+0085, U+00A0, U+1680, U+2000..U+200A, U+2028, U+2029,
  U+202F, U+205F and U+3000. In UTF-8 these are one, two or three bytes long;
  \<open>ws1\<close>, \<open>ws2\<close> and \<open>ws3\<close> recognise them.
\<close>

definition ws1 :: "char \<Rightarrow> bool" where
  "ws1 a \<longleftrightarrow> byte a = 32 \<or> 9 \<le> byte a \<and> byte a \<le> 13"

definition ws2 :: "char \<Rightarrow> char \<Rightarrow> bool" where
  "ws2 a b \<longleftrightarrow> byte a = 0xC2 \<and> (byte b = 0x85 \<or> byte b = 0xA0)"

definition ws3 :: "char \<Rightarrow> char \<Rightarrow> char \<Rightarrow> bool" where
  "ws3 a b c \<longleftrightarrow>
     byte a = 0xE1 \<and> byte b = 0x9A \<and> byte c = 0x80 \<or>
     byte a = 0xE2 \<and> byte b = 0x80 \<and>
       (0x80 \<le> byte c \<and> byte c \<le> 0x8A \<or> byte c = 0xA8 \<or> byte c = 0xA9 \<or> byte c = 0xAF) \<or>
     byte a = 0xE2 \<and> byte b = 0x81 \<and> byte c = 0x9F \<or>
     byte a = 0xE3 \<and> byte b = 0x80 \<and> byte c = 0x80"

fun strip_ws :: "('a \<Rightarrow> bool) \<Rightarrow> ('a \<Rightarrow> 'a \<Rightarrow> bool) \<Rightarrow> ('a \<Rightarrow> 'a \<Rightarrow> 'a \<Rightarrow> bool) \<Rightarrow> 'a list \<Rightarrow> 'a list" where
  "strip_ws p1 p2 p3 [] = []"
| "strip_ws p1 p2 p3 [a] = (if p1 a then [] else [a])"
| "strip_ws p1 p2 p3 [a, b] =
     (if p1 a then strip_ws p1 p2 p3 [b] else if p2 a b then [] else [a, b])"
| "strip_ws p1 p2 p3 (a # b # c # s) =
     (if p1 a then strip_ws p1 p2 p3 (b # c # s)
      else if p2 a b then strip_ws p1 p2 p3 (c # s)
      else if p3 a b c then strip_ws p1 p2 p3 s
      else a # b # c # s)"

definition trim_start :: "string \<Rightarrow> string" where
  "trim_start = strip_ws ws1 ws2 ws3"

definition trim_end :: "string \<Rightarrow> string" where
  "trim_end s = rev (strip_ws ws1 (\<lambda>a b. ws2 b a) (\<lambda>a b c. ws3 c b a) (rev s))"

definition trim :: "string \<Rightarrow> string" where
  "trim s = trim_end (trim_start s)"

text \<open>A list no whitespace sequence starts.\<close>

fun no_ws_head :: "('a \<Rightarrow> bool) \<Rightarrow> ('a \<Rightarrow> 'a \<Rightarrow> bool) \<Rightarrow> ('a \<Rightarrow> 'a \<Rightarrow> 'a \<Rightarrow> bool) \<Rightarrow> 'a list \<Rightarrow> bool" where
  "no_ws_head p1 p2 p3 (a # b # c # s) \<longleftrightarrow> \<not> p1 a \<and> \<not> p2 a b \<and> \<not> p3 a b c"
| "no_ws_head p1 p2 p3 [a, b] \<longleftrightarrow> \<not> p1 a \<and> \<not> p2 a b"
| "no_ws_head p1 p2 p3 [a] \<longleftrightarrow> \<not> p1 a"
| "no_ws_head p1 p2 p3 [] \<longleftrightarrow> True"

lemma strip_ws_no_head: "no_ws_head p1 p2 p3 (strip_ws p1 p2 p3 s)"
  by (induction p1 p2 p3 s rule: strip_ws.induct) auto

lemma strip_ws_id: "no_ws_head p1 p2 p3 s \<Longrightarrow> strip_ws p1 p2 p3 s = s"
  by (induction p1 p2 p3 s rule: no_ws_head.induct) auto

lemma strip_ws_suffix: "\<exists>n. strip_ws p1 p2 p3 s = drop n s"
proof (induction p1 p2 p3 s rule: strip_ws.induct)
  case (1 p1 p2 p3)
  show ?case by simp
next
  case (2 p1 p2 p3 a)
  show ?case by (auto intro: exI [of _ 0] exI [of _ 1])
next
  case (3 p1 p2 p3 a b)
  show ?case
    by (auto intro: exI [of _ 0] exI [of _ 1] exI [of _ 2])
next
  case (4 p1 p2 p3 a b c s)
  from 4 show ?case
    by (auto intro: exI [of _ 0]) (metis drop_Suc_Cons)+
qed

lemma no_ws_head_take: "no_ws_head p1 p2 p3 s \<Longrightarrow> no_ws_head p1 p2 p3 (take n s)"
proof (induction p1 p2 p3 s rule: no_ws_head.induct)
  case (1 p1 p2 p3 a b c s)
  then show ?case
    by (cases n; cases "n - 1"; cases "n - 2") (auto simp: take_Cons' numeral_eq_Suc)
qed (auto simp: take_Cons')

lemma trim_end_take: "\<exists>n. trim_end s = take n s"
proof -
  obtain n where n: "strip_ws ws1 (\<lambda>a b. ws2 b a) (\<lambda>a b c. ws3 c b a) (rev s) = drop n (rev s)"
    using strip_ws_suffix by blast
  show ?thesis
    by (rule exI [of _ "length s - n"]) (simp add: trim_end_def n drop_rev)
qed

lemma trim_end_idem [simp]: "trim_end (trim_end s) = trim_end s"
  by (simp add: trim_end_def strip_ws_id strip_ws_no_head)

lemma trim_idem [simp]: "trim (trim s) = trim s"
proof -
  obtain n where n: "trim_end (trim_start s) = take n (trim_start s)"
    using trim_end_take by blast
  have "trim_start (take n (trim_start s)) = take n (trim_start s)"
    unfolding trim_start_def by (intro strip_ws_id no_ws_head_take strip_ws_no_head)
  then show ?thesis by (simp add: trim_def flip: n)
qed

lemma trim_Nil [simp]: "trim [] = []"
  by (simp add: trim_def trim_start_def trim_end_def)

text \<open>\<open>s.map(str::trim).filter(|v| !v.is_empty())\<close>, the optional non-blank value.\<close>

definition non_blank :: "string option \<Rightarrow> string option" where
  "non_blank v = opt_filter (\<lambda>s. s \<noteq> []) (map_option trim v)"

lemma non_blank_simps [simp]:
  "non_blank None = None"
  "non_blank (Some s) = (if trim s = [] then None else Some (trim s))"
  by (simp_all add: non_blank_def)

lemma non_blank_idem: "non_blank (non_blank v) = non_blank v"
  by (cases v) auto

text \<open>Decimal numerals, as \<open>to_string\<close> prints them, and lower-case hexadecimal bytes.\<close>

definition digit_char :: "nat \<Rightarrow> char" where
  "digit_char d = char_of (if d < 10 then 48 + d else 87 + d)"

fun dec_nat :: "nat \<Rightarrow> string" where
  "dec_nat n = (if n < 10 then [digit_char n] else dec_nat (n div 10) @ [digit_char (n mod 10)])"

declare dec_nat.simps [simp del]

definition dec_int :: "int \<Rightarrow> string" where
  "dec_int i = (if i < 0 then CHR ''-'' # dec_nat (nat (- i)) else dec_nat (nat i))"

definition hex_byte :: "char \<Rightarrow> string" where
  "hex_byte c = [digit_char (byte c div 16), digit_char (byte c mod 16)]"

definition hex_digest :: "string \<Rightarrow> string" where
  "hex_digest bs = concat (List.map hex_byte bs)"

subsection \<open>Saturating arithmetic\<close>

definition u64_max :: nat where "u64_max = 2 ^ 64 - 1"

definition u64_saturating_add :: "nat \<Rightarrow> nat \<Rightarrow> nat" where
  "u64_saturating_add a b = min (a + b) u64_max"

definition i64_max :: int where "i64_max = 2 ^ 63 - 1"
definition i64_min :: int where "i64_min = - (2 ^ 63)"

definition i64_saturating_sub :: "int \<Rightarrow> int \<Rightarrow> int" where
  "i64_saturating_sub a b = max i64_min (min i64_max (a - b))"

lemma u64_saturating_add_le [simp]: "u64_saturating_add a b \<le> u64_max"
  by (simp add: u64_saturating_add_def)

subsection \<open>Characters of a possibly invalid UTF-8 buffer\<close>

text \<open>
  \<open>String::from_utf8_lossy(bytes).chars().count()\<close>: every maximal well-formed sequence is
  one character and every maximal ill-formed prefix is replaced by one U+FFFD, so the count
  is the number of decoding steps. \<open>utf8_step\<close> is the number of bytes one step consumes.
\<close>

definition cont_byte :: "char \<Rightarrow> bool" where
  "cont_byte c \<longleftrightarrow> 0x80 \<le> byte c \<and> byte c \<le> 0xBF"

definition utf8_second_ok :: "char \<Rightarrow> char \<Rightarrow> bool" where
  "utf8_second_ok a b \<longleftrightarrow>
     (byte a = 0xE0 \<and> 0xA0 \<le> byte b \<and> byte b \<le> 0xBF) \<or>
     (0xE1 \<le> byte a \<and> byte a \<le> 0xEC \<and> cont_byte b) \<or>
     (byte a = 0xED \<and> 0x80 \<le> byte b \<and> byte b \<le> 0x9F) \<or>
     (0xEE \<le> byte a \<and> byte a \<le> 0xEF \<and> cont_byte b) \<or>
     (byte a = 0xF0 \<and> 0x90 \<le> byte b \<and> byte b \<le> 0xBF) \<or>
     (0xF1 \<le> byte a \<and> byte a \<le> 0xF3 \<and> cont_byte b) \<or>
     (byte a = 0xF4 \<and> 0x80 \<le> byte b \<and> byte b \<le> 0x8F)"

fun utf8_step :: "string \<Rightarrow> nat" where
  "utf8_step [] = 0"
| "utf8_step (a # bs) =
     (if 0xC2 \<le> byte a \<and> byte a \<le> 0xDF then
        (case bs of b # _ \<Rightarrow> if cont_byte b then 2 else 1 | _ \<Rightarrow> 1)
      else if 0xE0 \<le> byte a \<and> byte a \<le> 0xEF then
        (case bs of
           b # c # _ \<Rightarrow> if utf8_second_ok a b then (if cont_byte c then 3 else 2) else 1
         | [b] \<Rightarrow> if utf8_second_ok a b then 2 else 1
         | [] \<Rightarrow> 1)
      else if 0xF0 \<le> byte a \<and> byte a \<le> 0xF4 then
        (case bs of
           b # c # d # _ \<Rightarrow>
             if utf8_second_ok a b then (if cont_byte c then (if cont_byte d then 4 else 3) else 2)
             else 1
         | [b, c] \<Rightarrow> if utf8_second_ok a b then (if cont_byte c then 3 else 2) else 1
         | [b] \<Rightarrow> if utf8_second_ok a b then 2 else 1
         | [] \<Rightarrow> 1)
      else 1)"

lemma utf8_step_bounds: "bs \<noteq> [] \<Longrightarrow> 0 < utf8_step bs \<and> utf8_step bs \<le> length bs"
  by (cases bs) (auto split: list.splits)

function utf8_lossy_count :: "string \<Rightarrow> nat" where
  "utf8_lossy_count bs =
     (if bs = [] then 0 else Suc (utf8_lossy_count (drop (utf8_step bs) bs)))"
  by pat_completeness auto
termination
  by (relation "measure length") (use utf8_step_bounds in \<open>fastforce simp: Suc_le_eq\<close>)+

declare utf8_lossy_count.simps [simp del]

lemma utf8_lossy_count_le: "utf8_lossy_count bs \<le> length bs"
proof (induction bs rule: utf8_lossy_count.induct)
  case (1 bs)
  show ?case
  proof (cases "bs = []")
    case True
    then show ?thesis by (simp add: utf8_lossy_count.simps)
  next
    case False
    then show ?thesis
      using 1 utf8_step_bounds [of bs] by (simp add: utf8_lossy_count.simps [of bs]) linarith
  qed
qed

subsection \<open>Stable sorting and searching\<close>

lemma sort_key_perm_eq:
  assumes "mset xs = mset ys" and "inj_on f (set xs)"
  shows "sort_key f xs = sort_key f ys"
proof (rule properties_for_sort_key)
  show "mset (sort_key f ys) = mset xs" by (simp add: assms(1))
next
  show "filter (\<lambda>x. f k = f x) (sort_key f ys) = filter (\<lambda>x. f k = f x) xs"
    if k: "k \<in> set (sort_key f ys)" for k
  proof -
    have "k \<in> set xs" using k mset_eq_setD [OF assms(1)] by simp
    then have only: "\<And>x. x \<in> set xs \<Longrightarrow> f k = f x \<longleftrightarrow> x = k"
      using assms(2) by (auto dest: inj_onD)
    then have "filter (\<lambda>x. f k = f x) xs = filter (\<lambda>x. x = k) xs"
      by (auto cong: filter_cong)
    moreover have "filter (\<lambda>x. f k = f x) (sort_key f ys) = filter (\<lambda>x. x = k) (sort_key f ys)"
      using only mset_eq_setD [OF assms(1)] by (intro filter_cong) auto
    moreover have "filter (\<lambda>x. x = k) zs = replicate (count_list zs k) k" for zs
      by (induction zs) auto
    moreover have "count_list xs k = count_list (sort_key f ys) k"
      by (simp add: assms(1) flip: count_mset)
    ultimately show ?thesis by simp
  qed
next
  show "sorted (map f (sort_key f ys))" by simp
qed

lemma find_SomeD: "List.find p xs = Some x \<Longrightarrow> x \<in> set xs \<and> p x"
  by (auto simp: find_Some_iff)

lemma find_NoneD: "List.find p xs = None \<Longrightarrow> x \<in> set xs \<Longrightarrow> \<not> p x"
  by (auto simp: find_None_iff)

end
