(* ===== verification/F64.thy ===== *)
theory F64
  imports Prelude Complex_Main "HOL-Library.Log_Nat"
begin

text \<open>
  Rust's \<open>f64\<close>: IEEE-754 binary64 with round-to-nearest, ties to even. A finite value is
  kept as the rational it denotes; every arithmetic operation is the exact rational
  operation followed by \<open>fround\<close>, which rounds to 53 significant bits (or to a multiple of
  2^-1074 in the subnormal range) and overflows to infinity. The two zeros are one value:
  no modelled code divides by a zero, prints one or reads its sign, which are the only
  ways to tell them apart. \<open>NaN\<close> payloads and signs are not kept either.

  The lemmas that carry the weighting proofs are \<open>fround_mono\<close> (rounding is monotone),
  \<open>fround_wf\<close> (a rounded value is representable) and \<open>fround_repr\<close> (a representable value
  is not changed).
\<close>

subsection \<open>Rounding\<close>

datatype f64 = NaN | Inf bool | Fin rat

definition bit_length :: "int \<Rightarrow> int" where
  "bit_length n = int (floorlog 2 (nat n))"

definition ilog2 :: "rat \<Rightarrow> int" where
  "ilog2 q = (let (n, d) = quotient_of q; k = bit_length n - bit_length d
              in if 2 powi k \<le> q then k else k - 1)"

definition rne :: "rat \<Rightarrow> int" where
  "rne x = (let f = \<lfloor>x\<rfloor>; r = x - of_int f
            in if r < 1 / 2 then f else if 1 / 2 < r then f + 1 else if even f then f else f + 1)"

definition fexp :: "rat \<Rightarrow> int" where
  "fexp a = max (ilog2 a - 52) (- 1074)"

definition rmag :: "rat \<Rightarrow> rat" where
  "rmag a = of_int (rne (a / 2 powi fexp a)) * 2 powi fexp a"

definition fround :: "rat \<Rightarrow> f64" where
  "fround q =
     (if q = 0 then Fin 0
      else let v = rmag \<bar>q\<bar>
           in if 2 ^ 1024 \<le> v then Inf (q < 0) else Fin (if q < 0 then - v else v))"

subsection \<open>Arithmetic\<close>

fun f_neg :: "f64 \<Rightarrow> f64" where
  "f_neg NaN = NaN"
| "f_neg (Inf s) = Inf (\<not> s)"
| "f_neg (Fin x) = Fin (- x)"

fun f_add :: "f64 \<Rightarrow> f64 \<Rightarrow> f64" where
  "f_add NaN _ = NaN"
| "f_add _ NaN = NaN"
| "f_add (Inf s) (Inf t) = (if s = t then Inf s else NaN)"
| "f_add (Inf s) _ = Inf s"
| "f_add _ (Inf t) = Inf t"
| "f_add (Fin x) (Fin y) = fround (x + y)"

definition f_sub :: "f64 \<Rightarrow> f64 \<Rightarrow> f64" where
  "f_sub a b = f_add a (f_neg b)"

fun f_mul :: "f64 \<Rightarrow> f64 \<Rightarrow> f64" where
  "f_mul NaN _ = NaN"
| "f_mul _ NaN = NaN"
| "f_mul (Inf s) (Inf t) = Inf (s \<noteq> t)"
| "f_mul (Inf s) (Fin y) = (if y = 0 then NaN else Inf (s \<noteq> (y < 0)))"
| "f_mul (Fin x) (Inf t) = (if x = 0 then NaN else Inf ((x < 0) \<noteq> t))"
| "f_mul (Fin x) (Fin y) = fround (x * y)"

text \<open>Division by the (unsigned) zero of the model takes the sign of the numerator.\<close>

fun f_div :: "f64 \<Rightarrow> f64 \<Rightarrow> f64" where
  "f_div NaN _ = NaN"
| "f_div _ NaN = NaN"
| "f_div (Inf s) (Inf t) = NaN"
| "f_div (Inf s) (Fin y) = Inf (s \<noteq> (y < 0))"
| "f_div (Fin x) (Inf t) = Fin 0"
| "f_div (Fin x) (Fin y) = (if y = 0 then (if x = 0 then NaN else Inf (x < 0)) else fround (x / y))"

definition f_of_int :: "int \<Rightarrow> f64" where
  "f_of_int n = fround (of_int n)"

definition f_of_nat :: "nat \<Rightarrow> f64" where
  "f_of_nat n = fround (of_nat n)"

fun is_finite :: "f64 \<Rightarrow> bool" where
  "is_finite (Fin _) = True"
| "is_finite _ = False"

text \<open>The comparisons \<open><\<close> and \<open><=\<close>, false when an operand is NaN.\<close>

fun f_lt :: "f64 \<Rightarrow> f64 \<Rightarrow> bool" where
  "f_lt NaN _ = False"
| "f_lt _ NaN = False"
| "f_lt (Inf s) (Inf t) = (s \<and> \<not> t)"
| "f_lt (Inf s) (Fin _) = s"
| "f_lt (Fin _) (Inf t) = (\<not> t)"
| "f_lt (Fin x) (Fin y) = (x < y)"

fun f_le :: "f64 \<Rightarrow> f64 \<Rightarrow> bool" where
  "f_le NaN _ = False"
| "f_le _ NaN = False"
| "f_le (Inf s) (Inf t) = (s \<or> \<not> t)"
| "f_le (Inf s) (Fin _) = s"
| "f_le (Fin _) (Inf t) = (\<not> t)"
| "f_le (Fin x) (Fin y) = (x \<le> y)"

text \<open>
  \<open>f64::min\<close> and \<open>f64::max\<close> ignore a NaN operand; \<open>clamp\<close> keeps NaN; \<open>total_cmp\<close> orders
  every value, here with NaN above the infinities (the order of a positive NaN).
\<close>

definition f_min :: "f64 \<Rightarrow> f64 \<Rightarrow> f64" where
  "f_min a b = (if a = NaN then b else if b = NaN then a else if f_lt b a then b else a)"

definition f_max :: "f64 \<Rightarrow> f64 \<Rightarrow> f64" where
  "f_max a b = (if a = NaN then b else if b = NaN then a else if f_lt a b then b else a)"

definition f_clamp :: "f64 \<Rightarrow> f64 \<Rightarrow> f64 \<Rightarrow> f64" where
  "f_clamp lo hi x = (if f_lt x lo then lo else if f_lt hi x then hi else x)"

definition f_total_le :: "f64 \<Rightarrow> f64 \<Rightarrow> bool" where
  "f_total_le a b \<longleftrightarrow> b = NaN \<or> f_le a b"

text \<open>\<open>iter.min_by(|a, b| a.total_cmp(b))\<close>: the first of the least elements.\<close>

fun f_min_by_total :: "f64 list \<Rightarrow> f64 option" where
  "f_min_by_total [] = None"
| "f_min_by_total (x # xs) =
     (case f_min_by_total xs of None \<Rightarrow> Some x
      | Some y \<Rightarrow> Some (if f_total_le x y then x else y))"

definition f_sum :: "f64 list \<Rightarrow> f64" where
  "f_sum xs = foldl f_add (Fin 0) xs"

subsection \<open>Rounding to an integer\<close>

lemma rne_bounds: "\<lfloor>x\<rfloor> \<le> rne x \<and> rne x \<le> \<lfloor>x\<rfloor> + 1"
  by (simp add: rne_def Let_def)

lemma rne_of_int [simp]: "rne (of_int n) = n"
  by (simp add: rne_def)

lemma rne_mono: "x \<le> y \<Longrightarrow> rne x \<le> rne y"
proof -
  assume le: "x \<le> y"
  then have fl: "\<lfloor>x\<rfloor> \<le> \<lfloor>y\<rfloor>" by (rule floor_mono)
  show ?thesis
  proof (cases "\<lfloor>x\<rfloor> = \<lfloor>y\<rfloor>")
    case True
    then show ?thesis using le by (auto simp: rne_def Let_def)
  next
    case False
    then show ?thesis using fl rne_bounds [of x] rne_bounds [of y] by linarith
  qed
qed

lemma rne_le_of_int: "x \<le> of_int n \<Longrightarrow> rne x \<le> n"
  using rne_mono [of x "of_int n"] by simp

lemma rne_ge_of_int: "of_int n \<le> x \<Longrightarrow> n \<le> rne x"
  using rne_mono [of "of_int n" x] by simp

subsection \<open>The binary exponent\<close>

lemma powi_pos [simp]: "0 < (2 :: rat) powi k"
  by simp

lemma bit_length_bounds:
  assumes "0 < n"
  shows "2 powi (bit_length n - 1) \<le> (of_int n :: rat) \<and> (of_int n :: rat) < 2 powi (bit_length n)"
proof -
  let ?m = "nat n"
  have m: "0 < ?m" using assms by simp
  let ?l = "floorlog 2 ?m"
  have l: "0 < ?l" using m by (simp add: floorlog_def)
  have "2 ^ (?l - 1) \<le> ?m" and "?m < 2 ^ ?l"
    using floorlog_bounds [of ?m 2] m by auto
  then have "(of_nat (2 ^ (?l - 1)) :: rat) \<le> of_nat ?m" "(of_nat ?m :: rat) < of_nat (2 ^ ?l)"
    by (simp_all only: of_nat_le_iff of_nat_less_iff)
  moreover have "(of_nat ?m :: rat) = of_int n" using assms by simp
  moreover have "bit_length n - 1 = int (?l - 1)" using l by (simp add: bit_length_def of_nat_diff)
  moreover have "(2 :: rat) powi int (?l - 1) = of_nat (2 ^ (?l - 1))"
    and "(2 :: rat) powi bit_length n = of_nat (2 ^ ?l)"
    by (simp_all only: bit_length_def power_int_of_nat of_nat_power of_nat_numeral)
  ultimately show ?thesis by (simp only:)
qed

lemma ilog2_bounds:
  assumes "0 < q"
  shows "2 powi ilog2 q \<le> q \<and> q < 2 powi (ilog2 q + 1)"
proof -
  obtain n d where nd: "quotient_of q = (n, d)" by fastforce
  have d: "0 < d" using quotient_of_denom_pos [OF nd] .
  have q: "q = of_int n / of_int d" using quotient_of_div [OF nd] .
  have n: "0 < n" using assms d by (simp add: q zero_less_divide_iff)
  let ?a = "bit_length n" and ?b = "bit_length d"
  have dr: "0 < (of_int d :: rat)" using d by simp
  have nb: "2 powi (?a - 1) \<le> (of_int n :: rat)" "(of_int n :: rat) < 2 powi ?a"
    using bit_length_bounds [OF n] by auto
  have db: "2 powi (?b - 1) \<le> (of_int d :: rat)" "(of_int d :: rat) < 2 powi ?b"
    using bit_length_bounds [OF d] by auto
  have "2 powi (?a - ?b - 1) * of_int d \<le> (2 powi (?a - ?b - 1) * 2 powi ?b :: rat)"
    using db by (intro mult_left_mono) auto
  also have "\<dots> = 2 powi (?a - 1)" by (simp flip: power_int_add)
  finally have lo: "2 powi (?a - ?b - 1) \<le> q"
    using nb dr by (simp add: q pos_le_divide_eq)
  have "(2 powi ?a :: rat) = 2 powi (?a - ?b + 1) * 2 powi (?b - 1)"
    by (simp flip: power_int_add)
  also have "\<dots> \<le> 2 powi (?a - ?b + 1) * of_int d"
    using db by (intro mult_left_mono) auto
  finally have hi: "q < 2 powi (?a - ?b + 1)"
    using nb dr by (simp add: q pos_divide_less_eq)
  show ?thesis using lo hi by (simp add: ilog2_def nd Let_def)
qed

lemma powi_le_iff: "(2 :: rat) powi a \<le> 2 powi b \<longleftrightarrow> a \<le> b"
proof
  assume "(2 :: rat) powi a \<le> 2 powi b"
  then show "a \<le> b"
    using power_int_strict_increasing [of b a "2 :: rat"] by (cases "a \<le> b") auto
qed (auto intro: power_int_increasing)

lemma powi_less_iff: "(2 :: rat) powi a < 2 powi b \<longleftrightarrow> a < b"
  using powi_le_iff [of b a] by linarith

lemma ilog2_mono:
  assumes "0 < a" "a \<le> b"
  shows "ilog2 a \<le> ilog2 b"
proof -
  have "2 powi ilog2 a \<le> a" "b < 2 powi (ilog2 b + 1)"
    using ilog2_bounds assms by (auto intro: less_le_trans)
  then have "(2 :: rat) powi ilog2 a < 2 powi (ilog2 b + 1)" using assms by linarith
  then show ?thesis by (simp add: powi_less_iff)
qed

lemma ilog2_less:
  assumes "0 < a" "a < 2 powi k"
  shows "ilog2 a < k"
proof -
  have "(2 :: rat) powi ilog2 a < 2 powi k" using ilog2_bounds [OF assms(1)] assms by linarith
  then show ?thesis by (simp add: powi_less_iff)
qed

lemma ilog2_powi [simp]: "ilog2 (2 powi k) = k"
proof -
  have "ilog2 (2 powi k) < k + 1" by (intro ilog2_less) (auto simp: powi_less_iff)
  moreover have "(2 :: rat) powi k < 2 powi (ilog2 (2 powi k) + 1)"
    using ilog2_bounds [of "2 powi k"] by simp
  ultimately show ?thesis by (simp add: powi_less_iff)
qed

subsection \<open>Rounding of magnitudes\<close>

lemma fexp_mono: "0 < a \<Longrightarrow> a \<le> b \<Longrightarrow> fexp a \<le> fexp b"
  using ilog2_mono [of a b] by (simp add: fexp_def)

lemma powi_split: "k \<le> n \<Longrightarrow> (2 :: rat) powi n = of_int (2 ^ nat (n - k)) * 2 powi k"
proof -
  assume "k \<le> n"
  then have "(2 :: rat) powi (n - k) = of_int (2 ^ nat (n - k))" by (simp add: power_int_def)
  then show ?thesis using power_int_add [of "2 :: rat" "n - k" k] by simp
qed

lemma powi_quotient:
  "e \<le> k \<Longrightarrow> of_int m * (2 :: rat) powi k / 2 powi e = of_int (m * 2 ^ nat (k - e))"
  using powi_split [of e k] by simp

lemma rmag_le_powi:
  assumes "0 < a" "a \<le> 2 powi n" "fexp a \<le> n"
  shows "rmag a \<le> 2 powi n"
proof -
  let ?k = "fexp a"
  have split: "(2 :: rat) powi n = of_int (2 ^ nat (n - ?k)) * 2 powi ?k"
    using powi_split [OF assms(3)] .
  have "a / 2 powi ?k \<le> of_int (2 ^ nat (n - ?k))"
    using assms(2) by (simp add: pos_divide_le_eq split)
  then have "rne (a / 2 powi ?k) \<le> 2 ^ nat (n - ?k)" by (rule rne_le_of_int)
  then have "(of_int (rne (a / 2 powi ?k)) :: rat) \<le> of_int (2 ^ nat (n - ?k))"
    by (simp only: of_int_le_iff)
  then show ?thesis
    unfolding rmag_def split by (intro mult_right_mono) auto
qed

lemma rmag_ge_powi:
  assumes "2 powi n \<le> a" "fexp a \<le> n"
  shows "2 powi n \<le> rmag a"
proof -
  let ?k = "fexp a"
  have split: "(2 :: rat) powi n = of_int (2 ^ nat (n - ?k)) * 2 powi ?k"
    using powi_split [OF assms(2)] .
  have "of_int (2 ^ nat (n - ?k)) \<le> a / 2 powi ?k"
    using assms(1) by (simp add: pos_le_divide_eq split)
  then have "2 ^ nat (n - ?k) \<le> rne (a / 2 powi ?k)" by (rule rne_ge_of_int)
  then have "(of_int (2 ^ nat (n - ?k)) :: rat) \<le> of_int (rne (a / 2 powi ?k))"
    by (simp only: of_int_le_iff)
  then show ?thesis
    unfolding rmag_def split by (intro mult_right_mono) auto
qed

lemma rmag_nonneg: "0 < a \<Longrightarrow> 0 \<le> rmag a"
  unfolding rmag_def by (intro mult_nonneg_nonneg) (auto intro: rne_ge_of_int)

lemma rmag_mono:
  assumes "0 < a" "a \<le> b"
  shows "rmag a \<le> rmag b"
proof (cases "fexp a = fexp b")
  case True
  have "a / 2 powi fexp b \<le> b / 2 powi fexp b" using assms by (intro divide_right_mono) auto
  then have "(of_int (rne (a / 2 powi fexp b)) :: rat) \<le> of_int (rne (b / 2 powi fexp b))"
    using rne_mono by simp
  then show ?thesis by (simp add: rmag_def True)
next
  case False
  then have lt: "fexp a < fexp b" using fexp_mono [OF assms] by simp
  then have eb: "fexp b = ilog2 b - 52" and ab: "ilog2 a < ilog2 b"
    by (auto simp: fexp_def split: if_splits)
  have "2 powi (ilog2 a + 1) \<le> (2 :: rat) powi ilog2 b" using ab by (simp add: powi_le_iff)
  then have "a \<le> 2 powi ilog2 b" using ilog2_bounds [OF assms(1)] by linarith
  then have "rmag a \<le> 2 powi ilog2 b" using assms lt eb by (intro rmag_le_powi) auto
  also have "\<dots> \<le> rmag b" using ilog2_bounds [of b] assms eb by (intro rmag_ge_powi) auto
  finally show ?thesis .
qed

text \<open>A magnitude with at most 53 significant bits above 2^-1074 is rounded to itself.\<close>

lemma rmag_repr:
  assumes "q = of_int m * 2 powi k" "0 < m" "m \<le> 2 ^ 53" "- 1074 \<le> k"
  shows "rmag q = q"
proof -
  have q: "0 < q" using assms by (auto intro: mult_pos_pos)
  have "\<exists>i. q / 2 powi fexp q = of_int i"
  proof (cases "fexp q \<le> k")
    case True
    then show ?thesis using powi_quotient [OF True] assms(1) by metis
  next
    case False
    then have kl: "k + 52 < ilog2 q" using assms(4) by (auto simp: fexp_def split: if_splits)
    have "(of_int m :: rat) \<le> of_int (2 ^ 53)" using assms(3) by (simp only: of_int_le_iff)
    then have "q \<le> of_int (2 ^ 53) * 2 powi k" unfolding assms(1) by (intro mult_right_mono) auto
    also have "\<dots> = 2 powi (k + 53)" by (simp add: power_int_add)
    finally have le: "q \<le> 2 powi (k + 53)" .
    have "2 powi (k + 53) \<le> (2 :: rat) powi ilog2 q" using kl by (simp add: powi_le_iff)
    then have eq: "q = 2 powi (k + 53)" using le ilog2_bounds [OF q] by linarith
    then have "fexp q = k + 1" using assms(4) by (simp add: fexp_def)
    then have "q / 2 powi fexp q = of_int (2 ^ 52)"
      by (simp add: eq power_int_add)
    then show ?thesis by blast
  qed
  then obtain i where i: "q / 2 powi fexp q = of_int i" ..
  then have "rmag q = of_int i * 2 powi fexp q" by (simp add: rmag_def)
  also have "\<dots> = q" using i by (simp add: field_simps)
  finally show ?thesis .
qed

lemma rne_rmag_bound:
  assumes "0 < a"
  shows "0 \<le> rne (a / 2 powi fexp a) \<and> rne (a / 2 powi fexp a) \<le> 2 ^ 53"
proof
  show "0 \<le> rne (a / 2 powi fexp a)" using assms by (intro rne_ge_of_int) auto
  have "a < 2 powi (ilog2 a + 1)" using ilog2_bounds [OF assms] by simp
  also have "\<dots> \<le> 2 powi (53 + fexp a)" by (simp add: powi_le_iff fexp_def)
  also have "\<dots> = 2 ^ 53 * 2 powi fexp a" by (simp add: power_int_add)
  finally have "a / 2 powi fexp a \<le> of_int (2 ^ 53)" by (simp add: pos_divide_le_eq)
  then show "rne (a / 2 powi fexp a) \<le> 2 ^ 53" by (rule rne_le_of_int)
qed

lemma rmag_idem:
  assumes "0 < a" "0 < rmag a"
  shows "rmag (rmag a) = rmag a"
proof (rule rmag_repr [where m = "rne (a / 2 powi fexp a)" and k = "fexp a"])
  show "0 < rne (a / 2 powi fexp a)"
    using assms(2) powi_pos [of "fexp a"] unfolding rmag_def zero_less_mult_iff
    by (metis of_int_0_less_iff order_less_asym)
qed (use rne_rmag_bound [OF assms(1)] in \<open>auto simp: rmag_def fexp_def\<close>)

subsection \<open>Rounding of values\<close>

definition wf64 :: "f64 \<Rightarrow> bool" where
  "wf64 x \<longleftrightarrow> (case x of Fin q \<Rightarrow> fround q = Fin q | _ \<Rightarrow> True)"

lemma fround_0 [simp]: "fround 0 = Fin 0"
  by (simp add: fround_def)

lemma fround_neg: "fround (- q) = f_neg (fround q)"
  by (auto simp: fround_def Let_def)

lemma fround_pos: "0 < q \<Longrightarrow> fround q = (if 2 ^ 1024 \<le> rmag q then Inf False else Fin (rmag q))"
  by (simp add: fround_def Let_def)

lemma fround_repr:
  assumes "q = of_int m * 2 powi k" "\<bar>m\<bar> \<le> 2 ^ 53" "- 1074 \<le> k" "\<bar>q\<bar> < 2 ^ 1024"
  shows "fround q = Fin q"
proof (cases "m = 0")
  case True
  then show ?thesis using assms by simp
next
  case False
  have "\<bar>q\<bar> = of_int \<bar>m\<bar> * 2 powi k" using assms(1) by (simp add: abs_mult)
  then have r: "rmag \<bar>q\<bar> = \<bar>q\<bar>" using False assms by (intro rmag_repr) auto
  have "q \<noteq> 0" using False assms(1) by simp
  then show ?thesis using r assms(4) by (auto simp: fround_def Let_def)
qed

lemma fround_of_int: "\<bar>m\<bar> \<le> 2 ^ 53 \<Longrightarrow> fround (of_int m) = Fin (of_int m)"
proof (rule fround_repr [where m = m and k = 0])
  assume m: "\<bar>m\<bar> \<le> 2 ^ 53"
  then have "(of_int \<bar>m\<bar> :: rat) \<le> of_int (2 ^ 53)" by (simp only: of_int_le_iff)
  also have "\<dots> < 2 ^ 1024" by simp
  finally show "\<bar>of_int m :: rat\<bar> < 2 ^ 1024" by simp
qed auto

lemma fround_wf [simp]: "wf64 (fround q)"
proof -
  have pos: "wf64 (fround q)" if q: "0 < q" for q
  proof (cases "2 ^ 1024 \<le> rmag q")
    case True
    then show ?thesis using q by (simp add: fround_pos wf64_def)
  next
    case False
    have "rmag q = 0 \<or> 0 < rmag q" using rmag_nonneg [OF q] by linarith
    then show ?thesis
      using False q rmag_idem [OF q] by (auto simp: fround_pos wf64_def)
  qed
  have neg: "wf64 (f_neg x)" if "wf64 x" for x
    using that by (cases x) (auto simp: wf64_def fround_neg)
  consider "q = 0" | "0 < q" | "0 < - q" by linarith
  then show ?thesis
  proof cases
    case 3
    then show ?thesis using pos [of "- q"] neg [of "fround (- q)"]
      by (simp add: fround_neg [of "- q", simplified])
  next
    case 1
    then show ?thesis by (simp add: wf64_def)
  next
    case 2
    then show ?thesis by (rule pos)
  qed
qed

lemma fround_nonneg: "0 \<le> q \<Longrightarrow> f_le (Fin 0) (fround q)"
  by (cases "q = 0") (auto simp: fround_pos rmag_nonneg)

lemma fround_mono_pos: "0 < a \<Longrightarrow> a \<le> b \<Longrightarrow> f_le (fround a) (fround b)"
  using rmag_mono [of a b] by (auto simp: fround_pos)

lemma f_le_neg: "f_le (f_neg a) (f_neg b) \<longleftrightarrow> f_le b a"
  by (cases a; cases b) auto

lemma f_le_trans: "f_le a b \<Longrightarrow> f_le b c \<Longrightarrow> f_le a c"
  by (cases a; cases b; cases c) auto

lemma fround_mono: "a \<le> b \<Longrightarrow> f_le (fround a) (fround b)"
proof -
  assume ab: "a \<le> b"
  have neg0: "f_le (fround a) (Fin 0)" if "a \<le> 0"
    using fround_nonneg [of "- a"] that f_le_neg [of "Fin 0" "fround a"] by (simp add: fround_neg)
  consider "0 < a" | "a \<le> 0" "0 \<le> b" | "b < 0" by linarith
  then show ?thesis
  proof cases
    case 1
    then show ?thesis using ab by (rule fround_mono_pos)
  next
    case 2
    then show ?thesis using neg0 fround_nonneg f_le_trans by blast
  next
    case 3
    then have "f_le (fround (- b)) (fround (- a))" using ab by (intro fround_mono_pos) auto
    then show ?thesis by (simp add: fround_neg f_le_neg)
  qed
qed

text \<open>Rounding never crosses a representable bound.\<close>

lemma fround_ge_repr: "wf64 (Fin a) \<Longrightarrow> a \<le> q \<Longrightarrow> f_le (Fin a) (fround q)"
  using fround_mono [of a q] by (simp add: wf64_def)

lemma fround_le_repr: "wf64 (Fin a) \<Longrightarrow> q \<le> a \<Longrightarrow> f_le (fround q) (Fin a)"
  using fround_mono [of q a] by (simp add: wf64_def)

lemma wf64_of_int [simp]: "\<bar>m\<bar> \<le> 2 ^ 53 \<Longrightarrow> wf64 (Fin (of_int m))"
  by (simp add: wf64_def fround_of_int)

lemma wf64_small [simp]: "wf64 (Fin 0)" "wf64 (Fin 1)" "wf64 (Fin 100)"
  using wf64_of_int [of 0] wf64_of_int [of 1] wf64_of_int [of 100] by auto

end
