(* ===== verification/Endpoints.thy ===== *)
theory Endpoints
  imports ActiveWindows F64
begin

text \<open>
  The endpoint data model of \<open>src/db/types/endpoints.rs\<close> and the token-plan usage
  types of \<open>src/worker_admin/types/token_plan.rs\<close>, \<open>subscription_windows.rs\<close> and
  \<open>quota_status.rs\<close>, which the quota components share. A \<open>DateTime<Utc>\<close> is its instant in
  nanoseconds (\<^typ>\<open>int\<close>), an \<open>f64\<close> the model of theory F64.

  The lemmas are the round trips between the stored texts and the variants.
\<close>

type_synonym datetime = int

subsection \<open>Provider, region and plan\<close>

datatype endpoint_provider =
    PGeneric | PMinimax | PCommandCode | POpencodeGo | POpenRouter | PGlm | PDeepSeek | POpenAi

definition provider_as_str :: "endpoint_provider \<Rightarrow> string" where
  "provider_as_str p =
     (case p of
        PGeneric \<Rightarrow> ''generic''
      | PMinimax \<Rightarrow> ''minimax''
      | PCommandCode \<Rightarrow> ''command_code''
      | POpencodeGo \<Rightarrow> ''opencode_go''
      | POpenRouter \<Rightarrow> ''openrouter''
      | PGlm \<Rightarrow> ''glm''
      | PDeepSeek \<Rightarrow> ''deepseek''
      | POpenAi \<Rightarrow> ''openai'')"

definition provider_from_str_or_default :: "string \<Rightarrow> endpoint_provider" where
  "provider_from_str_or_default value =
     (if value = ''minimax'' then PMinimax
      else if value = ''command_code'' then PCommandCode
      else if value = ''opencode_go'' then POpencodeGo
      else if value = ''openrouter'' then POpenRouter
      else if value = ''glm'' then PGlm
      else if value = ''deepseek'' then PDeepSeek
      else if value = ''openai'' then POpenAi
      else PGeneric)"

definition provider_from_optional :: "string option \<Rightarrow> endpoint_provider" where
  "provider_from_optional value =
     (if value = Some ''minimax'' then PMinimax
      else if value = Some ''command_code'' then PCommandCode
      else if value = Some ''opencode_go'' then POpencodeGo
      else if value = Some ''openrouter'' then POpenRouter
      else if value = Some ''glm'' then PGlm
      else if value = Some ''deepseek'' then PDeepSeek
      else if value = Some ''openai'' then POpenAi
      else PGeneric)"

definition requires_reasoning_echo :: "endpoint_provider \<Rightarrow> bool" where
  "requires_reasoning_echo p = (p = PDeepSeek)"

definition supports_chatgpt_subscription_plan :: "endpoint_provider \<Rightarrow> bool" where
  "supports_chatgpt_subscription_plan p = (p = POpenAi)"

definition supports_service_tier :: "endpoint_provider \<Rightarrow> bool" where
  "supports_service_tier p = (p = PMinimax \<or> p = POpenAi)"

datatype endpoint_region = RegionCn | RegionGlobal

definition region_as_str :: "endpoint_region \<Rightarrow> string" where
  "region_as_str r = (case r of RegionCn \<Rightarrow> ''cn'' | RegionGlobal \<Rightarrow> ''global'')"

definition region_from_str :: "string option \<Rightarrow> endpoint_region option" where
  "region_from_str value =
     (if value = Some ''cn'' then Some RegionCn
      else if value = Some ''global'' then Some RegionGlobal
      else None)"

datatype endpoint_plan = PlatformApiKey | ChatgptSubscription

definition plan_as_str :: "endpoint_plan \<Rightarrow> string" where
  "plan_as_str p =
     (case p of PlatformApiKey \<Rightarrow> ''platform_api_key'' | ChatgptSubscription \<Rightarrow> ''chatgpt_subscription'')"

definition plan_from_str_or_default :: "string \<Rightarrow> endpoint_plan" where
  "plan_from_str_or_default value =
     (if value = ''chatgpt_subscription'' then ChatgptSubscription else PlatformApiKey)"

definition plan_from_optional :: "string option \<Rightarrow> endpoint_plan" where
  "plan_from_optional value =
     (if value = Some ''chatgpt_subscription'' then ChatgptSubscription else PlatformApiKey)"

definition plan_resolve :: "endpoint_provider \<Rightarrow> bool \<Rightarrow> endpoint_plan" where
  "plan_resolve provider has_oauth_token =
     (if has_oauth_token \<and> supports_chatgpt_subscription_plan provider
      then ChatgptSubscription else PlatformApiKey)"

definition normalize_service_tier :: "string option \<Rightarrow> string option" where
  "normalize_service_tier raw = opt_filter (\<lambda>value. value \<noteq> []) (map_option trim raw)"

definition redacted_secret_len :: "string \<Rightarrow> string" where
  "redacted_secret_len value = ''[REDACTED; '' @ dec_nat (length value) @ '' bytes]''"

record endpoint_api_key =
  ak_key_id :: uuid
  ak_endpoint_id :: uuid
  ak_key_label :: string
  ak_api_key :: string
  ak_position :: int
  ak_enabled :: bool
  ak_created_at :: datetime
  ak_updated_at :: datetime

record endpoint_api_key_selection =
  sel_key_id :: "uuid option"
  sel_key_label :: "string option"
  sel_secret :: string

subsection \<open>Usage reports of the providers\<close>

datatype subscription_window_availability = AvKnown | AvUnknown

record subscription_window_usage =
  sw_source_window :: string
  sw_window_seconds :: "int option"
  sw_used_percent :: "f64 option"
  sw_remaining_percent :: "f64 option"
  sw_reset_at :: "datetime option"
  sw_reset_after_seconds :: "int option"
  sw_availability :: subscription_window_availability

record subscription_quota_observation =
  so_observed_at :: "datetime option"
  so_source :: "string option"
  so_stale :: bool
  so_last_error_code :: "string option"
  so_next_retry_at :: "datetime option"
  so_refreshing :: bool

datatype token_plan_quota_state =
    QsAvailable | QsExhausted | QsUnknown | QsCooling | QsRateLimited | QsUpstreamUnavailable

record token_plan_quota_status =
  qst_state :: token_plan_quota_state
  qst_observed_at :: "datetime option"
  qst_cooldown_until :: "datetime option"
  qst_refresh_failed :: bool
  qst_scope :: string

record token_plan_window_usage =
  tw_status :: "int option"
  tw_remaining_percent :: "f64 option"
  tw_total_count :: "int option"
  tw_usage_count :: "int option"
  tw_boost_permille :: "int option"
  tw_start_at :: "datetime option"
  tw_end_at :: "datetime option"
  tw_remains_time_ms :: "int option"

record token_plan_model_usage =
  tm_model_name :: string
  tm_interval :: "token_plan_window_usage option"
  tm_weekly :: "token_plan_window_usage option"
  tm_windows :: "subscription_window_usage list option"
  tm_observation :: "subscription_quota_observation option"

record command_code_balances =
  cb_monthly_credits :: f64
  cb_purchased_credits :: f64
  cb_free_credits :: f64
  cb_remaining_credits :: f64

record command_code_window_usage =
  cw_used :: f64
  cw_cap :: f64
  cw_used_percent :: "f64 option"
  cw_remaining_percent :: "f64 option"
  cw_reset_at :: "datetime option"

record opencode_go_window_usage =
  ow_status :: "int option"
  ow_percent :: "f64 option"
  ow_resets_at :: "datetime option"

record open_router_balance =
  ob_limit :: "f64 option"
  ob_limit_remaining :: "f64 option"
  ob_limit_reset :: "string option"
  ob_is_free_tier :: bool
  ob_total_credits :: "f64 option"
  ob_total_usage :: "f64 option"

record open_router_spend =
  os_usage :: f64
  os_daily :: f64
  os_weekly :: f64
  os_monthly :: f64

record deep_seek_currency_balance =
  dc_currency :: string
  dc_total_balance :: "f64 option"
  dc_granted_balance :: "f64 option"
  dc_topped_up_balance :: "f64 option"

record deep_seek_balance =
  db_is_available :: bool
  db_balances :: "deep_seek_currency_balance list"

record glm_window_usage =
  gw_limit :: f64
  gw_current_value :: f64
  gw_remaining :: f64
  gw_percentage :: "f64 option"
  gw_next_reset_at :: "datetime option"

datatype canonical_quota_window_kind =
    KFiveHour | KRolling | KWeekly | KMonthly | KBalance | KUnlimited | KCustom

record canonical_quota_window =
  qw_source_id :: string
  qw_kind :: canonical_quota_window_kind
  qw_source_model :: "string option"
  qw_unit :: "string option"
  qw_duration_seconds :: "int option"
  qw_is_default_scope :: bool
  qw_availability :: subscription_window_availability
  qw_remaining_percent :: "f64 option"
  qw_current :: "f64 option"
  qw_limit :: "f64 option"
  qw_remaining :: "f64 option"
  qw_reset_at :: "datetime option"

record token_plan_key_usage =
  tk_key_id :: uuid
  tk_key_label :: string
  tk_ok :: bool
  tk_status :: "nat option"
  tk_error_code :: "string option"
  tk_error_message :: "string option"
  tk_model_remains :: "token_plan_model_usage list"
  tk_quota_status :: "token_plan_quota_status option"
  tk_balances :: "command_code_balances option"
  tk_five_hour :: "command_code_window_usage option"
  tk_weekly :: "command_code_window_usage option"
  tk_opencodego_rolling :: "opencode_go_window_usage option"
  tk_opencodego_weekly :: "opencode_go_window_usage option"
  tk_opencodego_monthly :: "opencode_go_window_usage option"
  tk_openrouter_balance :: "open_router_balance option"
  tk_openrouter_spend :: "open_router_spend option"
  tk_glm_five_hour :: "glm_window_usage option"
  tk_glm_weekly :: "glm_window_usage option"
  tk_deepseek_balance :: "deep_seek_balance option"
  tk_quota_windows :: "canonical_quota_window list option"

record token_plan_usage_response =
  tr_provider :: endpoint_provider
  tr_provider_region :: "endpoint_region option"
  tr_keys :: "token_plan_key_usage list"
  tr_local_today_tokens :: "int option"

text \<open>\<open>failed_key\<close> of \<open>json_scalars.rs\<close>: the usage row of a key whose fetch failed.\<close>

definition failed_key ::
    "uuid \<Rightarrow> string \<Rightarrow> nat option \<Rightarrow> string option \<Rightarrow> string \<Rightarrow> token_plan_key_usage" where
  "failed_key key_id key_label status error_code error_message =
     \<lparr>tk_key_id = key_id, tk_key_label = key_label, tk_ok = False, tk_status = status,
      tk_error_code = error_code, tk_error_message = Some error_message, tk_model_remains = [],
      tk_quota_status = None, tk_balances = None, tk_five_hour = None, tk_weekly = None,
      tk_opencodego_rolling = None, tk_opencodego_weekly = None, tk_opencodego_monthly = None,
      tk_openrouter_balance = None, tk_openrouter_spend = None, tk_glm_five_hour = None,
      tk_glm_weekly = None, tk_deepseek_balance = None, tk_quota_windows = None\<rparr>"

subsection \<open>Stored texts\<close>

text \<open>
  The stored texts of providers, plans and regions read back as the variant that wrote
  them, the two provider readers agree, and a text no variant writes reads as the generic
  provider or the platform plan, so no stored value is an error.\<close>

theorem stored_enum_roundtrip:
  "provider_from_str_or_default (provider_as_str p) = p \<and>
   provider_from_optional (Some s) = provider_from_str_or_default s \<and>
   plan_from_str_or_default (plan_as_str pl) = pl \<and>
   plan_from_optional (Some s) = plan_from_str_or_default s \<and>
   region_from_str (Some (region_as_str r)) = Some r \<and>
   (if s \<in> range provider_as_str then provider_as_str (provider_from_str_or_default s) = s
    else provider_from_str_or_default s = PGeneric)"
proof -
  have p: "provider_from_str_or_default (provider_as_str q) = q" for q
    by (cases q) (simp_all add: provider_from_str_or_default_def provider_as_str_def)
  have "provider_from_str_or_default s = PGeneric" if "s \<notin> range provider_as_str"
  proof -
    have "s \<noteq> provider_as_str q" for q using that by auto
    from this [of PMinimax] this [of PCommandCode] this [of POpencodeGo] this [of POpenRouter]
      this [of PGlm] this [of PDeepSeek] this [of POpenAi]
    show ?thesis by (simp add: provider_from_str_or_default_def provider_as_str_def)
  qed
  moreover have "provider_from_optional (Some s) = provider_from_str_or_default s"
    by (simp add: provider_from_optional_def provider_from_str_or_default_def)
  moreover have "plan_from_str_or_default (plan_as_str pl) = pl"
    by (cases pl) (simp_all add: plan_from_str_or_default_def plan_as_str_def)
  moreover have "region_from_str (Some (region_as_str r)) = Some r"
    by (cases r) (simp_all add: region_from_str_def region_as_str_def)
  ultimately show ?thesis
    using p by (auto simp: plan_from_optional_def plan_from_str_or_default_def)
qed

lemma plan_resolve_iff:
  "plan_resolve provider has_oauth_token = ChatgptSubscription \<longleftrightarrow> has_oauth_token \<and> provider = POpenAi"
  by (simp add: plan_resolve_def supports_chatgpt_subscription_plan_def)

lemma normalize_service_tier_non_blank: "normalize_service_tier raw = non_blank raw"
  by (simp add: normalize_service_tier_def non_blank_def)

end
