(* ===== verification/QuotaReset.thy ===== *)
theory QuotaReset
  imports Endpoints
begin

text \<open>
  Reset deadlines and ChatGPT subscription windows: \<open>src/worker_admin/quota_reset.rs\<close>, the
  normalising parser \<open>src/worker_admin/handlers/chatgpt_quota_windows.rs\<close>, the projection of
  \<open>src/worker_admin/chatgpt_quota_normalize.rs\<close> and the refresh policy of
  \<open>src/worker_admin/chatgpt_quota_service/policy.rs\<close>.

  chrono is a parameter where it is partial: \<open>tmax\<close> is the latest instant a \<open>DateTime\<close> can
  hold, beyond which \<open>checked_add_signed\<close> answers \<open>None\<close>. \<open>Duration::seconds\<close> panics on
  more than \<open>i64::MAX / 1000\<close> seconds; \<open>subscription_reset_panics\<close> says when the code meets
  that, and the other definitions describe the runs that do not panic. JSON values are a
  parameter too: a type \<open>'v\<close> with the accessors of \<open>serde_json::Value\<close> the code calls.
\<close>

definition sec_ns :: "int \<Rightarrow> int" where "sec_ns s = s * 1000000000"
definition ms_ns :: "int \<Rightarrow> int" where "ms_ns ms = ms * 1000000"

definition checked_add_signed :: "datetime \<Rightarrow> datetime \<Rightarrow> int \<Rightarrow> datetime option" where
  "checked_add_signed tmax t d = (if t + d \<le> tmax then Some (t + d) else None)"

subsection \<open>Deadlines\<close>

datatype reset_state = RPassed | RFuture | RUnknown

definition deadline_state :: "datetime option \<Rightarrow> datetime \<Rightarrow> reset_state" where
  "deadline_state deadline now =
     (case deadline of
        Some deadline \<Rightarrow> if deadline \<le> now then RPassed else RFuture
      | None \<Rightarrow> RUnknown)"

definition reset_state :: "datetime option \<Rightarrow> datetime option \<Rightarrow> datetime \<Rightarrow> reset_state" where
  "reset_state absolute relative now =
     (case (deadline_state absolute now, deadline_state relative now) of
        (RPassed, _) \<Rightarrow> RPassed
      | (_, RPassed) \<Rightarrow> RPassed
      | (RFuture, _) \<Rightarrow> RFuture
      | (_, RFuture) \<Rightarrow> RFuture
      | _ \<Rightarrow> RUnknown)"

definition reset_state_from_remaining ::
    "datetime \<Rightarrow> datetime option \<Rightarrow> int option \<Rightarrow> datetime \<Rightarrow> reset_state" where
  "reset_state_from_remaining tmax absolute remaining_time_ms now =
     reset_state absolute
       (Option.bind remaining_time_ms
          (\<lambda>remaining. if remaining \<le> 0 then Some now
                       else checked_add_signed tmax now (ms_ns remaining)))
       now"

definition relative_deadline :: "datetime \<Rightarrow> int option \<Rightarrow> datetime \<Rightarrow> datetime \<Rightarrow> datetime option" where
  "relative_deadline tmax reset_after_seconds observed_at now =
     Option.bind reset_after_seconds
       (\<lambda>seconds. if seconds \<le> 0 then Some now
                  else checked_add_signed tmax observed_at (sec_ns seconds))"

definition subscription_reset_state ::
    "datetime \<Rightarrow> subscription_window_usage \<Rightarrow> datetime \<Rightarrow> datetime \<Rightarrow> reset_state" where
  "subscription_reset_state tmax window observed_at now =
     reset_state (sw_reset_at window)
       (relative_deadline tmax (sw_reset_after_seconds window) observed_at now) now"

definition subscription_reset_panics :: "subscription_window_usage \<Rightarrow> bool" where
  "subscription_reset_panics window =
     is_some_and (\<lambda>seconds. i64_max div 1000 < seconds) (sw_reset_after_seconds window)"

definition subscription_window_is_exhausted ::
    "datetime \<Rightarrow> subscription_window_usage \<Rightarrow> datetime \<Rightarrow> datetime \<Rightarrow> bool" where
  "subscription_window_is_exhausted tmax window observed_at now \<longleftrightarrow>
     sw_availability window = AvKnown \<and>
     is_some_and (\<lambda>remaining. is_finite remaining \<and> f_le remaining (Fin 0)) (sw_remaining_percent window) \<and>
     subscription_reset_state tmax window observed_at now \<noteq> RPassed"

definition subscription_windows_all_reset ::
    "datetime \<Rightarrow> subscription_window_usage list \<Rightarrow> datetime \<Rightarrow> datetime \<Rightarrow> bool" where
  "subscription_windows_all_reset tmax windows observed_at now \<longleftrightarrow>
     windows \<noteq> [] \<and>
     list_all (\<lambda>window. sw_availability window = AvKnown \<and>
                        subscription_reset_state tmax window observed_at now = RPassed) windows"

text \<open>The three flags of the window loops: exhausted, unknown, positive.\<close>

record window_flags =
  wf_exhausted :: bool
  wf_unknown :: bool
  wf_positive :: bool

definition no_flags :: window_flags where
  "no_flags = \<lparr>wf_exhausted = False, wf_unknown = False, wf_positive = False\<rparr>"

definition flags_state :: "window_flags \<Rightarrow> token_plan_quota_state" where
  "flags_state fl =
     (if wf_exhausted fl then QsExhausted
      else if wf_unknown fl \<or> \<not> wf_positive fl then QsUnknown
      else QsAvailable)"

definition subscription_window_flag ::
    "datetime \<Rightarrow> datetime \<Rightarrow> datetime \<Rightarrow> subscription_window_usage \<Rightarrow> window_flags \<Rightarrow> window_flags" where
  "subscription_window_flag tmax observed_at now window fl =
     (if sw_availability window = AvUnknown \<or>
         subscription_reset_state tmax window observed_at now = RPassed
      then fl\<lparr>wf_unknown := True\<rparr>
      else
        (case opt_filter is_finite (sw_remaining_percent window) of
           Some value \<Rightarrow>
             if f_le value (Fin 0) then fl\<lparr>wf_exhausted := True\<rparr>
             else if f_le value (Fin 100) then fl\<lparr>wf_positive := True\<rparr>
             else fl\<lparr>wf_unknown := True\<rparr>
         | None \<Rightarrow> fl\<lparr>wf_unknown := True\<rparr>))"

definition subscription_windows_state ::
    "datetime \<Rightarrow> subscription_window_usage list \<Rightarrow> datetime \<Rightarrow> datetime \<Rightarrow> token_plan_quota_state" where
  "subscription_windows_state tmax windows observed_at now =
     (if windows = [] then QsUnknown
      else flags_state (fold (subscription_window_flag tmax observed_at now) windows no_flags))"

subsection \<open>Parsing and normalising the upstream windows\<close>

record 'v json_ops =
  js_object :: "'v \<Rightarrow> (string \<rightharpoonup> 'v) option"
  js_f64 :: "'v \<Rightarrow> f64 option"
  js_i64 :: "'v \<Rightarrow> int option"
  js_timestamp :: "int \<Rightarrow> datetime option"

record chatgpt_quota_window =
  gq_used_percent :: "f64 option"
  gq_limit_window_seconds :: "int option"
  gq_reset_after_seconds :: "int option"
  gq_reset_at :: "datetime option"

record chatgpt_quota =
  cq_plan_type :: "string option"
  cq_limit_reached :: "bool option"
  cq_primary :: "chatgpt_quota_window option"
  cq_secondary :: "chatgpt_quota_window option"
  cq_has_credits :: "bool option"
  cq_unlimited_credits :: "bool option"
  cq_credits_balance :: "string option"

definition percent_ok :: "f64 \<Rightarrow> bool" where
  "percent_ok v \<longleftrightarrow> is_finite v \<and> f_le (Fin 0) v \<and> f_le v (Fin 100)"

definition normalize_percent :: "'v json_ops \<Rightarrow> 'v option \<Rightarrow> f64 option" where
  "normalize_percent js value = opt_filter percent_ok (Option.bind value (js_f64 js))"

definition normalize_positive_seconds :: "'v json_ops \<Rightarrow> 'v option \<Rightarrow> int option" where
  "normalize_positive_seconds js value = opt_filter (\<lambda>s. 0 < s) (Option.bind value (js_i64 js))"

definition normalize_reset_seconds :: "'v json_ops \<Rightarrow> 'v option \<Rightarrow> int option" where
  "normalize_reset_seconds js value = opt_filter (\<lambda>s. 0 \<le> s) (Option.bind value (js_i64 js))"

definition window_fields :: "string list" where
  "window_fields = [''used_percent'', ''limit_window_seconds'', ''reset_after_seconds'', ''reset_at'']"

definition parse_window :: "'v json_ops \<Rightarrow> 'v \<Rightarrow> chatgpt_quota_window option" where
  "parse_window js value =
     (case js_object js value of
        None \<Rightarrow> None
      | Some object \<Rightarrow>
          if \<not> list_ex (\<lambda>field. object field \<noteq> None) window_fields then None
          else
            let window =
              \<lparr>gq_used_percent = normalize_percent js (object ''used_percent''),
               gq_limit_window_seconds = normalize_positive_seconds js (object ''limit_window_seconds''),
               gq_reset_after_seconds = normalize_reset_seconds js (object ''reset_after_seconds''),
               gq_reset_at =
                 Option.bind (Option.bind (object ''reset_at'') (js_i64 js)) (js_timestamp js)\<rparr>
            in
              if gq_used_percent window \<noteq> None \<or> gq_limit_window_seconds window \<noteq> None \<or>
                 gq_reset_after_seconds window \<noteq> None \<or> gq_reset_at window \<noteq> None
              then Some window else None)"

definition subscription_window :: "string \<Rightarrow> chatgpt_quota_window \<Rightarrow> subscription_window_usage" where
  "subscription_window source_window window =
     (let used_percent = opt_filter percent_ok (gq_used_percent window) in
      \<lparr>sw_source_window = source_window,
       sw_window_seconds = gq_limit_window_seconds window,
       sw_used_percent = used_percent,
       sw_remaining_percent = map_option (\<lambda>used. f_sub (Fin 100) used) used_percent,
       sw_reset_at = gq_reset_at window,
       sw_reset_after_seconds = gq_reset_after_seconds window,
       sw_availability = (if used_percent \<noteq> None then AvKnown else AvUnknown)\<rparr>)"

definition subscription_windows :: "chatgpt_quota \<Rightarrow> subscription_window_usage list" where
  "subscription_windows quota =
     (case cq_primary quota of Some w \<Rightarrow> [subscription_window ''primary'' w] | None \<Rightarrow> []) @
     (case cq_secondary quota of Some w \<Rightarrow> [subscription_window ''secondary'' w] | None \<Rightarrow> [])"

subsection \<open>Refresh policy\<close>

datatype refresh_trigger = TrgManual | TrgRequest | TrgPeriodic

datatype snapshot_source = SrcManual | SrcRequest | SrcPeriodic

definition trigger_source :: "refresh_trigger \<Rightarrow> snapshot_source" where
  "trigger_source t =
     (case t of TrgManual \<Rightarrow> SrcManual | TrgRequest \<Rightarrow> SrcRequest | TrgPeriodic \<Rightarrow> SrcPeriodic)"

definition is_manual :: "refresh_trigger \<Rightarrow> bool" where
  "is_manual t = (t = TrgManual)"

definition active_refresh_after :: int where "active_refresh_after = sec_ns 60"
definition idle_refresh_after :: int where "idle_refresh_after = sec_ns 3600"
definition failure_backoff_base_seconds :: int where "failure_backoff_base_seconds = 60"
definition failure_backoff_max_seconds :: int where "failure_backoff_max_seconds = 60 * 60"

definition stale :: "datetime \<Rightarrow> datetime \<Rightarrow> bool" where
  "stale observed_at now \<longleftrightarrow> active_refresh_after < now - observed_at"

definition periodic_due :: "datetime option \<Rightarrow> bool \<Rightarrow> datetime \<Rightarrow> bool" where
  "periodic_due last_success_at active now =
     (case last_success_at of
        None \<Rightarrow> True
      | Some last_success_at \<Rightarrow>
          (if active then active_refresh_after else idle_refresh_after) \<le> now - last_success_at)"

definition i32_min :: int where "i32_min = - (2 ^ 31)"

definition retry_delay :: "int \<Rightarrow> int" where
  "retry_delay consecutive_failures =
     (let exponent = nat (min (max (max i32_min (consecutive_failures - 1)) 0) 31);
          seconds = min (min (failure_backoff_base_seconds * 2 ^ exponent) i64_max)
                        failure_backoff_max_seconds
      in sec_ns seconds)"

subsection \<open>Order of reset states\<close>

text \<open>
  \<open>Passed\<close> below \<open>Future\<close> below \<open>Unknown\<close>: \<open>reset_state\<close> then is the minimum of the states of
  its two deadlines.\<close>

instantiation reset_state :: linorder
begin

definition reset_rank :: "reset_state \<Rightarrow> nat" where
  "reset_rank s = (case s of RPassed \<Rightarrow> 0 | RFuture \<Rightarrow> 1 | RUnknown \<Rightarrow> 2)"

definition less_eq_reset_state :: "reset_state \<Rightarrow> reset_state \<Rightarrow> bool" where
  "less_eq_reset_state a b \<longleftrightarrow> reset_rank a \<le> reset_rank b"

definition less_reset_state :: "reset_state \<Rightarrow> reset_state \<Rightarrow> bool" where
  "less_reset_state a b \<longleftrightarrow> reset_rank a < reset_rank b"

instance
proof
  fix a b c :: reset_state
  show "a < b \<longleftrightarrow> a \<le> b \<and> \<not> b \<le> a" by (auto simp: less_eq_reset_state_def less_reset_state_def)
  show "a \<le> a" by (simp add: less_eq_reset_state_def)
  show "a \<le> b \<Longrightarrow> b \<le> c \<Longrightarrow> a \<le> c" by (simp add: less_eq_reset_state_def)
  show "a \<le> b \<Longrightarrow> b \<le> a \<Longrightarrow> a = b"
    by (cases a; cases b) (simp_all add: less_eq_reset_state_def reset_rank_def)
  show "a \<le> b \<or> b \<le> a" by (auto simp: less_eq_reset_state_def)
qed

end

lemma reset_state_min: "reset_state a r now = min (deadline_state a now) (deadline_state r now)"
  by (cases "deadline_state a now"; cases "deadline_state r now")
    (simp_all add: reset_state_def min_def less_eq_reset_state_def reset_rank_def)

lemma deadline_state_eq:
  "deadline_state d now = RPassed \<longleftrightarrow> (\<exists>t. d = Some t \<and> t \<le> now)"
  "deadline_state d now = RFuture \<longleftrightarrow> (\<exists>t. d = Some t \<and> now < t)"
  "deadline_state d now = RUnknown \<longleftrightarrow> d = None"
  by (auto simp: deadline_state_def split: option.splits)

lemma reset_state_passed:
  "reset_state a r now = RPassed \<longleftrightarrow> (\<exists>t. (a = Some t \<or> r = Some t) \<and> t \<le> now)"
  by (auto simp: reset_state_def deadline_state_def split: option.splits)

lemma reset_state_unknown: "reset_state a r now = RUnknown \<longleftrightarrow> a = None \<and> r = None"
  by (auto simp: reset_state_def deadline_state_def split: option.splits)

lemma reset_state_none [simp]: "reset_state a None now = deadline_state a now"
  by (auto simp: reset_state_def deadline_state_def split: option.splits)


subsection \<open>The verdict of a list of windows\<close>

text \<open>
  The contract of the loops that fold windows into flags: each window is exhausted, positive
  or neither (unknown), and a step raises exactly the flag of its window. The state then
  depends on the set of windows only.\<close>

locale window_verdict =
  fixes step :: "'w \<Rightarrow> window_flags \<Rightarrow> window_flags"
    and spent :: "'w \<Rightarrow> bool"
    and positive :: "'w \<Rightarrow> bool"
  assumes step_exhausted: "wf_exhausted (step w fl) \<longleftrightarrow> wf_exhausted fl \<or> spent w"
    and step_positive: "wf_positive (step w fl) \<longleftrightarrow> wf_positive fl \<or> positive w"
    and step_unknown: "wf_unknown (step w fl) \<longleftrightarrow> wf_unknown fl \<or> \<not> spent w \<and> \<not> positive w"
    and exclusive: "spent w \<Longrightarrow> \<not> positive w"
begin

lemma fold_exhausted: "wf_exhausted (fold step ws fl) \<longleftrightarrow> wf_exhausted fl \<or> (\<exists>w \<in> set ws. spent w)"
  by (induction ws arbitrary: fl) (auto simp: step_exhausted)

lemma fold_positive: "wf_positive (fold step ws fl) \<longleftrightarrow> wf_positive fl \<or> (\<exists>w \<in> set ws. positive w)"
  by (induction ws arbitrary: fl) (auto simp: step_positive)

lemma fold_unknown:
  "wf_unknown (fold step ws fl) \<longleftrightarrow> wf_unknown fl \<or> (\<exists>w \<in> set ws. \<not> spent w \<and> \<not> positive w)"
  by (induction ws arbitrary: fl) (auto simp: step_unknown)

lemma verdict:
  "flags_state (fold step ws no_flags) =
     (if \<exists>w \<in> set ws. spent w then QsExhausted
      else if ws \<noteq> [] \<and> (\<forall>w \<in> set ws. positive w) then QsAvailable
      else QsUnknown)"
proof -
  have e: "wf_exhausted (fold step ws no_flags) \<longleftrightarrow> (\<exists>w \<in> set ws. spent w)"
    and p: "wf_positive (fold step ws no_flags) \<longleftrightarrow> (\<exists>w \<in> set ws. positive w)"
    and u: "wf_unknown (fold step ws no_flags) \<longleftrightarrow> (\<exists>w \<in> set ws. \<not> spent w \<and> \<not> positive w)"
    by (simp_all add: fold_exhausted fold_positive fold_unknown no_flags_def)
  show ?thesis unfolding flags_state_def e p u by (cases ws) (auto dest: exclusive)
qed

end

definition subscription_window_positive ::
    "datetime \<Rightarrow> datetime \<Rightarrow> datetime \<Rightarrow> subscription_window_usage \<Rightarrow> bool" where
  "subscription_window_positive tmax observed_at now w \<longleftrightarrow>
     sw_availability w = AvKnown \<and> subscription_reset_state tmax w observed_at now \<noteq> RPassed \<and>
     is_some_and (\<lambda>v. is_finite v \<and> \<not> f_le v (Fin 0) \<and> f_le v (Fin 100)) (sw_remaining_percent w)"

interpretation sub: window_verdict
  "subscription_window_flag tmax observed_at now"
  "\<lambda>w. subscription_window_is_exhausted tmax w observed_at now"
  "subscription_window_positive tmax observed_at now"
  for tmax observed_at now
proof unfold_locales
  fix w fl
  let ?step = "subscription_window_flag tmax observed_at now w fl"
  note defs = subscription_window_flag_def subscription_window_is_exhausted_def
    subscription_window_positive_def opt_filter_def
  have av: "sw_availability w = AvUnknown \<longleftrightarrow> sw_availability w \<noteq> AvKnown"
    by (cases "sw_availability w") auto
  show "wf_exhausted ?step \<longleftrightarrow> wf_exhausted fl \<or> subscription_window_is_exhausted tmax w observed_at now"
    by (cases "sw_remaining_percent w") (auto simp: defs av)
  show "wf_positive ?step \<longleftrightarrow> wf_positive fl \<or> subscription_window_positive tmax observed_at now w"
    by (cases "sw_remaining_percent w") (auto simp: defs av)
  show "wf_unknown ?step \<longleftrightarrow> wf_unknown fl \<or>
      \<not> subscription_window_is_exhausted tmax w observed_at now \<and>
      \<not> subscription_window_positive tmax observed_at now w"
    by (cases "sw_remaining_percent w") (auto simp: defs av)
  show "subscription_window_is_exhausted tmax w observed_at now \<Longrightarrow>
      \<not> subscription_window_positive tmax observed_at now w"
    by (auto simp: subscription_window_is_exhausted_def subscription_window_positive_def is_some_and_iff)
qed

text \<open>
  The state of a subscription is the verdict of the set of its windows, in any order:
  exhausted iff some window is known, at or below zero and not yet reset; available iff there
  are windows and each is known, not yet reset and in (0, 100]; unknown otherwise. A window
  whose deadline has passed proves neither exhaustion nor availability.\<close>

theorem subscription_windows_state_verdict:
  "subscription_windows_state tmax windows observed_at now =
     (if \<exists>w \<in> set windows. subscription_window_is_exhausted tmax w observed_at now then QsExhausted
      else if windows \<noteq> [] \<and> list_all (subscription_window_positive tmax observed_at now) windows
      then QsAvailable else QsUnknown)"
  by (simp add: subscription_windows_state_def sub.verdict list_all_iff)

lemma relative_deadline_passed_mono:
  assumes "relative_deadline tmax secs' observed_at now = Some t" "t \<le> now" "now \<le> later"
  shows "\<exists>t'. relative_deadline tmax secs' observed_at later = Some t' \<and> t' \<le> later"
  using assms by (cases secs') (auto simp: relative_deadline_def split: if_splits)

lemma subscription_reset_passed_mono:
  assumes "subscription_reset_state tmax w observed_at now = RPassed" "now \<le> later"
  shows "subscription_reset_state tmax w observed_at later = RPassed"
  using assms relative_deadline_passed_mono [of tmax "sw_reset_after_seconds w" observed_at now _ later]
  by (fastforce simp: subscription_reset_state_def reset_state_passed)

text \<open>
  Time only ever frees a subscription: a window that is not exhausted at one instant is
  not exhausted at any later one (for the same observation), and once all windows have been
  reset they stay reset. So no cached observation starts blocking by growing old.\<close>

theorem subscription_exhaustion_antimono:
  assumes "now \<le> later"
  shows "(subscription_window_is_exhausted tmax w observed_at later \<longrightarrow>
            subscription_window_is_exhausted tmax w observed_at now) \<and>
         (subscription_windows_all_reset tmax windows observed_at now \<longrightarrow>
            subscription_windows_all_reset tmax windows observed_at later)"
  using subscription_reset_passed_mono [OF _ assms]
  by (auto simp: subscription_window_is_exhausted_def subscription_windows_all_reset_def list_all_iff)

definition demo_window :: subscription_window_usage where
  "demo_window =
     \<lparr>sw_source_window = ''primary'', sw_window_seconds = Some 18000, sw_used_percent = Some (Fin 100),
      sw_remaining_percent = Some (Fin 0), sw_reset_at = None, sw_reset_after_seconds = Some 60,
      sw_availability = AvKnown\<rparr>"

lemma subscription_exhaustion_antimono_witness:
  "subscription_window_is_exhausted (sec_ns 1000000) demo_window 0 (sec_ns 59) \<and>
   \<not> subscription_window_is_exhausted (sec_ns 1000000) demo_window 0 (sec_ns 60) \<and>
   \<not> subscription_window_is_exhausted (sec_ns 1000000) demo_window 0 (sec_ns 61)"
proof -
  have "subscription_window_is_exhausted (sec_ns 1000000) demo_window 0 (sec_ns 59)"
    "\<not> subscription_window_is_exhausted (sec_ns 1000000) demo_window 0 (sec_ns 60)"
    by code_simp+
  then show ?thesis
    using subscription_exhaustion_antimono [of "sec_ns 60" "sec_ns 61" "sec_ns 1000000" demo_window 0 "[]"]
    by (simp add: sec_ns_def)
qed

subsection \<open>Honest percentages\<close>

lemma f_sub_100:
  assumes "percent_ok v" "wf64 v"
  shows "percent_ok (f_sub (Fin 100) v) \<and> wf64 (f_sub (Fin 100) v)"
proof (cases v)
  case (Fin q)
  then have q: "0 \<le> q" "q \<le> 100" using assms by (auto simp: percent_ok_def)
  have lo: "f_le (Fin 0) (fround (100 - q))" using q by (intro fround_nonneg) simp
  have hi: "f_le (fround (100 - q)) (Fin 100)" using q by (intro fround_le_repr) auto
  have "is_finite (fround (100 - q))" using lo hi by (cases "fround (100 - q)") auto
  then show ?thesis using lo hi by (simp add: Fin percent_ok_def f_sub_def)
qed (use assms in \<open>auto simp: percent_ok_def\<close>)

text \<open>
  A parsed upstream window never carries a made-up figure: whatever JSON the upstream
  sends, the window it is projected to is known exactly when a finite percentage in
  [0, 100] was reported, its remaining share is then the rounded complement, again in
  [0, 100], and reported durations are positive and countdowns non-negative.\<close>

theorem parsed_window_honest:
  assumes "parse_window js value = Some w"
    and "\<And>v q. js_f64 js v = Some q \<Longrightarrow> wf64 q"
  shows "(sw_availability (subscription_window slot w) = AvKnown \<longleftrightarrow>
            sw_remaining_percent (subscription_window slot w) \<noteq> None) \<and>
         (\<forall>r. sw_remaining_percent (subscription_window slot w) = Some r \<longrightarrow>
            percent_ok r \<and> (\<exists>u. gq_used_percent w = Some u \<and> percent_ok u \<and> r = f_sub (Fin 100) u)) \<and>
         \<not> is_some_and (\<lambda>s. s \<le> 0) (sw_window_seconds (subscription_window slot w)) \<and>
         \<not> is_some_and (\<lambda>s. s < 0) (sw_reset_after_seconds (subscription_window slot w))"
proof -
  from assms(1) obtain o' where w: "w =
      \<lparr>gq_used_percent = normalize_percent js (o' ''used_percent''),
       gq_limit_window_seconds = normalize_positive_seconds js (o' ''limit_window_seconds''),
       gq_reset_after_seconds = normalize_reset_seconds js (o' ''reset_after_seconds''),
       gq_reset_at = Option.bind (Option.bind (o' ''reset_at'') (js_i64 js)) (js_timestamp js)\<rparr>"
    by (auto simp: parse_window_def Let_def split: option.splits if_splits)
  have "percent_ok u \<and> wf64 u" if "gq_used_percent w = Some u" for u
    using that assms(2) by (auto simp: w normalize_percent_def bind_eq_Some_conv)
  then have "percent_ok (f_sub (Fin 100) u) \<and> percent_ok u" if "gq_used_percent w = Some u" for u
    using that f_sub_100 by blast
  then show ?thesis
    by (cases "gq_used_percent w")
      (auto simp: subscription_window_def Let_def w normalize_positive_seconds_def
        normalize_reset_seconds_def is_some_and_iff)
qed

text \<open>A toy decoder for the witnesses: a JSON value is its number, as integer or float, or an object.\<close>

datatype demo_json = DemoNum int | DemoObj "(string \<times> demo_json) list"

definition demo_ops :: "demo_json json_ops" where
  "demo_ops =
     \<lparr>js_object = (\<lambda>v. case v of DemoObj kvs \<Rightarrow> Some (map_of kvs) | _ \<Rightarrow> None),
      js_f64 = (\<lambda>v. case v of DemoNum n \<Rightarrow> Some (f_of_int n) | _ \<Rightarrow> None),
      js_i64 = (\<lambda>v. case v of DemoNum n \<Rightarrow> Some n | _ \<Rightarrow> None),
      js_timestamp = (\<lambda>s. Some (sec_ns s))\<rparr>"

lemma demo_ops_f64: "js_f64 demo_ops v = Some q \<Longrightarrow> wf64 q"
  by (auto simp: demo_ops_def f_of_int_def split: demo_json.splits)

definition demo_parsed :: chatgpt_quota_window where
  "demo_parsed =
     \<lparr>gq_used_percent = Some (Fin 40), gq_limit_window_seconds = None,
      gq_reset_after_seconds = Some 9223372036854776, gq_reset_at = None\<rparr>"

lemma demo_parse:
  "parse_window demo_ops
     (DemoObj [(''used_percent'', DemoNum 40), (''limit_window_seconds'', DemoNum 0),
               (''reset_after_seconds'', DemoNum 9223372036854776)]) = Some demo_parsed"
  using fround_of_int [of 40]
  by (simp add: parse_window_def demo_ops_def demo_parsed_def window_fields_def normalize_percent_def
      normalize_positive_seconds_def normalize_reset_seconds_def f_of_int_def percent_ok_def)

lemma parsed_window_honest_witness:
  "sw_availability (subscription_window ''primary'' demo_parsed) = AvKnown \<and>
   sw_remaining_percent (subscription_window ''primary'' demo_parsed) = Some (Fin 60)"
proof -
  have "sw_remaining_percent (subscription_window ''primary'' demo_parsed) = Some (Fin 60)"
    using fround_of_int [of 60]
    by (simp add: subscription_window_def demo_parsed_def percent_ok_def f_sub_def)
  then show ?thesis
    using parsed_window_honest [where slot = "''primary''", OF demo_parse demo_ops_f64] by auto
qed

text \<open>
  C35: The reset arithmetic of a parsed window panics exactly when the upstream reported a
  countdown of more than \<open>i64::MAX / 1000\<close> seconds: the parser only checks that the countdown
  is not negative, and \<open>chrono::Duration::seconds\<close> aborts on anything larger.\<close>

theorem parsed_countdown_panics_iff:
  assumes "parse_window js value = Some w"
  shows "subscription_reset_panics (subscription_window slot w) \<longleftrightarrow>
         (\<exists>object field seconds. js_object js value = Some object \<and>
            object ''reset_after_seconds'' = Some field \<and> js_i64 js field = Some seconds \<and>
            i64_max div 1000 < seconds)"
proof -
  from assms obtain o' where o: "js_object js value = Some o'"
    and r: "gq_reset_after_seconds w = normalize_reset_seconds js (o' ''reset_after_seconds'')"
    by (auto simp: parse_window_def Let_def split: option.splits if_splits)
  have "(0::int) \<le> i64_max div 1000" by (simp add: i64_max_def)
  then show ?thesis
    using o r
    by (auto simp: subscription_reset_panics_def subscription_window_def Let_def is_some_and_iff
        normalize_reset_seconds_def bind_eq_Some_conv)
qed

lemma parsed_countdown_panics_iff_witness:
  "subscription_reset_panics (subscription_window ''primary'' demo_parsed)"
  unfolding parsed_countdown_panics_iff [OF demo_parse]
  by (simp add: demo_ops_def i64_max_def)

text \<open>
  The retry delay of a failing refresh is 60 s doubled per consecutive failure and capped
  at one hour, for every failure count an \<open>i32\<close> can hold: none of the saturating operations
  saturates, and the delay never falls below one minute.\<close>

theorem retry_delay_exact:
  "retry_delay n =
     (if n \<le> 1 then sec_ns 60 else sec_ns (min (60 * 2 ^ nat (n - 1)) 3600))"
proof (cases "n \<le> 1")
  case True
  then show ?thesis
    by (simp add: retry_delay_def failure_backoff_base_seconds_def failure_backoff_max_seconds_def
        i64_max_def i32_min_def max_def)
next
  case False
  then have e: "nat (min (max (max i32_min (n - 1)) 0) 31) = min (nat (n - 1)) 31"
    by (simp add: i32_min_def min_def max_def nat_le_iff)
  show ?thesis
  proof (cases "nat (n - 1) < 6")
    case True
    then have "(2::int) ^ nat (n - 1) \<le> 2 ^ 5" by (intro power_increasing) auto
    then show ?thesis using True False
      unfolding retry_delay_def Let_def e
      by (simp add: failure_backoff_base_seconds_def failure_backoff_max_seconds_def i64_max_def min_def)
  next
    case big: False
    then have "(2::int) ^ 6 \<le> 2 ^ nat (n - 1)" "(2::int) ^ 6 \<le> 2 ^ min (nat (n - 1)) 31"
      by (intro power_increasing; simp)+
    then show ?thesis using False
      unfolding retry_delay_def Let_def e
      by (simp add: failure_backoff_base_seconds_def failure_backoff_max_seconds_def i64_max_def min_def)
  qed
qed

end
