(* ===== verification/QuotaWeight.thy ===== *)
theory QuotaWeight
  imports QuotaReset
begin

text \<open>
  The draw weight of a key: \<open>src/worker_admin/quota_urgency.rs\<close>, \<open>quota_window_weight.rs\<close>,
  \<open>token_plan_weight.rs\<close> and the remaining-percent helpers of \<open>command_code_parsing.rs\<close>,
  \<open>opencode_go_parsing.rs\<close> and \<open>glm_parsing.rs\<close>. \<open>Utc::now()\<close>, read once per window by the
  code, is the argument \<open>now\<close>.

  The lemmas bound every weight to [0, 100], show that urgency only lifts a weight and never
  revives a spent window, and that reservations only damp it.
\<close>

subsection \<open>Urgency\<close>

definition five_hour_seconds :: f64 where "five_hour_seconds = f_mul (Fin 5) (Fin 3600)"
definition weekly_seconds :: f64 where "weekly_seconds = f_mul (f_mul (Fin 7) (Fin 24)) (Fin 3600)"
definition monthly_seconds :: f64 where "monthly_seconds = f_mul (f_mul (Fin 30) (Fin 24)) (Fin 3600)"

definition clamp_percent :: "f64 \<Rightarrow> f64" where
  "clamp_percent value = (if is_finite value then f_clamp (Fin 0) (Fin 100) value else Fin 0)"

definition urgent_remaining :: "f64 \<Rightarrow> f64 option \<Rightarrow> f64 \<Rightarrow> f64" where
  "urgent_remaining remaining resets_in_seconds period_seconds =
     (let remaining = clamp_percent remaining in
      if f_le remaining (Fin 0) then Fin 0
      else
        (case resets_in_seconds of
           None \<Rightarrow> remaining
         | Some resets_in \<Rightarrow>
             if \<not> (is_finite resets_in \<and> is_finite period_seconds \<and> f_lt (Fin 0) period_seconds)
             then remaining
             else
               let urgency = f_clamp (Fin 0) (Fin 1) (f_sub (Fin 1) (f_div resets_in period_seconds))
               in clamp_percent (f_add remaining (f_mul (f_sub (Fin 100) remaining) urgency))))"

text \<open>\<open>TimeDelta::num_milliseconds\<close> drops the part below a millisecond, towards zero.\<close>

definition num_milliseconds :: "int \<Rightarrow> int" where
  "num_milliseconds d = (if 0 \<le> d then d div 1000000 else - (- d div 1000000))"

definition seconds_until :: "datetime \<Rightarrow> datetime option \<Rightarrow> f64 option" where
  "seconds_until now reset_at =
     map_option (\<lambda>reset. f_div (f_of_int (num_milliseconds (reset - now))) (Fin 1000)) reset_at"

subsection \<open>Weights per provider\<close>

definition command_code_balance_exhausted :: "token_plan_key_usage \<Rightarrow> bool" where
  "command_code_balance_exhausted key =
     is_some_and (\<lambda>balances. f_le (cb_remaining_credits balances) (Fin 0)) (tk_balances key)"

definition command_code_weight_percent :: "datetime \<Rightarrow> token_plan_key_usage \<Rightarrow> f64 option" where
  "command_code_weight_percent now key =
     (if command_code_balance_exhausted key then Some (Fin 0)
      else
        f_min_by_total
          (List.map_filter
             (\<lambda>(window, period). Option.bind window (\<lambda>window.
                map_option (\<lambda>remaining. urgent_remaining remaining (seconds_until now (cw_reset_at window)) period)
                  (cw_remaining_percent window)))
             [(tk_five_hour key, five_hour_seconds), (tk_weekly key, weekly_seconds)]))"

definition opencode_go_weight_percent :: "datetime \<Rightarrow> token_plan_key_usage \<Rightarrow> f64 option" where
  "opencode_go_weight_percent now key =
     f_min_by_total
       (List.map_filter
          (\<lambda>(window, period). Option.bind window (\<lambda>window.
             map_option (\<lambda>percent. urgent_remaining (f_sub (Fin 100) percent)
                                     (seconds_until now (ow_resets_at window)) period)
               (ow_percent window)))
          [(tk_opencodego_rolling key, five_hour_seconds), (tk_opencodego_weekly key, weekly_seconds),
           (tk_opencodego_monthly key, monthly_seconds)])"

definition glm_weight_percent :: "datetime \<Rightarrow> token_plan_key_usage \<Rightarrow> f64 option" where
  "glm_weight_percent now key =
     f_min_by_total
       (List.map_filter
          (\<lambda>(window, period). Option.bind window (\<lambda>window.
             map_option (\<lambda>percentage. urgent_remaining (f_sub (Fin 100) percentage)
                                        (seconds_until now (gw_next_reset_at window)) period)
               (gw_percentage window)))
          [(tk_glm_five_hour key, five_hour_seconds), (tk_glm_weekly key, weekly_seconds)])"

definition window_weight_percent :: "datetime \<Rightarrow> token_plan_window_usage \<Rightarrow> f64 \<Rightarrow> f64 option" where
  "window_weight_percent now window period =
     map_option
       (\<lambda>remaining.
          urgent_remaining remaining
            (opt_or (map_option (\<lambda>ms. f_div (f_of_int ms) (Fin 1000)) (tw_remains_time_ms window))
               (seconds_until now (tw_end_at window)))
            period)
       (tw_remaining_percent window)"

definition tighter_window :: "f64 option \<Rightarrow> f64 option \<Rightarrow> f64 option" where
  "tighter_window interval weekly =
     (case (interval, weekly) of
        (Some interval, Some weekly) \<Rightarrow> Some (f_clamp (Fin 0) (Fin 100) (f_min interval weekly))
      | (Some remaining, None) \<Rightarrow> Some (f_clamp (Fin 0) (Fin 100) remaining)
      | (None, Some remaining) \<Rightarrow> Some (f_clamp (Fin 0) (Fin 100) remaining)
      | (None, None) \<Rightarrow> None)"

definition effective_weight_percent :: "datetime \<Rightarrow> token_plan_model_usage \<Rightarrow> f64 option" where
  "effective_weight_percent now usage =
     tighter_window
       (Option.bind (tm_interval usage) (\<lambda>w. window_weight_percent now w five_hour_seconds))
       (Option.bind (tm_weekly usage) (\<lambda>w. window_weight_percent now w weekly_seconds))"

subsection \<open>Raw remaining percents\<close>

definition command_code_remaining_percent :: "token_plan_key_usage \<Rightarrow> f64 option" where
  "command_code_remaining_percent key =
     (if command_code_balance_exhausted key then Some (Fin 0)
      else tighter_window (Option.bind (tk_five_hour key) cw_remaining_percent)
                          (Option.bind (tk_weekly key) cw_remaining_percent))"

definition opencode_go_remaining_percent :: "token_plan_key_usage \<Rightarrow> f64 option" where
  "opencode_go_remaining_percent key =
     map_option (f_clamp (Fin 0) (Fin 100))
       (f_min_by_total
          (List.map_filter
             (\<lambda>window. Option.bind window (\<lambda>w. map_option (f_sub (Fin 100)) (ow_percent w)))
             [tk_opencodego_rolling key, tk_opencodego_weekly key, tk_opencodego_monthly key]))"

definition glm_remaining_percent :: "token_plan_key_usage \<Rightarrow> f64 option" where
  "glm_remaining_percent key =
     f_min_by_total
       (List.map_filter
          (\<lambda>window. Option.bind window
             (\<lambda>w. map_option (\<lambda>used. f_clamp (Fin 0) (Fin 100) (f_sub (Fin 100) used)) (gw_percentage w)))
          [tk_glm_five_hour key, tk_glm_weekly key])"

definition openrouter_remaining_percent :: "token_plan_key_usage \<Rightarrow> f64 option" where
  "openrouter_remaining_percent key =
     Option.bind (tk_openrouter_balance key) (\<lambda>balance.
       case ob_limit balance of
         Some limit \<Rightarrow>
           if is_finite limit \<and> f_lt (Fin 0) limit then
             map_option (\<lambda>remaining. f_clamp (Fin 0) (Fin 100) (f_mul (f_div remaining limit) (Fin 100)))
               (ob_limit_remaining balance)
           else if is_finite limit then Some (Fin 0)
           else map_option (\<lambda>_. Fin 100) (tk_openrouter_spend key)
       | None \<Rightarrow> map_option (\<lambda>_. Fin 100) (tk_openrouter_spend key))"

definition deepseek_remaining_percent :: "token_plan_key_usage \<Rightarrow> f64 option" where
  "deepseek_remaining_percent key =
     map_option (\<lambda>balance. if db_is_available balance then Fin 100 else Fin 0) (tk_deepseek_balance key)"

definition provider_remaining_percent :: "token_plan_key_usage \<Rightarrow> f64 option" where
  "provider_remaining_percent key =
     map_option clamp_percent
       (opt_or (command_code_remaining_percent key)
       (opt_or (opencode_go_remaining_percent key)
       (opt_or (openrouter_remaining_percent key)
       (opt_or (glm_remaining_percent key)
               (deepseek_remaining_percent key)))))"

definition provider_weight_percent :: "datetime \<Rightarrow> token_plan_key_usage \<Rightarrow> f64 option" where
  "provider_weight_percent now key =
     map_option clamp_percent
       (opt_or (command_code_weight_percent now key)
       (opt_or (opencode_go_weight_percent now key)
       (opt_or (openrouter_remaining_percent key)
       (opt_or (glm_weight_percent now key)
               (deepseek_remaining_percent key)))))"

subsection \<open>Reservations\<close>

definition reservation_backpressure_per_draw :: f64 where
  "reservation_backpressure_per_draw = fround (1 / 10)"

definition max_backpressure_draws :: nat where "max_backpressure_draws = 10000"

definition apply_reservation_backpressure :: "f64 \<Rightarrow> nat \<Rightarrow> f64" where
  "apply_reservation_backpressure remaining draws =
     (let remaining = clamp_percent remaining in
      if draws = 0 then remaining
      else
        let draws = min draws max_backpressure_draws in
        clamp_percent
          (f_div remaining (f_add (Fin 1) (f_mul (f_of_nat draws) reservation_backpressure_per_draw))))"

definition model_usage_scoped ::
    "token_plan_key_usage \<Rightarrow> string option \<Rightarrow> bool \<Rightarrow> token_plan_model_usage option" where
  "model_usage_scoped key model allow_general =
     Option.bind model (\<lambda>model.
       let model = trim model in
       opt_or (find (\<lambda>usage. eq_ignore_ascii_case (tm_model_name usage) model) (tk_model_remains key))
         (if allow_general
          then find (\<lambda>usage. eq_ignore_ascii_case (tm_model_name usage) ''general'') (tk_model_remains key)
          else None))"

definition effective_remaining_percent :: "token_plan_model_usage \<Rightarrow> f64 option" where
  "effective_remaining_percent usage =
     tighter_window (Option.bind (tm_interval usage) tw_remaining_percent)
                    (Option.bind (tm_weekly usage) tw_remaining_percent)"

definition reserved_percent :: "token_plan_model_usage \<Rightarrow> nat \<Rightarrow> f64" where
  "reserved_percent usage reserved_tokens =
     (let totals = filter (\<lambda>total. 0 < total)
                     (List.map_filter (\<lambda>x. x) [Option.bind (tm_interval usage) tw_total_count,
                                               Option.bind (tm_weekly usage) tw_total_count]);
          total_count = (case totals of [] \<Rightarrow> 0 | t # ts \<Rightarrow> fold min ts t)
      in if total_count \<le> 0 then Fin 0
         else f_min (f_mul (f_div (f_of_nat reserved_tokens) (f_of_int total_count)) (Fin 100)) (Fin 100))"

definition model_remaining_percent :: "token_plan_model_usage \<Rightarrow> nat \<Rightarrow> f64 option" where
  "model_remaining_percent usage reserved_tokens =
     map_option (\<lambda>remaining. f_max (f_sub remaining (reserved_percent usage reserved_tokens)) (Fin 0))
       (effective_remaining_percent usage)"

definition model_weight_percent :: "datetime \<Rightarrow> token_plan_model_usage \<Rightarrow> nat \<Rightarrow> f64 option" where
  "model_weight_percent now usage reserved_tokens =
     map_option (\<lambda>remaining. f_max (f_sub remaining (reserved_percent usage reserved_tokens)) (Fin 0))
       (effective_weight_percent now usage)"

subsection \<open>Percent arithmetic\<close>

lemma percent_ok_iff: "percent_ok v \<longleftrightarrow> (\<exists>q. v = Fin q \<and> 0 \<le> q \<and> q \<le> 100)"
  by (cases v) (auto simp: percent_ok_def)

lemma percent_ok_const [simp]: "percent_ok (Fin 0)" "percent_ok (Fin 100)"
  by (simp_all add: percent_ok_def)

lemma clamp_percent_ok [simp]: "percent_ok (clamp_percent v)"
  by (cases v) (auto simp: clamp_percent_def f_clamp_def percent_ok_def)

lemma clamp_percent_id [simp]: "percent_ok v \<Longrightarrow> clamp_percent v = v"
  by (auto simp: percent_ok_iff clamp_percent_def f_clamp_def)

lemma clamp_percent_wf: "wf64 v \<Longrightarrow> wf64 (clamp_percent v)"
  by (auto simp: clamp_percent_def f_clamp_def)

lemma clamp_percent_finite: "is_finite v \<Longrightarrow> clamp_percent v = f_clamp (Fin 0) (Fin 100) v"
  by (simp add: clamp_percent_def)

lemma f_clamp_finite_ok: "is_finite v \<Longrightarrow> percent_ok (f_clamp (Fin 0) (Fin 100) v)"
  by (simp flip: clamp_percent_finite)

lemma clamp_percent_mono: "is_finite a \<Longrightarrow> is_finite b \<Longrightarrow> f_le a b \<Longrightarrow> f_le (clamp_percent a) (clamp_percent b)"
  by (cases a; cases b) (auto simp: clamp_percent_def f_clamp_def)

lemma clamp_percent_0: "is_finite v \<Longrightarrow> clamp_percent v = Fin 0 \<longleftrightarrow> f_le v (Fin 0)"
  by (cases v) (auto simp: clamp_percent_def f_clamp_def)

lemma f_le_antisym: "f_le a b \<Longrightarrow> f_le b a \<Longrightarrow> a = b"
  by (cases a; cases b) auto

lemma f_clamp_01:
  "u \<noteq> NaN \<Longrightarrow> wf64 u \<Longrightarrow> \<exists>q. f_clamp (Fin 0) (Fin 1) u = Fin q \<and> 0 \<le> q \<and> q \<le> 1"
  by (cases u) (auto simp: f_clamp_def)

lemma fround_between:
  "0 \<le> q \<Longrightarrow> q \<le> a \<Longrightarrow> wf64 (Fin a) \<Longrightarrow> \<exists>r. fround q = Fin r \<and> 0 \<le> r \<and> r \<le> a"
  using fround_nonneg [of q] fround_le_repr [of a q] by (cases "fround q") auto

lemma fround_ne_NaN [simp]: "fround q \<noteq> NaN"
  by (simp add: fround_def Let_def)

lemma wf64_Inf [simp]: "wf64 (Inf b)" "wf64 NaN"
  by (simp_all add: wf64_def)

lemma f_sub_fround: "f_sub (Fin a) (fround q) \<noteq> NaN \<and> wf64 (f_sub (Fin a) (fround q))"
proof (cases "fround q")
  case NaN
  then show ?thesis using fround_ne_NaN [of q] by simp
qed (simp_all add: f_sub_def)

text \<open>Lifting by an urgency in [0, 1] stays between the remaining and 100.\<close>

lemma lift_bounds:
  assumes "0 \<le> r" "r \<le> 100" "wf64 (Fin r)" "0 \<le> u" "u \<le> 1"
  shows "f_le (Fin r) (clamp_percent (f_add (Fin r) (f_mul (f_sub (Fin 100) (Fin r)) (Fin u))))"
proof -
  obtain d where d: "fround (100 - r) = Fin d" "0 \<le> d" "d \<le> 100"
    using fround_between [of "100 - r" 100] assms by auto
  have "0 \<le> d * u" "d * u \<le> 100" using d assms by (auto intro: mult_nonneg_nonneg mult_le_one order_trans [OF mult_left_le])
  then obtain m where m: "fround (d * u) = Fin m" "0 \<le> m"
    using fround_between [of "d * u" 100] by auto
  have le: "f_le (Fin r) (fround (r + m))" using assms m by (intro fround_ge_repr) auto
  show ?thesis
  proof (cases "fround (r + m)")
    case (Fin s)
    then show ?thesis using le assms
      by (auto simp: f_sub_def d m clamp_percent_def f_clamp_def)
  next
    case (Inf b)
    have "r + m \<le> 2 ^ 53" using m(1) d assms fround_between [of "d * u" 100] \<open>d * u \<le> 100\<close> \<open>0 \<le> d * u\<close> by auto
    then have "f_le (fround (r + m)) (Fin (2 ^ 53))"
      using wf64_of_int [of "2 ^ 53"] by (intro fround_le_repr) auto
    then show ?thesis using Inf le by simp
  qed (use le in simp)
qed

lemma urgent_remaining_lifts:
  assumes "wf64 r" "\<And>s. resets_in = Some s \<Longrightarrow> wf64 s"
  shows "percent_ok (urgent_remaining r resets_in period) \<and>
         f_le (clamp_percent r) (urgent_remaining r resets_in period)"
proof -
  obtain q where q: "clamp_percent r = Fin q" "0 \<le> q" "q \<le> 100"
    using clamp_percent_ok [of r] by (auto simp: percent_ok_iff)
  have wq: "wf64 (Fin q)" using clamp_percent_wf [OF assms(1)] q by simp
  have u: "\<exists>u. f_clamp (Fin 0) (Fin 1) (f_sub (Fin 1) (f_div s period)) = Fin u \<and> 0 \<le> u \<and> u \<le> 1"
    if s: "is_finite s" "is_finite period" "f_lt (Fin 0) period" for s
  proof -
    obtain a b where ab: "s = Fin a" "period = Fin b" "0 < b" using s by (cases s; cases period) auto
    have "f_sub (Fin 1) (fround (a / b)) \<noteq> NaN \<and> wf64 (f_sub (Fin 1) (fround (a / b)))"
      by (rule f_sub_fround)
    then show ?thesis using f_clamp_01 ab by simp
  qed
  show ?thesis
  proof (cases resets_in)
    case None
    then show ?thesis using q by (auto simp: urgent_remaining_def Let_def percent_ok_iff)
  next
    case (Some s)
    show ?thesis
    proof (cases "is_finite s \<and> is_finite period \<and> f_lt (Fin 0) period")
      case True
      then obtain u' where u': "f_clamp (Fin 0) (Fin 1) (f_sub (Fin 1) (f_div s period)) = Fin u'"
          "0 \<le> u'" "u' \<le> 1"
        using u by blast
      show ?thesis using lift_bounds [OF q(2,3) wq u'(2,3)] q True
        by (auto simp: urgent_remaining_def Let_def Some u'(1))
    next
      case False
      then show ?thesis using q by (auto simp: urgent_remaining_def Let_def percent_ok_iff Some)
    qed
  qed
qed

lemma urgent_remaining_0: "clamp_percent r = Fin 0 \<Longrightarrow> urgent_remaining r resets_in period = Fin 0"
  by (simp add: urgent_remaining_def)


subsection \<open>A weight lifts its remaining percent\<close>

text \<open>\<open>lifted r w\<close>: both are percents, \<open>w\<close> is a representable number, at least \<open>r\<close>, and zero exactly when \<open>r\<close> is.\<close>

definition lifted :: "f64 \<Rightarrow> f64 \<Rightarrow> bool" where
  "lifted r w \<longleftrightarrow> percent_ok r \<and> percent_ok w \<and> wf64 w \<and> f_le r w \<and> (r = Fin 0 \<longleftrightarrow> w = Fin 0)"

lemma lifted_refl: "percent_ok r \<Longrightarrow> wf64 r \<Longrightarrow> lifted r r"
  by (auto simp: lifted_def percent_ok_iff)

lemma f_min_by_total_percent:
  assumes "\<And>x. x \<in> set xs \<Longrightarrow> percent_ok x" "f_min_by_total xs = Some m"
  shows "m \<in> set xs \<and> (\<forall>x \<in> set xs. f_le m x)"
  using assms
proof (induction xs arbitrary: m)
  case (Cons a xs)
  show ?case
  proof (cases "f_min_by_total xs")
    case None
    then have "xs = []" by (cases xs) (auto split: option.splits)
    then show ?thesis using Cons.prems by (auto simp: percent_ok_iff)
  next
    case (Some y)
    have y: "y \<in> set xs" "\<forall>x \<in> set xs. f_le y x" using Cons.IH [OF _ Some] Cons.prems by auto
    then have "percent_ok a" "percent_ok y" using Cons.prems by auto
    then show ?thesis
      using Cons.prems(2) Some y f_le_trans [of a y]
      by (auto simp: f_total_le_def percent_ok_iff split: if_splits)
  qed
qed simp

lemma f_min_by_total_None [simp]: "f_min_by_total xs = None \<longleftrightarrow> xs = []"
  by (cases xs) (auto split: option.splits)

lemma min_lifted:
  assumes "\<And>x. x \<in> set xs \<Longrightarrow> lifted (lo x) (hi x)"
  shows "rel_option lifted (f_min_by_total (List.map lo xs)) (f_min_by_total (List.map hi xs))"
proof (cases "f_min_by_total (List.map lo xs)")
  case None
  then show ?thesis by simp
next
  case (Some m)
  then obtain w where w: "f_min_by_total (List.map hi xs) = Some w"
    by (cases "f_min_by_total (List.map hi xs)") auto
  have ok: "\<And>x. x \<in> set (List.map lo xs) \<Longrightarrow> percent_ok x" "\<And>x. x \<in> set (List.map hi xs) \<Longrightarrow> percent_ok x"
    using assms by (auto simp: lifted_def)
  note m = f_min_by_total_percent [OF ok(1) Some] and wm = f_min_by_total_percent [OF ok(2) w]
  obtain x where x: "x \<in> set xs" "m = lo x" using m by auto
  obtain y where y: "y \<in> set xs" "w = hi y" using wm by auto
  have "f_le m (lo y)" "f_le (lo y) w" using m y assms by (auto simp: lifted_def)
  then have le: "f_le m w" by (rule f_le_trans)
  have "f_le w (hi x)" using wm x by auto
  moreover have "lo x = Fin 0 \<longleftrightarrow> hi x = Fin 0" using assms x by (auto simp: lifted_def)
  moreover have "wf64 w" using y assms by (auto simp: lifted_def)
  ultimately have "lifted m w"
    using le ok(1) [of m] ok(2) [of w] m wm x by (auto simp: lifted_def percent_ok_iff)
  then show ?thesis by (simp add: Some w)
qed

lemma f_add_wf: "wf64 (f_add (Fin a) y)"
  by (cases y) auto

lemma f_mul_wf: "wf64 (f_mul a b)"
  by (cases a; cases b) auto

lemma urgent_remaining_wf:
  assumes "wf64 r" shows "wf64 (urgent_remaining r t period)"
proof -
  obtain q where q: "clamp_percent r = Fin q" using clamp_percent_ok [of r] by (auto simp: percent_ok_iff)
  then have "wf64 (Fin q)" using clamp_percent_wf [OF assms] by simp
  then show ?thesis
    by (auto simp: urgent_remaining_def Let_def q f_add_wf intro!: clamp_percent_wf split: option.split)
qed

lemma urgent_lifted:
  assumes "percent_ok r" "wf64 r" "\<And>s. t = Some s \<Longrightarrow> wf64 s"
  shows "lifted r (urgent_remaining r t period)"
proof -
  have u: "percent_ok (urgent_remaining r t period)" "f_le r (urgent_remaining r t period)"
    using urgent_remaining_lifts [OF assms(2,3), of t period] assms(1) by auto
  have "r = Fin 0 \<longleftrightarrow> urgent_remaining r t period = Fin 0"
    using u assms(1) urgent_remaining_0 [of r] by (auto simp: percent_ok_iff)
  then show ?thesis using u assms(1) urgent_remaining_wf [OF assms(2)] by (simp add: lifted_def)
qed

lemma f_div_wf: "wf64 (f_div a b)"
  by (cases a; cases b) auto

lemma seconds_until_wf: "seconds_until now t = Some s \<Longrightarrow> wf64 s"
  by (auto simp: seconds_until_def f_div_wf)

lemmas urgent_window = urgent_lifted [OF _ _ seconds_until_wf]

text \<open>The figures of a well-behaved provider: percents are representable numbers in [0, 100], as the parsers that clamp report them; MiniMax's figures are taken as they come and may lie outside.\<close>

definition percent_opt_ok :: "f64 option \<Rightarrow> bool" where
  "percent_opt_ok v = (case v of None \<Rightarrow> True | Some v \<Rightarrow> percent_ok v \<and> wf64 v)"

definition reported_percents_ok :: "token_plan_key_usage \<Rightarrow> bool" where
  "reported_percents_ok key \<longleftrightarrow>
     percent_opt_ok (Option.bind (tk_five_hour key) cw_remaining_percent) \<and>
     percent_opt_ok (Option.bind (tk_weekly key) cw_remaining_percent) \<and>
     percent_opt_ok (Option.bind (tk_opencodego_rolling key) ow_percent) \<and>
     percent_opt_ok (Option.bind (tk_opencodego_weekly key) ow_percent) \<and>
     percent_opt_ok (Option.bind (tk_opencodego_monthly key) ow_percent) \<and>
     percent_opt_ok (Option.bind (tk_glm_five_hour key) gw_percentage) \<and>
     percent_opt_ok (Option.bind (tk_glm_weekly key) gw_percentage)"

lemma bind_SomeE:
  assumes "Option.bind a f = Some x" obtains y where "a = Some y" "f y = Some x"
  using assms by (cases a) auto

lemma tighter_window_min:
  "\<lbrakk>\<And>x. a = Some x \<Longrightarrow> percent_ok x; \<And>x. b = Some x \<Longrightarrow> percent_ok x\<rbrakk> \<Longrightarrow>
     tighter_window a b = f_min_by_total (List.map_filter (\<lambda>x. x) [a, b])"
  by (cases a; cases b)
    (auto simp: tighter_window_def percent_ok_iff f_clamp_def f_min_def f_total_le_def map_filter_simps)


abbreviation clamp_lifted :: "f64 option \<Rightarrow> f64 option \<Rightarrow> bool" where
  "clamp_lifted \<equiv> rel_option (\<lambda>r w. lifted (clamp_percent r) (clamp_percent w))"

lemma clamp_liftedI: "rel_option lifted a b \<Longrightarrow> clamp_lifted a b"
  by (erule option.rel_mono_strong) (auto simp: lifted_def)

lemma f_clamp_id: "percent_ok r \<Longrightarrow> f_clamp (Fin 0) (Fin 100) r = r"
  by (auto simp: percent_ok_iff f_clamp_def)

lemma clamp_lifted_clamp:
  "rel_option lifted a b \<Longrightarrow> clamp_lifted (map_option (f_clamp (Fin 0) (Fin 100)) a) b"
  by (cases a; cases b) (auto simp: lifted_def f_clamp_id)

lemma clamp_lifted_refl: "(\<And>v. a = Some v \<Longrightarrow> wf64 v) \<Longrightarrow> clamp_lifted a a"
  by (cases a) (simp_all add: lifted_refl clamp_percent_wf)

lemma openrouter_lifted: "clamp_lifted (openrouter_remaining_percent key) (openrouter_remaining_percent key)"
  by (rule clamp_lifted_refl)
    (auto simp: openrouter_remaining_percent_def f_clamp_def f_mul_wf bind_eq_Some_conv
      split: option.splits if_splits)

lemma deepseek_lifted: "clamp_lifted (deepseek_remaining_percent key) (deepseek_remaining_percent key)"
  by (rule clamp_lifted_refl) (auto simp: deepseek_remaining_percent_def)

lemma map_filter_map: "List.map g (List.map_filter f xs) = List.map_filter (\<lambda>x. map_option g (f x)) xs"
  by (induction xs) (auto simp: map_filter_simps split: option.split)

lemma map_filter_cong:
  "(\<And>x. x \<in> set xs \<Longrightarrow> f x = g x) \<Longrightarrow> List.map_filter f xs = List.map_filter g xs"
  by (induction xs) (auto simp: map_filter_simps split: option.split)

lemma map_filter_slots:
  "List.map_filter (\<lambda>(w, p). Option.bind w g) slots = List.map_filter (\<lambda>w. Option.bind w g) (List.map fst slots)"
  "List.map_filter (\<lambda>(w, p). Option.bind w g) slots =
     List.map_filter (\<lambda>x. x) (List.map (\<lambda>(w, p). Option.bind w g) slots)"
  by (induction slots) (auto simp: map_filter_simps split: option.split)

text \<open>One list of slots, read raw or urgency-lifted: the contract of all three window providers.\<close>

lemma slots_lifted:
  assumes "\<And>w p r. (w, p) \<in> set slots \<Longrightarrow> Option.bind w rem = Some r \<Longrightarrow> percent_ok r \<and> wf64 r"
  shows "rel_option lifted
     (f_min_by_total (List.map_filter (\<lambda>(w, p). Option.bind w rem) slots))
     (f_min_by_total (List.map_filter
        (\<lambda>(w, p). Option.bind w (\<lambda>w. map_option (\<lambda>r. urgent_remaining r (seconds_until now (reset w)) p) (rem w)))
        slots))"
proof -
  let ?rows = "List.map_filter (\<lambda>(w, p). Option.bind w (\<lambda>w. map_option (\<lambda>r. (r, reset w, p)) (rem w))) slots"
  let ?lo = "\<lambda>(r, t, p). r :: f64" and ?hi = "\<lambda>(r, t, p). urgent_remaining r (seconds_until now t) p"
  have lo: "List.map ?lo ?rows = List.map_filter (\<lambda>(w, p). Option.bind w rem) slots"
    unfolding map_filter_map
    by (rule map_filter_cong) (auto simp: option.map_comp o_def option.map_ident split: Option.bind_split)
  have hi: "List.map ?hi ?rows = List.map_filter (\<lambda>(w, p). Option.bind w
      (\<lambda>w. map_option (\<lambda>r. urgent_remaining r (seconds_until now (reset w)) p) (rem w))) slots"
    unfolding map_filter_map
    by (rule map_filter_cong) (auto simp: option.map_comp o_def split: Option.bind_split)
  have "lifted (?lo row) (?hi row)" if "row \<in> set ?rows" for row
    using that assms
    by (force simp: List.map_filter_def image_iff bind_eq_Some_conv intro!: urgent_window split: if_splits)
  then show ?thesis using min_lifted [of ?rows ?lo ?hi] by (simp add: lo hi)
qed

lemma percent_opt_okD: "percent_opt_ok v \<Longrightarrow> v = Some r \<Longrightarrow> percent_ok r \<and> wf64 r"
  by (simp add: percent_opt_ok_def)

lemma command_code_lifted:
  assumes "reported_percents_ok key"
  shows "clamp_lifted (command_code_remaining_percent key) (command_code_weight_percent now key)"
proof (cases "command_code_balance_exhausted key")
  case True
  then show ?thesis
    by (simp add: command_code_remaining_percent_def command_code_weight_percent_def lifted_refl)
next
  case False
  let ?slots = "[(tk_five_hour key, five_hour_seconds), (tk_weekly key, weekly_seconds)]"
  have ok: "percent_ok r \<and> wf64 r" if "(w, p) \<in> set ?slots" "Option.bind w cw_remaining_percent = Some r" for w p r
    using that assms by (auto simp: reported_percents_ok_def dest: percent_opt_okD)
  have "command_code_remaining_percent key =
      f_min_by_total (List.map_filter (\<lambda>(w, p). Option.bind w cw_remaining_percent) ?slots)"
  proof -
    let ?a = "Option.bind (tk_five_hour key) cw_remaining_percent"
    let ?b = "Option.bind (tk_weekly key) cw_remaining_percent"
    have "tighter_window ?a ?b = f_min_by_total (List.map_filter (\<lambda>x. x) [?a, ?b])"
      by (rule tighter_window_min) (use ok in auto)
    then show ?thesis
      using False by (subst map_filter_slots(2)) (simp add: command_code_remaining_percent_def)
  qed
  then show ?thesis
    using slots_lifted [of ?slots cw_remaining_percent now cw_reset_at] ok False
    by (auto simp: command_code_weight_percent_def intro: clamp_liftedI)
qed

lemma complement_ok:
  "percent_opt_ok p \<Longrightarrow> map_option (f_sub (Fin 100)) p = Some r \<Longrightarrow> percent_ok r \<and> wf64 r"
  using f_sub_100 by (auto simp: percent_opt_ok_def split: option.splits)

lemma complement_bind_ok:
  "percent_opt_ok (Option.bind w g) \<Longrightarrow> Option.bind w (\<lambda>w. map_option (f_sub (Fin 100)) (g w)) = Some r \<Longrightarrow>
   percent_ok r \<and> wf64 r"
  by (cases w) (auto dest: complement_ok simp del: map_option_eq_Some)

lemma opencode_go_lifted:
  assumes "reported_percents_ok key"
  shows "clamp_lifted (opencode_go_remaining_percent key) (opencode_go_weight_percent now key)"
proof -
  let ?slots = "[(tk_opencodego_rolling key, five_hour_seconds), (tk_opencodego_weekly key, weekly_seconds),
                 (tk_opencodego_monthly key, monthly_seconds)]"
  let ?rem = "\<lambda>w. map_option (f_sub (Fin 100)) (ow_percent w)"
  have ok: "percent_ok r \<and> wf64 r" if "(w, p) \<in> set ?slots" "Option.bind w ?rem = Some r" for w p r
    using complement_bind_ok [OF _ that(2)] that(1) assms by (auto simp: reported_percents_ok_def)
  have "rel_option lifted (f_min_by_total (List.map_filter (\<lambda>(w, p). Option.bind w ?rem) ?slots))
      (opencode_go_weight_percent now key)"
    using slots_lifted [of ?slots ?rem now ow_resets_at] ok
    by (simp add: opencode_go_weight_percent_def option.map_comp o_def)
  moreover have "List.map_filter (\<lambda>(w, p). Option.bind w ?rem) ?slots =
      List.map_filter (\<lambda>w. Option.bind w ?rem)
        [tk_opencodego_rolling key, tk_opencodego_weekly key, tk_opencodego_monthly key]"
    by (subst map_filter_slots(1)) simp
  ultimately show ?thesis
    unfolding opencode_go_remaining_percent_def by (intro clamp_lifted_clamp) simp
qed

lemma glm_lifted:
  assumes "reported_percents_ok key"
  shows "clamp_lifted (glm_remaining_percent key) (glm_weight_percent now key)"
proof -
  let ?slots = "[(tk_glm_five_hour key, five_hour_seconds), (tk_glm_weekly key, weekly_seconds)]"
  let ?rem = "\<lambda>w. map_option (f_sub (Fin 100)) (gw_percentage w)"
  have ok: "percent_ok r \<and> wf64 r" if "(w, p) \<in> set ?slots" "Option.bind w ?rem = Some r" for w p r
    using complement_bind_ok [OF _ that(2)] that(1) assms by (auto simp: reported_percents_ok_def)
  have cl: "Option.bind w (\<lambda>w. map_option (\<lambda>used. f_clamp (Fin 0) (Fin 100) (f_sub (Fin 100) used)) (gw_percentage w)) =
      Option.bind w ?rem" if "percent_opt_ok (Option.bind w gw_percentage)" for w
    using complement_bind_ok [OF that]
    by (cases w; cases "Option.bind w gw_percentage") (auto simp: percent_ok_iff f_clamp_def)
  have "glm_remaining_percent key = f_min_by_total (List.map_filter (\<lambda>(w, p). Option.bind w ?rem) ?slots)"
    unfolding glm_remaining_percent_def
    by (subst map_filter_slots(1), rule arg_cong [of _ _ f_min_by_total], simp only: list.map fst_conv,
        rule map_filter_cong, rule cl) (use assms in \<open>auto simp: reported_percents_ok_def\<close>)
  then show ?thesis
    using slots_lifted [of ?slots ?rem now gw_next_reset_at] ok
    by (simp add: glm_weight_percent_def option.map_comp o_def clamp_liftedI)
qed

lemma clamp_lifted_or:
  "clamp_lifted a b \<Longrightarrow> clamp_lifted c d \<Longrightarrow> clamp_lifted (opt_or a c) (opt_or b d)"
  by (cases a; cases b) auto

lemma provider_lifted:
  assumes "reported_percents_ok key"
  shows "rel_option lifted (provider_remaining_percent key) (provider_weight_percent now key)"
  unfolding provider_remaining_percent_def provider_weight_percent_def option.rel_map
  by (intro clamp_lifted_or command_code_lifted opencode_go_lifted glm_lifted assms openrouter_lifted
      deepseek_lifted)

text \<open>
  Urgency never decides eligibility. For every key whose parsers reported percents in
  [0, 100], the urgency-lifted weight exists exactly when the raw remaining percent does; it
  lies between the raw remaining and 100; and it is zero exactly when the raw remaining is: a
  spent window is not revived by an approaching reset, and a live one is never starved by it.\<close>

theorem provider_weight_lifts:
  assumes "reported_percents_ok key"
  shows "(case (provider_remaining_percent key, provider_weight_percent now key) of
            (None, None) \<Rightarrow> True
          | (Some r, Some w) \<Rightarrow>
              percent_ok r \<and> percent_ok w \<and> f_le r w \<and> (w = Fin 0 \<longleftrightarrow> r = Fin 0)
          | _ \<Rightarrow> False)"
  using provider_lifted [OF assms, of now]
  by (cases "provider_remaining_percent key"; cases "provider_weight_percent now key")
    (auto simp: lifted_def)


definition demo_key :: token_plan_key_usage where
  "demo_key =
     (failed_key 5 ''k'' None None ''m'')
       \<lparr>tk_ok := True,
        tk_five_hour := Some \<lparr>cw_used = Fin 3, cw_cap = Fin 4, cw_used_percent = Some (Fin 75),
                              cw_remaining_percent = Some (Fin 25), cw_reset_at = Some (sec_ns 9000)\<rparr>,
        tk_weekly := Some \<lparr>cw_used = Fin 1, cw_cap = Fin 2, cw_used_percent = Some (Fin 50),
                           cw_remaining_percent = Some (Fin 50), cw_reset_at = None\<rparr>\<rparr>"

lemma wf64_nat: "n \<le> 2 ^ 53 \<Longrightarrow> wf64 (Fin (of_nat n))"
  using wf64_of_int [of "int n"] by simp

lemma demo_key_ok: "reported_percents_ok demo_key"
  using wf64_nat [of 25] wf64_nat [of 50]
  by (simp add: demo_key_def failed_key_def reported_percents_ok_def percent_opt_ok_def percent_ok_def)

lemma provider_weight_lifts_witness:
  "provider_remaining_percent demo_key = Some (Fin 25) \<and>
   (\<exists>w. provider_weight_percent 0 demo_key = Some w \<and> f_le (Fin 25) w \<and> w \<noteq> Fin 0)"
proof -
  have r: "provider_remaining_percent demo_key = Some (Fin 25)" by code_simp
  show ?thesis
    using provider_weight_lifts [OF demo_key_ok, of 0] by (auto simp: r split: option.splits)
qed

subsection \<open>Backpressure\<close>

definition backpressure_divisor :: "nat \<Rightarrow> f64" where
  "backpressure_divisor draws = f_add (Fin 1) (f_mul (f_of_nat draws) reservation_backpressure_per_draw)"

lemma backpressure_divisor_mono:
  assumes "d \<le> e" "e \<le> max_backpressure_draws"
  shows "\<exists>x y. backpressure_divisor d = Fin x \<and> backpressure_divisor e = Fin y \<and>
               1 \<le> x \<and> x \<le> y \<and> y \<le> 10001"
proof -
  obtain c where c: "fround (1 / 10) = Fin c" "0 \<le> c" "c \<le> 1"
    using fround_between [of "1 / 10" 1] by auto
  have n: "f_of_nat k = Fin (of_nat k)" if "k \<le> max_backpressure_draws" for k
    using that fround_of_int [of "int k"] by (simp add: f_of_nat_def max_backpressure_draws_def)
  have bound: "\<exists>m. fround (of_nat k * c) = Fin m \<and> 0 \<le> m \<and> m \<le> 10000" if "k \<le> max_backpressure_draws" for k
  proof (rule fround_between)
    have "(of_nat k :: rat) \<le> of_nat 10000" using that unfolding of_nat_le_iff by (simp add: max_backpressure_draws_def)
    then show "of_nat k * c \<le> 10000" using c mult_mono [of "of_nat k" "10000 :: rat" c 1] by simp
    show "wf64 (Fin 10000)" using wf64_nat [of 10000] by simp
  qed (use c in simp)
  obtain m m' where m: "fround (of_nat d * c) = Fin m" "0 \<le> m" "m \<le> 10000"
      and m': "fround (of_nat e * c) = Fin m'" "0 \<le> m'" "m' \<le> 10000"
    using bound [of d] bound [of e] assms by auto
  have "of_nat d * c \<le> of_nat e * c" using assms(1) c by (intro mult_right_mono) auto
  then have mm: "m \<le> m'" using fround_mono [of "of_nat d * c" "of_nat e * c"] m m' by simp
  obtain x where x: "fround (1 + m) = Fin x" "x \<le> 10001"
    using fround_between [of "1 + m" 10001] wf64_nat [of 10001] m by auto
  obtain y where y: "fround (1 + m') = Fin y" "y \<le> 10001"
    using fround_between [of "1 + m'" 10001] wf64_nat [of 10001] m' by auto
  have "1 \<le> x" using fround_ge_repr [of 1 "1 + m"] m x by simp
  moreover have "x \<le> y" using fround_mono [of "1 + m" "1 + m'"] mm x y by simp
  ultimately show ?thesis
    using x y n [of d] n [of e] assms m m' c
    by (simp add: backpressure_divisor_def reservation_backpressure_per_draw_def)
qed

lemma apply_backpressure_div:
  "0 < draws \<Longrightarrow> apply_reservation_backpressure r draws =
     clamp_percent (f_div (clamp_percent r) (backpressure_divisor (min draws max_backpressure_draws)))"
  by (simp add: apply_reservation_backpressure_def backpressure_divisor_def)

lemma damped_le:
  assumes "0 \<le> q" "q \<le> 100" "wf64 (Fin q)" "1 \<le> x" "x \<le> y"
  shows "f_le (clamp_percent (f_div (Fin q) (Fin y))) (clamp_percent (f_div (Fin q) (Fin x))) \<and>
         f_le (clamp_percent (f_div (Fin q) (Fin x))) (Fin q)"
proof -
  have qx: "0 \<le> q / x" "q / x \<le> q" and qy: "0 \<le> q / y"
    using assms mult_left_mono [of 1 x q] by (auto simp: divide_le_eq)
  have yx: "q / y \<le> q / x" using assms by (intro frac_le) auto
  obtain a where a: "fround (q / x) = Fin a" "0 \<le> a" "a \<le> q"
    using fround_between [OF qx assms(3)] by auto
  have "q / y \<le> q" using qx yx by simp
  then obtain b where b: "fround (q / y) = Fin b" "0 \<le> b" "b \<le> q"
    using fround_between [OF qy _ assms(3)] by auto
  have "b \<le> a" using fround_mono [OF yx] a b by simp
  then show ?thesis using a b assms by (simp add: clamp_percent_def f_clamp_def)
qed

lemma damped_pos:
  assumes "1 / 2 ^ 1000 \<le> q" "q \<le> 100" "wf64 (Fin q)" "1 \<le> y" "y \<le> 10001"
  shows "f_lt (Fin 0) (clamp_percent (f_div (Fin q) (Fin y)))"
proof -
  have q: "0 \<le> q" using assms(1) order_trans [of 0 "1 / 2 ^ 1000 :: rat" q] by simp
  have s: "fround (of_int 1 * 2 powi (- 1014)) = Fin (of_int 1 * 2 powi (- 1014))"
  proof (rule fround_repr [where m = 1 and k = "- 1014"])
    have "(2 :: rat) powi (- 1014) \<le> 2 powi 0" unfolding powi_le_iff by simp
    also have "(2 :: rat) powi 0 < 2 ^ 1024" by simp
    finally show "\<bar>of_int 1 * (2 :: rat) powi (- 1014)\<bar> < 2 ^ 1024" by simp
  qed simp_all
  define h :: rat where "h = 1 / 2 ^ 1000"
  have e: "(- 1014 :: int) = - int (1000 + 14)" by simp
  have "(1 :: rat) * 2 powi (- 1014) = h / 2 ^ 14"
    unfolding e power_int_minus power_int_of_nat power_add h_def
    by (simp only: inverse_eq_divide divide_divide_eq_left mult_1_left)
  also have "\<dots> \<le> h / 10001" unfolding h_def by (intro divide_left_mono) simp_all
  also have "h / 10001 = (1 / 2 ^ 1000) / 10001" by (simp only: h_def)
  also have "\<dots> \<le> q / y" using assms by (intro frac_le) auto
  finally have "f_le (Fin (2 powi (- 1014))) (fround (q / y))"
    using s by (intro fround_ge_repr) (simp_all add: wf64_def)
  moreover have "(0 :: rat) < 2 powi (- 1014)" by simp
  moreover have "q / y \<le> q" using q assms mult_left_mono [of 1 y q] by (simp add: divide_le_eq)
  then obtain b where "fround (q / y) = Fin b" "0 \<le> b" "b \<le> q"
    using fround_between [of "q / y" q] q assms by auto
  ultimately show ?thesis using assms by (auto simp: clamp_percent_def f_clamp_def)
qed

lemma backpressure_core:
  assumes "wf64 r" and "draws \<le> draws'"
  shows "percent_ok (apply_reservation_backpressure r draws') \<and>
         f_le (apply_reservation_backpressure r draws') (apply_reservation_backpressure r draws) \<and>
         f_le (apply_reservation_backpressure r draws) (clamp_percent r) \<and>
         (f_le (Fin (1 / 2 ^ 1000)) (clamp_percent r) \<longrightarrow>
            f_lt (Fin 0) (apply_reservation_backpressure r draws'))"
proof -
  obtain q where q: "clamp_percent r = Fin q" "0 \<le> q" "q \<le> 100"
    using clamp_percent_ok [of r] by (auto simp: percent_ok_iff)
  have wq: "wf64 (Fin q)" using clamp_percent_wf [OF assms(1)] q by simp
  obtain x y where xy: "backpressure_divisor (min draws max_backpressure_draws) = Fin x"
      "backpressure_divisor (min draws' max_backpressure_draws) = Fin y" "1 \<le> x" "x \<le> y" "y \<le> 10001"
    using backpressure_divisor_mono [of "min draws max_backpressure_draws" "min draws' max_backpressure_draws"]
      min.mono [OF assms(2) order_refl] by (blast intro: min.cobounded2)
  have pos: "f_lt (Fin 0) (clamp_percent (f_div (Fin q) (Fin y)))" if "1 / 2 ^ 1000 \<le> q"
    by (rule damped_pos [OF that]) (use q wq xy in auto)
  have q0: "f_lt (Fin 0) (Fin q)" if "1 / 2 ^ 1000 \<le> q"
    using that less_le_trans [of 0 "1 / 2 ^ 1000 :: rat" q] by simp
  have le: "f_le (clamp_percent (f_div (Fin q) (Fin y))) (clamp_percent (f_div (Fin q) (Fin x)))"
    "f_le (clamp_percent (f_div (Fin q) (Fin x))) (Fin q)"
    using damped_le [OF q(2,3) wq xy(3,4)] by auto
  have r0: "apply_reservation_backpressure r 0 = Fin q" by (simp add: apply_reservation_backpressure_def q)
  have rd: "0 < draws \<Longrightarrow> apply_reservation_backpressure r draws = clamp_percent (f_div (Fin q) (Fin x))"
    "0 < draws' \<Longrightarrow> apply_reservation_backpressure r draws' = clamp_percent (f_div (Fin q) (Fin y))"
    by (simp_all add: apply_backpressure_div xy q)
  have yq: "f_le (clamp_percent (f_div (Fin q) (Fin y))) (Fin q)" using le f_le_trans by blast
  consider "draws' = 0" "draws = 0" | "0 < draws'" "draws = 0" | "0 < draws'" "0 < draws"
    using assms(2) by auto
  then show ?thesis
  proof cases
    case 1
    then show ?thesis using q q0 by (simp add: r0 percent_ok_iff del: f_lt.simps)
  next
    case 2
    then show ?thesis using yq pos by (simp add: r0 rd q del: f_div.simps f_lt.simps)
  next
    case 3
    then show ?thesis using le pos by (simp add: rd q del: f_div.simps f_lt.simps)
  qed
qed

text \<open>
  Reservations only damp a weight and never beyond reason: the damped weight is a percent,
  is at most the weight itself, falls (weakly) with every further draw, and stays positive
  under any number of draws as long as the weight is at least 2^-1000 percent.\<close>

theorem backpressure_damps:
  assumes "wf64 r" and "draws \<le> draws'"
  shows "percent_ok (apply_reservation_backpressure r draws') \<and>
         f_le (apply_reservation_backpressure r draws') (apply_reservation_backpressure r draws) \<and>
         f_le (apply_reservation_backpressure r draws) (clamp_percent r) \<and>
         (f_le (Fin (1 / 2 ^ 1000)) (clamp_percent r) \<longrightarrow>
            f_lt (Fin 0) (apply_reservation_backpressure r draws'))"
  using assms by (rule backpressure_core)

lemma backpressure_damps_witness:
  "f_lt (Fin 0) (apply_reservation_backpressure (Fin 100) 123456) \<and>
   f_le (apply_reservation_backpressure (Fin 100) 123456) (apply_reservation_backpressure (Fin 100) 10)"
proof -
  have "f_le (Fin (1 / 2 ^ 1000)) (Fin 100)" by simp
  then show ?thesis
    using backpressure_damps [of "Fin 100" 10 123456]
    by (simp add: percent_ok_iff del: f_lt.simps)
qed

end
