(* ===== verification/QuotaCanonical.thy ===== *)
theory QuotaCanonical
  imports QuotaWeight
begin

text \<open>
  The canonical quota observations of \<open>src/worker_admin/quota_canonical.rs\<close>: one row per
  provider slot, model or currency. \<open>str::to_uppercase\<close> (full Unicode) is the parameter
  \<open>upper\<close>.

  The lemmas show that no row carries a made-up figure: balances never have a percentage, a
  percentage or amount is finite, and a row is known exactly when it carries a figure.
\<close>

definition finite_opt :: "f64 option \<Rightarrow> f64 option" where
  "finite_opt value = opt_filter is_finite value"

definition remaining_from_used :: "f64 option \<Rightarrow> f64 option" where
  "remaining_from_used used_percent =
     map_option (\<lambda>used. f_clamp (Fin 0) (Fin 100) (f_sub (Fin 100) used)) (finite_opt used_percent)"

definition known :: "f64 option \<Rightarrow> subscription_window_availability" where
  "known remaining_percent = (if remaining_percent \<noteq> None then AvKnown else AvUnknown)"

definition known_balance ::
    "f64 option \<Rightarrow> f64 option \<Rightarrow> f64 option \<Rightarrow> subscription_window_availability" where
  "known_balance current limit remaining =
     (if current \<noteq> None \<or> limit \<noteq> None \<or> remaining \<noteq> None then AvKnown else AvUnknown)"

record window_identity =
  wi_source_id :: string
  wi_kind :: canonical_quota_window_kind
  wi_source_model :: "string option"
  wi_unit :: "string option"
  wi_duration_seconds :: "int option"
  wi_is_default_scope :: bool

record window_amounts =
  wa_remaining_percent :: "f64 option"
  wa_current :: "f64 option"
  wa_limit :: "f64 option"
  wa_remaining :: "f64 option"
  wa_reset_at :: "datetime option"

definition window_row :: "window_identity \<Rightarrow> window_amounts \<Rightarrow> canonical_quota_window" where
  "window_row identity amounts =
     (let remaining_percent = finite_opt (wa_remaining_percent amounts);
          current = finite_opt (wa_current amounts);
          limit = finite_opt (wa_limit amounts);
          remaining = finite_opt (wa_remaining amounts)
      in \<lparr>qw_source_id = wi_source_id identity,
          qw_kind = wi_kind identity,
          qw_source_model = wi_source_model identity,
          qw_unit = wi_unit identity,
          qw_duration_seconds = wi_duration_seconds identity,
          qw_is_default_scope = wi_is_default_scope identity,
          qw_availability =
            (if remaining_percent \<noteq> None then AvKnown else known_balance current limit remaining),
          qw_remaining_percent = remaining_percent,
          qw_current = current,
          qw_limit = limit,
          qw_remaining = remaining,
          qw_reset_at = wa_reset_at amounts\<rparr>)"

definition balance_row ::
    "string \<Rightarrow> string option \<Rightarrow> f64 option \<Rightarrow> f64 option \<Rightarrow> f64 option \<Rightarrow> canonical_quota_window" where
  "balance_row source_id unit' current limit remaining =
     (let current = finite_opt current; limit = finite_opt limit; remaining = finite_opt remaining
      in \<lparr>qw_source_id = source_id, qw_kind = KBalance, qw_source_model = None, qw_unit = unit',
          qw_duration_seconds = None, qw_is_default_scope = True,
          qw_availability = known_balance current limit remaining,
          qw_remaining_percent = None, qw_current = current, qw_limit = limit,
          qw_remaining = remaining, qw_reset_at = None\<rparr>)"

text \<open>A loop over \<open>(slot, kind, window)\<close> triples that pushes a row per present window.\<close>

definition slot_rows ::
    "('s \<Rightarrow> canonical_quota_window_kind \<Rightarrow> 'w \<Rightarrow> canonical_quota_window) \<Rightarrow>
     ('s \<times> canonical_quota_window_kind \<times> 'w option) list \<Rightarrow> canonical_quota_window list" where
  "slot_rows row slots =
     List.map_filter (\<lambda>(slot, kind, window). map_option (row slot kind) window) slots"

definition glm_fallback_observations :: "token_plan_key_usage \<Rightarrow> canonical_quota_window list" where
  "glm_fallback_observations key =
     slot_rows
       (\<lambda>slot kind window.
          let remaining_percent =
                map_option (\<lambda>used. f_clamp (Fin 0) (Fin 100) (f_sub (Fin 100) used))
                  (finite_opt (gw_percentage window))
          in \<lparr>qw_source_id = slot, qw_kind = kind, qw_source_model = None, qw_unit = None,
              qw_duration_seconds = None, qw_is_default_scope = True,
              qw_availability = known remaining_percent, qw_remaining_percent = remaining_percent,
              qw_current = None, qw_limit = None, qw_remaining = None,
              qw_reset_at = gw_next_reset_at window\<rparr>)
       [(''glm:five_hour'', KFiveHour, tk_glm_five_hour key), (''glm:weekly'', KWeekly, tk_glm_weekly key)]"

record glm_row =
  gr_slot :: string
  gr_kind :: canonical_quota_window_kind
  gr_row_type :: "string option"
  gr_current :: "f64 option"
  gr_limit :: "f64 option"
  gr_remaining :: "f64 option"
  gr_percentage :: "f64 option"
  gr_reset_at :: "datetime option"

definition glm_observation :: "glm_row \<Rightarrow> canonical_quota_window" where
  "glm_observation row =
     (let unit' = (if gr_row_type row = Some ''TOKENS_LIMIT'' then Some ''tokens''
                   else if gr_row_type row = Some ''CREDIT_LIMIT'' then Some ''credits''
                   else None)
      in window_row
           \<lparr>wi_source_id = gr_slot row, wi_kind = gr_kind row, wi_source_model = None,
            wi_unit = unit', wi_duration_seconds = None, wi_is_default_scope = True\<rparr>
           \<lparr>wa_remaining_percent = remaining_from_used (gr_percentage row),
            wa_current = gr_current row, wa_limit = gr_limit row, wa_remaining = gr_remaining row,
            wa_reset_at = gr_reset_at row\<rparr>)"

definition command_code_window_observations :: "token_plan_key_usage \<Rightarrow> canonical_quota_window list" where
  "command_code_window_observations key =
     slot_rows
       (\<lambda>slot kind window.
          let current = finite_opt (Some (cw_used window));
              cap = finite_opt (Some (cw_cap window));
              derived_remaining =
                (case (current, cap) of (Some used, Some cap) \<Rightarrow> Some (f_sub cap used) | _ \<Rightarrow> None)
          in window_row
               \<lparr>wi_source_id = slot, wi_kind = kind, wi_source_model = None,
                wi_unit = Some ''currency'', wi_duration_seconds = None, wi_is_default_scope = True\<rparr>
               \<lparr>wa_remaining_percent = cw_remaining_percent window, wa_current = current,
                wa_limit = cap, wa_remaining = derived_remaining, wa_reset_at = cw_reset_at window\<rparr>)
       [(''command_code:five_hour'', KFiveHour, tk_five_hour key),
        (''command_code:weekly'', KWeekly, tk_weekly key)] @
     (case tk_balances key of
        None \<Rightarrow> []
      | Some balances \<Rightarrow>
          let current = finite_opt (Some (cb_remaining_credits balances));
              limit = finite_opt (Some (f_add (f_add (cb_monthly_credits balances)
                        (cb_purchased_credits balances)) (cb_free_credits balances)))
          in [balance_row ''command_code:balances'' (Some ''credits'') current limit current])"

definition opencode_go_observations :: "token_plan_key_usage \<Rightarrow> canonical_quota_window list" where
  "opencode_go_observations key =
     slot_rows
       (\<lambda>slot kind window.
          window_row
            \<lparr>wi_source_id = slot, wi_kind = kind, wi_source_model = None, wi_unit = None,
             wi_duration_seconds = None, wi_is_default_scope = True\<rparr>
            \<lparr>wa_remaining_percent = map_option (\<lambda>used. f_sub (Fin 100) used) (ow_percent window),
             wa_current = None, wa_limit = None, wa_remaining = None,
             wa_reset_at = ow_resets_at window\<rparr>)
       [(''opencode_go:rolling'', KRolling, tk_opencodego_rolling key),
        (''opencode_go:weekly'', KWeekly, tk_opencodego_weekly key),
        (''opencode_go:monthly'', KMonthly, tk_opencodego_monthly key)]"

definition openrouter_observations :: "token_plan_key_usage \<Rightarrow> canonical_quota_window list" where
  "openrouter_observations key =
     (case tk_openrouter_balance key of
        None \<Rightarrow> []
      | Some balance \<Rightarrow>
          let limit = finite_opt (ob_limit balance);
              remaining = finite_opt (ob_limit_remaining balance)
          in
            (case limit of
               Some cap \<Rightarrow>
                 if f_lt (Fin 0) cap
                 then [balance_row ''openrouter:balance'' (Some ''credits'') remaining limit remaining]
                 else [balance_row ''openrouter:balance'' (Some ''credits'') (Some (Fin 0)) limit (Some (Fin 0))]
             | None \<Rightarrow>
                 if tk_openrouter_spend key \<noteq> None then
                   [\<lparr>qw_source_id = ''openrouter:unlimited'', qw_kind = KUnlimited, qw_source_model = None,
                     qw_unit = Some ''credits'', qw_duration_seconds = None, qw_is_default_scope = True,
                     qw_availability = AvKnown, qw_remaining_percent = None, qw_current = None,
                     qw_limit = None, qw_remaining = None, qw_reset_at = None\<rparr>]
                 else []))"

definition deepseek_observations ::
    "(string \<Rightarrow> string) \<Rightarrow> token_plan_key_usage \<Rightarrow> canonical_quota_window list" where
  "deepseek_observations upper key =
     (case tk_deepseek_balance key of
        None \<Rightarrow> []
      | Some balance \<Rightarrow>
          List.map
            (\<lambda>entry.
               let current = finite_opt (dc_total_balance entry);
                   remaining = finite_opt (dc_total_balance entry)
               in \<lparr>qw_source_id = ''deepseek:'' @ upper (dc_currency entry), qw_kind = KBalance,
                   qw_source_model = None, qw_unit = Some (upper (dc_currency entry)),
                   qw_duration_seconds = None, qw_is_default_scope = True,
                   qw_availability = known_balance current None remaining,
                   qw_remaining_percent = None, qw_current = current, qw_limit = None,
                   qw_remaining = remaining, qw_reset_at = None\<rparr>)
            (db_balances balance))"

definition is_default_minimax_model :: "string \<Rightarrow> bool" where
  "is_default_minimax_model model_name = eq_ignore_ascii_case (trim model_name) ''general''"

definition minimax_model_rows :: "token_plan_model_usage \<Rightarrow> canonical_quota_window list" where
  "minimax_model_rows model =
     (if tm_windows model \<noteq> None then []
      else
        slot_rows
          (\<lambda>slot kind window.
             let limit = map_option f_of_int (tw_total_count window);
                 current = map_option f_of_int (tw_usage_count window);
                 derived_remaining =
                   (case (finite_opt limit, finite_opt current) of
                      (Some cap, Some used) \<Rightarrow> Some (f_sub cap used)
                    | _ \<Rightarrow> None)
             in window_row
                  \<lparr>wi_source_id = ''minimax:'' @ tm_model_name model @ '':'' @ slot, wi_kind = kind,
                   wi_source_model = Some (tm_model_name model), wi_unit = Some ''tokens'',
                   wi_duration_seconds = None,
                   wi_is_default_scope = is_default_minimax_model (tm_model_name model)\<rparr>
                  \<lparr>wa_remaining_percent = tw_remaining_percent window,
                   wa_current = finite_opt current, wa_limit = finite_opt limit,
                   wa_remaining = finite_opt derived_remaining, wa_reset_at = tw_end_at window\<rparr>)
          [(''interval'', KFiveHour, tm_interval model), (''weekly'', KWeekly, tm_weekly model)])"

definition minimax_observations :: "token_plan_key_usage \<Rightarrow> canonical_quota_window list" where
  "minimax_observations key = concat (List.map minimax_model_rows (tk_model_remains key))"

definition subscription_observations :: "token_plan_key_usage \<Rightarrow> canonical_quota_window list" where
  "subscription_observations key =
     concat (List.map
       (\<lambda>model. case tm_windows model of
          None \<Rightarrow> []
        | Some windows \<Rightarrow>
            List.map
              (\<lambda>window.
                 window_row
                   \<lparr>wi_source_id = ''subscription:'' @ sw_source_window window, wi_kind = KCustom,
                    wi_source_model = Some (tm_model_name model), wi_unit = None,
                    wi_duration_seconds = sw_window_seconds window, wi_is_default_scope = True\<rparr>
                   \<lparr>wa_remaining_percent = sw_remaining_percent window, wa_current = None,
                    wa_limit = None, wa_remaining = None, wa_reset_at = sw_reset_at window\<rparr>)
              windows)
       (tk_model_remains key))"

definition observations_for_key ::
    "(string \<Rightarrow> string) \<Rightarrow> endpoint_provider \<Rightarrow> token_plan_key_usage \<Rightarrow> canonical_quota_window list option" where
  "observations_for_key upper provider key =
     (if \<not> tk_ok key then None
      else Some
        (case provider of
           PMinimax \<Rightarrow> minimax_observations key
         | PCommandCode \<Rightarrow> command_code_window_observations key
         | POpencodeGo \<Rightarrow> opencode_go_observations key
         | POpenRouter \<Rightarrow> openrouter_observations key
         | PGlm \<Rightarrow> glm_fallback_observations key
         | PDeepSeek \<Rightarrow> deepseek_observations upper key
         | POpenAi \<Rightarrow> subscription_observations key
         | PGeneric \<Rightarrow> subscription_observations key))"

definition populate_key_observations ::
    "(string \<Rightarrow> string) \<Rightarrow> endpoint_provider \<Rightarrow> token_plan_key_usage \<Rightarrow> token_plan_key_usage" where
  "populate_key_observations upper provider key =
     (if \<not> tk_ok key then key\<lparr>tk_quota_windows := None\<rparr>
      else if tk_quota_windows key \<noteq> None then key
      else key\<lparr>tk_quota_windows := observations_for_key upper provider key\<rparr>)"

definition populate_response_observations ::
    "(string \<Rightarrow> string) \<Rightarrow> endpoint_provider \<Rightarrow> token_plan_usage_response \<Rightarrow> token_plan_usage_response" where
  "populate_response_observations upper provider response =
     response\<lparr>tr_keys := List.map (populate_key_observations upper provider) (tr_keys response)\<rparr>"

subsection \<open>Honest rows\<close>

definition finite_or_none :: "f64 option \<Rightarrow> bool" where
  "finite_or_none v = (case v of None \<Rightarrow> True | Some x \<Rightarrow> is_finite x)"

definition row_has_figure :: "canonical_quota_window \<Rightarrow> bool" where
  "row_has_figure row \<longleftrightarrow>
     qw_remaining_percent row \<noteq> None \<or> qw_current row \<noteq> None \<or> qw_limit row \<noteq> None \<or>
     qw_remaining row \<noteq> None"

definition honest_row :: "canonical_quota_window \<Rightarrow> bool" where
  "honest_row row \<longleftrightarrow>
     finite_or_none (qw_remaining_percent row) \<and> finite_or_none (qw_current row) \<and>
     finite_or_none (qw_limit row) \<and> finite_or_none (qw_remaining row) \<and>
     \<not> ((qw_kind row = KBalance \<or> qw_kind row = KUnlimited) \<and> qw_remaining_percent row \<noteq> None) \<and>
     (if qw_kind row = KUnlimited then qw_availability row = AvKnown
      else qw_availability row = AvKnown \<longleftrightarrow> row_has_figure row)"

lemma finite_or_none_filter [simp]: "finite_or_none (finite_opt v)" "finite_or_none None"
  by (cases v; simp add: finite_or_none_def finite_opt_def)+

lemma finite_opt_idem [simp]: "finite_opt (finite_opt v) = finite_opt v"
  by (cases v) (auto simp: finite_opt_def)

lemma known_balance_iff: "known_balance a b c = AvKnown \<longleftrightarrow> a \<noteq> None \<or> b \<noteq> None \<or> c \<noteq> None"
  by (simp add: known_balance_def)

lemma honest_window_row:
  "wi_kind i \<noteq> KBalance \<Longrightarrow> wi_kind i \<noteq> KUnlimited \<Longrightarrow> honest_row (window_row i a)"
  by (auto simp: honest_row_def window_row_def Let_def row_has_figure_def known_balance_iff)

lemma honest_balance_row: "honest_row (balance_row i u c l r)"
  by (auto simp: honest_row_def balance_row_def Let_def row_has_figure_def known_balance_iff)

lemma set_slot_rows:
  "set (slot_rows row slots) = {row s k w | s k w. (s, k, Some w) \<in> set slots}"
  by (induction slots) (auto simp: slot_rows_def split: option.splits)

lemma slot_rows_honest:
  assumes "\<And>s k w. (s, k, Some w) \<in> set slots \<Longrightarrow> honest_row (row s k w)" "r \<in> set (slot_rows row slots)"
  shows "honest_row r"
  using assms by (auto simp: set_slot_rows)

lemma finite_clamp: "is_finite (f_clamp (Fin 0) (Fin 100) x) \<or> x = NaN"
  by (cases x) (auto simp: f_clamp_def)

lemma f_sub_fin_ne_NaN: "is_finite u \<Longrightarrow> f_sub (Fin a) u \<noteq> NaN"
  by (cases u) (simp_all add: f_sub_def)

lemma honest_glm_row:
  "r \<in> set (glm_fallback_observations key) \<Longrightarrow> honest_row r"
  unfolding glm_fallback_observations_def
  by (erule slot_rows_honest [rotated])
    (use finite_clamp f_sub_fin_ne_NaN in
      \<open>auto simp: honest_row_def Let_def row_has_figure_def known_def finite_or_none_def finite_opt_def
        split: option.splits\<close>)

lemma honest_command_code_row:
  assumes "r \<in> set (command_code_window_observations key)"
  shows "honest_row r"
  using assms unfolding command_code_window_observations_def set_append
proof (elim UnE)
  assume "r \<in> set (case tk_balances key of None \<Rightarrow> [] | Some balances \<Rightarrow>
      let current = finite_opt (Some (cb_remaining_credits balances));
          limit = finite_opt (Some (f_add (f_add (cb_monthly_credits balances)
                    (cb_purchased_credits balances)) (cb_free_credits balances)))
      in [balance_row ''command_code:balances'' (Some ''credits'') current limit current])"
  then show ?thesis by (cases "tk_balances key") (simp_all add: Let_def honest_balance_row)
qed (erule slot_rows_honest [rotated], unfold Let_def, rule honest_window_row; force)

lemma honest_openrouter_row: "r \<in> set (openrouter_observations key) \<Longrightarrow> honest_row r"
proof (cases "tk_openrouter_balance key")
  case (Some b)
  assume r: "r \<in> set (openrouter_observations key)"
  show ?thesis
  proof (cases "finite_opt (ob_limit b)")
    case None
    then show ?thesis using r Some
      by (cases "tk_openrouter_spend key")
        (simp_all add: openrouter_observations_def honest_row_def row_has_figure_def)
  next
    case (Some cap)
    then show ?thesis using r \<open>tk_openrouter_balance key = _\<close>
      by (cases "f_lt (Fin 0) cap") (simp_all add: openrouter_observations_def Let_def honest_balance_row)
  qed
qed (simp add: openrouter_observations_def)

lemma honest_observation:
  assumes "r \<in> set (the (observations_for_key upper provider key))" "tk_ok key"
  shows "honest_row r"
proof (cases provider)
  case PGlm
  then show ?thesis using assms by (simp add: observations_for_key_def honest_glm_row)
next
  case PDeepSeek
  then show ?thesis using assms
    by (auto simp: observations_for_key_def deepseek_observations_def Let_def honest_row_def
        row_has_figure_def known_balance_iff split: option.splits)
next
  case POpenRouter
  then show ?thesis using assms by (simp add: observations_for_key_def honest_openrouter_row)
next
  case PCommandCode
  then show ?thesis using assms by (simp add: observations_for_key_def honest_command_code_row)
next
  case POpencodeGo
  then show ?thesis using assms
    by (auto simp: observations_for_key_def opencode_go_observations_def set_slot_rows
        intro!: honest_window_row)
next
  case PMinimax
  then show ?thesis using assms
    by (auto simp: observations_for_key_def minimax_observations_def minimax_model_rows_def set_slot_rows
        Let_def intro!: honest_window_row split: if_splits)
qed (use assms in \<open>auto simp: observations_for_key_def subscription_observations_def
        intro!: honest_window_row split: option.splits\<close>)

text \<open>
  C34: The central projection never invents a figure. Whatever a provider's parser delivered,
  every row it adds for a key that had none carries only finite numbers, a balance or
  unlimited row never carries a percentage, and a row says it is known exactly when it carries
  a figure (an unlimited row always does). A failed key ends without rows, a key that has rows
  keeps them, and projecting twice changes nothing more.\<close>

theorem populate_honest:
  "(if \<not> tk_ok key then tk_quota_windows (populate_key_observations upper provider key) = None
    else if tk_quota_windows key \<noteq> None then populate_key_observations upper provider key = key
    else \<exists>rows. tk_quota_windows (populate_key_observations upper provider key) = Some rows \<and>
                list_all honest_row rows) \<and>
   populate_key_observations upper provider (populate_key_observations upper provider key) =
     populate_key_observations upper provider key"
proof -
  have "list_all honest_row rows" if "tk_ok key" "observations_for_key upper provider key = Some rows" for rows
    using that honest_observation [of _ upper provider key] by (auto simp: list_all_iff)
  moreover have "observations_for_key upper provider key \<noteq> None" if "tk_ok key"
    using that by (simp add: observations_for_key_def)
  ultimately show ?thesis by (auto simp: populate_key_observations_def)
qed

end
