(* ===== verification/QuotaFeedback.thy ===== *)
theory QuotaFeedback
  imports Machine
begin

text \<open>
  The process-local quota feedback: \<open>src/worker_admin/quota_feedback.rs\<close>,
  \<open>src/worker_admin/quota_feedback/cooldown.rs\<close> and the probe permit of
  \<open>src/worker/runtime/routing/quota_probe.rs\<close>. A scope (an endpoint and optionally one of
  its keys) that failed is cooling until a deadline; after it, one probe at a time may test
  it. Instants and durations are nanoseconds in \<^typ>\<open>nat\<close>, whose subtraction is
  \<open>saturating_duration_since\<close>. The mutex makes every operation atomic, so an operation is
  one function on the store; \<open>Instant::now()\<close> is its argument \<open>now\<close>.

  The lemmas give the cooldown arithmetic, and, over a machine of any number of concurrent
  callers, that a scope never has two guarded probes in flight and that pruning old entries
  never lifts a cooldown.
\<close>

subsection \<open>State\<close>

definition secs :: "nat \<Rightarrow> nat" where "secs n = n * 1000000000"

definition retention :: nat where "retention = secs 7200"
definition probe_ttl :: nat where "probe_ttl = secs 30"

record quota_feedback_scope =
  qs_endpoint_id :: uuid
  qs_key_id :: "uuid option"

definition feedback_scope_new :: "uuid \<Rightarrow> uuid option \<Rightarrow> quota_feedback_scope" where
  "feedback_scope_new endpoint_id key_id =
     \<lparr>qs_endpoint_id = endpoint_id, qs_key_id = opt_filter (\<lambda>id. id \<noteq> uuid_nil) key_id\<rparr>"

datatype quota_feedback_cause = RateLimited | UpstreamUnavailable | CauseExhausted

datatype quota_feedback_eligibility = FbEligible | FbCooling | FbProbeRequired | FbProbeBusy

datatype quota_probe_reservation = RsvNotRequired | RsvReserved | RsvBusy

record probe_holder =
  ph_scope :: quota_feedback_scope
  ph_start :: nat
  ph_released :: bool

definition holder_new :: "quota_feedback_scope \<Rightarrow> nat \<Rightarrow> probe_holder" where
  "holder_new scope start = \<lparr>ph_scope = scope, ph_start = start, ph_released = False\<rparr>"

datatype quota_probe_claim = QpcNotRequired | QpcReserved probe_holder | QpcBusy

record feedback =
  fb_touched :: nat
  fb_failed_at :: nat
  fb_until :: nat
  fb_strikes :: nat
  fb_cause :: quota_feedback_cause
  fb_probe :: "nat option"

record feedback_state =
  fs_feedback :: "quota_feedback_scope \<rightharpoonup> feedback"
  fs_live_probes :: "quota_feedback_scope \<rightharpoonup> nat list"

definition feedback_empty :: feedback_state where
  "feedback_empty = \<lparr>fs_feedback = Map.empty, fs_live_probes = Map.empty\<rparr>"

subsection \<open>The cooldown of one scope\<close>

definition feedback_new :: "nat \<Rightarrow> quota_feedback_cause \<Rightarrow> feedback" where
  "feedback_new now cause =
     \<lparr>fb_touched = now, fb_failed_at = now, fb_until = now, fb_strikes = 0, fb_cause = cause,
      fb_probe = None\<rparr>"

definition entry_eligibility :: "feedback \<Rightarrow> nat \<Rightarrow> bool \<Rightarrow> quota_feedback_eligibility" where
  "entry_eligibility e now live_probe =
     (if now < fb_until e then FbCooling
      else if live_probe \<or> is_some_and (\<lambda>start. now - start < probe_ttl) (fb_probe e)
      then FbProbeBusy
      else FbProbeRequired)"

definition remaining_until :: "feedback \<Rightarrow> nat \<Rightarrow> nat option" where
  "remaining_until e now =
     (if now < fb_until e then Some (fb_until e - now)
      else opt_filter (\<lambda>remaining. remaining \<noteq> 0)
             (map_option (\<lambda>start. probe_ttl - (now - start)) (fb_probe e)))"

definition u32_max :: nat where "u32_max = 2 ^ 32 - 1"

definition backoff_delay :: "nat \<Rightarrow> nat" where
  "backoff_delay strikes =
     secs (min (min (30 * 2 ^ min (strikes - 1) 4) u64_max) 300)"

definition failure_delay :: "nat option \<Rightarrow> nat \<Rightarrow> nat" where
  "failure_delay retry_after strikes =
     (case retry_after of
        Some delay \<Rightarrow> min delay (secs 3600)
      | None \<Rightarrow> backoff_delay strikes)"

definition fail :: "feedback \<Rightarrow> quota_feedback_cause \<Rightarrow> nat option \<Rightarrow> nat \<Rightarrow> nat \<Rightarrow> feedback" where
  "fail e cause retry_after now attempt_start =
     (let strikes = min (fb_strikes e + 1) u32_max;
          delay = failure_delay retry_after strikes
      in e\<lparr>fb_strikes := strikes,
           fb_cause := cause,
           fb_until := max (fb_until e) (now + delay),
           fb_failed_at := max (fb_failed_at e) now,
           fb_touched := now,
           fb_probe :=
             (if is_some_and (\<lambda>start. start \<le> attempt_start) (fb_probe e) then None
              else fb_probe e)\<rparr>)"

subsection \<open>The store\<close>

definition has_live_probe :: "feedback_state \<Rightarrow> quota_feedback_scope \<Rightarrow> bool" where
  "has_live_probe s scope = is_some_and (\<lambda>tokens. tokens \<noteq> []) (fs_live_probes s scope)"

definition register_live_probe :: "feedback_state \<Rightarrow> quota_feedback_scope \<Rightarrow> nat \<Rightarrow> feedback_state" where
  "register_live_probe s scope token =
     s\<lparr>fs_live_probes :=
         (fs_live_probes s)(scope \<mapsto> opt_or_default [] (fs_live_probes s scope) @ [token])\<rparr>"

definition unregister_live_probe :: "feedback_state \<Rightarrow> quota_feedback_scope \<Rightarrow> nat \<Rightarrow> feedback_state" where
  "unregister_live_probe s scope token =
     (case fs_live_probes s scope of
        None \<Rightarrow> s
      | Some tokens \<Rightarrow>
          let rest = remove1 token tokens in
          s\<lparr>fs_live_probes :=
              (fs_live_probes s)(scope := (if rest = [] then None else Some rest))\<rparr>)"

definition prune :: "nat \<Rightarrow> feedback_state \<Rightarrow> feedback_state" where
  "prune now s =
     s\<lparr>fs_feedback := (\<lambda>scope. opt_filter (\<lambda>e. now - fb_touched e < retention) (fs_feedback s scope))\<rparr>"

definition eligibility ::
    "feedback_state \<Rightarrow> quota_feedback_scope \<Rightarrow> nat \<Rightarrow> feedback_state \<times> quota_feedback_eligibility" where
  "eligibility s scope now =
     (let s = prune now s; live = has_live_probe s scope in
      (s, case fs_feedback s scope of
            Some e \<Rightarrow> entry_eligibility e now live
          | None \<Rightarrow> FbEligible))"

definition active_cooldown ::
    "feedback_state \<Rightarrow> quota_feedback_scope \<Rightarrow> nat \<Rightarrow> (quota_feedback_cause \<times> nat) option" where
  "active_cooldown s scope now =
     (case fs_feedback s scope of
        None \<Rightarrow> None
      | Some e \<Rightarrow>
          if retention \<le> now - fb_touched e then None
          else map_option (\<lambda>remaining. (fb_cause e, remaining)) (remaining_until e now))"

definition mark_probe :: "feedback_state \<Rightarrow> quota_feedback_scope \<Rightarrow> nat \<Rightarrow> feedback_state" where
  "mark_probe s scope now =
     (case fs_feedback s scope of
        None \<Rightarrow> s
      | Some e \<Rightarrow>
          s\<lparr>fs_feedback := (fs_feedback s)(scope \<mapsto> e\<lparr>fb_probe := Some now, fb_touched := now\<rparr>)\<rparr>)"

definition probe_decision ::
    "feedback_state \<Rightarrow> quota_feedback_scope \<Rightarrow> nat \<Rightarrow> quota_probe_reservation" where
  "probe_decision s scope now =
     (case fs_feedback s scope of
        None \<Rightarrow> RsvNotRequired
      | Some e \<Rightarrow>
        (case entry_eligibility e now (has_live_probe s scope) of
           FbEligible \<Rightarrow> RsvNotRequired
         | FbProbeRequired \<Rightarrow> RsvReserved
         | FbCooling \<Rightarrow> RsvBusy
         | FbProbeBusy \<Rightarrow> RsvBusy))"

definition reserve_probe_if_required ::
    "feedback_state \<Rightarrow> quota_feedback_scope \<Rightarrow> nat \<Rightarrow> feedback_state \<times> quota_probe_reservation" where
  "reserve_probe_if_required s scope now =
     (let s = prune now s; decision = probe_decision s scope now in
      (if decision = RsvReserved then mark_probe s scope now else s, decision))"

definition claim_probe_reservation ::
    "feedback_state \<Rightarrow> quota_feedback_scope \<Rightarrow> nat \<Rightarrow> feedback_state \<times> quota_probe_reservation" where
  "claim_probe_reservation s scope now =
     (let s = prune now s; decision = probe_decision s scope now in
      (if decision = RsvReserved then register_live_probe (mark_probe s scope now) scope now else s,
       decision))"

definition claim_probe ::
    "feedback_state \<Rightarrow> quota_feedback_scope \<Rightarrow> nat \<Rightarrow> feedback_state \<times> quota_probe_claim" where
  "claim_probe s scope now =
     (case claim_probe_reservation s scope now of
        (s, RsvNotRequired) \<Rightarrow> (s, QpcNotRequired)
      | (s, RsvReserved) \<Rightarrow> (s, QpcReserved (holder_new scope now))
      | (s, RsvBusy) \<Rightarrow> (s, QpcBusy))"

definition release_probe ::
    "feedback_state \<Rightarrow> quota_feedback_scope \<Rightarrow> nat \<Rightarrow> nat \<Rightarrow> feedback_state" where
  "release_probe s scope attempt_start now =
     (let s = prune now s;
          s = (case fs_feedback s scope of
                 Some e \<Rightarrow>
                   if fb_probe e = Some attempt_start
                   then s\<lparr>fs_feedback := (fs_feedback s)(scope \<mapsto> e\<lparr>fb_probe := None\<rparr>)\<rparr>
                   else s
               | None \<Rightarrow> s)
      in unregister_live_probe s scope attempt_start)"

definition record_failure ::
    "feedback_state \<Rightarrow> quota_feedback_scope \<Rightarrow> quota_feedback_cause \<Rightarrow> nat option \<Rightarrow> nat \<Rightarrow> nat \<Rightarrow>
     feedback_state" where
  "record_failure s scope cause retry_after now attempt_start =
     (let s = prune now s;
          e = opt_or_default (feedback_new now cause) (fs_feedback s scope)
      in s\<lparr>fs_feedback := (fs_feedback s)(scope \<mapsto> fail e cause retry_after now attempt_start)\<rparr>)"

definition record_429 ::
    "feedback_state \<Rightarrow> quota_feedback_scope \<Rightarrow> nat option \<Rightarrow> nat \<Rightarrow> nat \<Rightarrow> feedback_state" where
  "record_429 s scope retry_after now attempt_start =
     record_failure s scope RateLimited retry_after now attempt_start"

definition record_success ::
    "feedback_state \<Rightarrow> quota_feedback_scope \<Rightarrow> nat \<Rightarrow> nat \<Rightarrow> feedback_state" where
  "record_success s scope attempt_start now =
     (let s = prune now s in
      if is_some_and (\<lambda>e. fb_failed_at e \<le> attempt_start) (fs_feedback s scope)
      then s\<lparr>fs_feedback := (fs_feedback s)(scope := None)\<rparr>
      else s)"

subsection \<open>Guards and permits\<close>

text \<open>
  \<open>QuotaProbeGuard\<close> (from \<open>claim_probe\<close>) and \<open>QuotaProbePermit\<close> (the legacy reservation of
  the routing path) hold the scope and the instant of their reservation and a flag that
  makes the release happen once, whether by \<open>release\<close> or by \<open>Drop\<close>.
\<close>

definition holder_release ::
    "feedback_state \<Rightarrow> probe_holder \<Rightarrow> nat \<Rightarrow> feedback_state \<times> probe_holder" where
  "holder_release s h now =
     (if ph_released h then (s, h)
      else (release_probe s (ph_scope h) (ph_start h) now, h\<lparr>ph_released := True\<rparr>))"

datatype probe_claim = ClaimNotRequired | ClaimReserved probe_holder | ClaimLostRace

definition claim_at ::
    "feedback_state \<Rightarrow> quota_feedback_scope \<Rightarrow> nat \<Rightarrow> feedback_state \<times> probe_claim" where
  "claim_at s scope now =
     (case reserve_probe_if_required s scope now of
        (s, RsvNotRequired) \<Rightarrow> (s, ClaimNotRequired)
      | (s, RsvReserved) \<Rightarrow> (s, ClaimReserved (holder_new scope now))
      | (s, RsvBusy) \<Rightarrow> (s, ClaimLostRace))"

subsection \<open>Cooldown arithmetic\<close>

lemmas feedback_time_defs = secs_def retention_def probe_ttl_def

lemma backoff_delay_bounds: "secs 30 \<le> backoff_delay n \<and> backoff_delay n \<le> secs 300"
proof -
  have "(1::nat) \<le> 2 ^ min (n - 1) 4" by simp
  then have "(30::nat) \<le> 30 * 2 ^ min (n - 1) 4" by linarith
  then show ?thesis by (auto simp: backoff_delay_def secs_def u64_max_def)
qed

lemma backoff_delay_step:
  "backoff_delay 1 = secs 30" "backoff_delay 2 = secs 60" "backoff_delay 3 = secs 120"
  "backoff_delay 4 = secs 240" "5 \<le> n \<Longrightarrow> backoff_delay n = secs 300"
proof -
  assume "5 \<le> n"
  then have "min (n - 1) 4 = 4" by simp
  then show "backoff_delay n = secs 300" by (simp add: backoff_delay_def u64_max_def)
qed (simp_all add: backoff_delay_def u64_max_def)

lemma backoff_delay_strike: "backoff_delay (min (Suc n) u32_max) = secs (min (30 * 2 ^ min n 4) 300)"
proof -
  have m: "min (min (Suc n) u32_max - 1) 4 = min n 4" by (simp add: u32_max_def min_def)
  have "(2::nat) ^ min n 4 \<le> 2 ^ 4" by (rule power_increasing) simp_all
  then have "min (30 * 2 ^ min n 4) u64_max = 30 * 2 ^ min n 4" by (simp add: u64_max_def)
  then show ?thesis unfolding backoff_delay_def m by simp
qed

lemma failure_delay_le: "failure_delay retry_after n \<le> secs 3600"
  using backoff_delay_bounds [of n]
  by (auto simp: failure_delay_def secs_def split: option.splits)

lemma fail_sel [simp]:
  "fb_touched (fail e c r now a) = now"
  "fb_cause (fail e c r now a) = c"
  "fb_failed_at (fail e c r now a) = max (fb_failed_at e) now"
  "fb_strikes (fail e c r now a) = min (fb_strikes e + 1) u32_max"
  "fb_until (fail e c r now a) =
     max (fb_until e) (now + failure_delay r (min (fb_strikes e + 1) u32_max))"
  by (simp_all add: fail_def Let_def)

lemma entry_eligibility_cooling_iff: "entry_eligibility e now live = FbCooling \<longleftrightarrow> now < fb_until e"
  by (simp add: entry_eligibility_def)

lemma entry_eligibility_not_eligible: "entry_eligibility e now live \<noteq> FbEligible"
  by (simp add: entry_eligibility_def)

lemma entry_eligibility_live: "entry_eligibility e now True \<noteq> FbProbeRequired"
  by (simp add: entry_eligibility_def)

subsection \<open>The live tokens\<close>

definition tokens :: "feedback_state \<Rightarrow> quota_feedback_scope \<Rightarrow> nat list" where
  "tokens s scope = opt_or_default [] (fs_live_probes s scope)"

lemma has_live_probe_iff: "has_live_probe s scope \<longleftrightarrow> tokens s scope \<noteq> []"
  by (cases "fs_live_probes s scope") (auto simp: has_live_probe_def tokens_def)

lemma tokens_prune [simp]: "tokens (prune now s) = tokens s"
  by (rule ext) (simp add: tokens_def prune_def)

lemma tokens_mark [simp]: "tokens (mark_probe s scope now) = tokens s"
  by (rule ext) (simp add: tokens_def mark_probe_def split: option.splits)

lemma tokens_feedback_update [simp]: "tokens (s\<lparr>fs_feedback := f\<rparr>) = tokens s"
  by (rule ext) (simp add: tokens_def)

lemma tokens_register [simp]:
  "tokens (register_live_probe s scope t) = (tokens s)(scope := tokens s scope @ [t])"
  by (rule ext) (simp add: tokens_def register_live_probe_def)

lemma tokens_unregister [simp]:
  "tokens (unregister_live_probe s scope t) = (tokens s)(scope := remove1 t (tokens s scope))"
  by (rule ext) (auto simp: tokens_def unregister_live_probe_def Let_def split: option.splits)

lemma tokens_release [simp]:
  "tokens (release_probe s scope t now) = (tokens s)(scope := remove1 t (tokens s scope))"
  by (auto simp: release_probe_def Let_def split: option.splits)

lemma tokens_ops [simp]:
  "tokens (record_failure s scope c r now a) = tokens s"
  "tokens (record_success s scope a now) = tokens s"
  "tokens (fst (eligibility s scope now)) = tokens s"
  "tokens (fst (reserve_probe_if_required s scope now)) = tokens s"
  by (auto simp: record_failure_def record_success_def eligibility_def
      reserve_probe_if_required_def Let_def)

lemma has_live_probe_prune [simp]: "has_live_probe (prune now s) = has_live_probe s"
  by (rule ext) (simp add: has_live_probe_iff)

lemma probe_decision_live: "tokens s scope \<noteq> [] \<Longrightarrow> probe_decision s scope now \<noteq> RsvReserved"
  by (auto simp: probe_decision_def has_live_probe_iff [symmetric] entry_eligibility_live
      split: option.splits quota_feedback_eligibility.splits)

lemma claim_probe_cases:
  "claim_probe s scope now =
     (case probe_decision (prune now s) scope now of
        RsvNotRequired \<Rightarrow> (prune now s, QpcNotRequired)
      | RsvReserved \<Rightarrow> (register_live_probe (mark_probe (prune now s) scope now) scope now,
                        QpcReserved (holder_new scope now))
      | RsvBusy \<Rightarrow> (prune now s, QpcBusy))"
  by (simp add: claim_probe_def claim_probe_reservation_def Let_def split: quota_probe_reservation.split)

lemma claim_probe_reservedD:
  assumes "claim_probe s scope now = (s', QpcReserved h)"
  shows "tokens s scope = [] \<and> tokens s' = (tokens s)(scope := [now]) \<and> h = holder_new scope now"
  using assms probe_decision_live [of "prune now s" scope now]
  by (cases "tokens s scope = []") (auto simp: claim_probe_cases split: quota_probe_reservation.splits)

lemma claim_probe_other:
  "claim_probe s scope now = (s', c) \<Longrightarrow> \<forall>h. c \<noteq> QpcReserved h \<Longrightarrow> tokens s' = tokens s"
  by (auto simp: claim_probe_cases split: quota_probe_reservation.splits)

lemma claim_at_tokens: "claim_at s scope now = (s', c) \<Longrightarrow> tokens s' = tokens s"
  using tokens_ops(4) [of s scope now]
  by (cases "reserve_probe_if_required s scope now")
    (auto simp: claim_at_def split: quota_probe_reservation.splits)

lemma claim_at_holder:
  "claim_at s scope now = (s', ClaimReserved h) \<Longrightarrow> h = holder_new scope now"
  by (cases "reserve_probe_if_required s scope now")
    (auto simp: claim_at_def split: quota_probe_reservation.splits)

subsection \<open>Entries\<close>

text \<open>A cooldown ends within an hour of the last touch, so pruning (two hours) never lifts one.\<close>

definition entry_ok :: "nat \<Rightarrow> feedback \<Rightarrow> bool" where
  "entry_ok clock e \<longleftrightarrow> fb_until e \<le> fb_touched e + secs 3600 \<and> fb_touched e \<le> clock"

definition entries_ok :: "nat \<Rightarrow> feedback_state \<Rightarrow> bool" where
  "entries_ok clock s \<longleftrightarrow> (\<forall>scope e. fs_feedback s scope = Some e \<longrightarrow> entry_ok clock e)"

lemma entries_okD: "entries_ok clock s \<Longrightarrow> fs_feedback s scope = Some e \<Longrightarrow> entry_ok clock e"
  by (auto simp: entries_ok_def)

lemma entries_ok_update:
  "entries_ok clock s \<Longrightarrow> entry_ok clock e \<Longrightarrow> entries_ok clock (s\<lparr>fs_feedback := (fs_feedback s)(scope \<mapsto> e)\<rparr>)"
  by (auto simp: entries_ok_def)

lemma entries_ok_remove:
  "entries_ok clock s \<Longrightarrow> entries_ok clock (s\<lparr>fs_feedback := (fs_feedback s)(scope := None)\<rparr>)"
  by (auto simp: entries_ok_def)

lemma entries_ok_live [simp]:
  "entries_ok clock (s\<lparr>fs_live_probes := l\<rparr>) = entries_ok clock s"
  by (simp add: entries_ok_def)

lemma entries_ok_prune: "entries_ok clock s \<Longrightarrow> entries_ok clock (prune now s)"
  by (auto simp: entries_ok_def prune_def)

lemma entries_ok_later: "entries_ok clock s \<Longrightarrow> clock \<le> clock' \<Longrightarrow> entries_ok clock' s"
  unfolding entries_ok_def entry_ok_def by (meson le_trans)

lemma entry_ok_fail: "entry_ok clock e \<Longrightarrow> clock \<le> now \<Longrightarrow> entry_ok now (fail e c r now a)"
  using failure_delay_le [of r "min (fb_strikes e + 1) u32_max"] by (auto simp: entry_ok_def)

lemma entry_ok_new: "entry_ok now (feedback_new now c)"
  by (simp add: entry_ok_def feedback_new_def)

lemma entries_ok_mark: "entries_ok clock s \<Longrightarrow> clock \<le> now \<Longrightarrow> entries_ok now (mark_probe s scope now)"
  by (auto simp: entries_ok_def mark_probe_def entry_ok_def split: option.splits if_splits)
    (meson le_trans nat_add_left_cancel_le add_le_mono1)+

lemma entries_ok_register [simp]:
  "entries_ok clock (register_live_probe s scope t) = entries_ok clock s"
  by (simp add: register_live_probe_def)

lemma entries_ok_unregister [simp]:
  "entries_ok clock (unregister_live_probe s scope t) = entries_ok clock s"
  by (simp add: unregister_live_probe_def Let_def split: option.splits)

lemma entries_ok_claim:
  "entries_ok clock s \<Longrightarrow> clock \<le> now \<Longrightarrow> entries_ok now (fst (claim_probe s scope now))"
  using entries_ok_prune [of clock s now]
  by (auto simp: claim_probe_cases entries_ok_mark intro: entries_ok_later
      split: quota_probe_reservation.split)

lemma entries_ok_reserve:
  "entries_ok clock s \<Longrightarrow> clock \<le> now \<Longrightarrow> entries_ok now (fst (reserve_probe_if_required s scope now))"
  using entries_ok_prune [of clock s now]
  by (auto simp: reserve_probe_if_required_def Let_def entries_ok_mark intro: entries_ok_later)

lemma claim_at_fst: "fst (claim_at s scope now) = fst (reserve_probe_if_required s scope now)"
  by (cases "reserve_probe_if_required s scope now")
    (simp add: claim_at_def split: quota_probe_reservation.splits)

lemma entries_ok_release:
  "entries_ok clock s \<Longrightarrow> clock \<le> now \<Longrightarrow> entries_ok now (release_probe s scope t now)"
  using entries_ok_later [OF entries_ok_prune [of clock s now], of now]
  by (auto simp: release_probe_def Let_def entry_ok_def dest: entries_okD
      intro!: entries_ok_update split: option.splits)

lemma entries_ok_failure:
  assumes "entries_ok clock s" "clock \<le> now"
  shows "entries_ok now (record_failure s scope c r now a)"
proof -
  have p: "entries_ok clock (prune now s)" using assms(1) by (rule entries_ok_prune)
  have e: "entry_ok now (opt_or_default (feedback_new now c) (fs_feedback (prune now s) scope))"
    using entries_okD [OF entries_ok_later [OF p assms(2)]]
    by (cases "fs_feedback (prune now s) scope") (auto simp: entry_ok_new)
  show ?thesis
    using entries_ok_update [OF entries_ok_later [OF p assms(2)] entry_ok_fail [OF e order_refl]]
    by (simp add: record_failure_def Let_def)
qed

lemma entries_ok_success:
  "entries_ok clock s \<Longrightarrow> clock \<le> now \<Longrightarrow> entries_ok now (record_success s scope a now)"
  using entries_ok_later [OF entries_ok_prune [of clock s now], of now]
  by (auto simp: record_success_def Let_def intro: entries_ok_remove)

lemma entry_ok_kept:
  assumes "entry_ok clock e" "now < fb_until e"
  shows "now - fb_touched e < retention"
  using assms by (auto simp: entry_ok_def feedback_time_defs)

lemma prune_keeps_cooling:
  assumes "entries_ok clock s" "fs_feedback s scope = Some e" "now < fb_until e"
  shows "fs_feedback (prune now s) scope = Some e"
  using entry_ok_kept [OF entries_okD [OF assms(1,2)] assms(3)] assms(2)
  by (simp add: prune_def)

subsection \<open>The machine of concurrent callers\<close>

text \<open>
  Any number of callers share the store. A guarded caller claims a probe and holds its guard
  until it settles or is dropped; a legacy caller reserves and holds a permit. The clock
  never goes back, and a reservation reads an instant later than every earlier reservation.
\<close>

record probe_system =
  ps_store :: feedback_state
  ps_clock :: nat
  ps_guards :: "probe_holder list"
  ps_permits :: "probe_holder list"

datatype probe_op =
    OpEligibility quota_feedback_scope
  | OpClaim quota_feedback_scope
  | OpReserve quota_feedback_scope
  | OpReleaseGuard probe_holder
  | OpReleasePermit probe_holder
  | OpFailure quota_feedback_scope quota_feedback_cause "nat option" nat
  | OpSuccess quota_feedback_scope nat

definition probe_init :: "probe_system \<Rightarrow> bool" where
  "probe_init sys \<longleftrightarrow> ps_store sys = feedback_empty \<and> ps_guards sys = [] \<and> ps_permits sys = []"

inductive probe_step :: "probe_system \<Rightarrow> probe_op \<Rightarrow> probe_system \<Rightarrow> bool" where
  step_eligibility:
    "ps_clock sys \<le> now \<Longrightarrow>
     probe_step sys (OpEligibility scope)
       (sys\<lparr>ps_store := fst (eligibility (ps_store sys) scope now), ps_clock := now\<rparr>)"
| step_claim:
    "ps_clock sys < now \<Longrightarrow> claim_probe (ps_store sys) scope now = (s', QpcReserved h) \<Longrightarrow>
     probe_step sys (OpClaim scope)
       (sys\<lparr>ps_store := s', ps_clock := now, ps_guards := h # ps_guards sys\<rparr>)"
| step_claim_refused:
    "ps_clock sys \<le> now \<Longrightarrow> claim_probe (ps_store sys) scope now = (s', c) \<Longrightarrow>
     \<forall>h. c \<noteq> QpcReserved h \<Longrightarrow>
     probe_step sys (OpClaim scope) (sys\<lparr>ps_store := s', ps_clock := now\<rparr>)"
| step_reserve:
    "ps_clock sys < now \<Longrightarrow> claim_at (ps_store sys) scope now = (s', ClaimReserved h) \<Longrightarrow>
     probe_step sys (OpReserve scope)
       (sys\<lparr>ps_store := s', ps_clock := now, ps_permits := h # ps_permits sys\<rparr>)"
| step_reserve_refused:
    "ps_clock sys \<le> now \<Longrightarrow> claim_at (ps_store sys) scope now = (s', c) \<Longrightarrow>
     \<forall>h. c \<noteq> ClaimReserved h \<Longrightarrow>
     probe_step sys (OpReserve scope) (sys\<lparr>ps_store := s', ps_clock := now\<rparr>)"
| step_release_guard:
    "ps_clock sys \<le> now \<Longrightarrow> h \<in> set (ps_guards sys) \<Longrightarrow>
     probe_step sys (OpReleaseGuard h)
       (sys\<lparr>ps_store := fst (holder_release (ps_store sys) h now), ps_clock := now,
            ps_guards := remove1 h (ps_guards sys)\<rparr>)"
| step_release_permit:
    "ps_clock sys \<le> now \<Longrightarrow> h \<in> set (ps_permits sys) \<Longrightarrow>
     probe_step sys (OpReleasePermit h)
       (sys\<lparr>ps_store := fst (holder_release (ps_store sys) h now), ps_clock := now,
            ps_permits := remove1 h (ps_permits sys)\<rparr>)"
| step_failure:
    "ps_clock sys \<le> now \<Longrightarrow>
     probe_step sys (OpFailure scope c r a)
       (sys\<lparr>ps_store := record_failure (ps_store sys) scope c r now a, ps_clock := now\<rparr>)"
| step_success:
    "ps_clock sys \<le> now \<Longrightarrow>
     probe_step sys (OpSuccess scope a)
       (sys\<lparr>ps_store := record_success (ps_store sys) scope a now, ps_clock := now\<rparr>)"

definition guard_starts :: "probe_system \<Rightarrow> quota_feedback_scope \<Rightarrow> nat list" where
  "guard_starts sys scope =
     List.map ph_start (filter (\<lambda>h. ph_scope h = scope) (ps_guards sys))"

definition probe_inv :: "probe_system \<Rightarrow> bool" where
  "probe_inv sys \<longleftrightarrow>
     entries_ok (ps_clock sys) (ps_store sys) \<and>
     distinct (List.map ph_scope (ps_guards sys)) \<and>
     (\<forall>scope. tokens (ps_store sys) scope = guard_starts sys scope) \<and>
     (\<forall>h \<in> set (ps_guards sys) \<union> set (ps_permits sys).
        \<not> ph_released h \<and> ph_start h \<le> ps_clock sys) \<and>
     (\<forall>g \<in> set (ps_guards sys). \<forall>p \<in> set (ps_permits sys). ph_start g \<noteq> ph_start p)"

lemma guard_starts_distinct:
  assumes "distinct (List.map ph_scope gs)" "h \<in> set gs"
  shows "filter (\<lambda>g. ph_scope g = ph_scope h) gs = [h]"
  using assms by (induction gs) (auto simp: filter_empty_conv image_iff)

lemma probe_inv_frame:
  assumes "probe_inv sys" "tokens s' = tokens (ps_store sys)" "entries_ok now s'" "ps_clock sys \<le> now"
  shows "probe_inv (sys\<lparr>ps_store := s', ps_clock := now\<rparr>)"
  using assms by (auto simp: probe_inv_def guard_starts_def) (meson UnI1 UnI2 le_trans)+


lemma probe_inv_claim:
  assumes "probe_inv sys" "ps_clock sys < now"
    "claim_probe (ps_store sys) scope now = (s', QpcReserved h)"
  shows "probe_inv (sys\<lparr>ps_store := s', ps_clock := now, ps_guards := h # ps_guards sys\<rparr>)"
proof -
  have t: "tokens (ps_store sys) scope = []" "tokens s' = (tokens (ps_store sys))(scope := [now])"
    "h = holder_new scope now"
    using claim_probe_reservedD [OF assms(3)] by auto
  have e: "entries_ok now s'"
    using entries_ok_claim [of "ps_clock sys" "ps_store sys" now scope] assms by (simp add: probe_inv_def)
  have "guard_starts sys scope = []" using assms(1) t(1) by (simp add: probe_inv_def)
  then have "scope \<notin> ph_scope ` set (ps_guards sys)"
    by (auto simp: guard_starts_def filter_empty_conv)
  moreover have "ph_start h < now" if "h \<in> set (ps_guards sys) \<union> set (ps_permits sys)" for h
    using assms(1,2) that by (force simp: probe_inv_def)
  ultimately show ?thesis
    using assms(1) t e by (fastforce simp: probe_inv_def guard_starts_def holder_new_def)
qed

lemma probe_inv_reserve:
  assumes "probe_inv sys" "ps_clock sys < now" "claim_at (ps_store sys) scope now = (s', ClaimReserved h)"
  shows "probe_inv (sys\<lparr>ps_store := s', ps_clock := now, ps_permits := h # ps_permits sys\<rparr>)"
proof -
  have e: "entries_ok now s'"
    using entries_ok_reserve [of "ps_clock sys" "ps_store sys" now scope] assms
      claim_at_fst [of "ps_store sys" scope now] by (simp add: probe_inv_def)
  have "ph_start h' < now" if "h' \<in> set (ps_guards sys) \<union> set (ps_permits sys)" for h'
    using assms(1,2) that by (force simp: probe_inv_def)
  then show ?thesis
    using assms(1) claim_at_tokens [OF assms(3)] claim_at_holder [OF assms(3)] e
    by (fastforce simp: probe_inv_def guard_starts_def holder_new_def)
qed

lemma probe_inv_release_guard:
  assumes "probe_inv sys" "ps_clock sys \<le> now" "h \<in> set (ps_guards sys)"
  shows "probe_inv (sys\<lparr>ps_store := fst (holder_release (ps_store sys) h now), ps_clock := now,
                      ps_guards := remove1 h (ps_guards sys)\<rparr>)"
proof -
  have d: "distinct (List.map ph_scope (ps_guards sys))" and nr: "\<not> ph_released h"
    and t: "\<And>scope. tokens (ps_store sys) scope = guard_starts sys scope"
    and e: "entries_ok (ps_clock sys) (ps_store sys)"
    using assms by (auto simp: probe_inv_def)
  let ?s = "release_probe (ps_store sys) (ph_scope h) (ph_start h) now"
  have r: "fst (holder_release (ps_store sys) h now) = ?s" using nr by (simp add: holder_release_def)
  have dg: "distinct (ps_guards sys)" using d by (simp add: distinct_map)
  have own: "guard_starts sys (ph_scope h) = [ph_start h]"
    using guard_starts_distinct [OF d assms(3)] by (simp add: guard_starts_def)
  have fr: "filter P (remove1 h xs) = remove1 h (filter P xs)" for P :: "probe_holder \<Rightarrow> bool" and xs
    by (simp add: filter_remove1)
  have g: "tokens ?s scope =
      guard_starts (sys\<lparr>ps_store := ?s, ps_clock := now, ps_guards := remove1 h (ps_guards sys)\<rparr>) scope" for scope
  proof (cases "scope = ph_scope h")
    case True
    then show ?thesis
      using guard_starts_distinct [OF d assms(3)] own by (simp add: t guard_starts_def fr)
  next
    case False
    then have "h \<notin> set (filter (\<lambda>g. ph_scope g = scope) (ps_guards sys))" by simp
    then show ?thesis using False by (simp add: t guard_starts_def fr remove1_idem)
  qed
  have "set (remove1 h (ps_guards sys)) \<subseteq> set (ps_guards sys)" by (rule set_remove1_subset)
  moreover have "distinct (List.map ph_scope (remove1 h (ps_guards sys)))"
    using d by (auto simp: distinct_map dg inj_on_diff)
  moreover have "entries_ok now ?s" using e assms(2) by (rule entries_ok_release)
  moreover have "ph_start x \<le> now" if "ph_start x \<le> ps_clock sys" for x
    using that assms(2) by simp
  ultimately show ?thesis
    using assms(1,2) g unfolding r probe_inv_def by (simp add: subset_iff) blast
qed

lemma probe_inv_release_permit:
  assumes "probe_inv sys" "ps_clock sys \<le> now" "h \<in> set (ps_permits sys)"
  shows "probe_inv (sys\<lparr>ps_store := fst (holder_release (ps_store sys) h now), ps_clock := now,
                      ps_permits := remove1 h (ps_permits sys)\<rparr>)"
proof -
  let ?s = "release_probe (ps_store sys) (ph_scope h) (ph_start h) now"
  have r: "fst (holder_release (ps_store sys) h now) = ?s"
    using assms by (auto simp: holder_release_def probe_inv_def)
  have "ph_start h \<notin> set (tokens (ps_store sys) (ph_scope h))"
    using assms(1,3) by (fastforce simp: probe_inv_def guard_starts_def)
  then have t: "tokens ?s = tokens (ps_store sys)" by (simp add: remove1_idem)
  have "entries_ok now ?s"
    using assms entries_ok_release [of "ps_clock sys"] by (auto simp: probe_inv_def)
  moreover have "set (remove1 h (ps_permits sys)) \<subseteq> set (ps_permits sys)" by (rule set_remove1_subset)
  moreover have "ph_start x \<le> now" if "ph_start x \<le> ps_clock sys" for x
    using that assms(2) by simp
  ultimately show ?thesis
    using assms(1) unfolding r probe_inv_def by (simp add: t guard_starts_def subset_iff del: tokens_release) blast
qed

lemma probe_step_inv: "probe_step sys op sys' \<Longrightarrow> probe_inv sys \<Longrightarrow> probe_inv sys'"
proof (induction rule: probe_step.induct)
  case (step_eligibility sys now scope)
  then show ?case
    by (intro probe_inv_frame)
      (auto simp: eligibility_def Let_def probe_inv_def intro: entries_ok_later entries_ok_prune)
next
  case (step_claim sys now scope s' h)
  then show ?case by (blast intro: probe_inv_claim)
next
  case (step_claim_refused sys now scope s' c)
  then have "entries_ok now s'"
    using entries_ok_claim [of "ps_clock sys" "ps_store sys" now scope] by (simp add: probe_inv_def)
  then show ?case using step_claim_refused by (blast intro: probe_inv_frame claim_probe_other)
next
  case (step_reserve sys now scope s' h)
  then show ?case by (blast intro: probe_inv_reserve)
next
  case (step_reserve_refused sys now scope s' c)
  then have "entries_ok now s'"
    using entries_ok_reserve [of "ps_clock sys" "ps_store sys" now scope]
      claim_at_fst [of "ps_store sys" scope now] by (simp add: probe_inv_def)
  then show ?case using step_reserve_refused by (blast intro: probe_inv_frame claim_at_tokens)
next
  case (step_release_guard sys now h)
  then show ?case by (blast intro: probe_inv_release_guard)
next
  case (step_release_permit sys now h)
  then show ?case by (blast intro: probe_inv_release_permit)
next
  case (step_failure sys now scope c r a)
  then show ?case
    by (intro probe_inv_frame) (auto simp: probe_inv_def intro: entries_ok_failure)
next
  case (step_success sys now scope a)
  then show ?case
    by (intro probe_inv_frame) (auto simp: probe_inv_def intro: entries_ok_success)
qed

lemma probe_init_inv: "probe_init sys \<Longrightarrow> probe_inv sys"
  by (simp add: probe_init_def probe_inv_def feedback_empty_def entries_ok_def tokens_def guard_starts_def)

interpretation pm: machine probe_init probe_step probe_inv
  by unfold_locales (fact probe_init_inv, fact probe_step_inv)


inductive_cases probe_stepE: "probe_step sys op sys'"

subsection \<open>A cooldown outlives every step but a fresh success\<close>

text \<open>\<open>cooling_from\<close>: the scope has an entry that fails no earlier and cools no shorter than \<open>e\<close>.\<close>

definition cooling_from :: "feedback \<Rightarrow> quota_feedback_scope \<Rightarrow> feedback_state \<Rightarrow> bool" where
  "cooling_from e scope s \<longleftrightarrow>
     (\<exists>e'. fs_feedback s scope = Some e' \<and> fb_until e \<le> fb_until e' \<and> fb_failed_at e \<le> fb_failed_at e')"

lemma cooling_from_prune:
  assumes "entries_ok clock s" "cooling_from e scope s" "now < fb_until e"
  shows "cooling_from e scope (prune now s)"
proof -
  obtain e' where e': "fs_feedback s scope = Some e'" "fb_until e \<le> fb_until e'"
      "fb_failed_at e \<le> fb_failed_at e'"
    using assms(2) by (auto simp: cooling_from_def)
  then show ?thesis
    using prune_keeps_cooling [OF assms(1) e'(1), of now] assms(3) by (auto simp: cooling_from_def)
qed

lemma cooling_from_live [simp]: "cooling_from e scope (s\<lparr>fs_live_probes := l\<rparr>) = cooling_from e scope s"
  by (simp add: cooling_from_def)

lemma cooling_from_register [simp]:
  "cooling_from e scope (register_live_probe s sc t) = cooling_from e scope s"
  by (simp add: register_live_probe_def)

lemma cooling_from_unregister [simp]:
  "cooling_from e scope (unregister_live_probe s sc t) = cooling_from e scope s"
  by (simp add: unregister_live_probe_def Let_def split: option.splits)

lemma feedback_unregister [simp]: "fs_feedback (unregister_live_probe s sc t) = fs_feedback s"
  by (simp add: unregister_live_probe_def Let_def split: option.splits)

lemma cooling_from_mark: "cooling_from e scope s \<Longrightarrow> cooling_from e scope (mark_probe s sc now)"
  by (auto simp: cooling_from_def mark_probe_def split: option.splits)

lemma cooling_from_failure:
  "cooling_from e scope (prune now s) \<Longrightarrow> cooling_from e scope (record_failure s sc c r now a)"
  by (auto simp: cooling_from_def record_failure_def Let_def)

lemma cooling_from_success:
  "cooling_from e scope (prune now s) \<Longrightarrow> sc \<noteq> scope \<or> a < fb_failed_at e \<Longrightarrow>
   cooling_from e scope (record_success s sc a now)"
  by (auto simp: cooling_from_def record_success_def Let_def)

lemma cooling_from_release:
  "cooling_from e scope (prune now s) \<Longrightarrow> cooling_from e scope (release_probe s sc t now)"
  by (auto simp: cooling_from_def release_probe_def Let_def split: option.splits)

lemma cooling_from_holder:
  "cooling_from e scope (prune now s) \<Longrightarrow> cooling_from e scope s \<Longrightarrow>
   cooling_from e scope (fst (holder_release s h now))"
  by (simp add: holder_release_def cooling_from_release)

lemma cooling_from_claim:
  "cooling_from e scope (prune now s) \<Longrightarrow> cooling_from e scope (fst (claim_probe s sc now))"
  by (simp add: claim_probe_cases cooling_from_mark split: quota_probe_reservation.split)

lemma cooling_from_claim_at:
  "cooling_from e scope (prune now s) \<Longrightarrow> cooling_from e scope (fst (claim_at s sc now))"
  by (simp add: claim_at_fst reserve_probe_if_required_def Let_def cooling_from_mark)

lemma probe_step_clock: "probe_step sys op sys' \<Longrightarrow> ps_clock sys \<le> ps_clock sys'"
  by (auto elim: probe_stepE)

text \<open>The operations that may end a cooldown: a success of an attempt started after the failure.\<close>

definition ends_cooldown :: "feedback \<Rightarrow> quota_feedback_scope \<Rightarrow> probe_op \<Rightarrow> bool" where
  "ends_cooldown e scope op =
     (case op of OpSuccess sc a \<Rightarrow> sc = scope \<and> fb_failed_at e \<le> a | _ \<Rightarrow> False)"

lemma cooling_from_step:
  assumes "probe_step sys op sys'" "probe_inv sys" "cooling_from e scope (ps_store sys)"
    "ps_clock sys' < fb_until e" "\<not> ends_cooldown e scope op"
  shows "cooling_from e scope (ps_store sys')"
proof -
  have "entries_ok (ps_clock sys) (ps_store sys)" using assms(2) by (simp add: probe_inv_def)
  then have p: "cooling_from e scope (prune (ps_clock sys') (ps_store sys))"
    using assms(3,4) by (rule cooling_from_prune)
  from assms(1) p assms(3,5) show ?thesis
  proof (cases rule: probe_step.cases)
    case (step_claim now sc s' h)
    then show ?thesis using cooling_from_claim [OF p, of sc] by simp
  next
    case (step_claim_refused now sc s' c)
    then show ?thesis using cooling_from_claim [OF p, of sc] by simp
  next
    case (step_reserve now sc s' h)
    then show ?thesis using cooling_from_claim_at [OF p, of sc] by simp
  next
    case (step_reserve_refused now sc s' c)
    then show ?thesis using cooling_from_claim_at [OF p, of sc] by simp
  next
    case (step_success now sc a)
    then show ?thesis using cooling_from_success [of e scope now "ps_store sys" sc a] p assms(5)
      by (auto simp: ends_cooldown_def)
  qed (auto simp: eligibility_def Let_def cooling_from_holder cooling_from_failure)
qed

lemma cooling_from_run:
  assumes "run probe_step sys ops sys'" "probe_inv sys" "cooling_from e scope (ps_store sys)"
    "ps_clock sys' < fb_until e" "\<And>op. op \<in> set ops \<Longrightarrow> \<not> ends_cooldown e scope op"
  shows "cooling_from e scope (ps_store sys') \<and> probe_inv sys' \<and> ps_clock sys \<le> ps_clock sys'"
  using assms
proof (induction rule: run.induct)
  case (run_nil s)
  then show ?case by simp
next
  case (run_cons s l t ls u)
  have inv: "probe_inv t" using run_cons by (blast intro: probe_step_inv)
  have clk: "ps_clock s \<le> ps_clock t" using run_cons by (blast intro: probe_step_clock)
  have mono: "run probe_step x xs y \<Longrightarrow> ps_clock x \<le> ps_clock y" for x xs y
    by (induction rule: run.induct) (auto dest: probe_step_clock)
  have "ps_clock t < fb_until e" using mono [OF run_cons.hyps(2)] run_cons.prems(3) by simp
  then have c: "cooling_from e scope (ps_store t)"
    by (rule cooling_from_step [OF run_cons.hyps(1) run_cons.prems(1,2)]) (simp add: run_cons.prems(4))
  have "\<not> ends_cooldown e scope op" if "op \<in> set ls" for op
    using run_cons.prems(4) that by simp
  then show ?case
    using run_cons.IH [OF inv c run_cons.prems(3)] clk by (metis le_trans)
qed

lemma cooling_from_eligibility:
  assumes "cooling_from e scope s" "entries_ok clock s" "now < fb_until e"
  shows "snd (eligibility s scope now) = FbCooling"
  using cooling_from_prune [OF assms(2,1,3)] assms(3)
  by (auto simp: cooling_from_def eligibility_def Let_def entry_eligibility_cooling_iff)


subsection \<open>What the store promises\<close>

text \<open>A small run for the witnesses: a scope fails with an empty \<open>Retry-After\<close>, then is claimed.\<close>

definition demo_scope :: quota_feedback_scope where
  "demo_scope = feedback_scope_new 7 (Some 0)"

definition demo_failed :: probe_system where
  "demo_failed =
     \<lparr>ps_store = record_failure feedback_empty demo_scope RateLimited (Some 0) 0 0, ps_clock = 0,
      ps_guards = [], ps_permits = []\<rparr>"

definition demo_claimed :: probe_system where
  "demo_claimed =
     demo_failed\<lparr>ps_store := fst (claim_probe (ps_store demo_failed) demo_scope 1), ps_clock := 1,
                 ps_guards := [holder_new demo_scope 1]\<rparr>"

lemmas store_defs =
  prune_def Let_def probe_decision_def entry_eligibility_def mark_probe_def register_live_probe_def
  has_live_probe_def feedback_time_defs

lemma demo_failed_reachable: "reachable probe_init probe_step demo_failed"
proof -
  let ?i = "\<lparr>ps_store = feedback_empty, ps_clock = 0, ps_guards = [], ps_permits = []\<rparr>"
  have "probe_step ?i (OpFailure demo_scope RateLimited (Some 0) 0) demo_failed"
    using step_failure [of ?i 0 demo_scope RateLimited "Some 0" 0] by (simp add: demo_failed_def)
  then show ?thesis by (rule reach_step [OF reach_init, rotated]) (simp add: probe_init_def)
qed

lemma demo_claim:
  "claim_probe (ps_store demo_failed) demo_scope 1 =
     (ps_store demo_claimed, QpcReserved (holder_new demo_scope 1))"
  by (simp add: demo_claimed_def demo_failed_def claim_probe_cases record_failure_def store_defs
      feedback_empty_def feedback_new_def fail_def failure_delay_def)

lemma demo_claimed_reachable: "reachable probe_init probe_step demo_claimed"
proof -
  have "probe_step demo_failed (OpClaim demo_scope) demo_claimed"
    using step_claim [of demo_failed 1, OF _ demo_claim] by (simp add: demo_claimed_def demo_failed_def)
  then show ?thesis by (rule reach_step [OF demo_failed_reachable])
qed

text \<open>
  C9: However the callers of the shared store interleave (guarded claims, legacy reservations,
  releases in any order, failures, successes, pruning), at any reachable point no two
  outstanding guards are for one scope, and a further claim on a scope whose guard is outstanding, of
  either kind and at whatever instant, is never a second reservation: it is refused as long as the
  store holds an entry for the scope (the 30-second TTL of a reservation does not expire while its
  guard lives), and answered that no probe is required once a success or the retention has
  removed the entry.\<close>

theorem guarded_probe_exclusive:
  assumes "reachable probe_init probe_step sys" and "g \<in> set (ps_guards sys)"
  shows "distinct (List.map ph_scope (ps_guards sys)) \<and>
    (let entry = opt_filter (\<lambda>e. now - fb_touched e < retention) (fs_feedback (ps_store sys) (ph_scope g)) in
     snd (claim_probe (ps_store sys) (ph_scope g) now) = (if entry = None then QpcNotRequired else QpcBusy) \<and>
     snd (claim_at (ps_store sys) (ph_scope g) now) = (if entry = None then ClaimNotRequired else ClaimLostRace))"
proof -
  have inv: "probe_inv sys" using assms(1) by (rule pm.reachable_inv)
  then have d: "distinct (List.map ph_scope (ps_guards sys))" by (simp add: probe_inv_def)
  have "tokens (ps_store sys) (ph_scope g) \<noteq> []"
    using inv assms(2) by (auto simp: probe_inv_def guard_starts_def filter_empty_conv)
  then have "has_live_probe (prune now (ps_store sys)) (ph_scope g)" by (simp add: has_live_probe_iff)
  then have "probe_decision (prune now (ps_store sys)) (ph_scope g) now =
      (if opt_filter (\<lambda>e. now - fb_touched e < retention) (fs_feedback (ps_store sys) (ph_scope g)) = None then RsvNotRequired else RsvBusy)"
    by (auto simp: probe_decision_def entry_eligibility_def prune_def split: option.split)
  then show ?thesis
    using d by (auto simp: Let_def claim_probe_cases claim_at_def reserve_probe_if_required_def)
qed

lemma guarded_probe_exclusive_witness:
  "ps_guards demo_claimed = [holder_new demo_scope 1] \<and> snd (claim_probe (ps_store demo_claimed) demo_scope 2) = QpcBusy"
proof -
  have "opt_filter (\<lambda>e. 2 - fb_touched e < retention) (fs_feedback (ps_store demo_claimed) demo_scope) \<noteq> None"
    by (simp add: demo_claimed_def demo_failed_def claim_probe_cases record_failure_def store_defs
        feedback_empty_def feedback_new_def fail_def failure_delay_def opt_filter_def)
  then show ?thesis
    using guarded_probe_exclusive [OF demo_claimed_reachable, of "holder_new demo_scope 1" 2]
    by (simp add: demo_claimed_def holder_new_def Let_def)
qed

text \<open>
  C17: A cooldown is enforced: once a scope's entry cools until some deadline, then after any
  further run of the concurrent callers the scope still reads as cooling at every instant
  before that deadline, unless the run records the success of an attempt started no earlier
  than the failure. Pruning, releases, probes, shorter \<open>Retry-After\<close> values of later failures
  and successes of stale attempts never shorten it.\<close>

theorem cooldown_enforced:
  assumes "reachable probe_init probe_step sys"
    and "fs_feedback (ps_store sys) scope = Some e"
    and "run probe_step sys ops sys'"
    and "\<And>op. op \<in> set ops \<Longrightarrow> \<not> ends_cooldown e scope op"
    and "ps_clock sys' \<le> now" and "now < fb_until e"
  shows "snd (eligibility (ps_store sys') scope now) = FbCooling"
proof -
  have inv: "probe_inv sys" using assms(1) by (rule pm.reachable_inv)
  have c: "cooling_from e scope (ps_store sys)" using assms(2) by (simp add: cooling_from_def)
  have "ps_clock sys' < fb_until e" using assms(5,6) by simp
  then have "cooling_from e scope (ps_store sys') \<and> probe_inv sys'"
    using cooling_from_run [OF assms(3) inv c] assms(4) by blast
  then show ?thesis using assms(6) by (auto simp: probe_inv_def intro: cooling_from_eligibility)
qed

definition demo_cooling :: probe_system where
  "demo_cooling =
     demo_failed\<lparr>ps_store := record_failure (ps_store demo_failed) demo_scope UpstreamUnavailable None 5 0,
                 ps_clock := 5\<rparr>"

lemma demo_cooling_step:
  "probe_step demo_failed (OpFailure demo_scope UpstreamUnavailable None 0) demo_cooling"
  using step_failure [of demo_failed 5 demo_scope UpstreamUnavailable None 0]
  by (simp add: demo_cooling_def demo_failed_def)

lemma demo_cooling_entry:
  "fs_feedback (ps_store demo_cooling) demo_scope =
     Some \<lparr>fb_touched = 5, fb_failed_at = 5, fb_until = secs 60 + 5, fb_strikes = 2,
           fb_cause = UpstreamUnavailable, fb_probe = None\<rparr>"
proof -
  have "backoff_delay (Suc (Suc 0)) = secs 60" using backoff_delay_step(2) by (simp only: numeral_2_eq_2)
  then show ?thesis
    by (simp add: demo_cooling_def demo_failed_def record_failure_def prune_def Let_def feedback_empty_def
        feedback_new_def fail_def failure_delay_def u32_max_def feedback_time_defs)
qed

lemma demo_cooling_success:
  "probe_step demo_cooling (OpSuccess demo_scope 4)
     (demo_cooling\<lparr>ps_store := record_success (ps_store demo_cooling) demo_scope 4 9, ps_clock := 9\<rparr>)"
  by (rule step_success) (simp add: demo_cooling_def)

lemma demo_run:
  "run probe_step demo_cooling [OpSuccess demo_scope 4]
     (demo_cooling\<lparr>ps_store := record_success (ps_store demo_cooling) demo_scope 4 9, ps_clock := 9\<rparr>)"
  by (rule run_cons, rule demo_cooling_success, rule run_nil)

lemma cooldown_enforced_witness:
  "snd (eligibility (record_success (ps_store demo_cooling) demo_scope 4 9) demo_scope (secs 60)) = FbCooling"
  using cooldown_enforced [OF reach_step [OF demo_failed_reachable demo_cooling_step] demo_cooling_entry
      demo_run, of "secs 60"]
  by (simp add: ends_cooldown_def secs_def)

text \<open>
  C29: What one failure does to its scope. In a store no operation has seen a later clock than
  \<open>now\<close>, recording a failure makes the scope cool exactly until the later of its old deadline
  and \<open>now\<close> plus the delay of its next strike: the server's \<open>Retry-After\<close> capped at one hour
  or, without one, 30 s doubled per strike and capped at five minutes (the saturating shift
  of the code never saturates); afterwards the scope needs a probe.\<close>

theorem failure_cools_exactly:
  assumes "entries_ok now s"
  shows "snd (eligibility (record_failure s scope cause retry_after now attempt) scope t) = FbCooling \<longleftrightarrow>
         t < (case fs_feedback (prune now s) scope of
                None \<Rightarrow> now + (case retry_after of Some d \<Rightarrow> min d (secs 3600) | None \<Rightarrow> secs 30)
              | Some e \<Rightarrow>
                  max (fb_until e)
                      (now + (case retry_after of
                                Some d \<Rightarrow> min d (secs 3600)
                              | None \<Rightarrow> secs (min (30 * 2 ^ min (fb_strikes e) 4) 300))))"
proof -
  let ?e = "fail (opt_or_default (feedback_new now cause) (fs_feedback (prune now s) scope))
              cause retry_after now attempt"
  have ok: "entries_ok now (record_failure s scope cause retry_after now attempt)"
    using assms by (simp add: entries_ok_failure)
  have e: "fs_feedback (record_failure s scope cause retry_after now attempt) scope = Some ?e"
    by (simp add: record_failure_def Let_def)
  have "snd (eligibility (record_failure s scope cause retry_after now attempt) scope t) = FbCooling \<longleftrightarrow>
        t < fb_until ?e"
    using prune_keeps_cooling [OF ok e, of t] e
    by (cases "t < fb_until ?e")
      (auto simp: eligibility_def Let_def prune_def entry_eligibility_cooling_iff opt_filter_def
        split: if_splits option.splits)
  also have "fb_until ?e =
      (case fs_feedback (prune now s) scope of
         None \<Rightarrow> now + (case retry_after of Some d \<Rightarrow> min d (secs 3600) | None \<Rightarrow> secs 30)
       | Some e \<Rightarrow> max (fb_until e) (now + (case retry_after of Some d \<Rightarrow> min d (secs 3600)
                     | None \<Rightarrow> secs (min (30 * 2 ^ min (fb_strikes e) 4) 300))))"
    using backoff_delay_strike [of 0]
    by (auto simp: feedback_new_def failure_delay_def backoff_delay_strike split: option.split)
  finally show ?thesis .
qed

lemma failure_cools_exactly_witness:
  "snd (eligibility (record_failure feedback_empty demo_scope RateLimited None 3 3) demo_scope 17) = FbCooling
     \<longleftrightarrow> 17 < 3 + secs 30"
  using failure_cools_exactly [of 3 feedback_empty demo_scope RateLimited None 3 17]
  by (simp add: entries_ok_def feedback_empty_def prune_def)


text \<open>
  C30: A probe becomes available and turns over. When the cooldown of a known scope has ended
  and nobody probes it, a claim is granted at once; a second claim before the release is
  refused as busy; and as soon as the guard releases, the next claim is granted again.\<close>

theorem probe_turnover:
  assumes "fs_feedback s scope = Some e" and "now - fb_touched e < retention"
    and "fb_until e \<le> now" and "tokens s scope = []"
    and "\<not> is_some_and (\<lambda>start. now - start < probe_ttl) (fb_probe e)"
    and "now \<le> t1" and "t1 \<le> t2" and "t2 - now < retention"
  shows "\<exists>s1 h. claim_probe s scope now = (s1, QpcReserved h) \<and>
           snd (claim_probe s1 scope t1) = QpcBusy \<and>
           (\<exists>s2 h2. claim_probe (fst (holder_release s1 h t1)) scope t2 = (s2, QpcReserved h2))"
proof -
  let ?e = "e\<lparr>fb_probe := Some now, fb_touched := now\<rparr>"
  define s1 where "s1 = register_live_probe (mark_probe (prune now s) scope now) scope now"
  have keep: "fs_feedback (prune now s) scope = Some e" using assms(1,2) by (simp add: prune_def)
  have "probe_decision (prune now s) scope now = RsvReserved"
    using assms(3-5) keep by (simp add: probe_decision_def entry_eligibility_def has_live_probe_iff)
  then have c: "claim_probe s scope now = (s1, QpcReserved (holder_new scope now))"
    by (simp add: claim_probe_cases s1_def)
  have e1: "fs_feedback s1 scope = Some ?e"
    using keep by (simp add: s1_def register_live_probe_def mark_probe_def)
  have t1': "tokens s1 scope = [now]" using claim_probe_reservedD [OF c] by simp
  have k1: "fs_feedback (prune t1 s1) scope = Some ?e"
    using e1 assms(6-8) by (simp add: prune_def)
  have "probe_decision (prune t1 s1) scope t1 = RsvBusy"
    using k1 t1' assms(3,6) by (simp add: probe_decision_def entry_eligibility_def has_live_probe_iff)
  then have busy: "snd (claim_probe s1 scope t1) = QpcBusy" by (simp add: claim_probe_cases)
  let ?r = "fst (holder_release s1 (holder_new scope now) t1)"
  have e2: "fs_feedback ?r scope = Some (?e\<lparr>fb_probe := None\<rparr>)"
    using k1 by (simp add: holder_release_def holder_new_def release_probe_def Let_def)
  have t2': "tokens ?r scope = []" using t1' by (simp add: holder_release_def holder_new_def)
  have "fs_feedback (prune t2 ?r) scope = Some (?e\<lparr>fb_probe := None\<rparr>)"
    using e2 assms(8) by (simp add: prune_def)
  then have "probe_decision (prune t2 ?r) scope t2 = RsvReserved"
    using t2' assms(3,6,7) by (simp add: probe_decision_def entry_eligibility_def has_live_probe_iff)
  then show ?thesis using c busy by (auto simp: claim_probe_cases)
qed

lemma probe_turnover_witness:
  "\<exists>s1 h. claim_probe (ps_store demo_failed) demo_scope 1 = (s1, QpcReserved h) \<and>
     snd (claim_probe s1 demo_scope 2) = QpcBusy \<and>
     (\<exists>s2 h2. claim_probe (fst (holder_release s1 h 2)) demo_scope 3 = (s2, QpcReserved h2))"
  using probe_turnover [of "ps_store demo_failed" demo_scope
      "fail (feedback_new 0 RateLimited) RateLimited (Some 0) 0 0" 1 2 3]
  by (simp add: demo_failed_def record_failure_def prune_def Let_def feedback_empty_def tokens_def
      feedback_new_def fail_def failure_delay_def feedback_time_defs)

text \<open>
  A success clears a scope exactly when its attempt started no earlier than the scope's
  last failure: then the scope reads as eligible at every later instant; the success of an
  older attempt changes nothing but the pruning, and neither touches another scope.\<close>

theorem success_clears_iff_fresh:
  assumes "fs_feedback (prune now s) scope = Some e"
  shows "(fb_failed_at e \<le> attempt \<longrightarrow>
            snd (eligibility (record_success s scope attempt now) scope t) = FbEligible) \<and>
         (attempt < fb_failed_at e \<longrightarrow> record_success s scope attempt now = prune now s) \<and>
         (scope' \<noteq> scope \<longrightarrow>
            fs_feedback (record_success s scope attempt now) scope' = fs_feedback (prune now s) scope')"
  using assms by (auto simp: record_success_def Let_def eligibility_def prune_def)

lemma success_clears_iff_fresh_witness:
  "snd (eligibility (record_success (ps_store demo_failed) demo_scope 1 2) demo_scope 3) = FbEligible"
  using success_clears_iff_fresh [of 2 "ps_store demo_failed" demo_scope
      "fail (feedback_new 0 RateLimited) RateLimited (Some 0) 0 0" 1 3]
  by (simp add: demo_failed_def record_failure_def prune_def Let_def feedback_empty_def
      feedback_new_def fail_def failure_delay_def feedback_time_defs)

end
