(* ===== verification/QuotaCache.thy ===== *)
theory QuotaCache
  imports QuotaCanonical QuotaFeedback "HOL-Library.AList"
begin

text \<open>
  The token-plan quota cache: \<open>src/worker_admin/token_plan_cache.rs\<close> with its modules
  \<open>eligibility.rs\<close>, \<open>observation.rs\<close> and \<open>subscription.rs\<close>. The five shared stores of
  \<open>TokenPlanQuotaCache\<close> are one record; each lock-protected operation is a function on it. The
  subscription store, whose size is capped, is an association list with distinct keys.
  \<open>try_read\<close> on the entries fails while a writer holds the lock: \<open>qc_entries_locked\<close>.
  The clocks an operation reads are one \<^typ>\<open>clock\<close>; \<open>tmax\<close> is chrono's latest instant. Of the
  response body only the decoded \<^typ>\<open>token_plan_usage_response\<close> matters here.
\<close>

definition refresh_after :: nat where "refresh_after = secs 60"
definition min_attempt :: nat where "min_attempt = secs 10"

record reservation_state =
  rv_tokens :: nat
  rv_draws :: nat

record cached_usage =
  cu_usage :: token_plan_usage_response
  cu_fetched_at :: nat
  cu_successful :: "uuid \<rightharpoonup> nat"
  cu_observed_at :: "uuid \<rightharpoonup> datetime"
  cu_last_failure :: "uuid \<rightharpoonup> nat"

record chatgpt_routing_snapshot =
  rs_observed_at :: datetime
  rs_limit_reached :: "bool option"
  rs_windows :: "subscription_window_usage list"
  rs_stale :: bool

record quota_cache =
  qc_entries :: "uuid \<rightharpoonup> cached_usage"
  qc_entries_locked :: bool
  qc_reservations :: "uuid \<times> uuid \<rightharpoonup> reservation_state"
  qc_subscription :: "(uuid \<times> chatgpt_routing_snapshot) list"
  qc_feedback :: feedback_state

definition quota_cache_default :: quota_cache where
  "quota_cache_default =
     \<lparr>qc_entries = Map.empty, qc_entries_locked = False, qc_reservations = Map.empty,
      qc_subscription = [], qc_feedback = feedback_empty\<rparr>"

subsection \<open>Observations\<close>

definition advance_window :: "int \<Rightarrow> token_plan_window_usage \<Rightarrow> token_plan_window_usage" where
  "advance_window elapsed_ms w =
     w\<lparr>tw_remains_time_ms := map_option (\<lambda>ms. i64_saturating_sub ms elapsed_ms) (tw_remains_time_ms w)\<rparr>"

definition advance_relative_resets :: "token_plan_key_usage \<Rightarrow> nat \<Rightarrow> token_plan_key_usage" where
  "advance_relative_resets key age =
     (let elapsed_ms = min (int (age div 1000000)) i64_max in
      key\<lparr>tk_model_remains :=
            List.map
              (\<lambda>model. model\<lparr>tm_interval := map_option (advance_window elapsed_ms) (tm_interval model),
                             tm_weekly := map_option (advance_window elapsed_ms) (tm_weekly model)\<rparr>)
              (tk_model_remains key)\<rparr>)"

record cached_quota_observation =
  co_key :: "token_plan_key_usage option"
  co_observed_at :: "datetime option"
  co_refresh_failed :: bool

definition quota_observation_now ::
    "quota_cache \<Rightarrow> uuid \<Rightarrow> uuid \<Rightarrow> nat \<Rightarrow> cached_quota_observation option" where
  "quota_observation_now cache endpoint_id key_id now =
     (if qc_entries_locked cache then None
      else Option.bind (qc_entries cache endpoint_id) (\<lambda>entry.
        map_option
          (\<lambda>raw.
             let refresh_failed = (cu_last_failure entry key_id \<noteq> None);
                 fresh = is_some_and (\<lambda>t. now - t < refresh_after) (cu_successful entry key_id);
                 key = (if fresh \<and> \<not> refresh_failed \<and> tk_ok raw
                        then map_option (\<lambda>t. advance_relative_resets raw (now - t))
                               (cu_successful entry key_id)
                        else None)
             in \<lparr>co_key = key, co_observed_at = cu_observed_at entry key_id,
                 co_refresh_failed = refresh_failed\<rparr>)
          (find (\<lambda>key. tk_key_id key = key_id) (tr_keys (cu_usage entry)))))"

definition observed_key_at ::
    "quota_cache \<Rightarrow> uuid \<Rightarrow> uuid \<Rightarrow> nat \<Rightarrow> token_plan_key_usage option" where
  "observed_key_at cache endpoint_id key_id now =
     (if qc_entries_locked cache then None
      else Option.bind (qc_entries cache endpoint_id) (\<lambda>entry.
        if cu_last_failure entry key_id \<noteq> None then None
        else Option.bind (cu_successful entry key_id) (\<lambda>observed_at.
          if refresh_after \<le> now - observed_at then None
          else map_option (\<lambda>key. advance_relative_resets key (now - observed_at))
                 (find (\<lambda>key. tk_key_id key = key_id \<and> tk_ok key) (tr_keys (cu_usage entry))))))"

definition fresh_observed_key_now ::
    "clock \<Rightarrow> quota_cache \<Rightarrow> uuid \<Rightarrow> uuid \<Rightarrow> token_plan_key_usage option" where
  "fresh_observed_key_now clk cache endpoint_id key_id =
     observed_key_at cache endpoint_id key_id (clk_instant clk)"

definition raw_snapshot :: "quota_cache \<Rightarrow> uuid \<Rightarrow> token_plan_usage_response option" where
  "raw_snapshot cache endpoint_id = map_option cu_usage (qc_entries cache endpoint_id)"

text \<open>
  \<open>store_observation\<close>: the loop over the keys, then the insertion. A failed key keeps the
  usage, success instant and observation time of the previous entry, if it had them.\<close>

record store_maps =
  sm_successful :: "uuid \<rightharpoonup> nat"
  sm_observed_at :: "uuid \<rightharpoonup> datetime"
  sm_last_failure :: "uuid \<rightharpoonup> nat"

definition store_maps_new :: store_maps where
  "store_maps_new = \<lparr>sm_successful = Map.empty, sm_observed_at = Map.empty, sm_last_failure = Map.empty\<rparr>"

definition set_opt :: "('a \<rightharpoonup> 'b) \<Rightarrow> 'a \<Rightarrow> 'b option \<Rightarrow> ('a \<rightharpoonup> 'b)" where
  "set_opt m k v = (case v of Some x \<Rightarrow> m(k \<mapsto> x) | None \<Rightarrow> m)"

definition store_key ::
    "cached_usage option \<Rightarrow> clock \<Rightarrow> nat \<Rightarrow> token_plan_key_usage \<Rightarrow> store_maps \<Rightarrow>
     token_plan_key_usage \<times> store_maps" where
  "store_key previous clk now key ms =
     (let key_id = tk_key_id key in
      if tk_ok key then
        (key, ms\<lparr>sm_successful := (sm_successful ms)(key_id \<mapsto> now),
                 sm_observed_at := (sm_observed_at ms)(key_id \<mapsto> clk_utc clk)\<rparr>)
      else
        let ms = ms\<lparr>sm_last_failure := (sm_last_failure ms)(key_id \<mapsto> now)\<rparr> in
        (case previous of
           None \<Rightarrow> (key, ms)
         | Some previous \<Rightarrow>
             (opt_or_default key (find (\<lambda>good. tk_key_id good = key_id \<and> tk_ok good)
                                    (tr_keys (cu_usage previous))),
              ms\<lparr>sm_successful := set_opt (sm_successful ms) key_id (cu_successful previous key_id),
                 sm_observed_at := set_opt (sm_observed_at ms) key_id (cu_observed_at previous key_id)\<rparr>)))"

fun store_keys ::
    "cached_usage option \<Rightarrow> clock \<Rightarrow> nat \<Rightarrow> token_plan_key_usage list \<Rightarrow> store_maps \<Rightarrow>
     token_plan_key_usage list \<times> store_maps" where
  "store_keys previous clk now [] ms = ([], ms)"
| "store_keys previous clk now (key # keys) ms =
     (let (key', ms) = store_key previous clk now key ms;
          (keys', ms) = store_keys previous clk now keys ms
      in (key' # keys', ms))"

definition store_observation ::
    "clock \<Rightarrow> quota_cache \<Rightarrow> uuid \<Rightarrow> token_plan_usage_response \<Rightarrow> nat \<Rightarrow> quota_cache" where
  "store_observation clk cache endpoint_id usage now =
     (let (keys, ms) = store_keys (qc_entries cache endpoint_id) clk now (tr_keys usage) store_maps_new;
          kept = (\<lambda>id. if id = endpoint_id then qc_entries cache id
                       else opt_filter (\<lambda>entry. now - cu_fetched_at entry < secs 7200) (qc_entries cache id));
          entries = kept(endpoint_id \<mapsto>
            \<lparr>cu_usage = usage\<lparr>tr_keys := keys\<rparr>, cu_fetched_at = now, cu_successful = sm_successful ms,
             cu_observed_at = sm_observed_at ms, cu_last_failure = sm_last_failure ms\<rparr>)
      in cache\<lparr>qc_entries := entries,
               qc_reservations :=
                 (\<lambda>(id, k). if entries id \<noteq> None then qc_reservations cache (id, k) else None)\<rparr>)"

definition zero_windows ::
    "datetime \<Rightarrow> token_plan_key_usage \<Rightarrow> string option \<Rightarrow> datetime \<Rightarrow> bool \<Rightarrow> (bool \<times> bool) list" where
  "zero_windows tmax key model now allow_general =
     List.map
       (\<lambda>w. (is_some_and (\<lambda>p. f_le p (Fin 0)) (cw_remaining_percent w),
             reset_state (cw_reset_at w) None now = RPassed))
       (List.map_filter (\<lambda>x. x) [tk_five_hour key, tk_weekly key]) @
     List.map
       (\<lambda>w. (is_some_and (\<lambda>p. f_le (Fin 100) p) (ow_percent w),
             reset_state (ow_resets_at w) None now = RPassed))
       (List.map_filter (\<lambda>x. x)
          [tk_opencodego_rolling key, tk_opencodego_weekly key, tk_opencodego_monthly key]) @
     List.map
       (\<lambda>w. (is_some_and (\<lambda>p. f_le (Fin 100) p) (gw_percentage w),
             reset_state (gw_next_reset_at w) None now = RPassed))
       (List.map_filter (\<lambda>x. x) [tk_glm_five_hour key, tk_glm_weekly key]) @
     (case model_usage_scoped key model allow_general of
        None \<Rightarrow> []
      | Some model \<Rightarrow>
          List.map
            (\<lambda>w. (is_some_and (\<lambda>p. f_le p (Fin 0)) (tw_remaining_percent w),
                  reset_state_from_remaining tmax (tw_end_at w) (tw_remains_time_ms w) now = RPassed))
            (List.map_filter (\<lambda>x. x) [tm_interval model, tm_weekly model]))"

fun expired_zero_loop :: "bool \<Rightarrow> (bool \<times> bool) list \<Rightarrow> bool" where
  "expired_zero_loop expired [] = expired"
| "expired_zero_loop expired ((zero, reset_passed) # rest) =
     (if zero \<and> \<not> reset_passed then False
      else expired_zero_loop (expired \<or> zero \<and> reset_passed) rest)"

definition expired_zero_scoped ::
    "datetime \<Rightarrow> token_plan_key_usage \<Rightarrow> string option \<Rightarrow> datetime \<Rightarrow> bool \<Rightarrow> bool" where
  "expired_zero_scoped tmax key model now allow_general =
     (if command_code_balance_exhausted key then False
      else expired_zero_loop False (zero_windows tmax key model now allow_general))"

definition expired_zero :: "datetime \<Rightarrow> token_plan_key_usage \<Rightarrow> string option \<Rightarrow> datetime \<Rightarrow> bool" where
  "expired_zero tmax key model now = expired_zero_scoped tmax key model now True"

subsection \<open>The cache\<close>

definition clear_reservations :: "quota_cache \<Rightarrow> uuid \<Rightarrow> quota_cache" where
  "clear_reservations cache endpoint_id =
     cache\<lparr>qc_reservations :=
       (\<lambda>(id, k). if id \<noteq> endpoint_id then qc_reservations cache (id, k) else None)\<rparr>"

definition invalidate :: "clock \<Rightarrow> quota_cache \<Rightarrow> uuid \<Rightarrow> quota_cache" where
  "invalidate clk cache endpoint_id =
     clear_reservations
       (case qc_entries cache endpoint_id of
          None \<Rightarrow> cache
        | Some entry \<Rightarrow>
            cache\<lparr>qc_entries := (qc_entries cache)(endpoint_id \<mapsto>
              entry\<lparr>cu_last_failure :=
                fold (\<lambda>key m. m(tk_key_id key \<mapsto> clk_instant clk)) (tr_keys (cu_usage entry))
                  (cu_last_failure entry)\<rparr>)\<rparr>)
       endpoint_id"

definition fresh_snapshot ::
    "datetime \<Rightarrow> clock \<Rightarrow> quota_cache \<Rightarrow> uuid \<Rightarrow> token_plan_usage_response option" where
  "fresh_snapshot tmax clk cache endpoint_id =
     Option.bind (qc_entries cache endpoint_id) (\<lambda>entry.
       let now = clk_utc clk; elapsed = clk_instant clk - cu_fetched_at entry in
       if elapsed < refresh_after \<and>
          list_all
            (\<lambda>raw.
               let key = advance_relative_resets raw elapsed in
               cu_successful entry (tk_key_id key) \<noteq> None \<and>
               cu_last_failure entry (tk_key_id key) = None \<and>
               \<not> expired_zero tmax key None now \<and>
               list_all (\<lambda>model. \<not> expired_zero tmax key (Some (tm_model_name model)) now)
                 (tk_model_remains key))
            (tr_keys (cu_usage entry))
       then Some (cu_usage entry) else None)"

definition reservation_state :: "quota_cache \<Rightarrow> uuid \<Rightarrow> uuid \<Rightarrow> nat \<times> nat" where
  "reservation_state cache endpoint_id key_id =
     (case qc_reservations cache (endpoint_id, key_id) of
        Some s \<Rightarrow> (rv_tokens s, rv_draws s)
      | None \<Rightarrow> (0, 0))"

definition key_remaining_percent_scoped_now ::
    "datetime \<Rightarrow> clock \<Rightarrow> quota_cache \<Rightarrow> uuid \<Rightarrow> uuid \<Rightarrow> string option \<Rightarrow> bool \<Rightarrow> f64 option" where
  "key_remaining_percent_scoped_now tmax clk cache endpoint_id key_id model allow_general =
     Option.bind (fresh_observed_key_now clk cache endpoint_id key_id) (\<lambda>key.
       if expired_zero_scoped tmax key model (clk_utc clk) allow_general then None
       else
         (case provider_remaining_percent key of
            Some remaining \<Rightarrow> Some remaining
          | None \<Rightarrow>
              Option.bind (model_usage_scoped key model allow_general) (\<lambda>usage.
                model_remaining_percent usage (fst (reservation_state cache endpoint_id key_id)))))"

definition key_weight_percent_scoped_now ::
    "datetime \<Rightarrow> clock \<Rightarrow> quota_cache \<Rightarrow> uuid \<Rightarrow> uuid \<Rightarrow> string option \<Rightarrow> bool \<Rightarrow> f64 option" where
  "key_weight_percent_scoped_now tmax clk cache endpoint_id key_id model allow_general =
     Option.bind (fresh_observed_key_now clk cache endpoint_id key_id) (\<lambda>key.
       if expired_zero_scoped tmax key model (clk_utc clk) allow_general then None
       else
         let (tokens, draws) = reservation_state cache endpoint_id key_id in
         (case provider_remaining_percent key of
            Some remaining \<Rightarrow>
              if f_le remaining (Fin 0) then Some (Fin 0)
              else map_option (\<lambda>weight. apply_reservation_backpressure weight draws)
                     (provider_weight_percent (clk_utc clk) key)
          | None \<Rightarrow>
              Option.bind (model_usage_scoped key model allow_general) (\<lambda>usage.
                if model_remaining_percent usage tokens = Some (Fin 0) then Some (Fin 0)
                else model_weight_percent (clk_utc clk) usage tokens)))"

definition reserve_estimated_tokens :: "quota_cache \<Rightarrow> uuid \<Rightarrow> uuid \<Rightarrow> nat \<Rightarrow> quota_cache" where
  "reserve_estimated_tokens cache endpoint_id key_id estimated_tokens =
     (let (tokens, draws) = reservation_state cache endpoint_id key_id in
      cache\<lparr>qc_reservations := (qc_reservations cache)((endpoint_id, key_id) \<mapsto>
              \<lparr>rv_tokens = u64_saturating_add tokens estimated_tokens,
               rv_draws = u64_saturating_add draws 1\<rparr>)\<rparr>)"

definition estimate_input_tokens :: "string \<Rightarrow> nat" where
  "estimate_input_tokens body = max (u64_saturating_add (utf8_lossy_count body) 3 div 4) 1"

subsection \<open>ChatGPT subscriptions\<close>

definition subscription_freshness :: int where "subscription_freshness = sec_ns 300"
definition subscription_cache_capacity :: nat where "subscription_cache_capacity = 4096"

definition snapshot_fresh :: "datetime \<Rightarrow> chatgpt_routing_snapshot \<Rightarrow> bool" where
  "snapshot_fresh now s \<longleftrightarrow>
     \<not> rs_stale s \<and> 0 \<le> now - rs_observed_at s \<and> now - rs_observed_at s \<le> subscription_freshness"

definition store_chatgpt_subscription_snapshot ::
    "clock \<Rightarrow> quota_cache \<Rightarrow> uuid \<Rightarrow> chatgpt_routing_snapshot option \<Rightarrow> quota_cache" where
  "store_chatgpt_subscription_snapshot clk cache endpoint_id snapshot =
     (let now = clk_utc clk;
          entries = filter (\<lambda>(_, entry). snapshot_fresh now entry) (qc_subscription cache)
      in cache\<lparr>qc_subscription :=
           (case snapshot of
              Some snapshot \<Rightarrow>
                if snapshot_fresh now snapshot \<and>
                   (map_of entries endpoint_id \<noteq> None \<or> length entries < subscription_cache_capacity)
                then AList.update endpoint_id snapshot entries
                else AList.delete endpoint_id entries
            | None \<Rightarrow> AList.delete endpoint_id entries)\<rparr>)"

datatype routing_snapshot_read =
    ReadNoSubscription
  | ReadSubscription "chatgpt_routing_snapshot option"
  | ReadError

definition hydrate_chatgpt_subscription ::
    "clock \<Rightarrow> quota_cache \<Rightarrow> routing_snapshot_read option \<Rightarrow> uuid \<Rightarrow> endpoint_provider \<Rightarrow> quota_cache" where
  "hydrate_chatgpt_subscription clk cache service_read endpoint_id provider =
     (let snapshot =
        (if provider = POpenAi then
           (case service_read of
              Some (ReadSubscription snapshot) \<Rightarrow> snapshot
            | _ \<Rightarrow> None)
         else None)
      in store_chatgpt_subscription_snapshot clk cache endpoint_id snapshot)"

definition snapshot_exhausted :: "datetime \<Rightarrow> chatgpt_routing_snapshot \<Rightarrow> datetime \<Rightarrow> bool" where
  "snapshot_exhausted tmax snapshot now =
     (if rs_stale snapshot \<or> now < rs_observed_at snapshot \<or>
         subscription_freshness < now - rs_observed_at snapshot then False
      else if rs_limit_reached snapshot = Some True \<and>
              \<not> subscription_windows_all_reset tmax (rs_windows snapshot) (rs_observed_at snapshot) now
      then True
      else list_ex (\<lambda>window. subscription_window_is_exhausted tmax window (rs_observed_at snapshot) now)
             (rs_windows snapshot))"

definition chatgpt_subscription_exhausted_now :: "datetime \<Rightarrow> clock \<Rightarrow> quota_cache \<Rightarrow> uuid \<Rightarrow> bool" where
  "chatgpt_subscription_exhausted_now tmax clk cache endpoint_id =
     is_some_and (\<lambda>snapshot. snapshot_exhausted tmax snapshot (clk_utc clk))
       (map_of (qc_subscription cache) endpoint_id)"

subsection \<open>Assessment of a scope\<close>

datatype quota_assessment =
    QaEligible f64
  | QaExhausted
  | QaCooling
  | QaProbeBusy

record quota_scope =
  sc_endpoint_id :: uuid
  sc_key_id :: "uuid option"
  sc_model :: "string option"
  sc_allow_general :: bool
  sc_snapshot :: bool

definition quota_scope_new :: "uuid \<Rightarrow> uuid option \<Rightarrow> string option \<Rightarrow> bool \<Rightarrow> quota_scope" where
  "quota_scope_new endpoint_id key_id model allow_general =
     \<lparr>sc_endpoint_id = endpoint_id, sc_key_id = key_id, sc_model = model,
      sc_allow_general = allow_general, sc_snapshot = True\<rparr>"

definition feedback_scope :: "quota_scope \<Rightarrow> quota_feedback_scope" where
  "feedback_scope scope = feedback_scope_new (sc_endpoint_id scope) (sc_key_id scope)"

definition assess_scope ::
    "datetime \<Rightarrow> clock \<Rightarrow> quota_cache \<Rightarrow> quota_scope \<Rightarrow> quota_cache \<times> quota_assessment" where
  "assess_scope tmax clk cache scope =
     (let (fb, elig) = eligibility (qc_feedback cache) (feedback_scope scope) (clk_instant clk);
          cache = cache\<lparr>qc_feedback := fb\<rparr>;
          key = opt_or_default uuid_nil (sc_key_id scope)
      in
        (cache,
         if elig = FbCooling then QaCooling
         else if elig = FbProbeBusy then QaProbeBusy
         else if \<not> sc_snapshot scope then QaEligible (Fin 1)
         else if chatgpt_subscription_exhausted_now tmax clk cache (sc_endpoint_id scope) then QaExhausted
         else if is_some_and (\<lambda>remaining. is_finite remaining \<and> f_le remaining (Fin 0))
                   (key_remaining_percent_scoped_now tmax clk cache (sc_endpoint_id scope) key
                      (sc_model scope) (sc_allow_general scope))
         then QaExhausted
         else
           (case key_weight_percent_scoped_now tmax clk cache (sc_endpoint_id scope) key
                   (sc_model scope) (sc_allow_general scope) of
              Some weight \<Rightarrow>
                if is_finite weight \<and> f_le weight (Fin 0) then QaExhausted
                else if is_finite weight then QaEligible (f_min weight (Fin 100))
                else QaEligible (Fin 1)
            | None \<Rightarrow> QaEligible (Fin 1))))"

definition claim_scope_probe ::
    "clock \<Rightarrow> quota_cache \<Rightarrow> quota_scope \<Rightarrow> quota_cache \<times> quota_probe_claim" where
  "claim_scope_probe clk cache scope =
     (let (fb, claim) = claim_probe (qc_feedback cache) (feedback_scope scope) (clk_instant clk)
      in (cache\<lparr>qc_feedback := fb\<rparr>, claim))"


subsection \<open>What an observation promises\<close>

lemma expired_zero_loop_iff:
  "expired_zero_loop expired ws \<longleftrightarrow>
     list_all (\<lambda>(zero, passed). zero \<longrightarrow> passed) ws \<and> (expired \<or> list_ex fst ws)"
  by (induction expired ws rule: expired_zero_loop.induct) auto

text \<open>
  An observed zero expires exactly when there is one, every window that shows a zero has
  passed its reset, and no spent credit balance backs it: the early return of the loop and the
  order of the windows do not matter.\<close>

theorem expired_zero_scoped_iff:
  "expired_zero_scoped tmax key model now allow_general \<longleftrightarrow>
     \<not> command_code_balance_exhausted key \<and>
     list_ex fst (zero_windows tmax key model now allow_general) \<and>
     \<not> list_ex (\<lambda>(zero, passed). zero \<and> \<not> passed) (zero_windows tmax key model now allow_general)"
  by (auto simp: expired_zero_scoped_def expired_zero_loop_iff list_all_iff list_ex_iff)

lemma store_keys_ids:
  "store_keys previous clk now keys ms = (keys', ms') \<Longrightarrow> kid \<notin> tk_key_id ` set keys \<Longrightarrow>
     sm_successful ms' kid = sm_successful ms kid \<and> sm_last_failure ms' kid = sm_last_failure ms kid \<and>
     sm_observed_at ms' kid = sm_observed_at ms kid"
proof (induction keys arbitrary: ms keys')
  case (Cons key keys)
  obtain k' m1 where k: "store_key previous clk now key ms = (k', m1)" by fastforce
  obtain ks' where ks: "store_keys previous clk now keys m1 = (ks', ms')"
    using Cons.prems(1) by (auto simp: k split: prod.splits)
  have "sm_successful m1 kid = sm_successful ms kid \<and> sm_last_failure m1 kid = sm_last_failure ms kid \<and>
        sm_observed_at m1 kid = sm_observed_at ms kid"
    using Cons.prems(2) k
    by (auto simp: store_key_def Let_def set_opt_def split: if_splits option.splits)
  then show ?case using Cons.IH [OF ks] Cons.prems(2) by auto
qed simp

text \<open>What the loop leaves for one key of a response whose key ids are distinct.\<close>

definition kept_key :: "cached_usage option \<Rightarrow> token_plan_key_usage \<Rightarrow> token_plan_key_usage" where
  "kept_key previous key =
     (if tk_ok key then key
      else opt_or_default key
        (Option.bind previous (\<lambda>p. find (\<lambda>good. tk_key_id good = tk_key_id key \<and> tk_ok good)
                                  (tr_keys (cu_usage p)))))"

lemma kept_key_id [simp]: "tk_key_id (kept_key previous key) = tk_key_id key"
  by (cases "Option.bind previous (\<lambda>p. find (\<lambda>good. tk_key_id good = tk_key_id key \<and> tk_ok good)
                                  (tr_keys (cu_usage p)))")
    (auto simp: kept_key_def bind_eq_Some_conv dest: find_SomeD)

lemma store_key_fst: "fst (store_key previous clk now key ms) = kept_key previous key"
  by (cases previous) (auto simp: store_key_def Let_def kept_key_def)

lemma store_keys_keys:
  "fst (store_keys previous clk now keys ms) = List.map (kept_key previous) keys"
proof (induction keys arbitrary: ms)
  case (Cons key keys)
  then show ?case using store_key_fst [of previous clk now key ms]
    by (auto split: prod.splits) (metis fst_conv)
qed simp

lemma store_keys_maps:
  assumes "distinct (List.map tk_key_id keys)" "key \<in> set keys"
    "store_keys previous clk now keys ms = (keys', ms')"
    "sm_last_failure ms (tk_key_id key) = None"
  shows "sm_last_failure ms' (tk_key_id key) = (if tk_ok key then None else Some now) \<and>
         (tk_ok key \<longrightarrow> sm_successful ms' (tk_key_id key) = Some now)"
  using assms
proof (induction keys arbitrary: ms keys')
  case (Cons k ks)
  obtain k' m1 where k1: "store_key previous clk now k ms = (k', m1)" by fastforce
  obtain ks' where ks: "store_keys previous clk now ks m1 = (ks', ms')"
    using Cons.prems(3) by (auto simp: k1 split: prod.splits)
  show ?case
  proof (cases "key = k")
    case True
    then have "tk_key_id key \<notin> tk_key_id ` set ks" using Cons.prems(1) by simp
    then show ?thesis using store_keys_ids [OF ks] k1 True Cons.prems(4)
      by (auto simp: store_key_def Let_def split: if_splits option.splits)
  next
    case False
    then have key: "key \<in> set ks" "tk_key_id key \<noteq> tk_key_id k"
      using Cons.prems(1,2) by (auto simp: image_iff)
    have "sm_last_failure m1 (tk_key_id key) = None"
      using k1 Cons.prems(4) key(2) by (auto simp: store_key_def Let_def split: if_splits option.splits)
    then show ?thesis using Cons.IH [OF _ key(1) ks] Cons.prems(1) by simp
  qed
qed simp

lemma stored_entry:
  assumes "store_keys (qc_entries cache endpoint_id) clk now (tr_keys usage) store_maps_new = (keys, ms)"
  shows "qc_entries (store_observation clk cache endpoint_id usage now) endpoint_id =
     Some \<lparr>cu_usage = usage\<lparr>tr_keys := keys\<rparr>, cu_fetched_at = now, cu_successful = sm_successful ms,
           cu_observed_at = sm_observed_at ms, cu_last_failure = sm_last_failure ms\<rparr>"
  by (simp add: store_observation_def assms Let_def)

lemma stored_locked [simp]:
  "qc_entries_locked (store_observation clk cache endpoint_id usage now) = qc_entries_locked cache"
  by (simp add: store_observation_def Let_def split: prod.split)

lemma find_distinct_key:
  assumes "distinct (List.map tk_key_id keys)" "key \<in> set keys" "tk_ok (f key)"
    "\<And>k. tk_key_id (f k) = tk_key_id k"
  shows "find (\<lambda>k. tk_key_id k = tk_key_id key \<and> tk_ok k) (List.map f keys) = Some (f key)"
  using assms
proof (induction keys)
  case (Cons k keys)
  then show ?case by (cases "k = key") (auto simp: image_iff)
qed simp

text \<open>
  A stored fetch is trusted for one minute and a failed key never is: after a response
  (with distinct key ids) is stored, a key that succeeded in it is observed, with its relative
  countdowns advanced by the elapsed time, exactly during the next 60 s; a key that failed in
  it is not observed at all until a later fetch, while the raw snapshot keeps its last good
  usage if there was one.\<close>

theorem store_observation_freshness:
  assumes "distinct (List.map tk_key_id (tr_keys usage))" and "key \<in> set (tr_keys usage)"
    and "\<not> qc_entries_locked cache"
  shows "observed_key_at (store_observation clk cache endpoint_id usage now) endpoint_id (tk_key_id key) t =
           (if tk_ok key \<and> t - now < refresh_after then Some (advance_relative_resets key (t - now)) else None) \<and>
         (\<exists>stored. raw_snapshot (store_observation clk cache endpoint_id usage now) endpoint_id = Some stored \<and>
            tr_keys stored = List.map (kept_key (qc_entries cache endpoint_id)) (tr_keys usage))"
proof -
  obtain keys ms where k: "store_keys (qc_entries cache endpoint_id) clk now (tr_keys usage) store_maps_new = (keys, ms)"
    by fastforce
  have keys: "keys = List.map (kept_key (qc_entries cache endpoint_id)) (tr_keys usage)"
    using store_keys_keys [of "qc_entries cache endpoint_id" clk now "tr_keys usage" store_maps_new] k by simp
  have m: "sm_last_failure ms (tk_key_id key) = (if tk_ok key then None else Some now) \<and>
      (tk_ok key \<longrightarrow> sm_successful ms (tk_key_id key) = Some now)"
    using store_keys_maps [OF assms(1,2) k] by (simp add: store_maps_new_def)
  have f: "find (\<lambda>k. tk_key_id k = tk_key_id key \<and> tk_ok k) keys = Some key" if "tk_ok key"
    using find_distinct_key [OF assms(1,2), of "kept_key (qc_entries cache endpoint_id)"] that
    by (simp add: keys kept_key_def [of _ key])
  show ?thesis
    using m f assms(3)
    by (auto simp: observed_key_at_def stored_entry [OF k] raw_snapshot_def keys not_less)
qed

definition demo_usage :: token_plan_usage_response where
  "demo_usage =
     \<lparr>tr_provider = PCommandCode, tr_provider_region = None, tr_keys = [demo_key], tr_local_today_tokens = None\<rparr>"

definition demo_clock :: clock where
  "demo_clock = \<lparr>clk_instant = secs 10, clk_utc = 0, clk_weekday = 1, clk_minutes = 600\<rparr>"

definition demo_cache :: quota_cache where
  "demo_cache = store_observation demo_clock quota_cache_default 3 demo_usage (secs 10)"

lemma demo_key_sel [simp]: "tk_key_id demo_key = 5" "tk_ok demo_key" "tk_model_remains demo_key = []"
  by (simp_all add: demo_key_def failed_key_def)

lemma demo_advance [simp]: "advance_relative_resets demo_key d = demo_key"
  by (simp add: advance_relative_resets_def demo_key_def failed_key_def)

lemma store_observation_freshness_witness:
  "observed_key_at demo_cache 3 5 (secs 60) = Some demo_key \<and> observed_key_at demo_cache 3 5 (secs 70) = None"
  using store_observation_freshness [of demo_usage demo_key quota_cache_default demo_clock 3 "secs 10" "secs 60"]
    store_observation_freshness [of demo_usage demo_key quota_cache_default demo_clock 3 "secs 10" "secs 70"]
  by (simp add: demo_usage_def demo_cache_def quota_cache_default_def refresh_after_def secs_def)


subsection \<open>What an assessment promises\<close>

lemma cache_feedback_update [simp]:
  "fresh_observed_key_now clk (cache\<lparr>qc_feedback := fb\<rparr>) e k = fresh_observed_key_now clk cache e k"
  "reservation_state (cache\<lparr>qc_feedback := fb\<rparr>) e k = reservation_state cache e k"
  "chatgpt_subscription_exhausted_now tmax clk (cache\<lparr>qc_feedback := fb\<rparr>) e =
     chatgpt_subscription_exhausted_now tmax clk cache e"
  by (simp_all add: fresh_observed_key_now_def observed_key_at_def reservation_state_def
      chatgpt_subscription_exhausted_now_def)

lemma cache_feedback_percents [simp]:
  "key_remaining_percent_scoped_now tmax clk (cache\<lparr>qc_feedback := fb\<rparr>) e k m g =
     key_remaining_percent_scoped_now tmax clk cache e k m g"
  "key_weight_percent_scoped_now tmax clk (cache\<lparr>qc_feedback := fb\<rparr>) e k m g =
     key_weight_percent_scoped_now tmax clk cache e k m g"
  unfolding key_remaining_percent_scoped_now_def key_weight_percent_scoped_now_def
    cache_feedback_update by (rule refl)+

lemma f_min_percent:
  "is_finite w \<Longrightarrow> \<not> f_le w (Fin 0) \<Longrightarrow>
     is_finite (f_min w (Fin 100)) \<and> f_lt (Fin 0) (f_min w (Fin 100)) \<and> f_le (f_min w (Fin 100)) (Fin 100)"
  by (cases w) (auto simp: f_min_def)

lemma assess_scope_snd:
  "snd (assess_scope tmax clk cache scope) =
     (let elig = snd (eligibility (qc_feedback cache) (feedback_scope scope) (clk_instant clk));
          key = opt_or_default uuid_nil (sc_key_id scope) in
      if elig = FbCooling then QaCooling
      else if elig = FbProbeBusy then QaProbeBusy
      else if \<not> sc_snapshot scope then QaEligible (Fin 1)
      else if chatgpt_subscription_exhausted_now tmax clk cache (sc_endpoint_id scope) then QaExhausted
      else if is_some_and (\<lambda>remaining. is_finite remaining \<and> f_le remaining (Fin 0))
                (key_remaining_percent_scoped_now tmax clk cache (sc_endpoint_id scope) key
                   (sc_model scope) (sc_allow_general scope))
      then QaExhausted
      else
        (case key_weight_percent_scoped_now tmax clk cache (sc_endpoint_id scope) key
                (sc_model scope) (sc_allow_general scope) of
           Some weight \<Rightarrow>
             if is_finite weight \<and> f_le weight (Fin 0) then QaExhausted
             else if is_finite weight then QaEligible (f_min weight (Fin 100))
             else QaEligible (Fin 1)
         | None \<Rightarrow> QaEligible (Fin 1)))"
  by (simp add: assess_scope_def Let_def split: prod.split)

text \<open>
  C24: A scope that is assessed eligible gets a usable draw weight, finite, strictly positive
  and at most 100, and it is neither cooling nor being probed nor, when the snapshot gates it,
  on a subscription known to be spent.\<close>

theorem assess_scope_eligible:
  assumes "snd (assess_scope tmax clk cache scope) = QaEligible w"
  shows "is_finite w \<and> f_lt (Fin 0) w \<and> f_le w (Fin 100) \<and>
         snd (eligibility (qc_feedback cache) (feedback_scope scope) (clk_instant clk)) \<noteq> FbCooling \<and>
         snd (eligibility (qc_feedback cache) (feedback_scope scope) (clk_instant clk)) \<noteq> FbProbeBusy \<and>
         \<not> (sc_snapshot scope \<and> chatgpt_subscription_exhausted_now tmax clk cache (sc_endpoint_id scope))"
  using assms f_min_percent
  by (auto simp: assess_scope_snd Let_def split: if_splits option.splits)

definition demo_quota_scope :: quota_scope where
  "demo_quota_scope = quota_scope_new 3 (Some 5) (Some ''m'') True"

lemma demo_eligibility [simp]:
  "snd (eligibility feedback_empty scope now) = FbEligible"
  by (simp add: eligibility_def Let_def prune_def feedback_empty_def)

lemma demo_cache_sel [simp]:
  "qc_feedback demo_cache = feedback_empty" "qc_subscription demo_cache = []"
  by (simp_all add: demo_cache_def store_observation_def quota_cache_default_def Let_def split: prod.split)

lemma demo_cold_eligible:
  "snd (assess_scope 0 demo_clock quota_cache_default demo_quota_scope) = QaEligible (Fin 1)"
  by (simp add: assess_scope_snd Let_def demo_quota_scope_def quota_scope_new_def quota_cache_default_def
      chatgpt_subscription_exhausted_now_def key_remaining_percent_scoped_now_def
      key_weight_percent_scoped_now_def fresh_observed_key_now_def observed_key_at_def)

lemma assess_scope_eligible_witness:
  "f_lt (Fin 0) (Fin 1) \<and>
   snd (eligibility (qc_feedback quota_cache_default) (feedback_scope demo_quota_scope) (secs 10)) \<noteq> FbCooling"
  using assess_scope_eligible [OF demo_cold_eligible] by (simp add: demo_clock_def)

text \<open>
  No signal is not a bad signal: if no fresh observation of the key exists (never fetched,
  older than a minute, its last fetch failed, or the entries are locked by a writer), or if
  every zero in it has passed its reset, then only a spent ChatGPT subscription or the
  feedback store can keep the scope out; otherwise it is eligible with the neutral weight 1.\<close>

theorem unknown_quota_is_eligible:
  assumes "\<not> chatgpt_subscription_exhausted_now tmax clk cache (sc_endpoint_id scope)"
    and "(case fresh_observed_key_now clk cache (sc_endpoint_id scope)
                 (opt_or_default uuid_nil (sc_key_id scope)) of
            None \<Rightarrow> True
          | Some key \<Rightarrow> expired_zero_scoped tmax key (sc_model scope) (clk_utc clk) (sc_allow_general scope))"
  shows "snd (assess_scope tmax clk cache scope) =
           (case snd (eligibility (qc_feedback cache) (feedback_scope scope) (clk_instant clk)) of
              FbCooling \<Rightarrow> QaCooling
            | FbProbeBusy \<Rightarrow> QaProbeBusy
            | _ \<Rightarrow> QaEligible (Fin 1))"
  using assms
  by (auto simp: assess_scope_snd Let_def key_remaining_percent_scoped_now_def
      key_weight_percent_scoped_now_def split: option.splits quota_feedback_eligibility.split)

lemma unknown_quota_is_eligible_witness:
  "snd (assess_scope 0 (demo_clock\<lparr>clk_instant := secs 70\<rparr>) demo_cache demo_quota_scope) = QaEligible (Fin 1)"
proof -
  have "fresh_observed_key_now (demo_clock\<lparr>clk_instant := secs 70\<rparr>) demo_cache 3 5 = None"
    by (simp add: fresh_observed_key_now_def observed_key_at_def demo_cache_def store_observation_def
        demo_clock_def demo_usage_def store_key_def store_maps_new_def quota_cache_default_def refresh_after_def
        secs_def Let_def)
  then show ?thesis
    using unknown_quota_is_eligible [of 0 "demo_clock\<lparr>clk_instant := secs 70\<rparr>" demo_cache demo_quota_scope]
    by (simp add: chatgpt_subscription_exhausted_now_def demo_quota_scope_def quota_scope_new_def)
qed

subsection \<open>The subscription store\<close>

definition subscriptions_ok :: "quota_cache \<Rightarrow> bool" where
  "subscriptions_ok cache \<longleftrightarrow>
     distinct (List.map fst (qc_subscription cache)) \<and>
     length (qc_subscription cache) \<le> subscription_cache_capacity"

lemma length_update_new: "map_of xs k = None \<Longrightarrow> length (AList.update k v xs) = Suc (length xs)"
  by (induction xs) auto

lemma length_update_old: "map_of xs k \<noteq> None \<Longrightarrow> length (AList.update k v xs) = length xs"
  by (induction xs) auto

lemma length_delete_le: "length (AList.delete k xs) \<le> length xs"
  by (simp add: AList.delete_eq)

lemma filter_fst_distinct: "distinct (List.map fst xs) \<Longrightarrow> distinct (List.map fst (filter P xs))"
  by (induction xs) auto

text \<open>
  C32: The subscription store stays bounded and current: storing a snapshot keeps the keys
  distinct and the size within 4096 entries, leaves only entries that are fresh at that
  moment, and makes the endpoint read back exactly the stored snapshot when that is fresh and
  the store has room (or already held the endpoint), and nothing otherwise.\<close>

theorem subscription_store_bounded:
  assumes "subscriptions_ok cache"
  shows "let cache' = store_chatgpt_subscription_snapshot clk cache endpoint_id snapshot;
             fresh = filter (\<lambda>(_, entry). snapshot_fresh (clk_utc clk) entry) (qc_subscription cache)
         in
         subscriptions_ok cache' \<and>
         list_all (\<lambda>(_, entry). snapshot_fresh (clk_utc clk) entry) (qc_subscription cache') \<and>
         map_of (qc_subscription cache') endpoint_id =
           (if is_some_and (snapshot_fresh (clk_utc clk)) snapshot \<and>
               (map_of fresh endpoint_id \<noteq> None \<or> length fresh < subscription_cache_capacity)
            then snapshot else None)"
proof -
  define cache' where "cache' = store_chatgpt_subscription_snapshot clk cache endpoint_id snapshot"
  define fresh where "fresh = filter (\<lambda>(_, entry). snapshot_fresh (clk_utc clk) entry) (qc_subscription cache)"
  have d: "distinct (List.map fst fresh)" and l: "length fresh \<le> subscription_cache_capacity"
    using assms(1) length_filter_le [of "\<lambda>(_, entry). snapshot_fresh (clk_utc clk) entry" "qc_subscription cache"]
    unfolding subscriptions_ok_def fresh_def by (simp_all add: filter_fst_distinct del: length_filter_le)
  have f: "\<forall>x \<in> set fresh. snapshot_fresh (clk_utc clk) (snd x)" by (auto simp: fresh_def)
  have main: "subscriptions_ok cache' \<and>
      list_all (\<lambda>(_, entry). snapshot_fresh (clk_utc clk) entry) (qc_subscription cache') \<and>
      map_of (qc_subscription cache') endpoint_id =
        (if is_some_and (snapshot_fresh (clk_utc clk)) snapshot \<and>
            (map_of fresh endpoint_id \<noteq> None \<or> length fresh < subscription_cache_capacity)
         then snapshot else None)"
  proof (cases "is_some_and (snapshot_fresh (clk_utc clk)) snapshot \<and>
               (map_of fresh endpoint_id \<noteq> None \<or> length fresh < subscription_cache_capacity)")
    case True
    then obtain s where s: "snapshot = Some s" "snapshot_fresh (clk_utc clk) s" by (auto simp: is_some_and_iff)
    have c: "qc_subscription cache' = AList.update endpoint_id s fresh"
      using True s by (simp add: cache'_def store_chatgpt_subscription_snapshot_def fresh_def Let_def)
    have "length (AList.update endpoint_id s fresh) \<le> subscription_cache_capacity"
      using True l by (cases "map_of fresh endpoint_id") (simp_all add: length_update_new length_update_old)
    moreover have "\<forall>x \<in> set (AList.update endpoint_id s fresh). snapshot_fresh (clk_utc clk) (snd x)"
      using f s(2) by (induction fresh) auto
    ultimately show ?thesis
      using True d s by (simp add: c subscriptions_ok_def distinct_update list_all_iff case_prod_unfold update_conv')
  next
    case False
    then have c: "qc_subscription cache' = AList.delete endpoint_id fresh"
      by (auto simp: cache'_def store_chatgpt_subscription_snapshot_def fresh_def Let_def is_some_and_iff
          split: option.split)
    have "length (AList.delete endpoint_id fresh) \<le> subscription_cache_capacity"
      using length_delete_le [of endpoint_id fresh] l by simp
    moreover have "distinct (List.map fst (AList.delete endpoint_id fresh))" using d by (rule distinct_delete)
    moreover have "map_of (AList.delete endpoint_id fresh) endpoint_id = None" by (simp add: delete_conv')
    moreover have "\<forall>x \<in> set (AList.delete endpoint_id fresh). snapshot_fresh (clk_utc clk) (snd x)"
      using f by (simp add: AList.delete_eq)
    ultimately show ?thesis
      unfolding c subscriptions_ok_def if_not_P [OF False] by (simp add: list_all_iff case_prod_unfold)
  qed
  then show ?thesis unfolding Let_def cache'_def fresh_def .
qed

lemma subscription_store_bounded_witness:
  "map_of (qc_subscription (store_chatgpt_subscription_snapshot demo_clock quota_cache_default 3
     (Some \<lparr>rs_observed_at = 0, rs_limit_reached = None, rs_windows = [], rs_stale = False\<rparr>))) 3 =
   Some \<lparr>rs_observed_at = 0, rs_limit_reached = None, rs_windows = [], rs_stale = False\<rparr>"
  using subscription_store_bounded [of quota_cache_default demo_clock 3
      "Some \<lparr>rs_observed_at = 0, rs_limit_reached = None, rs_windows = [], rs_stale = False\<rparr>"]
  by (simp add: subscriptions_ok_def quota_cache_default_def snapshot_fresh_def demo_clock_def
      subscription_freshness_def sec_ns_def subscription_cache_capacity_def Let_def)


subsection \<open>Reservations only lower a weight\<close>

text \<open>Counters of the cache are \<open>u64\<close>, the provider's totals are \<open>i64\<close>.\<close>

definition reservations_ok :: "quota_cache \<Rightarrow> bool" where
  "reservations_ok cache \<longleftrightarrow>
     (\<forall>r s. qc_reservations cache r = Some s \<longrightarrow> rv_tokens s \<le> u64_max \<and> rv_draws s \<le> u64_max)"

definition window_ok :: "token_plan_window_usage \<Rightarrow> bool" where
  "window_ok w \<longleftrightarrow>
     percent_opt_ok (tw_remaining_percent w) \<and> \<not> is_some_and (\<lambda>n. i64_max < n) (tw_total_count w)"

definition model_ok :: "token_plan_model_usage \<Rightarrow> bool" where
  "model_ok m \<longleftrightarrow>
     \<not> is_some_and (\<lambda>w. \<not> window_ok w) (tm_interval m) \<and> \<not> is_some_and (\<lambda>w. \<not> window_ok w) (tm_weekly m)"

lemma fround_finite:
  assumes "\<bar>q\<bar> \<le> 2 ^ 64" shows "\<exists>r. fround q = Fin r"
proof -
  have w: "wf64 (Fin (2 ^ 64))"
    using fround_repr [of "2 ^ 64" "2 ^ 53" 11] by (simp add: wf64_def)
  have w': "wf64 (Fin (- (2 ^ 64)))" using w fround_neg [of "2 ^ 64"] by (simp add: wf64_def)
  have "f_le (fround q) (Fin (2 ^ 64))" using w assms by (intro fround_le_repr) auto
  moreover have "f_le (Fin (- (2 ^ 64))) (fround q)" using w' assms by (intro fround_ge_repr) auto
  ultimately show ?thesis by (cases "fround q") auto
qed

lemma fold_min_le: "fold min ts (t :: int) \<in> insert t (set ts)"
  by (induction ts arbitrary: t) (auto simp: min_def)

lemma reserved_share_mono:
  assumes "0 < T" "T \<le> i64_max" "n \<le> m" "m \<le> u64_max"
  shows "\<exists>x y. f_min (f_mul (f_div (f_of_nat n) (f_of_int T)) (Fin 100)) (Fin 100) = Fin x \<and>
               f_min (f_mul (f_div (f_of_nat m) (f_of_int T)) (Fin 100)) (Fin 100) = Fin y \<and> 0 \<le> x \<and> x \<le> y"
proof -
  have "(of_int T :: rat) \<le> of_int i64_max" using assms(2) unfolding of_int_le_iff .
  then obtain d where d: "fround (of_int T) = Fin d"
    using fround_finite [of "of_int T"] assms(1) by (auto simp: i64_max_def)
  have "1 \<le> d" using fround_ge_repr [of 1 "of_int T"] assms(1) d by simp
  have u: "(of_nat k :: rat) \<le> 2 ^ 64" if "k \<le> u64_max" for k
  proof -
    have "(of_nat k :: rat) \<le> of_nat (2 ^ 64)" using that unfolding of_nat_le_iff by (simp add: u64_max_def)
    then show ?thesis by simp
  qed
  obtain a where a: "fround (of_nat n) = Fin a" using fround_finite [of "of_nat n"] u [of n] assms by auto
  obtain b where b: "fround (of_nat m) = Fin b" using fround_finite [of "of_nat m"] u [of m] assms by auto
  have ab: "0 \<le> a" "a \<le> b"
    using fround_nonneg [of "of_nat n"] fround_mono [of "of_nat n" "of_nat m"] assms(3) a b by auto
  have q: "f_le (Fin 0) (fround (a / d))" "f_le (fround (a / d)) (fround (b / d))"
    using ab \<open>1 \<le> d\<close> by (auto intro!: fround_nonneg fround_mono divide_right_mono)
  have pos: "f_le (Fin 0) v \<Longrightarrow> f_le v w \<Longrightarrow> w \<noteq> NaN \<Longrightarrow>
      \<exists>x y. f_min (f_mul v (Fin 100)) (Fin 100) = Fin x \<and> f_min (f_mul w (Fin 100)) (Fin 100) = Fin y \<and>
            0 \<le> x \<and> x \<le> y" for v w
    using fround_nonneg [of "_ * 100"] fround_mono [of "_ * 100" "_ * 100"]
  proof (cases v; cases w)
    fix r s assume v: "v = Fin r" and w: "w = Fin s" and le: "f_le (Fin 0) v" "f_le v w"
    have "f_le (Fin 0) (fround (r * 100))" "f_le (fround (r * 100)) (fround (s * 100))"
      using le v w by (auto intro!: fround_nonneg fround_mono)
    then show ?thesis unfolding v w
      by (cases "fround (r * 100)"; cases "fround (s * 100)") (auto simp: f_min_def)
  next
    fix r s assume v: "v = Fin r" and w: "w = Inf s" and le: "f_le (Fin 0) v" "f_le v w"
    have "f_le (Fin 0) (fround (r * 100))" using le v by (auto intro!: fround_nonneg)
    moreover have "\<not> s" using le by (simp add: v w)
    ultimately show ?thesis unfolding v w by (cases "fround (r * 100)") (auto simp: f_min_def)
  qed (auto simp: f_min_def)
  show ?thesis using pos [OF q] \<open>1 \<le> d\<close> by (simp add: f_of_nat_def f_of_int_def a b d)
qed

lemma reserved_percent_mono:
  assumes "model_ok usage" "n \<le> m" "m \<le> u64_max"
  shows "\<exists>x y. reserved_percent usage n = Fin x \<and> reserved_percent usage m = Fin y \<and> 0 \<le> x \<and> x \<le> y"
proof -
  define totals where "totals = filter (\<lambda>total. 0 < total)
      (List.map_filter (\<lambda>x. x) [Option.bind (tm_interval usage) tw_total_count,
                                Option.bind (tm_weekly usage) tw_total_count])"
  define T where "T = (case totals of [] \<Rightarrow> 0 | t # ts \<Rightarrow> fold min ts t)"
  have r: "reserved_percent usage k = (if T \<le> 0 then Fin 0
      else f_min (f_mul (f_div (f_of_nat k) (f_of_int T)) (Fin 100)) (Fin 100))" for k
    unfolding reserved_percent_def Let_def totals_def [symmetric] T_def by simp
  have "\<forall>t \<in> set totals. t \<le> i64_max"
    using assms(1)
    by (cases "tm_interval usage"; cases "tm_weekly usage")
      (auto simp: totals_def model_ok_def window_ok_def not_less split: option.splits)
  moreover have "T = 0 \<or> T \<in> set totals"
    using fold_min_le [of "tl totals" "hd totals"] by (cases totals) (auto simp: T_def)
  ultimately have "T \<le> i64_max" by (auto simp: i64_max_def)
  then show ?thesis using reserved_share_mono [of T n m] assms(2,3) unfolding r by auto
qed

lemma damp_tokens_mono:
  assumes "percent_ok r" "0 \<le> x" "x \<le> y"
  shows "f_le (f_max (f_sub r (Fin y)) (Fin 0)) (f_max (f_sub r (Fin x)) (Fin 0))"
proof -
  obtain q where r: "r = Fin q" using assms(1) by (auto simp: percent_ok_iff)
  have "f_le (fround (q - y)) (fround (q - x))" using assms by (intro fround_mono) simp
  then show ?thesis
    by (cases "fround (q - y)"; cases "fround (q - x)") (auto simp: r f_sub_def f_max_def)
qed

lemma tighter_window_ok:
  "\<lbrakk>\<And>x. a = Some x \<Longrightarrow> percent_ok x; \<And>x. b = Some x \<Longrightarrow> percent_ok x; tighter_window a b = Some r\<rbrakk> \<Longrightarrow> percent_ok r"
  by (cases a; cases b) (auto simp: tighter_window_def percent_ok_iff f_min_def f_clamp_def split: if_splits)


lemma tighter_window_wf:
  "\<lbrakk>\<And>x. a = Some x \<Longrightarrow> percent_ok x; \<And>x. b = Some x \<Longrightarrow> percent_ok x\<rbrakk> \<Longrightarrow>
     rel_option (\<lambda>r' r. f_le (f_max (f_sub r' (Fin y)) (Fin 0)) (f_max (f_sub r (Fin x)) (Fin 0)))
       (tighter_window a b) (tighter_window a b)" if "0 \<le> x" "x \<le> y"
  using that damp_tokens_mono tighter_window_ok [of a b]
  by (cases "tighter_window a b") auto

lemma percent_opt_bind_ok:
  "\<not> is_some_and (\<lambda>w. \<not> window_ok w) o' \<Longrightarrow> Option.bind o' tw_remaining_percent = Some x \<Longrightarrow>
     percent_ok x \<and> wf64 x"
  by (cases o') (auto simp: window_ok_def dest: percent_opt_okD)

lemma window_weight_ok:
  "window_ok w \<Longrightarrow> window_weight_percent now w period = Some x \<Longrightarrow> percent_ok x"
proof -
  assume w: "window_ok w" and x: "window_weight_percent now w period = Some x"
  then obtain r where r: "tw_remaining_percent w = Some r" "percent_ok r" "wf64 r"
    by (auto simp: window_weight_percent_def window_ok_def dest: percent_opt_okD)
  let ?t = "opt_or (map_option (\<lambda>ms. f_div (f_of_int ms) (Fin 1000)) (tw_remains_time_ms w)) (seconds_until now (tw_end_at w))"
  have "wf64 s" if "?t = Some s" for s
    using that by (auto simp: opt_or_eq_Some f_div_wf intro: seconds_until_wf)
  then show ?thesis using urgent_remaining_lifts [of r ?t period] r x by (simp add: window_weight_percent_def)
qed

lemma model_percent_mono:
  assumes "model_ok usage" "n \<le> m" "m \<le> u64_max"
  shows "rel_option f_le (model_remaining_percent usage m) (model_remaining_percent usage n)"
    and "rel_option f_le (model_weight_percent now usage m) (model_weight_percent now usage n)"
proof -
  obtain x y where xy: "reserved_percent usage n = Fin x" "reserved_percent usage m = Fin y" "0 \<le> x" "x \<le> y"
    using reserved_percent_mono [OF assms] by auto
  note t = tighter_window_wf [OF xy(3,4)]
  show "rel_option f_le (model_remaining_percent usage m) (model_remaining_percent usage n)"
    using t [of "Option.bind (tm_interval usage) tw_remaining_percent" "Option.bind (tm_weekly usage) tw_remaining_percent"]
      assms(1) percent_opt_bind_ok
    by (force simp: model_remaining_percent_def effective_remaining_percent_def option.rel_map xy model_ok_def)
  have ok: "Option.bind o' (\<lambda>w. window_weight_percent now w p) = Some v \<Longrightarrow> percent_ok v"
    if "\<not> is_some_and (\<lambda>w. \<not> window_ok w) o'" for o' p v
    using that window_weight_ok by (cases o') auto
  show "rel_option f_le (model_weight_percent now usage m) (model_weight_percent now usage n)"
    using t [of "Option.bind (tm_interval usage) (\<lambda>w. window_weight_percent now w five_hour_seconds)"
        "Option.bind (tm_weekly usage) (\<lambda>w. window_weight_percent now w weekly_seconds)"] assms(1) ok
    by (force simp: model_weight_percent_def effective_weight_percent_def option.rel_map xy model_ok_def)
qed

lemma f_max_nonneg: "f_le (Fin 0) (f_max v (Fin 0))"
  by (cases v) (auto simp: f_max_def)

lemma model_percent_nonneg:
  "model_weight_percent now usage n = Some w \<Longrightarrow> f_le (Fin 0) w"
  "model_remaining_percent usage n = Some w \<Longrightarrow> f_le (Fin 0) w"
  by (auto simp: model_weight_percent_def model_remaining_percent_def f_max_nonneg)

lemma tighter_window_None [simp]: "tighter_window a b = None \<longleftrightarrow> a = None \<and> b = None"
  by (cases a; cases b) (simp_all add: tighter_window_def)

lemma model_percent_None:
  "model_weight_percent now usage n = None \<longleftrightarrow> model_remaining_percent usage n = None"
  by (cases "tm_interval usage"; cases "tm_weekly usage")
    (auto simp: model_weight_percent_def model_remaining_percent_def effective_weight_percent_def
      effective_remaining_percent_def window_weight_percent_def)

lemma reserve_sel [simp]:
  "fresh_observed_key_now clk (reserve_estimated_tokens cache e k n) e' k' = fresh_observed_key_now clk cache e' k'"
  by (simp add: reserve_estimated_tokens_def fresh_observed_key_now_def observed_key_at_def Let_def split: prod.split)

lemma reserve_state:
  "reservation_state (reserve_estimated_tokens cache e k n) e k =
     (u64_saturating_add (fst (reservation_state cache e k)) n,
      u64_saturating_add (snd (reservation_state cache e k)) 1)"
  by (simp add: reserve_estimated_tokens_def reservation_state_def [of "_\<lparr>qc_reservations := _\<rparr>"] Let_def
      split: prod.split)

lemma reservation_state_bounds:
  "reservations_ok cache \<Longrightarrow> fst (reservation_state cache e k) \<le> u64_max \<and> snd (reservation_state cache e k) \<le> u64_max"
  by (auto simp: reservations_ok_def reservation_state_def split: option.splits)

lemma saturating_ge: "a \<le> u64_max \<Longrightarrow> a \<le> u64_saturating_add a b"
  by (simp add: u64_saturating_add_def)

lemma model_zero_mono:
  assumes "model_ok usage" "t \<le> t'" "t' \<le> u64_max"
  shows "rel_option f_le
     (if model_remaining_percent usage t' = Some (Fin 0) then Some (Fin 0) else model_weight_percent now usage t')
     (if model_remaining_percent usage t = Some (Fin 0) then Some (Fin 0) else model_weight_percent now usage t)"
proof -
  note mono = model_percent_mono [OF assms]
  show ?thesis
  proof (cases "model_remaining_percent usage t' = Some (Fin 0)")
    case True
    then obtain r where r: "model_remaining_percent usage t = Some r" using mono(1) by (auto simp: option_rel_Some1)
    then obtain w where w: "model_weight_percent now usage t = Some w"
      using model_percent_None [of now usage t] by auto
    show ?thesis using True r w model_percent_nonneg(1) [OF w] by simp
  next
    case False
    have "model_remaining_percent usage t \<noteq> Some (Fin 0)"
    proof
      assume "model_remaining_percent usage t = Some (Fin 0)"
      then obtain r where r: "model_remaining_percent usage t' = Some r" "f_le r (Fin 0)"
        using mono(1) by (auto simp: option_rel_Some2)
      then have "r = Fin 0" using model_percent_nonneg(2) f_le_antisym by blast
      then show False using r False by simp
    qed
    then show ?thesis using False mono(2) by simp
  qed
qed

lemma bp_mono:
  "wf64 w \<Longrightarrow> d \<le> d' \<Longrightarrow> f_le (apply_reservation_backpressure w d') (apply_reservation_backpressure w d)"
  using backpressure_core by blast

lemma key_weight_unfold:
  assumes "fresh_observed_key_now clk c e k = Some key"
  shows "key_weight_percent_scoped_now tmax clk c e k model general =
     (if expired_zero_scoped tmax key model (clk_utc clk) general then None
      else (case provider_remaining_percent key of
         Some r \<Rightarrow> if f_le r (Fin 0) then Some (Fin 0)
             else map_option (\<lambda>w. apply_reservation_backpressure w (snd (reservation_state c e k)))
                    (provider_weight_percent (clk_utc clk) key)
       | None \<Rightarrow> Option.bind (model_usage_scoped key model general) (\<lambda>usage.
           if model_remaining_percent usage (fst (reservation_state c e k)) = Some (Fin 0) then Some (Fin 0)
           else model_weight_percent (clk_utc clk) usage (fst (reservation_state c e k)))))"
  by (simp add: key_weight_percent_scoped_now_def Let_def case_prod_unfold assms)

text \<open>
  C31: Reserving an estimate on a key never raises the key's draw weight: at any instant, for
  every observation whose percentages lie in [0, 100], for the key and for each of its models, the weight after the
  reservation exists exactly when the one before did and is at most it, whether the key is
  weighted by provider windows (damped per draw) or by token windows (charged per token);
  the saturating counters keep their 64-bit range.\<close>

theorem reservation_lowers_weight:
  assumes "reservations_ok cache"
    and "\<And>key. fresh_observed_key_now clk cache e k = Some key \<Longrightarrow>
           reported_percents_ok key \<and> list_all model_ok (tk_model_remains key)"
  shows "rel_option f_le
           (key_weight_percent_scoped_now tmax clk (reserve_estimated_tokens cache e k n) e k model general)
           (key_weight_percent_scoped_now tmax clk cache e k model general) \<and>
         reservations_ok (reserve_estimated_tokens cache e k n)"
proof
  obtain t d where td: "reservation_state cache e k = (t, d)" by fastforce
  let ?t = "u64_saturating_add t n" and ?d = "u64_saturating_add d 1"
  have le: "t \<le> ?t" "?t \<le> u64_max" "d \<le> ?d"
    using reservation_state_bounds [OF assms(1), of e k] by (simp_all add: td saturating_ge)
  show "reservations_ok (reserve_estimated_tokens cache e k n)"
    using assms(1) by (auto simp: reservations_ok_def reserve_estimated_tokens_def td)
  show "rel_option f_le
      (key_weight_percent_scoped_now tmax clk (reserve_estimated_tokens cache e k n) e k model general)
      (key_weight_percent_scoped_now tmax clk cache e k model general)"
  proof (cases "fresh_observed_key_now clk cache e k")
    case None
    then show ?thesis by (simp add: key_weight_percent_scoped_now_def)
  next
    case (Some key)
    then have ok: "reported_percents_ok key" "list_all model_ok (tk_model_remains key)" using assms(2) by auto
    have models: "model_ok usage" if "model_usage_scoped key model general = Some usage" for usage
      using that ok(2)
      by (auto simp: model_usage_scoped_def Let_def bind_eq_Some_conv opt_or_eq_Some list_all_iff
          dest: find_SomeD split: if_splits)
    have "rel_option f_le
        (map_option (\<lambda>w. apply_reservation_backpressure w ?d) (provider_weight_percent (clk_utc clk) key))
        (map_option (\<lambda>w. apply_reservation_backpressure w d) (provider_weight_percent (clk_utc clk) key))"
      using provider_lifted [OF ok(1), of "clk_utc clk"] bp_mono [OF _ le(3)]
      by (cases "provider_weight_percent (clk_utc clk) key"; cases "provider_remaining_percent key")
        (auto simp: lifted_def)
    then show ?thesis
      unfolding key_weight_unfold [OF Some] key_weight_unfold [OF trans [OF reserve_sel Some]]
        reserve_state td fst_conv snd_conv
      using models model_zero_mono [OF _ le(1,2)] by (auto split: option.split Option.bind_split)
  qed
qed


lemma demo_observed:
  "fresh_observed_key_now demo_clock demo_cache 3 5 = Some demo_key"
  by (simp add: fresh_observed_key_now_def observed_key_at_def demo_cache_def store_observation_def
      demo_clock_def demo_usage_def store_key_def store_maps_new_def quota_cache_default_def refresh_after_def
      secs_def Let_def)

lemma demo_reservations_ok: "reservations_ok demo_cache"
  by (auto simp: reservations_ok_def demo_cache_def store_observation_def quota_cache_default_def Let_def
      split: prod.splits if_splits)

lemma reservation_lowers_weight_witness:
  "reservations_ok (reserve_estimated_tokens demo_cache 3 5 100) \<and>
   rel_option f_le
     (key_weight_percent_scoped_now 0 demo_clock (reserve_estimated_tokens demo_cache 3 5 100) 3 5 None True)
     (key_weight_percent_scoped_now 0 demo_clock demo_cache 3 5 None True)"
  using reservation_lowers_weight [OF demo_reservations_ok, of demo_clock 3 5 0 100 None True]
    demo_key_ok by (simp add: demo_observed)

end
