(* ===== verification/QuotaStatus.thy ===== *)
theory QuotaStatus
  imports QuotaCache
begin

text \<open>
  The quota status shown for a key, \<open>src/worker_admin/quota_status.rs\<close>, and the clearing of
  restored cooldowns of \<open>src/worker_admin/token_plan_cache/refresh.rs\<close>. Of a ChatGPT
  observation \<open>serde_json\<close> decodes nothing here: windows are already decoded in the usage.

  The lemmas connect the display with routing: a key shown as exhausted has no routing budget
  and is not excused by a passed reset, and a key shown as available has one.
\<close>

definition feedback_state_of :: "quota_feedback_cause \<Rightarrow> token_plan_quota_state" where
  "feedback_state_of cause =
     (case cause of
        CauseExhausted \<Rightarrow> QsCooling
      | RateLimited \<Rightarrow> QsRateLimited
      | UpstreamUnavailable \<Rightarrow> QsUpstreamUnavailable)"

definition subscription_observation :: "token_plan_key_usage \<Rightarrow> subscription_quota_observation option" where
  "subscription_observation key =
     Option.bind (find (\<lambda>model. tm_windows model \<noteq> None) (tk_model_remains key)) tm_observation"

definition key_windows :: "token_plan_key_usage \<Rightarrow> subscription_window_usage list" where
  "key_windows key = concat (List.map_filter tm_windows (tk_model_remains key))"

definition observation_unusable :: "subscription_quota_observation \<Rightarrow> datetime \<Rightarrow> datetime \<Rightarrow> bool" where
  "observation_unusable observation observed_at now \<longleftrightarrow>
     so_stale observation \<or> so_last_error_code observation \<noteq> None \<or> now < observed_at \<or>
     subscription_freshness < now - observed_at"

definition subscription_state ::
    "datetime \<Rightarrow> clock \<Rightarrow> quota_cache \<Rightarrow> uuid \<Rightarrow> token_plan_key_usage \<Rightarrow> subscription_quota_observation \<Rightarrow>
     token_plan_quota_state" where
  "subscription_state tmax clk cache endpoint_id key observation =
     (let now = clk_utc clk in
      case so_observed_at observation of
        None \<Rightarrow> QsUnknown
      | Some observed_at \<Rightarrow>
          if observation_unusable observation observed_at now then QsUnknown
          else if chatgpt_subscription_exhausted_now tmax clk cache endpoint_id then QsExhausted
          else subscription_windows_state tmax (key_windows key) observed_at now)"

definition window_state_flag :: "f64 option \<times> reset_state \<Rightarrow> window_flags \<Rightarrow> window_flags" where
  "window_state_flag w fl =
     (case opt_filter is_finite (fst w) of
        Some value \<Rightarrow>
          if f_le value (Fin 0) then
            (if snd w = RPassed then fl\<lparr>wf_unknown := True\<rparr> else fl\<lparr>wf_exhausted := True\<rparr>)
          else if f_le value (Fin 100) then fl\<lparr>wf_positive := True\<rparr>
          else fl\<lparr>wf_unknown := True\<rparr>
      | None \<Rightarrow> fl\<lparr>wf_unknown := True\<rparr>)"

definition window_state :: "(f64 option \<times> reset_state) list \<Rightarrow> token_plan_quota_state" where
  "window_state windows =
     (if windows = [] then QsUnknown else flags_state (fold window_state_flag windows no_flags))"

definition command_code_rows :: "token_plan_key_usage \<Rightarrow> datetime \<Rightarrow> (f64 option \<times> reset_state) list" where
  "command_code_rows key now =
     List.map (\<lambda>w. (cw_remaining_percent w, reset_state (cw_reset_at w) None now))
       (List.map_filter (\<lambda>x. x) [tk_five_hour key, tk_weekly key])"

definition provider_state ::
    "datetime \<Rightarrow> endpoint_provider \<Rightarrow> token_plan_key_usage \<Rightarrow> datetime \<Rightarrow> token_plan_quota_state" where
  "provider_state tmax provider key now =
     (case provider of
        PMinimax \<Rightarrow>
          (case find (\<lambda>model. eq_ignore_ascii_case (tm_model_name model) ''general'') (tk_model_remains key) of
             None \<Rightarrow> QsUnknown
           | Some model \<Rightarrow>
               window_state
                 (List.map
                    (\<lambda>w. (tw_remaining_percent w,
                          reset_state_from_remaining tmax (tw_end_at w) (tw_remains_time_ms w) now))
                    (List.map_filter (\<lambda>x. x) [tm_interval model, tm_weekly model])))
      | PCommandCode \<Rightarrow>
          (case tk_balances key of
             Some balance \<Rightarrow>
               if is_finite (cb_remaining_credits balance) \<and> f_le (cb_remaining_credits balance) (Fin 0)
               then QsExhausted
               else if tk_five_hour key = None \<and> tk_weekly key = None
               then (if is_finite (cb_remaining_credits balance) then QsAvailable else QsUnknown)
               else window_state (command_code_rows key now)
           | None \<Rightarrow> window_state (command_code_rows key now))
      | POpencodeGo \<Rightarrow>
          window_state
            (List.map
               (\<lambda>w. (map_option (\<lambda>used. f_sub (Fin 100) used) (ow_percent w),
                     reset_state (ow_resets_at w) None now))
               (List.map_filter (\<lambda>x. x)
                  [tk_opencodego_rolling key, tk_opencodego_weekly key, tk_opencodego_monthly key]))
      | POpenRouter \<Rightarrow>
          (case provider_remaining_percent key of
             Some remaining \<Rightarrow>
               if is_finite remaining \<and> f_le remaining (Fin 0) then QsExhausted
               else if is_finite remaining then QsAvailable
               else QsUnknown
           | None \<Rightarrow> QsUnknown)
      | PGlm \<Rightarrow>
          window_state
            (List.map
               (\<lambda>w. (map_option (\<lambda>used. f_sub (Fin 100) used) (gw_percentage w),
                     reset_state (gw_next_reset_at w) None now))
               (List.map_filter (\<lambda>x. x) [tk_glm_five_hour key, tk_glm_weekly key]))
      | PDeepSeek \<Rightarrow>
          (case tk_deepseek_balance key of
             Some balance \<Rightarrow> if db_is_available balance then QsAvailable else QsExhausted
           | None \<Rightarrow> QsUnknown)
      | PGeneric \<Rightarrow> QsUnknown
      | POpenAi \<Rightarrow> QsUnknown)"

definition status_for_key ::
    "datetime \<Rightarrow> clock \<Rightarrow> quota_cache \<Rightarrow> uuid \<Rightarrow> endpoint_provider \<Rightarrow> token_plan_key_usage \<Rightarrow>
     token_plan_quota_status" where
  "status_for_key tmax clk cache endpoint_id provider key =
     (let now = clk_utc clk; instant = clk_instant clk;
          subscription = (if provider = POpenAi then subscription_observation key else None);
          cached = (if provider \<noteq> POpenAi
                    then quota_observation_now cache endpoint_id (tk_key_id key) instant else None);
          observed_at = opt_or (Option.bind subscription so_observed_at) (Option.bind cached co_observed_at);
          refresh_failed =
            (is_some_and (\<lambda>observation. so_last_error_code observation \<noteq> None) subscription \<or>
             is_some_and co_refresh_failed cached);
          scope = feedback_scope_new endpoint_id
                    (if provider \<noteq> POpenAi then Some (tk_key_id key) else None);
          (state, cooldown_until) =
            (case active_cooldown (qc_feedback cache) scope instant of
               Some (cause, remaining) \<Rightarrow>
                 (feedback_state_of cause, checked_add_signed tmax now (int remaining))
             | None \<Rightarrow>
                 (if provider = POpenAi then
                    (case subscription of
                       Some observation \<Rightarrow> subscription_state tmax clk cache endpoint_id key observation
                     | None \<Rightarrow> QsUnknown)
                  else
                    (case Option.bind cached co_key of
                       Some fresh_key \<Rightarrow> provider_state tmax provider fresh_key now
                     | None \<Rightarrow> QsUnknown),
                  None))
      in \<lparr>qst_state = state, qst_observed_at = observed_at, qst_cooldown_until = cooldown_until,
          qst_refresh_failed = refresh_failed, qst_scope = ''text_inference''\<rparr>)"

definition decorate_usage ::
    "(string \<Rightarrow> string) \<Rightarrow> datetime \<Rightarrow> clock \<Rightarrow> quota_cache \<Rightarrow> uuid \<Rightarrow> token_plan_usage_response \<Rightarrow>
     token_plan_usage_response" where
  "decorate_usage upper tmax clk cache endpoint_id usage =
     usage\<lparr>tr_keys :=
       List.map
         (\<lambda>key. let key = populate_key_observations upper (tr_provider usage) key in
                key\<lparr>tk_quota_status :=
                  Some (status_for_key tmax clk cache endpoint_id (tr_provider usage) key)\<rparr>)
         (tr_keys usage)\<rparr>"

definition subscription_windows_available :: "datetime \<Rightarrow> token_plan_key_usage \<Rightarrow> datetime \<Rightarrow> bool" where
  "subscription_windows_available tmax key now =
     (case subscription_observation key of
        None \<Rightarrow> False
      | Some observation \<Rightarrow>
        (case so_observed_at observation of
           None \<Rightarrow> False
         | Some observed_at \<Rightarrow>
             \<not> observation_unusable observation observed_at now \<and>
             subscription_windows_state tmax (key_windows key) observed_at now = QsAvailable))"

definition restored_available ::
    "datetime \<Rightarrow> endpoint_provider \<Rightarrow> token_plan_key_usage \<Rightarrow> datetime \<Rightarrow> bool" where
  "restored_available tmax provider key now =
     (if \<not> tk_ok key then False
      else if provider = POpenAi then subscription_windows_available tmax key now
      else provider_state tmax provider key now = QsAvailable)"

definition clear_restored_feedback ::
    "datetime \<Rightarrow> clock \<Rightarrow> quota_cache \<Rightarrow> uuid \<Rightarrow> token_plan_usage_response \<Rightarrow> nat \<Rightarrow> quota_cache" where
  "clear_restored_feedback tmax clk cache endpoint_id response attempt_start =
     fold
       (\<lambda>key cache.
          if \<not> restored_available tmax (tr_provider response) key (clk_utc clk) then cache
          else
            cache\<lparr>qc_feedback :=
              record_success (qc_feedback cache)
                (feedback_scope_new endpoint_id
                   (if tr_provider response \<noteq> POpenAi then Some (tk_key_id key) else None))
                attempt_start (clk_instant clk)\<rparr>)
       (tr_keys response) cache"

subsection \<open>The verdict of the provider windows\<close>

definition row_spent :: "f64 option \<times> reset_state \<Rightarrow> bool" where
  "row_spent w \<longleftrightarrow>
     is_some_and (\<lambda>v. is_finite v \<and> f_le v (Fin 0)) (fst w) \<and> snd w \<noteq> RPassed"

definition row_positive :: "f64 option \<times> reset_state \<Rightarrow> bool" where
  "row_positive w \<longleftrightarrow>
     is_some_and (\<lambda>v. is_finite v \<and> \<not> f_le v (Fin 0) \<and> f_le v (Fin 100)) (fst w)"

interpretation pv: window_verdict window_state_flag row_spent row_positive
proof unfold_locales
  fix w fl
  note defs = window_state_flag_def row_spent_def row_positive_def opt_filter_def
  show "wf_exhausted (window_state_flag w fl) \<longleftrightarrow> wf_exhausted fl \<or> row_spent w"
    by (cases "fst w") (auto simp: defs)
  show "wf_positive (window_state_flag w fl) \<longleftrightarrow> wf_positive fl \<or> row_positive w"
    by (cases "fst w") (auto simp: defs)
  show "wf_unknown (window_state_flag w fl) \<longleftrightarrow> wf_unknown fl \<or> \<not> row_spent w \<and> \<not> row_positive w"
    by (cases "fst w") (auto simp: defs)
  show "row_spent w \<Longrightarrow> \<not> row_positive w"
    by (auto simp: row_spent_def row_positive_def is_some_and_iff)
qed

lemma window_state_verdict:
  "window_state ws =
     (if \<exists>w \<in> set ws. row_spent w then QsExhausted
      else if ws \<noteq> [] \<and> (\<forall>w \<in> set ws. row_positive w) then QsAvailable else QsUnknown)"
  by (simp add: window_state_def pv.verdict)


subsection \<open>The display agrees with routing\<close>

lemma wf64_multiple: "wf64 (Fin q) \<Longrightarrow> \<exists>m. q = of_int m * 2 powi (- 1074)"
proof (cases "q = 0")
  case False
  assume "wf64 (Fin q)"
  then have "\<bar>q\<bar> = rmag \<bar>q\<bar>"
    using False by (auto simp: wf64_def fround_def Let_def split: if_splits)
  then have "\<bar>q\<bar> = of_int (rne (\<bar>q\<bar> / 2 powi fexp \<bar>q\<bar>)) * 2 powi fexp \<bar>q\<bar>" by (simp add: rmag_def)
  also have "(2 :: rat) powi fexp \<bar>q\<bar> = of_int (2 ^ nat (fexp \<bar>q\<bar> - (- 1074))) * 2 powi (- 1074)"
    by (rule powi_split) (simp add: fexp_def)
  finally obtain m where m: "\<bar>q\<bar> = of_int m * 2 powi (- 1074)"
    by (metis of_int_mult mult.assoc)
  then show ?thesis
    by (cases "q < 0") (auto intro: exI [of _ m] exI [of _ "- m"])
qed (auto intro: exI [of _ 0])

lemma complement_zero_iff:
  assumes "percent_ok p" "wf64 p"
  shows "f_le (f_sub (Fin 100) p) (Fin 0) \<longleftrightarrow> f_le (Fin 100) p"
proof -
  obtain q where q: "p = Fin q" "0 \<le> q" "q \<le> 100" using assms(1) by (auto simp: percent_ok_iff)
  define u :: rat where "u = 2 powi (- 1074)"
  have u: "0 < u" by (simp add: u_def)
  have "\<not> f_le (fround (100 - q)) (Fin 0)" if "q < 100"
  proof -
    obtain m where m: "q = of_int m * u" using wf64_multiple assms(2) q by (auto simp: u_def)
    have "(2 :: rat) powi 0 = of_int (2 ^ nat (0 - (- 1074))) * u" unfolding u_def by (rule powi_split) simp
    then have "100 - q = of_int (100 * 2 ^ 1074 - m) * u" by (simp add: m algebra_simps)
    moreover from this have "0 < 100 * 2 ^ 1074 - m"
      using that u by (metis diff_gt_0_iff_gt of_int_0_less_iff zero_less_mult_pos2)
    ultimately have "u \<le> 100 - q"
      using u mult_right_mono [of 1 "of_int (100 * 2 ^ 1074 - m)" u] by (simp add: of_int_1_le_iff [symmetric] del: of_int_diff of_int_mult of_int_power)
    moreover have "wf64 (Fin u)"
      using fround_repr [of u 1 "- 1074"] power_int_increasing [of "- 1074" 0 "2 :: rat"] u
      by (simp add: wf64_def u_def)
    ultimately have "f_le (Fin u) (fround (100 - q))" by (intro fround_ge_repr)
    then show ?thesis using u by (cases "fround (100 - q)") auto
  qed
  then show ?thesis using q by (cases "q < 100") (auto simp: f_sub_def)
qed

lemma set_map_filter_iff: "x \<in> set (List.map_filter f xs) \<longleftrightarrow> (\<exists>y \<in> set xs. f y = Some x)"
  by (induction xs) (auto split: option.split)

lemma map_filter_bind:
  "List.map_filter (\<lambda>x. Option.bind x f) xs = List.map_filter f (List.map_filter (\<lambda>x. x) xs)"
  by (induction xs) (auto split: option.split)

lemma min_zero:
  assumes "\<And>x. x \<in> set xs \<Longrightarrow> percent_ok x"
  shows "f_min_by_total xs = Some (Fin 0) \<longleftrightarrow> Fin 0 \<in> set xs"
proof
  assume z: "Fin 0 \<in> set xs"
  then obtain m where m: "f_min_by_total xs = Some m" by (cases "f_min_by_total xs") auto
  then have "m \<in> set xs" "f_le m (Fin 0)" using f_min_by_total_percent [OF assms m] z by auto
  then show "f_min_by_total xs = Some (Fin 0)" using assms [of m] m by (auto simp: percent_ok_iff)
qed (use f_min_by_total_percent [OF assms] in auto)

text \<open>A list of windows with percents: the verdict against the tightest window.\<close>

lemma window_state_min:
  assumes "\<And>w v. w \<in> set ws \<Longrightarrow> rem w = Some v \<Longrightarrow> percent_ok v"
  shows "window_state (List.map (\<lambda>w. (rem w, st w)) ws) = QsExhausted \<Longrightarrow>
           f_min_by_total (List.map_filter rem ws) = Some (Fin 0) \<and>
           (\<exists>w \<in> set ws. rem w = Some (Fin 0) \<and> st w \<noteq> RPassed)"
    and "window_state (List.map (\<lambda>w. (rem w, st w)) ws) = QsAvailable \<Longrightarrow> f_min_by_total (List.map_filter rem ws) \<noteq> Some (Fin 0)"
proof -
  have ok: "\<And>x. x \<in> set (List.map_filter rem ws) \<Longrightarrow> percent_ok x"
    using assms(1) by (auto simp: List.map_filter_def)
  assume "window_state (List.map (\<lambda>w. (rem w, st w)) ws) = QsExhausted"
  then obtain w v where w: "w \<in> set ws" "rem w = Some v" "f_le v (Fin 0)" "st w \<noteq> RPassed"
    by (auto simp: window_state_verdict row_spent_def is_some_and_iff split: if_splits)
  then have "v = Fin 0" using assms(1) [OF w(1,2)] by (auto simp: percent_ok_iff)
  then show "f_min_by_total (List.map_filter rem ws) = Some (Fin 0) \<and>
      (\<exists>w \<in> set ws. rem w = Some (Fin 0) \<and> st w \<noteq> RPassed)"
    using w min_zero [OF ok] by (force simp: List.map_filter_def image_iff)
next
  have ok: "\<And>x. x \<in> set (List.map_filter rem ws) \<Longrightarrow> percent_ok x"
    using assms(1) by (auto simp: List.map_filter_def)
  assume "window_state (List.map (\<lambda>w. (rem w, st w)) ws) = QsAvailable"
  then have "\<forall>w \<in> set ws. row_positive (rem w, st w)"
    by (auto simp: window_state_verdict split: if_splits)
  then have "Fin 0 \<notin> set (List.map_filter rem ws)"
    by (force simp: List.map_filter_def row_positive_def)
  then show "f_min_by_total (List.map_filter rem ws) \<noteq> Some (Fin 0)" using min_zero [OF ok] by simp
qed


text \<open>A key as the fetch of one provider fills it: only that provider's rows, finite credits.\<close>

definition own_rows :: "endpoint_provider \<Rightarrow> token_plan_key_usage \<Rightarrow> bool" where
  "own_rows provider key \<longleftrightarrow>
     tk_model_remains key = [] \<and>
     (provider = PCommandCode \<or> tk_five_hour key = None \<and> tk_weekly key = None \<and> tk_balances key = None) \<and>
     (provider = POpencodeGo \<or> tk_opencodego_rolling key = None \<and> tk_opencodego_weekly key = None \<and>
        tk_opencodego_monthly key = None) \<and>
     (provider = POpenRouter \<or> tk_openrouter_balance key = None) \<and>
     (provider = PGlm \<or> tk_glm_five_hour key = None \<and> tk_glm_weekly key = None) \<and>
     (provider = PDeepSeek \<or> tk_deepseek_balance key = None) \<and>
     \<not> is_some_and (\<lambda>b. \<not> is_finite (cb_remaining_credits b)) (tk_balances key)"

lemma own_rows_others:
  assumes "own_rows provider key"
  shows "provider \<noteq> PCommandCode \<Longrightarrow> command_code_remaining_percent key = None"
    "provider \<noteq> PCommandCode \<Longrightarrow> \<not> command_code_balance_exhausted key"
    "provider \<noteq> POpencodeGo \<Longrightarrow> opencode_go_remaining_percent key = None"
    "provider \<noteq> POpenRouter \<Longrightarrow> openrouter_remaining_percent key = None"
    "provider \<noteq> PGlm \<Longrightarrow> glm_remaining_percent key = None"
    "provider \<noteq> PDeepSeek \<Longrightarrow> deepseek_remaining_percent key = None"
    "model_usage_scoped key model general = None"
  using assms
  by (auto simp: own_rows_def command_code_remaining_percent_def command_code_balance_exhausted_def
      opencode_go_remaining_percent_def openrouter_remaining_percent_def glm_remaining_percent_def
      deepseek_remaining_percent_def model_usage_scoped_def Let_def split: Option.bind_split)

definition agrees ::
    "datetime \<Rightarrow> endpoint_provider \<Rightarrow> token_plan_key_usage \<Rightarrow> string option \<Rightarrow> bool \<Rightarrow> datetime \<Rightarrow> bool" where
  "agrees tmax provider key model general now \<longleftrightarrow>
     (provider_state tmax provider key now = QsExhausted \<longrightarrow>
        provider_remaining_percent key = Some (Fin 0) \<and>
        \<not> expired_zero_scoped tmax key model now general) \<and>
     (provider_state tmax provider key now = QsAvailable \<longrightarrow>
        provider_remaining_percent key \<noteq> Some (Fin 0))"

lemma not_expired:
  "(True, False) \<in> set (zero_windows tmax key model now general) \<Longrightarrow>
     \<not> expired_zero_scoped tmax key model now general"
  by (auto simp: expired_zero_scoped_def expired_zero_loop_iff list_all_iff)

lemma agrees_window_state:
  assumes "provider_state tmax provider key now = window_state (List.map (\<lambda>w. (rem w, st w)) ws)"
    and "provider_remaining_percent key = map_option clamp_percent (f_min_by_total (List.map_filter rem ws))"
    and "\<And>w v. w \<in> set ws \<Longrightarrow> rem w = Some v \<Longrightarrow> percent_ok v"
    and "\<And>w. w \<in> set ws \<Longrightarrow> rem w = Some (Fin 0) \<Longrightarrow> st w \<noteq> RPassed \<Longrightarrow>
           (True, False) \<in> set (zero_windows tmax key model now general)"
  shows "agrees tmax provider key model general now"
proof -
  have ok: "percent_ok v" if "f_min_by_total (List.map_filter rem ws) = Some v" for v
    using f_min_by_total_percent [OF _ that] assms(3) by (auto simp: set_map_filter_iff)
  have spent: "f_min_by_total (List.map_filter rem ws) = Some (Fin 0) \<and>
      (\<exists>w \<in> set ws. rem w = Some (Fin 0) \<and> st w \<noteq> RPassed)"
    if "window_state (List.map (\<lambda>w. (rem w, st w)) ws) = QsExhausted"
    using assms(3) that by (rule window_state_min(1))
  have live: "f_min_by_total (List.map_filter rem ws) \<noteq> Some (Fin 0)"
    if "window_state (List.map (\<lambda>w. (rem w, st w)) ws) = QsAvailable"
    using assms(3) that by (rule window_state_min(2))
  show ?thesis
    unfolding agrees_def assms(1,2)
    using spent live assms(4) ok by (auto dest: not_expired)
qed

lemma percent_slotD:
  "percent_opt_ok (Option.bind o' g) \<Longrightarrow> Some w = o' \<Longrightarrow> g w = Some v \<Longrightarrow> percent_ok v \<and> wf64 v"
  by (auto dest: percent_opt_okD)

lemma map_filter_map_id: "List.map_filter (\<lambda>x. x) (List.map g xs) = List.map_filter g xs"
  by (induction xs) (auto split: option.split)

lemma tighter_window_none [simp]: "tighter_window None None = None"
  by (simp add: tighter_window_def)

lemma agrees_command_code:
  assumes "own_rows PCommandCode key" "reported_percents_ok key"
  shows "agrees tmax PCommandCode key model general now"
proof -
  let ?ws = "List.map_filter (\<lambda>x. x) [tk_five_hour key, tk_weekly key]"
  have ok: "percent_ok v" if "w \<in> set ?ws" "cw_remaining_percent w = Some v" for w v
    using that assms(2) unfolding reported_percents_ok_def set_map_filter_iff
    by (auto dest: percent_slotD)
  have others: "opencode_go_remaining_percent key = None" "openrouter_remaining_percent key = None"
    "glm_remaining_percent key = None" "deepseek_remaining_percent key = None"
    using own_rows_others(3-6) [OF assms(1)] by simp_all
  have rem: "provider_remaining_percent key = map_option clamp_percent (command_code_remaining_percent key)"
    by (simp add: provider_remaining_percent_def others)
  have fin: "is_finite (cb_remaining_credits b)" if "tk_balances key = Some b" for b
    using assms(1) that by (simp add: own_rows_def)
  show ?thesis
  proof (cases "command_code_balance_exhausted key")
    case True
    then obtain b where "tk_balances key = Some b" "f_le (cb_remaining_credits b) (Fin 0)"
      by (auto simp: command_code_balance_exhausted_def is_some_and_iff)
    then show ?thesis using True fin
      by (simp add: agrees_def provider_state_def rem command_code_remaining_percent_def expired_zero_scoped_def)
  next
    case False
    let ?t = "tighter_window (Option.bind (tk_five_hour key) cw_remaining_percent)
                (Option.bind (tk_weekly key) cw_remaining_percent)"
    have t: "?t = f_min_by_total (List.map_filter cw_remaining_percent ?ws)"
    proof -
      have "?t = f_min_by_total (List.map_filter (\<lambda>x. x)
          (List.map (\<lambda>x. Option.bind x cw_remaining_percent) [tk_five_hour key, tk_weekly key]))"
      proof (subst tighter_window_min)
        fix x
        show "Option.bind (tk_five_hour key) cw_remaining_percent = Some x \<Longrightarrow> percent_ok x"
          "Option.bind (tk_weekly key) cw_remaining_percent = Some x \<Longrightarrow> percent_ok x"
          using assms(2) percent_opt_okD unfolding reported_percents_ok_def by blast+
      qed simp
      then show ?thesis by (simp only: map_filter_map_id map_filter_bind)
    qed
    have st: "provider_state tmax PCommandCode key now = window_state (command_code_rows key now) \<or>
        ?ws = [] \<and> provider_state tmax PCommandCode key now = QsAvailable"
      using False fin
      by (cases "tk_balances key")
        (auto simp: provider_state_def command_code_balance_exhausted_def split: option.splits)
    then show ?thesis
    proof
      assume "?ws = [] \<and> provider_state tmax PCommandCode key now = QsAvailable"
      then show ?thesis using t False by (simp add: agrees_def rem command_code_remaining_percent_def)
    next
      assume "provider_state tmax PCommandCode key now = window_state (command_code_rows key now)"
      then have ps: "provider_state tmax PCommandCode key now =
          window_state (List.map (\<lambda>w. (cw_remaining_percent w, reset_state (cw_reset_at w) None now)) ?ws)"
        unfolding command_code_rows_def .
      show ?thesis
      proof (rule agrees_window_state [where rem = cw_remaining_percent and ws = ?ws
            and st = "\<lambda>w. reset_state (cw_reset_at w) None now", OF ps])
        show "provider_remaining_percent key =
            map_option clamp_percent (f_min_by_total (List.map_filter cw_remaining_percent ?ws))"
          using False t by (simp only: rem command_code_remaining_percent_def if_False)
        fix w assume "w \<in> set ?ws" "cw_remaining_percent w = Some (Fin 0)"
          "reset_state (cw_reset_at w) None now \<noteq> RPassed"
        then show "(True, False) \<in> set (zero_windows tmax key model now general)"
          unfolding zero_windows_def by (auto simp: image_iff simp del: reset_state_none)
      qed (rule ok)
    qed
  qed
qed


lemma agrees_opencode_go:
  assumes "own_rows POpencodeGo key" "reported_percents_ok key"
  shows "agrees tmax POpencodeGo key model general now"
proof -
  let ?ws = "List.map_filter (\<lambda>x. x)
      [tk_opencodego_rolling key, tk_opencodego_weekly key, tk_opencodego_monthly key]"
  let ?rem = "\<lambda>w. map_option (f_sub (Fin 100)) (ow_percent w)"
  have ok: "percent_ok p \<and> wf64 p" if "w \<in> set ?ws" "ow_percent w = Some p" for w p
    using that assms(2) unfolding reported_percents_ok_def set_map_filter_iff
    by (auto dest: percent_slotD)
  have others: "command_code_remaining_percent key = None" "openrouter_remaining_percent key = None"
    "glm_remaining_percent key = None" "deepseek_remaining_percent key = None"
    using own_rows_others(1,4-6) [OF assms(1)] by simp_all
  have m: "opencode_go_remaining_percent key =
      map_option (f_clamp (Fin 0) (Fin 100)) (f_min_by_total (List.map_filter ?rem ?ws))"
    unfolding opencode_go_remaining_percent_def map_filter_bind [symmetric] by simp
  have okr: "percent_ok v" if w: "w \<in> set ?ws" "?rem w = Some v" for w v
    using ok [OF w(1)] w(2) f_sub_100 by auto
  have okm: "percent_ok v" if "f_min_by_total (List.map_filter ?rem ?ws) = Some v" for v
  proof -
    have all: "percent_ok x" if "x \<in> set (List.map_filter ?rem ?ws)" for x
      using that okr unfolding set_map_filter_iff [of _ ?rem] by blast
    show ?thesis using f_min_by_total_percent [OF all that] all by blast
  qed
  show ?thesis
  proof (rule agrees_window_state [where rem = ?rem and ws = ?ws and st = "\<lambda>w. reset_state (ow_resets_at w) None now"])
    show "provider_state tmax POpencodeGo key now =
        window_state (List.map (\<lambda>w. (?rem w, reset_state (ow_resets_at w) None now)) ?ws)"
      by (simp only: provider_state_def endpoint_provider.case)
    show "provider_remaining_percent key =
        map_option clamp_percent (f_min_by_total (List.map_filter ?rem ?ws))"
      using okm unfolding provider_remaining_percent_def others m
      by (cases "f_min_by_total (List.map_filter ?rem ?ws)") (simp_all add: f_clamp_id)
    show "?rem w = Some v \<Longrightarrow> percent_ok v" if "w \<in> set ?ws" for w v using okr that by blast
    fix w assume w: "w \<in> set ?ws" "?rem w = Some (Fin 0)" "reset_state (ow_resets_at w) None now \<noteq> RPassed"
    then obtain p where p: "ow_percent w = Some p" "f_sub (Fin 100) p = Fin 0" by auto
    then have "f_le (Fin 100) p" using complement_zero_iff [of p] ok [OF w(1) p(1)] by simp
    then show "(True, False) \<in> set (zero_windows tmax key model now general)"
      using w(1,3) p unfolding zero_windows_def by (force simp: image_iff simp del: reset_state_none)
  qed
qed

lemma agrees_glm:
  assumes "own_rows PGlm key" "reported_percents_ok key"
  shows "agrees tmax PGlm key model general now"
proof -
  let ?ws = "List.map_filter (\<lambda>x. x) [tk_glm_five_hour key, tk_glm_weekly key]"
  let ?rem = "\<lambda>w. map_option (f_sub (Fin 100)) (gw_percentage w)"
  have ok: "percent_ok p \<and> wf64 p" if "w \<in> set ?ws" "gw_percentage w = Some p" for w p
    using that assms(2) unfolding reported_percents_ok_def set_map_filter_iff
    by (auto dest: percent_slotD)
  have others: "command_code_remaining_percent key = None" "opencode_go_remaining_percent key = None"
    "openrouter_remaining_percent key = None" "deepseek_remaining_percent key = None"
    using own_rows_others(1,3,4,6) [OF assms(1)] by simp_all
  have okr: "percent_ok v" if w: "w \<in> set ?ws" "?rem w = Some v" for w v
    using ok [OF w(1)] w(2) f_sub_100 by auto
  have cl: "map_option (\<lambda>used. f_clamp (Fin 0) (Fin 100) (f_sub (Fin 100) used)) (gw_percentage w) = ?rem w"
    if "w \<in> set ?ws" for w
    using okr [OF that] by (cases "gw_percentage w") (auto simp: f_clamp_id)
  have m: "glm_remaining_percent key = f_min_by_total (List.map_filter ?rem ?ws)"
  proof -
    have "glm_remaining_percent key = f_min_by_total (List.map_filter
        (\<lambda>w. map_option (\<lambda>used. f_clamp (Fin 0) (Fin 100) (f_sub (Fin 100) used)) (gw_percentage w)) ?ws)"
      unfolding glm_remaining_percent_def map_filter_bind [symmetric] by simp
    then show ?thesis using map_filter_cong [of ?ws, OF cl] by simp
  qed
  show ?thesis
  proof (rule agrees_window_state [where rem = ?rem and ws = ?ws and st = "\<lambda>w. reset_state (gw_next_reset_at w) None now"])
    show "provider_state tmax PGlm key now =
        window_state (List.map (\<lambda>w. (?rem w, reset_state (gw_next_reset_at w) None now)) ?ws)"
      by (simp only: provider_state_def endpoint_provider.case)
    show "provider_remaining_percent key =
        map_option clamp_percent (f_min_by_total (List.map_filter ?rem ?ws))"
      unfolding provider_remaining_percent_def others m by simp
    show "?rem w = Some v \<Longrightarrow> percent_ok v" if "w \<in> set ?ws" for w v using okr that by blast
    fix w assume w: "w \<in> set ?ws" "?rem w = Some (Fin 0)" "reset_state (gw_next_reset_at w) None now \<noteq> RPassed"
    then obtain p where p: "gw_percentage w = Some p" "f_sub (Fin 100) p = Fin 0" by auto
    then have "f_le (Fin 100) p" using complement_zero_iff [of p] ok [OF w(1) p(1)] by simp
    then show "(True, False) \<in> set (zero_windows tmax key model now general)"
      using w(1,3) p unfolding zero_windows_def by (force simp: image_iff simp del: reset_state_none)
  qed
qed

lemma no_zero_windows:
  assumes "own_rows provider key" "provider = POpenRouter \<or> provider = PDeepSeek"
  shows "\<not> expired_zero_scoped tmax key model now general"
proof -
  have "zero_windows tmax key model now general = []"
    using assms own_rows_others(7) [OF assms(1), of model general]
    by (auto simp: zero_windows_def own_rows_def)
  then show ?thesis by (simp add: expired_zero_scoped_def)
qed

lemma agrees_balances:
  assumes "own_rows provider key" "provider = POpenRouter \<or> provider = PDeepSeek"
  shows "agrees tmax provider key model general now"
proof -
  note nz = no_zero_windows [OF assms]
  have ok: "percent_ok v" if "provider_remaining_percent key = Some v" for v
    using that by (auto simp: provider_remaining_percent_def)
  have ds: "provider_remaining_percent key = map_option (\<lambda>b. if db_is_available b then Fin 100 else Fin 0)
      (tk_deepseek_balance key)" if "provider = PDeepSeek"
    using own_rows_others(1,3-5) [OF assms(1)] that
    by (cases "tk_deepseek_balance key") (simp_all add: provider_remaining_percent_def deepseek_remaining_percent_def)
  from assms(2) show ?thesis
  proof
    assume "provider = POpenRouter"
    then show ?thesis using nz ok
      by (cases "provider_remaining_percent key") (auto simp: agrees_def provider_state_def percent_ok_iff)
  next
    assume "provider = PDeepSeek"
    then show ?thesis using nz ds
      by (cases "tk_deepseek_balance key") (auto simp: agrees_def provider_state_def)
  qed
qed

lemma provider_state_agrees:
  assumes "own_rows provider key" "reported_percents_ok key"
    "provider \<in> {PCommandCode, POpencodeGo, POpenRouter, PGlm, PDeepSeek}"
  shows "agrees tmax provider key model general now"
  using assms by (auto intro: agrees_command_code agrees_opencode_go agrees_glm agrees_balances)

text \<open>The status reads the observation routing reads, and a cooldown or a probe it shows is one for routing.\<close>

lemma shown_observation:
  assumes "Option.bind (quota_observation_now cache e k (clk_instant clk)) co_key = Some fresh"
  shows "fresh_observed_key_now clk cache e k = Some fresh"
proof -
  have find_ok: "find (\<lambda>x. P x \<and> Q x) xs = Some y" if "find P xs = Some y" "Q y" for P Q xs y
    using that by (induction xs) (auto split: if_splits)
  show ?thesis
    using assms find_ok [of "\<lambda>key. tk_key_id key = k" _ _ tk_ok]
    unfolding quota_observation_now_def fresh_observed_key_now_def observed_key_at_def
    by (force simp: Let_def bind_eq_Some_conv is_some_and_iff not_le split: if_splits)
qed

lemma active_cooldown_cools:
  assumes "active_cooldown s scope now = Some (cause, remaining)"
  shows "snd (eligibility s scope now) \<in> {FbCooling, FbProbeBusy}"
  using assms
  by (auto simp: active_cooldown_def remaining_until_def eligibility_def prune_def opt_filter_def entry_eligibility_def
      Let_def not_le split: option.splits if_splits)

text \<open>
  C33: The status shown for a key agrees with how routing treats the same key. For Command Code,
  OpenCode Go, OpenRouter, GLM and DeepSeek, and an observation filled with the provider's own rows and
  percentages within 0 and 100: a key shown as exhausted, by a cooldown or by its figures, is not
  eligible for any model; a key shown as available has no remaining budget of zero. MiniMax is left out:
  its status reads the general model only, its weight the tokens of the model asked for.\<close>

theorem status_agrees_with_routing:
  assumes "provider \<in> {PCommandCode, POpencodeGo, POpenRouter, PGlm, PDeepSeek}"
    and "\<And>fresh. fresh_observed_key_now clk cache e (tk_key_id key) = Some fresh \<Longrightarrow>
           own_rows provider fresh \<and> reported_percents_ok fresh"
  shows "(qst_state (status_for_key tmax clk cache e provider key) = QsExhausted \<longrightarrow>
            snd (assess_scope tmax clk cache (quota_scope_new e (Some (tk_key_id key)) model general)) \<noteq> QaEligible w) \<and>
         (qst_state (status_for_key tmax clk cache e provider key) = QsAvailable \<longrightarrow>
            key_remaining_percent_scoped_now tmax clk cache e (tk_key_id key) model general \<noteq> Some (Fin 0))"
proof -
  let ?k = "tk_key_id key" and ?now = "clk_utc clk"
  let ?scope = "feedback_scope_new e (Some ?k)"
  let ?cached = "Option.bind (quota_observation_now cache e ?k (clk_instant clk)) co_key"
  have p: "provider \<noteq> POpenAi" using assms(1) by auto
  have scope: "feedback_scope (quota_scope_new e (Some ?k) model general) = ?scope"
    by (simp add: feedback_scope_def quota_scope_new_def)
  have state: "qst_state (status_for_key tmax clk cache e provider key) =
      (case active_cooldown (qc_feedback cache) ?scope (clk_instant clk) of
         Some (cause, remaining) \<Rightarrow> feedback_state_of cause
       | None \<Rightarrow> (case ?cached of Some fresh \<Rightarrow> provider_state tmax provider fresh ?now | None \<Rightarrow> QsUnknown))"
    using p by (simp add: status_for_key_def Let_def split: option.split prod.split)
  show ?thesis
  proof (cases "active_cooldown (qc_feedback cache) ?scope (clk_instant clk)")
    case (Some cr)
    obtain cause remaining where cr: "cr = (cause, remaining)" by fastforce
    note cools = active_cooldown_cools [OF Some [unfolded cr]]
    show ?thesis using Some cr cools state
      by (auto simp: assess_scope_snd scope Let_def feedback_state_of_def split: quota_feedback_cause.splits)
  next
    case None
    show ?thesis
    proof (cases ?cached)
      case nothing: None
      then show ?thesis by (simp add: state None)
    next
      case (Some fresh)
      note fresh = shown_observation [OF Some]
      have a: "agrees tmax provider fresh model general ?now"
        using assms fresh provider_state_agrees by blast
      have st: "qst_state (status_for_key tmax clk cache e provider key) = provider_state tmax provider fresh ?now"
        using state None Some by simp
      have remaining: "key_remaining_percent_scoped_now tmax clk cache e ?k model general =
          (if expired_zero_scoped tmax fresh model ?now general then None else
            case provider_remaining_percent fresh of Some r \<Rightarrow> Some r
            | None \<Rightarrow> Option.bind (model_usage_scoped fresh model general)
                (\<lambda>usage. model_remaining_percent usage (fst (reservation_state cache e ?k))))"
        by (simp add: key_remaining_percent_scoped_now_def fresh)
      have none: "model_usage_scoped fresh model general = None"
        using assms(2) [OF fresh] own_rows_others(7) by blast
      show ?thesis
        using a remaining none
        by (auto simp: agrees_def st assess_scope_snd quota_scope_new_def Let_def split: option.splits if_splits)
    qed
  qed
qed

lemma demo_own_rows: "own_rows PCommandCode demo_key"
  by (simp add: own_rows_def demo_key_def failed_key_def)

lemma status_agrees_with_routing_witness:
  "key_remaining_percent_scoped_now 0 demo_clock demo_cache 3 5 None True \<noteq> Some (Fin 0)"
proof -
  have key: "fresh_observed_key_now demo_clock demo_cache 3 (tk_key_id demo_key) = Some demo_key"
    using demo_observed by simp
  have state: "provider_state 0 PCommandCode demo_key 0 = QsAvailable" by code_simp
  have "quota_observation_now demo_cache 3 5 (clk_instant demo_clock) \<noteq> None \<and>
      Option.bind (quota_observation_now demo_cache 3 5 (clk_instant demo_clock)) co_key = Some demo_key"
    by (simp add: quota_observation_now_def demo_cache_def store_observation_def demo_clock_def demo_usage_def
        store_key_def store_maps_new_def quota_cache_default_def refresh_after_def secs_def Let_def)
  then have "qst_state (status_for_key 0 demo_clock demo_cache 3 PCommandCode demo_key) = QsAvailable"
    using state by (simp add: status_for_key_def Let_def active_cooldown_def feedback_empty_def) (simp add: demo_clock_def)
  then show ?thesis
    using status_agrees_with_routing [of PCommandCode demo_clock demo_cache 3 demo_key 0 None True] demo_own_rows demo_key_ok key
    by simp
qed

end
