(* ===== verification/QuotaRefresh.thy ===== *)
theory QuotaRefresh
  imports QuotaStatus
begin

text \<open>
  The refresh of the token-plan quota cache, \<open>src/worker_admin/token_plan_cache/refresh.rs\<close>: the
  map of per-endpoint locks with its eviction and its capacity, the wait on a lock, the reuse of a
  refresh that completed meanwhile, the fetch under the lock, and the background refresh.

  A lock is an \<open>Arc\<close>, here a number; its strong count exceeds one exactly while some task holds a
  clone. A task is a number with a phase, one phase per await point at which others may run. The
  fetch itself (provider HTTP and the database) is the argument of the step that completes it.
  \<open>tmax\<close> is chrono's latest instant, \<open>upper\<close> is \<open>to_uppercase\<close> on currency codes.
\<close>

record refresh_state =
  rs_attempted_at :: "nat option"
  rs_completed_at :: "nat option"
  rs_background_pending :: bool

definition refresh_state_default :: refresh_state where
  "refresh_state_default = \<lparr>rs_attempted_at = None, rs_completed_at = None, rs_background_pending = False\<rparr>"

datatype observation_source = SrcRequest | SrcManual | SrcPeriodic

record refresh_call =
  rk_endpoint :: uuid
  rk_force :: bool
  rk_source :: observation_source
  rk_arrived_at :: nat
  rk_lock :: nat
  rk_background :: "nat option"

datatype refresh_phase =
    RpSpawned uuid nat
  | RpWaiting refresh_call
  | RpFetching refresh_call nat
  | RpClearing uuid nat

fun phase_endpoint :: "refresh_phase \<Rightarrow> uuid" where
  "phase_endpoint (RpSpawned e l) = e"
| "phase_endpoint (RpWaiting c) = rk_endpoint c"
| "phase_endpoint (RpFetching c a) = rk_endpoint c"
| "phase_endpoint (RpClearing e l) = e"

fun phase_locks :: "refresh_phase \<Rightarrow> nat set" where
  "phase_locks (RpSpawned e l) = {l}"
| "phase_locks (RpWaiting c) = insert (rk_lock c) (set_option (rk_background c))"
| "phase_locks (RpFetching c a) = insert (rk_lock c) (set_option (rk_background c))"
| "phase_locks (RpClearing e l) = {l}"

record refresh_system =
  rf_cache :: quota_cache
  rf_locks :: "(uuid \<times> nat) list"
  rf_states :: "nat \<Rightarrow> refresh_state"
  rf_owner :: "nat \<Rightarrow> nat option"
  rf_tasks :: "(nat \<times> refresh_phase) list"
  rf_next :: nat

type_synonym usage_result = "unit + token_plan_usage_response option"

subsection \<open>The lock map\<close>

definition lock_capacity :: nat where "lock_capacity = 4096"

definition keep_lock :: "uuid \<Rightarrow> nat \<Rightarrow> refresh_system \<Rightarrow> uuid \<times> nat \<Rightarrow> bool" where
  "keep_lock endpoint_id arrived_at sys entry \<longleftrightarrow>
     fst entry = endpoint_id \<or>
     list_ex (\<lambda>t. snd entry \<in> phase_locks (snd t)) (rf_tasks sys) \<or>
     (case rf_owner sys (snd entry) of
        None \<Rightarrow> is_some_and (\<lambda>at'. arrived_at - at' < refresh_after) (rs_attempted_at (rf_states sys (snd entry)))
      | Some _ \<Rightarrow> True)"

definition retain_locks :: "uuid \<Rightarrow> nat \<Rightarrow> refresh_system \<Rightarrow> refresh_system" where
  "retain_locks endpoint_id arrived_at sys =
     sys\<lparr>rf_locks := filter (keep_lock endpoint_id arrived_at sys) (rf_locks sys)\<rparr>"

text \<open>The entry of the endpoint, inserted when there is room; \<^const>\<open>None\<close> when there is not.\<close>

definition lock_for :: "uuid \<Rightarrow> refresh_system \<Rightarrow> refresh_system \<times> nat option" where
  "lock_for endpoint_id sys =
     (case map_of (rf_locks sys) endpoint_id of
        Some l \<Rightarrow> (sys, Some l)
      | None \<Rightarrow>
          if lock_capacity \<le> length (rf_locks sys) then (sys, None)
          else
            (let l = rf_next sys in
             (sys\<lparr>rf_locks := (endpoint_id, l) # rf_locks sys,
                  rf_states := (rf_states sys)(l := refresh_state_default),
                  rf_owner := (rf_owner sys)(l := None), rf_next := Suc l\<rparr>, Some l)))"

definition set_phase :: "nat \<Rightarrow> refresh_phase \<Rightarrow> refresh_system \<Rightarrow> refresh_system" where
  "set_phase task phase sys = sys\<lparr>rf_tasks := AList.update task phase (rf_tasks sys)\<rparr>"

text \<open>The end of \<open>refresh_with\<close>: a background task goes on to clear its flag.\<close>

definition leave :: "nat \<Rightarrow> uuid \<Rightarrow> nat option \<Rightarrow> refresh_system \<Rightarrow> refresh_system" where
  "leave task endpoint_id background sys =
     (case background of
        Some l \<Rightarrow> set_phase task (RpClearing endpoint_id l) sys
      | None \<Rightarrow> sys\<lparr>rf_tasks := AList.delete task (rf_tasks sys)\<rparr>)"

subsection \<open>\<open>refresh_with\<close>\<close>

text \<open>Up to the wait on the endpoint's lock; a result means the call has returned.\<close>

definition refresh_enter ::
    "datetime \<Rightarrow> clock \<Rightarrow> refresh_system \<Rightarrow> nat \<Rightarrow> uuid \<Rightarrow> bool \<Rightarrow> observation_source \<Rightarrow> nat \<Rightarrow> nat option \<Rightarrow>
     refresh_system \<times> usage_result option" where
  "refresh_enter tmax clk sys task endpoint_id force source arrived_at background =
     (case (if force then None else fresh_snapshot tmax clk (rf_cache sys) endpoint_id) of
        Some usage \<Rightarrow> (leave task endpoint_id background sys, Some (Inr (Some usage)))
      | None \<Rightarrow>
          (case lock_for endpoint_id (retain_locks endpoint_id arrived_at sys) of
             (sys, None) \<Rightarrow>
               (leave task endpoint_id background sys, Some (Inr (raw_snapshot (rf_cache sys) endpoint_id)))
           | (sys, Some l) \<Rightarrow>
               (set_phase task
                  (RpWaiting \<lparr>rk_endpoint = endpoint_id, rk_force = force, rk_source = source,
                              rk_arrived_at = arrived_at, rk_lock = l, rk_background = background\<rparr>) sys,
                None)))"

text \<open>With the lock: the result of a refresh since the arrival is reused, a recent attempt is not repeated.\<close>

definition refresh_locked ::
    "datetime \<Rightarrow> clock \<Rightarrow> refresh_system \<Rightarrow> nat \<Rightarrow> refresh_call \<Rightarrow> refresh_system \<times> usage_result option" where
  "refresh_locked tmax clk sys task call =
     (let endpoint_id = rk_endpoint call; arrived_at = rk_arrived_at call; l = rk_lock call;
          state = rf_states sys l
      in
        if is_some_and (\<lambda>at'. arrived_at \<le> at') (rs_completed_at state) \<or>
           is_some_and (\<lambda>at'. arrived_at \<le> at' \<or> arrived_at - at' < min_attempt) (rs_attempted_at state)
        then (leave task endpoint_id (rk_background call) sys, Some (Inr (raw_snapshot (rf_cache sys) endpoint_id)))
        else
          (case (if rk_force call then None else fresh_snapshot tmax clk (rf_cache sys) endpoint_id) of
             Some usage \<Rightarrow> (leave task endpoint_id (rk_background call) sys, Some (Inr (Some usage)))
           | None \<Rightarrow>
               (set_phase task (RpFetching call (clk_instant clk))
                  (sys\<lparr>rf_states := (rf_states sys)(l := state\<lparr>rs_attempted_at := Some arrived_at\<rparr>),
                       rf_owner := (rf_owner sys)(l \<mapsto> task)\<rparr>),
                None)))"

text \<open>The fetch closure of \<open>refresh_with_source\<close>, once the provider has answered.\<close>

definition fetch_outcome ::
    "datetime \<Rightarrow> (string \<Rightarrow> string) \<Rightarrow> clock \<Rightarrow> quota_cache \<Rightarrow> uuid \<Rightarrow> bool \<Rightarrow> nat \<Rightarrow> usage_result \<Rightarrow>
     quota_cache \<times> usage_result" where
  "fetch_outcome tmax upper clk cache endpoint_id clear_restored attempt_start fetched =
     (case fetched of
        Inr (Some response) \<Rightarrow>
          (let response = populate_response_observations upper (tr_provider response) response;
               cache = (if clear_restored
                        then clear_restored_feedback tmax clk cache endpoint_id response attempt_start
                        else cache)
           in (cache, Inr (Some response)))
      | Inr None \<Rightarrow> (cache, Inr None)
      | Inl error \<Rightarrow> (cache, Inl error))"

definition refresh_fetched ::
    "datetime \<Rightarrow> (string \<Rightarrow> string) \<Rightarrow> clock \<Rightarrow> refresh_system \<Rightarrow> nat \<Rightarrow> refresh_call \<Rightarrow> nat \<Rightarrow> usage_result \<Rightarrow>
     refresh_system \<times> usage_result" where
  "refresh_fetched tmax upper clk sys task call attempt_start fetched =
     (let endpoint_id = rk_endpoint call; l = rk_lock call;
          (cache, outcome) = fetch_outcome tmax upper clk (rf_cache sys) endpoint_id
                               (rk_force call \<and> rk_source call = SrcManual) attempt_start fetched;
          (cache, result) =
            (case outcome of
               Inr (Some usage) \<Rightarrow>
                 (let cache = clear_reservations (store_observation clk cache endpoint_id usage (clk_instant clk))
                                endpoint_id
                  in (cache, Inr (raw_snapshot cache endpoint_id)))
             | Inr None \<Rightarrow> (invalidate clk cache endpoint_id, Inr None)
             | Inl error \<Rightarrow> (invalidate clk cache endpoint_id, Inl error));
          sys = sys\<lparr>rf_cache := cache,
                    rf_states := (rf_states sys)(l := (rf_states sys l)\<lparr>rs_completed_at := Some (clk_instant clk)\<rparr>),
                    rf_owner := (rf_owner sys)(l := None)\<rparr>
      in (leave task endpoint_id (rk_background call) sys, result))"

subsection \<open>\<open>refresh_in_background\<close>\<close>

text \<open>
  \<open>free\<close> says whether \<open>try_lock\<close> gets the map's mutex. The spawned task holds a clone of the lock
  until it has cleared the flag.\<close>

definition refresh_in_background ::
    "clock \<Rightarrow> refresh_system \<Rightarrow> bool \<Rightarrow> nat \<Rightarrow> uuid \<Rightarrow> refresh_system" where
  "refresh_in_background clk sys free task endpoint_id =
     (if \<not> free then sys
      else
        (case lock_for endpoint_id sys of
           (sys, None) \<Rightarrow> sys
         | (sys, Some l) \<Rightarrow>
             (let state = rf_states sys l in
              if rf_owner sys l \<noteq> None then sys
              else if rs_background_pending state \<or>
                      is_some_and (\<lambda>at'. clk_instant clk - at' < min_attempt) (rs_attempted_at state)
              then sys
              else
                set_phase task (RpSpawned endpoint_id l)
                  (sys\<lparr>rf_states := (rf_states sys)(l := state\<lparr>rs_background_pending := True\<rparr>)\<rparr>))))"

definition clear_pending :: "refresh_system \<Rightarrow> nat \<Rightarrow> nat \<Rightarrow> refresh_system" where
  "clear_pending sys task l =
     sys\<lparr>rf_states := (rf_states sys)(l := (rf_states sys l)\<lparr>rs_background_pending := False\<rparr>),
         rf_tasks := AList.delete task (rf_tasks sys)\<rparr>"

subsection \<open>The machine of concurrent refreshes\<close>

datatype refresh_op =
    OpEnter nat uuid bool observation_source nat
  | OpLocked nat
  | OpFetched nat usage_result
  | OpBackground nat uuid bool
  | OpRunSpawned nat
  | OpClear nat

definition refresh_init :: "refresh_system \<Rightarrow> bool" where
  "refresh_init sys \<longleftrightarrow> rf_locks sys = [] \<and> rf_tasks sys = [] \<and> rf_owner sys = (\<lambda>_. None)"

inductive refresh_step ::
    "datetime \<Rightarrow> (string \<Rightarrow> string) \<Rightarrow> refresh_system \<Rightarrow> refresh_op \<Rightarrow> refresh_system \<Rightarrow> bool"
  for tmax :: datetime and upper :: "string \<Rightarrow> string" where
  step_enter:
    "map_of (rf_tasks sys) task = None \<Longrightarrow>
       refresh_step tmax upper sys (OpEnter task e force source arrived)
         (fst (refresh_enter tmax clk sys task e force source arrived None))"
| step_locked:
    "map_of (rf_tasks sys) task = Some (RpWaiting call) \<Longrightarrow> rf_owner sys (rk_lock call) = None \<Longrightarrow>
       refresh_step tmax upper sys (OpLocked task) (fst (refresh_locked tmax clk sys task call))"
| step_fetched:
    "map_of (rf_tasks sys) task = Some (RpFetching call attempt_start) \<Longrightarrow>
       refresh_step tmax upper sys (OpFetched task fetched)
         (fst (refresh_fetched tmax upper clk sys task call attempt_start fetched))"
| step_background:
    "map_of (rf_tasks sys) task = None \<Longrightarrow>
       refresh_step tmax upper sys (OpBackground task e free) (refresh_in_background clk sys free task e)"
| step_run_spawned:
    "map_of (rf_tasks sys) task = Some (RpSpawned e l) \<Longrightarrow>
       refresh_step tmax upper sys (OpRunSpawned task)
         (fst (refresh_enter tmax clk sys task e True SrcRequest (clk_instant clk) (Some l)))"
| step_clear:
    "map_of (rf_tasks sys) task = Some (RpClearing e l) \<Longrightarrow> rf_owner sys l = None \<Longrightarrow>
       refresh_step tmax upper sys (OpClear task) (clear_pending sys task l)"

inductive_cases refresh_stepE: "refresh_step tmax upper sys op sys'"

text \<open>
  The invariant: every lock a task holds is the one the map has for its endpoint (so no endpoint
  has two locks in use), and the owner of a lock is the task that fetches under it.\<close>

definition locks_inv :: "refresh_system \<Rightarrow> bool" where
  "locks_inv sys \<longleftrightarrow>
     distinct (List.map fst (rf_locks sys)) \<and> length (rf_locks sys) \<le> lock_capacity \<and>
     (\<forall>entry \<in> set (rf_locks sys). snd entry < rf_next sys) \<and>
     distinct (List.map snd (rf_locks sys)) \<and> distinct (List.map fst (rf_tasks sys))"

definition tasks_inv :: "refresh_system \<Rightarrow> bool" where
  "tasks_inv sys \<longleftrightarrow>
     (\<forall>t p l. map_of (rf_tasks sys) t = Some p \<longrightarrow> l \<in> phase_locks p \<longrightarrow>
        (phase_endpoint p, l) \<in> set (rf_locks sys)) \<and>
     (\<forall>l t. rf_owner sys l = Some t \<longleftrightarrow>
        (\<exists>call a. map_of (rf_tasks sys) t = Some (RpFetching call a) \<and> rk_lock call = l))"

definition refresh_inv :: "refresh_system \<Rightarrow> bool" where
  "refresh_inv sys \<longleftrightarrow> locks_inv sys \<and> tasks_inv sys"

declare map_of_eq_Some_iff [simp del] Some_eq_map_of_iff [simp del]

lemma held_lock:
  "tasks_inv sys \<Longrightarrow> map_of (rf_tasks sys) t = Some p \<Longrightarrow> l \<in> phase_locks p \<Longrightarrow>
     (phase_endpoint p, l) \<in> set (rf_locks sys)"
  by (simp add: tasks_inv_def)

lemma retain_locks_sel [simp]:
  "rf_tasks (retain_locks e a sys) = rf_tasks sys" "rf_owner (retain_locks e a sys) = rf_owner sys"
  "rf_cache (retain_locks e a sys) = rf_cache sys" "rf_states (retain_locks e a sys) = rf_states sys"
  by (simp_all add: retain_locks_def)

lemma fetch_owner:
  "tasks_inv sys \<Longrightarrow> map_of (rf_tasks sys) t = Some (RpFetching call a) \<Longrightarrow>
     rf_owner sys (rk_lock call) = Some t"
  by (auto simp: tasks_inv_def)

text \<open>A lock in use is never evicted.\<close>

lemma retain_locks_inv:
  assumes "refresh_inv sys"
  shows "refresh_inv (retain_locks e a sys)"
proof -
  have kept: "(phase_endpoint p, l) \<in> set (filter (keep_lock e a sys) (rf_locks sys))"
    if "map_of (rf_tasks sys) t = Some p" "l \<in> phase_locks p" for t p l
  proof -
    have "list_ex (\<lambda>t. l \<in> phase_locks (snd t)) (rf_tasks sys)"
      using that(2) map_of_SomeD [OF that(1)] by (force simp: list_ex_iff)
    then show ?thesis using held_lock that assms by (auto simp: keep_lock_def refresh_inv_def)
  qed
  have "length (filter (keep_lock e a sys) (rf_locks sys)) \<le> lock_capacity"
    using assms by (auto simp: refresh_inv_def locks_inv_def intro: le_trans [OF length_filter_le])
  then show ?thesis using assms kept
    by (auto simp: refresh_inv_def locks_inv_def tasks_inv_def retain_locks_def distinct_map_filter)
qed

lemma lock_for_inv:
  assumes "refresh_inv sys" "lock_for e sys = (sys', r)"
  shows "refresh_inv sys' \<and> rf_tasks sys' = rf_tasks sys \<and> rf_cache sys' = rf_cache sys \<and>
    (case r of Some l \<Rightarrow> (e, l) \<in> set (rf_locks sys') | None \<Rightarrow> True)"
proof (cases "map_of (rf_locks sys) e")
  case (Some l)
  then show ?thesis using assms map_of_SomeD [OF Some] by (auto simp: lock_for_def Some)
next
  case None
  show ?thesis
  proof (cases "lock_capacity \<le> length (rf_locks sys)")
    case True
    then show ?thesis using assms None by (auto simp: lock_for_def)
  next
    case False
    let ?n = "rf_next sys"
    have fresh: "rk_lock call \<noteq> ?n" if "map_of (rf_tasks sys) t = Some (RpFetching call a)" for t call a
      using held_lock [of sys t "RpFetching call a" "rk_lock call"] that assms(1)
      by (auto simp: refresh_inv_def locks_inv_def)
    have "e \<notin> fst ` set (rf_locks sys)" using None by (simp add: map_of_eq_None_iff)
    moreover have "?n \<notin> snd ` set (rf_locks sys)" using assms(1) by (auto simp: refresh_inv_def locks_inv_def)
    ultimately show ?thesis using assms None False fresh
      by (fastforce simp: lock_for_def Let_def refresh_inv_def locks_inv_def tasks_inv_def less_Suc_eq
          split: if_splits)
  qed
qed

text \<open>A task changes its phase without touching a fetch.\<close>

definition fetches :: "refresh_phase option \<Rightarrow> bool" where
  "fetches p = (case p of Some (RpFetching _ _) \<Rightarrow> True | _ \<Rightarrow> False)"

lemma set_phase_inv:
  assumes "refresh_inv sys" "\<not> fetches (map_of (rf_tasks sys) task)" "\<not> fetches (Some p)"
    "\<forall>l \<in> phase_locks p. (phase_endpoint p, l) \<in> set (rf_locks sys)"
  shows "refresh_inv (set_phase task p sys)"
  using assms
  by (auto simp: refresh_inv_def locks_inv_def tasks_inv_def set_phase_def update_conv' distinct_update fetches_def
      split: if_splits refresh_phase.splits option.splits)

lemma map_of_delete: "map_of (AList.delete k xs) x = (if x = k then None else map_of xs x)"
  by (simp add: delete_conv')

lemma delete_task_inv:
  assumes "refresh_inv sys" "\<not> fetches (map_of (rf_tasks sys) task)"
  shows "refresh_inv (sys\<lparr>rf_tasks := AList.delete task (rf_tasks sys)\<rparr>)"
  using assms
  by (auto simp: refresh_inv_def locks_inv_def tasks_inv_def map_of_delete distinct_delete fetches_def
      split: if_splits refresh_phase.splits option.splits)

lemma leave_inv:
  assumes "refresh_inv sys" "\<not> fetches (map_of (rf_tasks sys) task)"
    "\<And>l. background = Some l \<Longrightarrow> (e, l) \<in> set (rf_locks sys)"
  shows "refresh_inv (leave task e background sys)"
proof (cases background)
  case None
  then show ?thesis using delete_task_inv [OF assms(1,2)] by (simp add: leave_def)
next
  case (Some l)
  then show ?thesis
    using set_phase_inv [OF assms(1,2), of "RpClearing e l"] assms(3) by (simp add: leave_def fetches_def)
qed

lemma refresh_inv_states [simp]:
  "refresh_inv (sys\<lparr>rf_states := f\<rparr>) = refresh_inv sys" "refresh_inv (sys\<lparr>rf_cache := c\<rparr>) = refresh_inv sys"
  by (simp_all add: refresh_inv_def locks_inv_def tasks_inv_def)

lemma refresh_enter_inv:
  assumes "refresh_inv sys" "\<not> fetches (map_of (rf_tasks sys) task)"
    "\<And>l. background = Some l \<Longrightarrow> map_of (rf_tasks sys) task = Some (RpSpawned e l)"
  shows "refresh_inv (fst (refresh_enter tmax clk sys task e force source arrived background))"
proof (cases "if force then None else fresh_snapshot tmax clk (rf_cache sys) e")
  case (Some usage)
  have "(e, l) \<in> set (rf_locks sys)" if "background = Some l" for l
    using held_lock [of sys task "RpSpawned e l" l] assms(1) assms(3) [OF that] by (simp add: refresh_inv_def)
  then show ?thesis using leave_inv [OF assms(1,2)] by (simp add: refresh_enter_def Some)
next
  case None
  obtain s1 r where lf: "lock_for e (retain_locks e arrived sys) = (s1, r)" by fastforce
  note i = lock_for_inv [OF retain_locks_inv [OF assms(1)] lf]
  have bg: "(e, l) \<in> set (rf_locks s1)" if "background = Some l" for l
    using held_lock [of s1 task "RpSpawned e l" l] i assms(3) [OF that] by (simp add: refresh_inv_def)
  have nf: "\<not> fetches (map_of (rf_tasks s1) task)" using assms(2) i by simp
  show ?thesis
  proof (cases r)
    case n: None
    then show ?thesis using leave_inv [OF _ nf bg] i by (simp add: refresh_enter_def None lf)
  next
    case (Some l)
    let ?call = "\<lparr>rk_endpoint = e, rk_force = force, rk_source = source, rk_arrived_at = arrived, rk_lock = l,
      rk_background = background\<rparr>"
    have "\<forall>l' \<in> phase_locks (RpWaiting ?call). (phase_endpoint (RpWaiting ?call), l') \<in> set (rf_locks s1)"
      using i bg Some by (cases background) auto
    then show ?thesis
      using set_phase_inv [OF _ nf, of "RpWaiting ?call"] i Some by (simp add: refresh_enter_def None lf fetches_def)
  qed
qed

lemma refresh_locked_inv:
  assumes "refresh_inv sys" "map_of (rf_tasks sys) task = Some (RpWaiting call)" "rf_owner sys (rk_lock call) = None"
  shows "refresh_inv (fst (refresh_locked tmax clk sys task call))"
proof -
  have nf: "\<not> fetches (map_of (rf_tasks sys) task)" by (simp add: assms(2) fetches_def)
  have h: "(rk_endpoint call, l) \<in> set (rf_locks sys)" if "l \<in> phase_locks (RpWaiting call)" for l
    using held_lock [OF _ assms(2) that] assms(1) by (simp add: refresh_inv_def)
  then have "refresh_inv (leave task (rk_endpoint call) (rk_background call) sys)"
    by (intro leave_inv [OF assms(1) nf]) simp
  moreover have "rk_lock c \<noteq> rk_lock call" if "map_of (rf_tasks sys) t = Some (RpFetching c a)" for t c a
    using fetch_owner [OF _ that] assms(1,3) by (auto simp: refresh_inv_def)
  then have "refresh_inv (set_phase task (RpFetching call n)
      (sys\<lparr>rf_states := f, rf_owner := (rf_owner sys)(rk_lock call \<mapsto> task)\<rparr>))" for n f
    using assms h nf
    by (auto simp: refresh_inv_def locks_inv_def tasks_inv_def set_phase_def update_conv' distinct_update fetches_def
        split: if_splits)
  ultimately show ?thesis by (auto simp: refresh_locked_def Let_def split: option.splits)
qed

lemma finish_fetch:
  assumes "tasks_inv sys" "map_of (rf_tasks sys) task = Some (RpFetching call a)" "\<not> fetches (map_of ts task)"
    "\<And>t. t \<noteq> task \<Longrightarrow> map_of ts t = map_of (rf_tasks sys) t"
    "\<And>p l. map_of ts task = Some p \<Longrightarrow> l \<in> phase_locks p \<Longrightarrow> (phase_endpoint p, l) \<in> set (rf_locks sys)"
  shows "tasks_inv (sys\<lparr>rf_owner := (rf_owner sys)(rk_lock call := None), rf_tasks := ts\<rparr>)"
proof -
  let ?own = "(rf_owner sys)(rk_lock call := None)"
  have "(phase_endpoint p, l) \<in> set (rf_locks sys)" if "map_of ts t = Some p" "l \<in> phase_locks p" for t p l
    using that assms(4,5) held_lock [OF assms(1)] by (cases "t = task") auto
  moreover have "?own l = Some t \<longleftrightarrow> (\<exists>c b. map_of ts t = Some (RpFetching c b) \<and> rk_lock c = l)" for t l
  proof (cases "t = task")
    case True
    have "rf_owner sys l \<noteq> Some task \<or> l = rk_lock call"
      using assms(1,2) by (auto simp: tasks_inv_def)
    then show ?thesis using assms(3) by (auto simp: True fetches_def split: option.splits refresh_phase.splits)
  next
    case False
    have "rf_owner sys (rk_lock call) = Some task" by (rule fetch_owner [OF assms(1,2)])
    then have "\<not> (\<exists>c b. map_of (rf_tasks sys) t = Some (RpFetching c b) \<and> rk_lock c = rk_lock call)"
      using False fetch_owner [OF assms(1), of t] by fastforce
    moreover have "rf_owner sys l = Some t \<longleftrightarrow>
        (\<exists>c b. map_of (rf_tasks sys) t = Some (RpFetching c b) \<and> rk_lock c = l)"
      using assms(1) by (simp add: tasks_inv_def)
    ultimately show ?thesis using assms(4) [OF False] by (cases "l = rk_lock call") auto
  qed
  ultimately show ?thesis by (simp add: tasks_inv_def)
qed

lemma refresh_fetched_inv:
  assumes "refresh_inv sys" "map_of (rf_tasks sys) task = Some (RpFetching call a)"
  shows "refresh_inv (fst (refresh_fetched tmax upper clk sys task call a fetched))"
proof -
  have inv: "locks_inv sys" "tasks_inv sys" using assms(1) by (simp_all add: refresh_inv_def)
  have h: "(rk_endpoint call, l) \<in> set (rf_locks sys)" if "l \<in> phase_locks (RpFetching call a)" for l
    using held_lock [OF inv(2) assms(2) that] by simp
  let ?ts = "case rk_background call of
      Some l \<Rightarrow> AList.update task (RpClearing (rk_endpoint call) l) (rf_tasks sys)
    | None \<Rightarrow> AList.delete task (rf_tasks sys)"
  have "tasks_inv (sys\<lparr>rf_owner := (rf_owner sys)(rk_lock call := None), rf_tasks := ?ts\<rparr>)"
    using h by (intro finish_fetch [OF inv(2) assms(2)])
      (auto simp: fetches_def update_conv' map_of_delete split: option.splits if_splits)
  moreover have "leave task (rk_endpoint call) (rk_background call)
      (sys\<lparr>rf_cache := c, rf_states := f, rf_owner := (rf_owner sys)(rk_lock call := None)\<rparr>) =
    sys\<lparr>rf_cache := c, rf_states := f, rf_owner := (rf_owner sys)(rk_lock call := None), rf_tasks := ?ts\<rparr>" for c f
    by (simp add: leave_def set_phase_def split: option.split)
  moreover have "distinct (List.map fst ?ts)"
    using inv(1) by (auto simp: locks_inv_def distinct_update distinct_delete split: option.split)
  ultimately have "refresh_inv (leave task (rk_endpoint call) (rk_background call)
      (sys\<lparr>rf_cache := c, rf_states := f, rf_owner := (rf_owner sys)(rk_lock call := None)\<rparr>))" for c f
    using inv(1) by (simp add: refresh_inv_def locks_inv_def tasks_inv_def)
  then show ?thesis by (simp add: refresh_fetched_def Let_def case_prod_unfold)
qed

lemma refresh_in_background_inv:
  assumes "refresh_inv sys" "map_of (rf_tasks sys) task = None"
  shows "refresh_inv (refresh_in_background clk sys free task e)"
proof -
  obtain s1 r where lf: "lock_for e sys = (s1, r)" by fastforce
  note i = lock_for_inv [OF assms(1) lf]
  have nf: "\<not> fetches (map_of (rf_tasks s1) task)" using assms(2) i by (simp add: fetches_def)
  have "refresh_inv (set_phase task (RpSpawned e l) (s1\<lparr>rf_states := f\<rparr>))" if "r = Some l" for l f
    using i that nf by (intro set_phase_inv) (auto simp: fetches_def)
  then show ?thesis using assms(1) i
    by (auto simp: refresh_in_background_def lf Let_def split: option.splits)
qed

lemma clear_pending_inv:
  assumes "refresh_inv sys" "map_of (rf_tasks sys) task = Some (RpClearing e l)"
  shows "refresh_inv (clear_pending sys task l)"
proof -
  have "refresh_inv (sys\<lparr>rf_states := f, rf_tasks := AList.delete task (rf_tasks sys)\<rparr>)" for f
    using delete_task_inv [of "sys\<lparr>rf_states := f\<rparr>" task] assms by (simp add: fetches_def)
  then show ?thesis by (simp add: clear_pending_def)
qed

interpretation rm: machine refresh_init "refresh_step tmax upper" refresh_inv
  for tmax upper
proof unfold_locales
  fix sys :: refresh_system
  assume "refresh_init sys"
  then show "refresh_inv sys" by (simp add: refresh_init_def refresh_inv_def locks_inv_def tasks_inv_def)
next
  fix sys op sys'
  assume "refresh_step tmax upper sys op sys'" "refresh_inv sys"
  then show "refresh_inv sys'"
    by (elim refresh_stepE)
      (auto intro!: refresh_enter_inv refresh_locked_inv refresh_fetched_inv refresh_in_background_inv clear_pending_inv
        simp: fetches_def)
qed

lemma refresh_locked_starts:
  assumes "map_of (rf_tasks sys) task = Some (RpWaiting c)"
    "map_of (rf_tasks (fst (refresh_locked tmax clk sys task c))) task = Some (RpFetching call a)"
  shows "call = c \<and>
    (case rs_attempted_at (rf_states sys (rk_lock call)) of
       None \<Rightarrow> True | Some before \<Rightarrow> before + min_attempt \<le> rk_arrived_at call) \<and>
    (case rs_completed_at (rf_states sys (rk_lock call)) of
       None \<Rightarrow> True | Some completed \<Rightarrow> completed < rk_arrived_at call)"
  using assms
  by (auto simp: refresh_locked_def Let_def leave_def set_phase_def update_conv' map_of_delete not_le not_less
      split: if_splits option.splits)

text \<open>
  C5: The refresh of an endpoint's quota is a single flight. Whatever the interleaving of
  foreground and background refreshes with evictions of idle locks, when a task starts a fetch, no
  other task is fetching the same endpoint; the fetch starts at least ten seconds after the last
  attempt under its lock, and only if no refresh completed since the caller arrived. The map
  never holds more than 4096 locks.\<close>

theorem refresh_single_flight:
  assumes "reachable refresh_init (refresh_step tmax upper) sys"
    and "refresh_step tmax upper sys (OpLocked task) sys'"
    and "map_of (rf_tasks sys') task = Some (RpFetching call attempt_start)"
  shows "(\<forall>t c a. map_of (rf_tasks sys') t = Some (RpFetching c a) \<longrightarrow>
            rk_endpoint c = rk_endpoint call \<longrightarrow> t = task) \<and>
    (case rs_attempted_at (rf_states sys (rk_lock call)) of
       None \<Rightarrow> True | Some before \<Rightarrow> before + secs 10 \<le> rk_arrived_at call) \<and>
    (case rs_completed_at (rf_states sys (rk_lock call)) of
       None \<Rightarrow> True | Some completed \<Rightarrow> completed < rk_arrived_at call) \<and>
    length (rf_locks sys') \<le> 4096"
proof -
  have inv: "refresh_inv sys'" by (rule rm.reachable_inv [OF reach_step [OF assms(1,2)]])
  then have t: "tasks_inv sys'" and d: "distinct (List.map fst (rf_locks sys'))"
    and len: "length (rf_locks sys') \<le> 4096"
    by (simp_all add: refresh_inv_def locks_inv_def lock_capacity_def)
  have single: "u = task" if u: "map_of (rf_tasks sys') u = Some (RpFetching c b)" "rk_endpoint c = rk_endpoint call" for u c b
  proof -
    have "(rk_endpoint c, rk_lock c) \<in> set (rf_locks sys')" "(rk_endpoint call, rk_lock call) \<in> set (rf_locks sys')"
      using held_lock [OF t u(1)] held_lock [OF t assms(3)] by simp_all
    then have "rk_lock c = rk_lock call" using d u(2) by (metis eq_key_imp_eq_value)
    then show ?thesis using fetch_owner [OF t u(1)] fetch_owner [OF t assms(3)] by simp
  qed
  obtain clk c where w: "map_of (rf_tasks sys) task = Some (RpWaiting c)"
    and s': "sys' = fst (refresh_locked tmax clk sys task c)"
    using assms(2) by (auto elim: refresh_stepE)
  have "(case rs_attempted_at (rf_states sys (rk_lock call)) of
       None \<Rightarrow> True | Some before \<Rightarrow> before + secs 10 \<le> rk_arrived_at call) \<and>
    (case rs_completed_at (rf_states sys (rk_lock call)) of
       None \<Rightarrow> True | Some completed \<Rightarrow> completed < rk_arrived_at call)"
    using refresh_locked_starts [OF w assms(3) [unfolded s']] unfolding min_attempt_def by blast
  then show ?thesis using single len by blast
qed

definition demo_idle :: refresh_system where
  "demo_idle =
     \<lparr>rf_cache = quota_cache_default, rf_locks = [], rf_states = (\<lambda>_. refresh_state_default),
      rf_owner = (\<lambda>_. None), rf_tasks = [], rf_next = 0\<rparr>"

definition demo_call :: refresh_call where
  "demo_call =
     \<lparr>rk_endpoint = 3, rk_force = True, rk_source = SrcManual, rk_arrived_at = 5, rk_lock = 0,
      rk_background = None\<rparr>"

definition demo_waiting :: refresh_system where
  "demo_waiting = demo_idle\<lparr>rf_locks := [(3, 0)], rf_owner := (rf_owner demo_idle)(0 := None),
      rf_states := (rf_states demo_idle)(0 := refresh_state_default), rf_next := 1, rf_tasks := [(7, RpWaiting demo_call)]\<rparr>"

definition demo_fetching :: refresh_system where
  "demo_fetching = demo_waiting\<lparr>
      rf_states := (rf_states demo_waiting)(0 := refresh_state_default\<lparr>rs_attempted_at := Some 5\<rparr>),
      rf_owner := (rf_owner demo_waiting)(0 \<mapsto> 7), rf_tasks := [(7, RpFetching demo_call 6)]\<rparr>"

lemma refresh_single_flight_witness:
  "length (rf_locks demo_fetching) \<le> 4096"
proof -
  let ?clk = "\<lparr>clk_instant = 6, clk_utc = 0, clk_weekday = 1, clk_minutes = 0\<rparr> :: clock"
  have "refresh_step 0 (\<lambda>s. s) demo_idle (OpEnter 7 3 True SrcManual 5)
      (fst (refresh_enter 0 ?clk demo_idle 7 3 True SrcManual 5 None))"
    by (rule step_enter) (simp add: demo_idle_def)
  moreover have "fst (refresh_enter 0 ?clk demo_idle 7 3 True SrcManual 5 None) = demo_waiting"
    by (simp add: refresh_enter_def demo_idle_def demo_waiting_def demo_call_def lock_for_def retain_locks_def
        set_phase_def lock_capacity_def)
  moreover have "refresh_init demo_idle" by (simp add: refresh_init_def demo_idle_def)
  ultimately have r: "reachable refresh_init (refresh_step 0 (\<lambda>s. s)) demo_waiting"
    using reach_step [OF reach_init] by metis
  have "refresh_step 0 (\<lambda>s. s) demo_waiting (OpLocked 7) (fst (refresh_locked 0 ?clk demo_waiting 7 demo_call))"
    by (rule step_locked) (simp_all add: demo_waiting_def demo_idle_def demo_call_def)
  moreover have "fst (refresh_locked 0 ?clk demo_waiting 7 demo_call) = demo_fetching"
    by (simp add: refresh_locked_def demo_waiting_def demo_idle_def demo_fetching_def demo_call_def set_phase_def
        refresh_state_default_def)
  ultimately have "refresh_step 0 (\<lambda>s. s) demo_waiting (OpLocked 7) demo_fetching" by simp
  from refresh_single_flight [OF r this, of demo_call 6] show ?thesis by (simp add: demo_fetching_def)
qed

end
