(* ===== verification/Json.thy ===== *)
theory Json
  imports F64 "HOL-Library.List_Lexorder"
begin

text \<open>
  JSON values as the program sees them through \<open>serde_json\<close>: a \<open>Value\<close> is one of six variants, a
  number one of \<open>u64\<close>, negative \<open>i64\<close> and finite \<open>f64\<close>, an object a map with distinct keys, here an
  association list in the map's order. The reading accessors (\<open>get\<close>, \<open>as_str\<close>, \<open>as_i64\<close>, \<dots>) are those
  the program calls; parsers and printers of JSON text are parameters where they are used.
\<close>

datatype json_number = NumU64 nat | NumI64 int | NumF64 f64

datatype json =
    JNull
  | JBool bool
  | JNum json_number
  | JStr string
  | JArr "json list"
  | JObj "(string \<times> json) list"

definition json_as_object :: "json \<Rightarrow> (string \<times> json) list option" where
  "json_as_object v = (case v of JObj members \<Rightarrow> Some members | _ \<Rightarrow> None)"

definition json_as_array :: "json \<Rightarrow> json list option" where
  "json_as_array v = (case v of JArr items \<Rightarrow> Some items | _ \<Rightarrow> None)"

definition json_as_str :: "json \<Rightarrow> string option" where
  "json_as_str v = (case v of JStr s \<Rightarrow> Some s | _ \<Rightarrow> None)"

definition json_as_bool :: "json \<Rightarrow> bool option" where
  "json_as_bool v = (case v of JBool b \<Rightarrow> Some b | _ \<Rightarrow> None)"

definition json_as_i64 :: "json \<Rightarrow> int option" where
  "json_as_i64 v =
     (case v of
        JNum (NumU64 n) \<Rightarrow> if int n \<le> i64_max then Some (int n) else None
      | JNum (NumI64 i) \<Rightarrow> Some i
      | _ \<Rightarrow> None)"

definition json_as_u64 :: "json \<Rightarrow> nat option" where
  "json_as_u64 v = (case v of JNum (NumU64 n) \<Rightarrow> Some n | _ \<Rightarrow> None)"

definition json_is_null :: "json \<Rightarrow> bool" where
  "json_is_null v \<longleftrightarrow> v = JNull"

definition json_get :: "json \<Rightarrow> string \<Rightarrow> json option" where
  "json_get v key = (case v of JObj members \<Rightarrow> map_of members key | _ \<Rightarrow> None)"

lemma json_get_simps [simp]:
  "json_get (JObj members) k = map_of members k"
  "json_get JNull k = None" "json_get (JBool b) k = None" "json_get (JNum n) k = None"
  "json_get (JStr s) k = None" "json_get (JArr xs) k = None"
  by (simp_all add: json_get_def)

lemma json_as_str_simps [simp]:
  "json_as_str (JStr s) = Some s"
  "json_as_str JNull = None" "json_as_str (JBool b) = None" "json_as_str (JNum n) = None"
  "json_as_str (JArr xs) = None" "json_as_str (JObj fs) = None"
  by (simp_all add: json_as_str_def)

lemma json_as_str_Some: "json_as_str v = Some s \<longleftrightarrow> v = JStr s"
  by (cases v) auto

subsection \<open>Members of objects\<close>

text \<open>\<open>serde_json::Map::insert\<close>: members are kept in the order of their keys.\<close>

fun members_insert :: "string \<Rightarrow> json \<Rightarrow> (string \<times> json) list \<Rightarrow> (string \<times> json) list" where
  "members_insert k v [] = [(k, v)]"
| "members_insert k v ((k', v') # members) =
     (if k = k' then (k, v) # members
      else if List.map byte k < List.map byte k' then (k, v) # (k', v') # members
      else (k', v') # members_insert k v members)"

definition json_set :: "string \<Rightarrow> json \<Rightarrow> json \<Rightarrow> json" where
  "json_set k v value = (case value of JObj members \<Rightarrow> JObj (members_insert k v members) | _ \<Rightarrow> value)"

lemma map_of_members_insert [simp]: "map_of (members_insert k v members) = (map_of members)(k \<mapsto> v)"
proof (induction members)
  case (Cons m members)
  then show ?case by (cases m) (auto simp: fun_eq_iff)
qed auto

lemma json_get_set [simp]: "json_get (json_set k v (JObj members)) k' = (if k' = k then Some v else json_get (JObj members) k')"
  by (simp add: json_set_def)

text \<open>\<open>Map::remove\<close>, and the number made from an \<open>i64\<close>.\<close>

definition members_remove :: "string \<Rightarrow> (string \<times> json) list \<Rightarrow> (string \<times> json) list" where
  "members_remove k members = filter (\<lambda>m. fst m \<noteq> k) members"

lemma map_of_members_remove [simp]: "map_of (members_remove k members) = (map_of members)(k := None)"
  by (induction members) (auto simp: members_remove_def fun_eq_iff)

definition json_i64 :: "int \<Rightarrow> json" where
  "json_i64 i = JNum (if 0 \<le> i then NumU64 (nat i) else NumI64 i)"

lemma json_as_i64_json_i64 [simp]: "i \<le> i64_max \<Longrightarrow> json_as_i64 (json_i64 i) = Some i"
  by (simp add: json_as_i64_def json_i64_def)

text \<open>The object of the \<open>json!\<close> macro.\<close>

definition json_obj :: "(string \<times> json) list \<Rightarrow> json" where
  "json_obj members = JObj (fold (\<lambda>(k, v). members_insert k v) members [])"

lemma map_of_fold_insert:
  "map_of (fold (\<lambda>(k, v). members_insert k v) members acc) =
     fold (\<lambda>(k, v) m. m(k \<mapsto> v)) members (map_of acc)"
  by (induction members arbitrary: acc) (auto simp: fun_eq_iff)

lemma json_get_obj: "json_get (json_obj members) k = fold (\<lambda>(k, v) m. m(k \<mapsto> v)) members Map.empty k"
  by (simp add: json_obj_def map_of_fold_insert)

subsection \<open>The library\<close>

text \<open>
  Parsing and printing of JSON text are parameters. A value the library holds has the members of
  every object in the strict order of their keys and finite numbers; such a value prints, and its
  text reads back as it.\<close>

record json_text =
  jt_parse :: "string \<Rightarrow> json option"
  jt_print :: "json \<Rightarrow> string option"

definition key_less :: "string \<Rightarrow> string \<Rightarrow> bool" where
  "key_less a b \<longleftrightarrow> List.map byte a < List.map byte b"

fun json_wf :: "json \<Rightarrow> bool"
  and members_wf :: "(string \<times> json) list \<Rightarrow> bool"
  and items_wf :: "json list \<Rightarrow> bool"
where
  "json_wf JNull \<longleftrightarrow> True"
| "json_wf (JBool b) \<longleftrightarrow> True"
| "json_wf (JNum n) \<longleftrightarrow> (case n of NumF64 f \<Rightarrow> is_finite f | _ \<Rightarrow> True)"
| "json_wf (JStr s) \<longleftrightarrow> True"
| "json_wf (JArr items) \<longleftrightarrow> items_wf items"
| "json_wf (JObj members) \<longleftrightarrow> sorted_wrt key_less (List.map fst members) \<and> members_wf members"
| "members_wf [] \<longleftrightarrow> True"
| "members_wf ((k, v) # members) \<longleftrightarrow> json_wf v \<and> members_wf members"
| "items_wf [] \<longleftrightarrow> True"
| "items_wf (v # items) \<longleftrightarrow> json_wf v \<and> items_wf items"

text \<open>
  What theorems about printed bodies assume of the JSON library: it prints every value of a decoded
  body and reads it back. This idealises serde_json, which stops reading at 128 levels of nesting,
  reads a float back to its nearest neighbour only with a feature the crate does not turn on, and
  has 64-bit integers and UTF-8 strings only; it is exact on the bodies inside those limits.\<close>

definition json_reads_back :: "json_text \<Rightarrow> bool" where
  "json_reads_back jt \<longleftrightarrow>
     (\<forall>v. json_wf v \<longrightarrow> (\<exists>t. jt_print jt v = Some t \<and> jt_parse jt t = Some v)) \<and>
     (\<forall>t v. jt_parse jt t = Some v \<longrightarrow> json_wf v)"

lemma byte_inj [simp]: "List.map byte a = List.map byte b \<longleftrightarrow> a = b"
proof -
  have "inj byte" by (auto simp: inj_def byte_def)
  then show ?thesis by (auto simp: inj_map_eq_map)
qed

lemma key_less_trans: "key_less a b \<Longrightarrow> key_less b c \<Longrightarrow> key_less a c"
  unfolding key_less_def by (rule less_trans)

lemma key_less_linear: "key_less a b \<or> a = b \<or> key_less b a"
  unfolding key_less_def by (metis byte_inj linorder_less_linear)

lemma members_wf_iff: "members_wf members \<longleftrightarrow> (\<forall>(k, v) \<in> set members. json_wf v)"
  by (induction members) auto

lemma items_wf_iff: "items_wf items \<longleftrightarrow> (\<forall>v \<in> set items. json_wf v)"
  by (induction items) auto

lemma members_insert_keys: "set (List.map fst (members_insert k v members)) = insert k (set (List.map fst members))"
  using dom_map_of_conv_image_fst [of "members_insert k v members"] dom_map_of_conv_image_fst [of members] by simp

lemma members_insert_sorted:
  "sorted_wrt key_less (List.map fst members) \<Longrightarrow> sorted_wrt key_less (List.map fst (members_insert k v members))"
proof (induction members)
  case (Cons m members)
  obtain k' v' where m: "m = (k', v')" by (cases m)
  show ?case
  proof (cases "k = k' \<or> key_less k k'")
    case True
    then show ?thesis using Cons.prems by (auto simp: m key_less_def intro: less_trans)
  next
    case False
    then have "key_less k' k" "k \<noteq> k'" using key_less_linear by blast+
    then show ?thesis
      using False Cons members_insert_keys [of k v members] by (auto simp: m simp flip: key_less_def)
  qed
qed auto

lemma members_insert_wf: "json_wf v \<Longrightarrow> members_wf members \<Longrightarrow> members_wf (members_insert k v members)"
  by (induction members) auto

lemma members_remove_wf:
  "json_wf (JObj members) \<Longrightarrow> json_wf (JObj (members_remove k members))"
  by (auto simp: members_remove_def members_wf_iff sorted_wrt_map intro: sorted_wrt_filter)

lemma json_set_wf: "json_wf (JObj members) \<Longrightarrow> json_wf v \<Longrightarrow> json_wf (JObj (members_insert k v members))"
  by (simp add: members_insert_sorted members_insert_wf)

lemma json_obj_wf: "list_all (\<lambda>(k, v). json_wf v) members \<Longrightarrow> json_wf (json_obj members)"
proof -
  have "json_wf (JObj acc) \<Longrightarrow> list_all (\<lambda>(k, v). json_wf v) members \<Longrightarrow>
      json_wf (JObj (fold (\<lambda>(k, v). members_insert k v) members acc))" for acc
    by (induction members arbitrary: acc) (auto simp del: json_wf.simps(6) intro: json_set_wf)
  then show "list_all (\<lambda>(k, v). json_wf v) members \<Longrightarrow> json_wf (json_obj members)"
    by (simp add: json_obj_def)
qed

lemma json_wf_member: "json_wf (JObj members) \<Longrightarrow> map_of members k = Some v \<Longrightarrow> json_wf v"
  by (auto simp: members_wf_iff dest: map_of_SomeD)

end
