(* ===== verification/UnifiedPool.thy ===== *)
theory UnifiedPool
  imports RouteTypes
begin

text \<open>
  \<open>src/routing.rs\<close>: the deterministic weighted draw over a unified key pool, the choice of an
  admin preview target, the hashed candidate order, and the credentials a session binding
  names. SHA-256 is a parameter \<open>sha\<close> from byte strings to byte strings.

  The lemmas show that a draw picks an eligible unit, exists whenever the weights are those
  of an assessment, equals a reference scan of the units in id order, and does not depend on
  the order in which the units are listed; and that a binding resolves to the credential it
  was made from.
\<close>

subsection \<open>Uuids and digests\<close>

definition uuid_bytes :: "uuid \<Rightarrow> string" where
  "uuid_bytes u = List.map (\<lambda>i. char_of (unat u div 256 ^ (15 - i) mod 256)) [0..<16]"

definition be_u64 :: "string \<Rightarrow> nat" where
  "be_u64 digest = foldl (\<lambda>a c. a * 256 + byte c) 0 (take 8 digest)"

definition api_key_fingerprint :: "(string \<Rightarrow> string) \<Rightarrow> string \<Rightarrow> string" where
  "api_key_fingerprint sha secret = hex_digest (sha secret)"

subsection \<open>The draw\<close>

definition drawable :: "f64 \<Rightarrow> bool" where
  "drawable weight \<longleftrightarrow> is_finite weight \<and> f_lt (Fin 0) weight"

definition eligible_indices :: "(uuid \<times> f64) list \<Rightarrow> nat list" where
  "eligible_indices entries =
     sort_key (\<lambda>index. fst (entries ! index))
       (filter (\<lambda>index. drawable (snd (entries ! index))) [0..<length entries])"

fun draw_scan :: "(uuid \<times> f64) list \<Rightarrow> f64 \<Rightarrow> f64 \<Rightarrow> nat \<Rightarrow> nat list \<Rightarrow> nat" where
  "draw_scan entries point cumulative latest [] = latest"
| "draw_scan entries point cumulative latest (index # rest) =
     (let cumulative = f_add cumulative (snd (entries ! index)) in
      if f_lt point cumulative then index
      else draw_scan entries point cumulative index rest)"

definition pool_digest_input :: "string \<Rightarrow> uuid list \<Rightarrow> string" where
  "pool_digest_input stable_key ids =
     ''unified-key-pool'' @ stable_key @ concat (List.map uuid_bytes ids)"

definition draw_point :: "(string \<Rightarrow> string) \<Rightarrow> string \<Rightarrow> uuid list \<Rightarrow> f64 \<Rightarrow> f64" where
  "draw_point sha stable_key ids pool_total =
     f_mul (f_div (f_of_nat (be_u64 (sha (pool_digest_input stable_key ids)))) (f_of_nat u64_max)) pool_total"

definition unified_pool_draw ::
    "(string \<Rightarrow> string) \<Rightarrow> (uuid \<times> f64) list \<Rightarrow> string \<Rightarrow> nat option" where
  "unified_pool_draw sha entries stable_key =
     (let eligible = eligible_indices entries in
      if eligible = [] then None
      else
        let pool_total = f_sum (List.map (\<lambda>index. snd (entries ! index)) eligible) in
        if \<not> is_finite pool_total \<or> f_le pool_total (Fin 0) then None
        else
          let point = draw_point sha stable_key (List.map (\<lambda>index. fst (entries ! index)) eligible) pool_total
          in Some (draw_scan entries point (Fin 0) (hd eligible) eligible))"

definition choose_preferred_target ::
    "(string \<Rightarrow> string) \<Rightarrow> route_candidate \<Rightarrow> string option \<Rightarrow> route_target option" where
  "choose_preferred_target sha candidate routing_key =
     Option.bind
       (unified_pool_draw sha (List.map (\<lambda>target. (rt_target_id target, Fin 1)) (rc_targets candidate))
          (opt_or_default ''default'' routing_key))
       (\<lambda>index. if index < length (rc_targets candidate) then Some (rc_targets candidate ! index) else None)"

text \<open>
  \<open>stable_candidate_order\<close>: indices by descending score, ties by the caller's order. The
  comparison sort is the stable insertion of the standard library's contract; \<open>before\<close> is the
  comparator read as "not greater".\<close>

fun insort_by :: "('a \<Rightarrow> 'a \<Rightarrow> bool) \<Rightarrow> 'a \<Rightarrow> 'a list \<Rightarrow> 'a list" where
  "insort_by before x [] = [x]"
| "insort_by before x (y # ys) = (if before x y then x # y # ys else y # insort_by before x ys)"

definition sort_by :: "('a \<Rightarrow> 'a \<Rightarrow> bool) \<Rightarrow> 'a list \<Rightarrow> 'a list" where
  "sort_by before xs = foldr (insort_by before) xs []"

definition stable_candidate_order ::
    "(nat \<Rightarrow> 'a \<Rightarrow> nat list) \<Rightarrow> (nat \<Rightarrow> 'a \<Rightarrow> nat \<Rightarrow> 'a \<Rightarrow> bool) \<Rightarrow> 'a list \<Rightarrow> nat list" where
  "stable_candidate_order score tie_le candidates =
     sort_by
       (\<lambda>left right.
          score right (candidates ! right) < score left (candidates ! left) \<or>
          score right (candidates ! right) = score left (candidates ! left) \<and>
            tie_le left (candidates ! left) right (candidates ! right))
       [0..<length candidates]"

subsection \<open>Bindings\<close>

record affinity_binding =
  ab_endpoint_id :: uuid
  ab_endpoint_key_id :: "uuid option"
  ab_fingerprint :: string

datatype binding_state = BsActive | BsStaleEndpoint | BsStaleKey

definition credential_binding ::
    "(string \<Rightarrow> string) \<Rightarrow> route_target \<Rightarrow> endpoint_api_key_selection \<Rightarrow> affinity_binding" where
  "credential_binding sha target selection =
     (let (key_id, secret) = (if rt_has_oauth_token target then (None, [])
                              else (sel_key_id selection, sel_secret selection))
      in \<lparr>ab_endpoint_id = rt_endpoint_id target, ab_endpoint_key_id = key_id,
          ab_fingerprint = api_key_fingerprint sha secret\<rparr>)"

definition select_bound_credential ::
    "(string \<Rightarrow> string) \<Rightarrow> route_target \<Rightarrow> affinity_binding \<Rightarrow> endpoint_api_key_selection option" where
  "select_bound_credential sha target binding =
     (if rt_has_oauth_token target then
        (if ab_endpoint_key_id binding = None \<and> ab_fingerprint binding = api_key_fingerprint sha []
         then Some subscription_selection else None)
      else
        let by_key_id = Option.bind (ab_endpoint_key_id binding) (\<lambda>key_id.
              find (\<lambda>key. usable_key (rt_endpoint_id target) key \<and> ak_key_id key = key_id)
                (rt_api_keys target));
            by_fingerprint =
              find (\<lambda>key. usable_key (rt_endpoint_id target) key \<and>
                          api_key_fingerprint sha (ak_api_key key) = ab_fingerprint binding)
                (rt_api_keys target)
        in opt_or (map_option selection_from_key (opt_or by_key_id by_fingerprint))
             (if ab_endpoint_key_id binding = None \<and>
                 api_key_fingerprint sha (rt_api_key target) = ab_fingerprint binding
              then Some \<lparr>sel_key_id = None, sel_key_label = None, sel_secret = rt_api_key target\<rparr>
              else None))"

definition bound_binding_state ::
    "(string \<Rightarrow> string) \<Rightarrow> (string \<Rightarrow> active_window list option) \<Rightarrow> clock \<Rightarrow> route_candidate \<Rightarrow>
     affinity_binding \<Rightarrow> binding_state" where
  "bound_binding_state sha windows_json clk candidate binding =
     (case candidate_target_by_endpoint candidate (ab_endpoint_id binding) of
        None \<Rightarrow> BsStaleEndpoint
      | Some target \<Rightarrow>
          if \<not> rt_enabled target then BsStaleEndpoint
          else if \<not> effective_stored_is_active_at windows_json clk (rt_active_windows target)
                     (rt_endpoint_active_windows target) (clk_minutes clk)
          then BsStaleEndpoint
          else
            (case select_bound_credential sha target binding of
               Some _ \<Rightarrow> BsActive
             | None \<Rightarrow> BsStaleKey))"

subsection \<open>The draw picks an eligible unit\<close>

lemma set_eligible_indices:
  "set (eligible_indices entries) = {i. i < length entries \<and> drawable (snd (entries ! i))}"
  by (auto simp: eligible_indices_def)

lemma distinct_eligible_indices [simp]: "distinct (eligible_indices entries)"
  by (simp add: eligible_indices_def)

lemma draw_scan_in: "draw_scan entries point c latest is \<in> insert latest (set is)"
  by (induction entries point c latest "is" rule: draw_scan.induct) (auto simp: Let_def)

lemma unified_pool_draw_SomeD:
  assumes "unified_pool_draw sha entries k = Some i"
  shows "i < length entries \<and> drawable (snd (entries ! i))"
proof -
  let ?e = "eligible_indices entries"
  have ne: "?e \<noteq> []" and i: "\<exists>p. i = draw_scan entries p (Fin 0) (hd ?e) ?e"
    using assms by (auto simp: unified_pool_draw_def Let_def split: if_splits)
  from i obtain p where "i = draw_scan entries p (Fin 0) (hd ?e) ?e" by blast
  then have "i \<in> set ?e" using draw_scan_in [of entries p "Fin 0" "hd ?e" ?e] ne by auto
  then show ?thesis by (simp add: set_eligible_indices)
qed

subsection \<open>A reference scan of the units in id order\<close>

text \<open>
  The units themselves in the order of their ids, and the first whose cumulative weight
  passes the point; the last one when rounding leaves the point at the end.\<close>

fun pick :: "f64 \<Rightarrow> f64 \<Rightarrow> uuid \<times> f64 \<Rightarrow> (uuid \<times> f64) list \<Rightarrow> uuid \<times> f64" where
  "pick point cumulative latest [] = latest"
| "pick point cumulative latest (u # us) =
     (let cumulative = f_add cumulative (snd u) in
      if f_lt point cumulative then u else pick point cumulative u us)"

definition draw_unit ::
    "(string \<Rightarrow> string) \<Rightarrow> (uuid \<times> f64) list \<Rightarrow> string \<Rightarrow> (uuid \<times> f64) option" where
  "draw_unit sha units stable_key =
     (let sorted = sort_key fst (filter (\<lambda>u. drawable (snd u)) units);
          pool_total = f_sum (List.map snd sorted) in
      if sorted = [] \<or> \<not> is_finite pool_total \<or> f_le pool_total (Fin 0) then None
      else Some (pick (draw_point sha stable_key (List.map fst sorted) pool_total) (Fin 0) (hd sorted) sorted))"

lemma map_insort_key_comp:
  "List.map f (insort_key (\<lambda>x. g (f x)) x xs) = insort_key g (f x) (List.map f xs)"
  by (induction xs) auto

lemma map_sort_key_comp: "List.map f (sort_key (\<lambda>x. g (f x)) xs) = sort_key g (List.map f xs)"
  by (induction xs) (simp_all add: map_insort_key_comp)

lemma map_eligible_indices:
  "List.map ((!) entries) (eligible_indices entries) =
     sort_key fst (filter (\<lambda>u. drawable (snd u)) entries)"
proof -
  have "List.map ((!) entries) (eligible_indices entries) =
    sort_key fst (List.map ((!) entries)
      (filter (\<lambda>i. drawable (snd (entries ! i))) [0..<length entries]))"
    by (simp add: eligible_indices_def map_sort_key_comp)
  also have "List.map ((!) entries) (filter (\<lambda>i. drawable (snd (entries ! i))) [0..<length entries]) =
    filter (\<lambda>u. drawable (snd u)) (List.map ((!) entries) [0..<length entries])"
    by (simp add: filter_map comp_def)
  finally show ?thesis by (simp add: map_nth)
qed

lemma pick_draw_scan:
  "entries ! draw_scan entries point c latest is = pick point c (entries ! latest) (List.map ((!) entries) is)"
  by (induction entries point c latest "is" rule: draw_scan.induct) (simp_all add: Let_def)

lemma unified_pool_draw_unit:
  "map_option ((!) entries) (unified_pool_draw sha entries k) = draw_unit sha entries k"
proof -
  let ?e = "eligible_indices entries"
  have m: "List.map (\<lambda>i. snd (entries ! i)) ?e = List.map snd (List.map ((!) entries) ?e)"
    "List.map (\<lambda>i. fst (entries ! i)) ?e = List.map fst (List.map ((!) entries) ?e)"
    by simp_all
  have h: "?e \<noteq> [] \<Longrightarrow> entries ! hd ?e = hd (List.map ((!) entries) ?e)"
    by (simp add: hd_map)
  have n: "?e = [] \<longleftrightarrow> sort_key fst (filter (\<lambda>u. drawable (snd u)) entries) = []"
    using map_eligible_indices [of entries] by (metis map_is_Nil_conv)
  show ?thesis
    unfolding unified_pool_draw_def draw_unit_def Let_def m map_eligible_indices
    using n h by (auto simp: pick_draw_scan map_eligible_indices)
qed

lemma draw_unit_perm:
  assumes "mset us = mset vs" "distinct (List.map fst us)"
  shows "draw_unit sha us k = draw_unit sha vs k"
proof -
  have "mset (filter (\<lambda>u. drawable (snd u)) us) = mset (filter (\<lambda>u. drawable (snd u)) vs)"
    using assms(1) by (simp add: mset_filter)
  moreover have "inj_on fst (set (filter (\<lambda>u. drawable (snd u)) us))"
    using assms(2) by (auto simp: distinct_map intro: inj_on_subset)
  ultimately have "sort_key fst (filter (\<lambda>u. drawable (snd u)) us) =
    sort_key fst (filter (\<lambda>u. drawable (snd u)) vs)"
    by (rule sort_key_perm_eq)
  then show ?thesis by (simp add: draw_unit_def)
qed

lemma unified_pool_draw_perm:
  assumes "mset us = mset vs" "distinct (List.map fst us)"
  shows "map_option ((!) us) (unified_pool_draw sha us k) = map_option ((!) vs) (unified_pool_draw sha vs k)"
  using draw_unit_perm [OF assms] by (simp only: unified_pool_draw_unit)

subsection \<open>A draw over assessed weights exists\<close>

lemma f_sum_bounded:
  assumes "\<forall>x \<in> set xs. f_lt (Fin 0) x \<and> f_le x (Fin 100)" "n + length xs \<le> 2 ^ 40"
    "a \<le> of_nat (100 * n)" "0 \<le> a" "0 < a \<or> xs \<noteq> []" "wf64 (Fin a)" "\<forall>x \<in> set xs. wf64 x"
  shows "\<exists>q. foldl f_add (Fin a) xs = Fin q \<and> 0 < q \<and> q \<le> of_nat (100 * (n + length xs))"
  using assms
proof (induction xs arbitrary: a n)
  case Nil
  then show ?case by auto
next
  case (Cons x xs)
  obtain w where x: "x = Fin w" "0 < w" "w \<le> 100" using Cons.prems(1) by (cases x) auto
  let ?m = "100 * Suc n"
  have "Suc n \<le> 2 ^ 40" using Cons.prems(2) by simp
  then have "int ?m \<le> 100 * 2 ^ 40" by (simp flip: of_nat_Suc)
  also have "\<dots> \<le> (2 ^ 53 :: int)" by simp
  finally have "wf64 (Fin (of_int (int ?m)))" by (intro wf64_of_int) simp
  then have m: "wf64 (Fin (of_nat ?m :: rat))" by (simp only: of_int_of_nat_eq)
  have "a + w \<le> of_nat ?m" using Cons.prems(3) x(3) by simp
  then have up: "f_le (fround (a + w)) (Fin (of_nat ?m))" by (rule fround_le_repr [OF m])
  have "wf64 (Fin w)" using Cons.prems(7) x(1) by simp
  then have "f_le (Fin w) (fround (a + w))" using Cons.prems(4) by (intro fround_ge_repr) auto
  then obtain q where q: "fround (a + w) = Fin q" "w \<le> q" "q \<le> of_nat ?m"
    using up by (cases "fround (a + w)") auto
  have "wf64 (Fin q)" using fround_wf [of "a + w"] q(1) by simp
  then have "\<exists>r. foldl f_add (Fin q) xs = Fin r \<and> 0 < r \<and> r \<le> of_nat (100 * (Suc n + length xs))"
    using Cons.prems q x(2) by (intro Cons.IH) auto
  then show ?case by (simp add: x(1) q(1))
qed

lemma unified_pool_draw_exists:
  assumes "\<forall>u \<in> set entries. drawable (snd u) \<longrightarrow> f_le (snd u) (Fin 100)"
    and "\<forall>u \<in> set entries. wf64 (snd u)" and "length entries \<le> 2 ^ 40"
  shows "unified_pool_draw sha entries k \<noteq> None \<longleftrightarrow> (\<exists>u \<in> set entries. drawable (snd u))"
proof -
  let ?s = "sort_key fst (filter (\<lambda>u. drawable (snd u)) entries)"
  have "draw_unit sha entries k \<noteq> None" if "?s \<noteq> []"
  proof -
    let ?w = "List.map snd ?s"
    have len: "0 + length ?w \<le> 2 ^ 40"
      using le_trans [OF length_filter_le assms(3)] by simp
    have bounds: "\<forall>x \<in> set ?w. f_lt (Fin 0) x \<and> f_le x (Fin 100)" "\<forall>x \<in> set ?w. wf64 x"
      using assms(1,2) by (auto simp: drawable_def)
    have ne: "0 < (0 :: rat) \<or> ?w \<noteq> []" using that by simp
    obtain q where "foldl f_add (Fin 0) ?w = Fin q" "0 < q"
      using f_sum_bounded [OF bounds(1) len _ _ ne _ bounds(2)] by auto
    then show ?thesis using that by (simp add: draw_unit_def Let_def f_sum_def)
  qed
  moreover have "draw_unit sha entries k = None" if "?s = []"
    using that by (simp add: draw_unit_def)
  moreover have "?s = [] \<longleftrightarrow> \<not> (\<exists>u \<in> set entries. drawable (snd u))"
    by (metis (mono_tags, lifting) filter_empty_conv set_empty set_sort)
  ultimately show ?thesis
    using unified_pool_draw_unit [of entries sha k] by (metis option.map_disc_iff)
qed

text \<open>
  C8: The index-based draw of the code is the reference scan over the units themselves in the order
  of their ids, and the unit it picks is one of the list with a finite positive weight: an
  ineligible weight (zero, negative, infinite, NaN) is never drawn.\<close>

theorem unified_pool_draw_reference:
  "map_option ((!) entries) (unified_pool_draw sha entries stable_key) = draw_unit sha entries stable_key \<and>
   (case unified_pool_draw sha entries stable_key of
      None \<Rightarrow> True
    | Some index \<Rightarrow> index < length entries \<and> is_finite (snd (entries ! index)) \<and>
        f_lt (Fin 0) (snd (entries ! index)))"
proof (rule conjI)
  show "map_option ((!) entries) (unified_pool_draw sha entries stable_key) = draw_unit sha entries stable_key"
    by (rule unified_pool_draw_unit)
  show "case unified_pool_draw sha entries stable_key of
      None \<Rightarrow> True
    | Some index \<Rightarrow> index < length entries \<and> is_finite (snd (entries ! index)) \<and>
        f_lt (Fin 0) (snd (entries ! index))"
    using unified_pool_draw_SomeD [of sha entries stable_key]
    by (cases "unified_pool_draw sha entries stable_key") (simp_all add: drawable_def)
qed

subsection \<open>A binding names the credential it was made from\<close>

lemma find_unique:
  assumes "x \<in> set xs" "P x" "\<And>y. y \<in> set xs \<Longrightarrow> P y \<Longrightarrow> y = x"
  shows "find P xs = Some x"
proof (cases "find P xs")
  case None
  then show ?thesis using assms(1,2) by (auto simp: find_None_iff)
next
  case (Some y)
  then show ?thesis using assms(3) find_SomeD [OF Some] by simp
qed

lemma bound_key_roundtrip:
  assumes "\<not> rt_has_oauth_token t" "key \<in> set (rt_api_keys t)" "usable_key (rt_endpoint_id t) key"
    "ak_key_id key \<noteq> uuid_nil" "distinct (List.map ak_key_id (rt_api_keys t))"
  shows "select_bound_credential sha t (credential_binding sha t (selection_from_key key)) =
    Some (selection_from_key key)"
proof -
  have "find (\<lambda>k. usable_key (rt_endpoint_id t) k \<and> ak_key_id k = ak_key_id key) (rt_api_keys t) = Some key"
    using assms(2,3,5) by (intro find_unique) (auto simp: distinct_map dest: inj_onD)
  then show ?thesis using assms by (simp add: select_bound_credential_def credential_binding_def)
qed

definition demo_route_key :: endpoint_api_key where
  "demo_route_key =
     \<lparr>ak_key_id = 5, ak_endpoint_id = 3, ak_key_label = ''k'', ak_api_key = ''s'', ak_position = 0,
      ak_enabled = True, ak_created_at = 0, ak_updated_at = 0\<rparr>"

definition demo_target :: route_target where
  "demo_target =
     \<lparr>rt_target_id = 7, rt_endpoint_id = 3, rt_endpoint_name = ''e'', rt_base_url = ''u'', rt_api_key = [],
      rt_api_keys = [demo_route_key], rt_key_lb_enabled = True, rt_native_api = NChat,
      rt_target_native_api = NAuto, rt_position = 0, rt_enabled = True, rt_upstream_model = None,
      rt_provider = PGeneric, rt_service_tier = None, rt_proxy_url = None, rt_proxy_url_override = None,
      rt_active_windows = None, rt_endpoint_active_windows = None, rt_dev_system_normalize = False,
      rt_thinking_downgrade_enabled = False, rt_thinking_effort_override = None,
      rt_compact_mode = CmPassthrough, rt_has_oauth_token = False,
      rt_embedding_dimensions_override = None\<rparr>"

definition demo_candidate :: route_candidate where
  "demo_candidate =
     \<lparr>rc_rule_id = 1, rc_scope = ''s'', rc_owner_user_id = None, rc_model_pattern = ''m'',
      rc_routing_strategy = ResponsesSessionAffinity, rc_updated_at = 0, rc_targets = [demo_target]\<rparr>"

lemma demo_target_active:
  "candidate_target_is_active windows_json clk (demo_target\<lparr>rt_api_keys := ks, rt_api_key := s\<rparr>) now"
  "candidate_target_is_active windows_json clk demo_target now"
  by (simp_all add: candidate_target_is_active_def demo_target_def effective_stored_is_active_at_def
      effective_stored_is_active_now_def effective_windows_raw_def stored_is_active_now_def
      parse_stored_windows_def is_active_now_def)

lemma demo_keys: "eligible_keys demo_target = [demo_route_key]"
  by code_simp

lemma demo_usable: "usable_key 3 demo_route_key"
  by code_simp

text \<open>
  C25: A session binding resolves to the credential it was made from, for a subscription and for a
  usable key with an id of its own, the ids of the target being distinct: the binding of such a key
  gives that key back whatever SHA-256 does, the binding of a subscription gives the subscription
  back, and neither holds any secret of a subscription. The credential of a target without usable
  keys, whose selection has no id, is not covered: its binding need not resolve.\<close>

theorem binding_roundtrip:
  assumes "distinct (List.map ak_key_id (rt_api_keys t))"
    and "if rt_has_oauth_token t then sel = subscription_selection
         else \<exists>key \<in> set (rt_api_keys t). usable_key (rt_endpoint_id t) key \<and>
                ak_key_id key \<noteq> uuid_nil \<and> sel = selection_from_key key"
  shows "select_bound_credential sha t (credential_binding sha t sel) = Some sel \<and>
    ab_endpoint_id (credential_binding sha t sel) = rt_endpoint_id t \<and>
    ab_fingerprint (credential_binding sha t sel) =
      api_key_fingerprint sha (if rt_has_oauth_token t then [] else sel_secret sel)"
proof (cases "rt_has_oauth_token t")
  case True
  then show ?thesis using assms(2) by (simp add: select_bound_credential_def credential_binding_def)
next
  case False
  then obtain key where "key \<in> set (rt_api_keys t)" "usable_key (rt_endpoint_id t) key"
      "ak_key_id key \<noteq> uuid_nil" "sel = selection_from_key key"
    using assms(2) by auto
  then show ?thesis using bound_key_roundtrip [OF False, of key sha] assms(1) False
    by (simp add: credential_binding_def)
qed

lemma binding_roundtrip_witness:
  "select_bound_credential (\<lambda>s. s) demo_target
     (credential_binding (\<lambda>s. s) demo_target (selection_from_key demo_route_key)) =
   Some (selection_from_key demo_route_key)"
  using binding_roundtrip [of demo_target "selection_from_key demo_route_key" "\<lambda>s. s"] demo_usable
  by (simp add: demo_target_def) (simp add: demo_route_key_def)

text \<open>
  C26: The binding of a target's own secret (a target without usable keys, whose pool unit carries
  the trimmed secret) resolves again exactly when the fingerprint of the trimmed secret equals the
  fingerprint of the stored one: a stored secret with surrounding blanks makes the binding stale
  as soon as it is written, however often it is rebuilt.\<close>

theorem own_secret_binding:
  assumes "\<not> rt_has_oauth_token t" "eligible_keys t = []"
    and "candidate_target_by_endpoint candidate (rt_endpoint_id t) = Some t"
    and "candidate_target_is_active windows_json clk t (clk_minutes clk)"
  shows "let sel = \<lparr>sel_key_id = None, sel_key_label = None, sel_secret = trim (rt_api_key t)\<rparr>
    in bound_binding_state sha windows_json clk candidate (credential_binding sha t sel) =
      (if api_key_fingerprint sha (rt_api_key t) = api_key_fingerprint sha (trim (rt_api_key t))
       then BsActive else BsStaleKey)"
proof -
  have none: "find (\<lambda>k. usable_key (rt_endpoint_id t) k \<and> P k) (rt_api_keys t) = None" for P
    using assms(2) set_eligible_keys [of t] by (auto simp: find_None_iff)
  show ?thesis
    using assms none
    by (auto simp: bound_binding_state_def credential_binding_def select_bound_credential_def
        candidate_target_is_active_def split: if_splits)
qed


lemma own_secret_binding_witness:
  "let t = demo_target\<lparr>rt_api_keys := [], rt_api_key := '' s''\<rparr>;
       sel = \<lparr>sel_key_id = None, sel_key_label = None, sel_secret = ''s''\<rparr>
   in bound_binding_state (\<lambda>s. s) (\<lambda>_. None) \<lparr>clk_instant = 0, clk_utc = 0, clk_weekday = 1, clk_minutes = 0\<rparr>
        (demo_candidate\<lparr>rc_targets := [t]\<rparr>) (credential_binding (\<lambda>s. s) t sel) = BsStaleKey"
proof -
  let ?t = "demo_target\<lparr>rt_api_keys := [], rt_api_key := '' s''\<rparr>"
  let ?c = "demo_candidate\<lparr>rc_targets := [?t]\<rparr>"
  let ?clk = "\<lparr>clk_instant = 0, clk_utc = 0, clk_weekday = 1, clk_minutes = 0\<rparr> :: clock"
  have t: "trim (rt_api_key ?t) = ''s''" "api_key_fingerprint (\<lambda>s. s) (rt_api_key ?t) \<noteq> api_key_fingerprint (\<lambda>s. s) ''s''"
    by code_simp+
  have "\<not> rt_has_oauth_token ?t" "eligible_keys ?t = []"
    "candidate_target_by_endpoint ?c (rt_endpoint_id ?t) = Some ?t"
    by (simp_all add: demo_target_def demo_candidate_def eligible_keys_def candidate_target_by_endpoint_def)
  from own_secret_binding [OF this demo_target_active(1), where clk = ?clk and sha = "\<lambda>s. s"] t
  show ?thesis by simp
qed

end
