(* ===== verification/KeyPool.thy ===== *)
theory KeyPool
  imports UnifiedPool QuotaCache
begin

text \<open>
  The eligibility filter of the router: \<open>quota_eligibility.rs\<close>, \<open>key_pool.rs\<close>,
  \<open>candidate_quota_selection.rs\<close>, \<open>quota_selection.rs\<close> and the pool half of
  \<open>route_key_eligibility.rs\<close> under \<open>src/worker/runtime/routing/\<close>. Every operation of the shared
  quota cache it calls is threaded through as a state; \<^typ>\<open>quota_cache option\<close> is the
  \<open>Option<&TokenPlanQuotaCache>\<close> of the code. The parser of JSON texts, the parser of stored
  schedules and SHA-256 are fields of \<open>route_env\<close>. The clocks one synchronous call reads are one
  \<^typ>\<open>clock\<close>.

  The lemmas keep the pool counters consistent, show that every unit of a pool is a usable
  credential of an active target with a drawable weight, and that a pool fails its check
  exactly when there are credentials and quota blocks them all.
\<close>

record route_env =
  re_windows :: "string \<Rightarrow> active_window list option"
  re_sha :: "string \<Rightarrow> string"
  re_tmax :: datetime
  re_json :: "string \<Rightarrow> json option"

subsection \<open>Eligibility\<close>

record quota_context =
  qx_model :: "string option"
  qx_path :: string

definition context_effective :: "quota_context \<Rightarrow> string option \<Rightarrow> quota_context" where
  "context_effective cx upstream_model = cx\<lparr>qx_model := opt_or upstream_model (qx_model cx)\<rparr>"

definition allow_general :: "quota_context \<Rightarrow> bool" where
  "allow_general cx \<longleftrightarrow>
     List.member [''/v1/messages'', ''/v1/chat/completions'', ''/v1/responses'', ''/v1/responses/compact'']
       (qx_path cx)"

datatype unit_eligibility = ElEligible f64 | ElExhausted | ElCooling | ElProbeBusy

fun eligibility_weight :: "unit_eligibility \<Rightarrow> f64 option" where
  "eligibility_weight (ElEligible weight) = Some weight"
| "eligibility_weight _ = None"

type_synonym shared_cache = "quota_cache option"

definition assess ::
    "route_env \<Rightarrow> clock \<Rightarrow> shared_cache \<Rightarrow> uuid \<Rightarrow> uuid option \<Rightarrow> quota_context \<Rightarrow>
     shared_cache \<times> unit_eligibility" where
  "assess env clk cache endpoint key cx =
     (case cache of
        None \<Rightarrow> (None, ElEligible (Fin 1))
      | Some cache \<Rightarrow>
          let (cache, assessment) =
                assess_scope (re_tmax env) clk cache
                  (quota_scope_new endpoint key (qx_model cx) (allow_general cx))
          in (Some cache,
              case assessment of
                QaEligible weight \<Rightarrow> ElEligible weight
              | QaExhausted \<Rightarrow> ElExhausted
              | QaCooling \<Rightarrow> ElCooling
              | QaProbeBusy \<Rightarrow> ElProbeBusy))"

definition subscription_eligibility ::
    "route_env \<Rightarrow> clock \<Rightarrow> shared_cache \<Rightarrow> uuid \<Rightarrow> shared_cache \<times> unit_eligibility" where
  "subscription_eligibility env clk cache endpoint =
     (case cache of
        None \<Rightarrow> (None, ElEligible (Fin 1))
      | Some cache \<Rightarrow>
          let (fb, elig) = eligibility (qc_feedback cache) (feedback_scope_new endpoint None) (clk_instant clk);
              cache = cache\<lparr>qc_feedback := fb\<rparr>
          in (Some cache,
              if elig = FbCooling then ElCooling
              else if elig = FbProbeBusy then ElProbeBusy
              else if chatgpt_subscription_exhausted_now (re_tmax env) clk cache endpoint then ElExhausted
              else ElEligible (Fin 1)))"

definition assess_target_credential ::
    "route_env \<Rightarrow> clock \<Rightarrow> shared_cache \<Rightarrow> route_target \<Rightarrow> uuid option \<Rightarrow> quota_context \<Rightarrow>
     shared_cache \<times> unit_eligibility" where
  "assess_target_credential env clk cache target key_id cx =
     (if rt_has_oauth_token target then subscription_eligibility env clk cache (rt_endpoint_id target)
      else assess env clk cache (rt_endpoint_id target) key_id cx)"

subsection \<open>Pools\<close>

record 'u quota_pool =
  qp_units :: "'u list"
  qp_configured :: nat
  qp_blocked :: nat

definition pool_default :: "'u quota_pool" where
  "pool_default = \<lparr>qp_units = [], qp_configured = 0, qp_blocked = 0\<rparr>"

definition consider_unit :: "'u quota_pool \<Rightarrow> unit_eligibility \<Rightarrow> (f64 \<Rightarrow> 'u) \<Rightarrow> 'u quota_pool" where
  "consider_unit pool elig mk =
     (let pool = pool\<lparr>qp_configured := qp_configured pool + 1\<rparr> in
      case eligibility_weight elig of
        Some weight \<Rightarrow> pool\<lparr>qp_units := qp_units pool @ [mk weight]\<rparr>
      | None \<Rightarrow> pool\<lparr>qp_blocked := qp_blocked pool + 1\<rparr>)"

text \<open>\<open>QuotaPool::checked\<close>; \<^const>\<open>False\<close> is \<open>QuotaUnavailableError\<close>.\<close>

definition pool_checked :: "'u quota_pool \<Rightarrow> bool" where
  "pool_checked pool \<longleftrightarrow>
     \<not> (qp_units pool = [] \<and> 0 < qp_configured pool \<and> qp_blocked pool = qp_configured pool)"

definition pool_extend :: "'u quota_pool \<Rightarrow> 'u quota_pool \<Rightarrow> 'u quota_pool" where
  "pool_extend pool other =
     \<lparr>qp_units = qp_units pool @ qp_units other,
      qp_configured = qp_configured pool + qp_configured other,
      qp_blocked = qp_blocked pool + qp_blocked other\<rparr>"

definition pool_retain :: "('u \<Rightarrow> bool) \<Rightarrow> 'u quota_pool \<Rightarrow> 'u quota_pool" where
  "pool_retain keep pool = pool\<lparr>qp_units := filter keep (qp_units pool)\<rparr>"

record pool_unit =
  pu_target :: route_target
  pu_key :: endpoint_api_key_selection
  pu_unit_id :: uuid
  pu_weight :: f64

record route_key_unit =
  ru_key :: endpoint_api_key_selection
  ru_unit_id :: uuid
  ru_weight :: f64

text \<open>The loop over the keys of a target.\<close>

fun consider_keys ::
    "route_env \<Rightarrow> clock \<Rightarrow> route_target \<Rightarrow> quota_context \<Rightarrow> endpoint_api_key list \<Rightarrow> shared_cache \<Rightarrow>
     pool_unit quota_pool \<Rightarrow> shared_cache \<times> pool_unit quota_pool" where
  "consider_keys env clk target cx [] cache pool = (cache, pool)"
| "consider_keys env clk target cx (key # keys) cache pool =
     (let (cache, elig) = assess_target_credential env clk cache target
                            (if ak_key_id key \<noteq> uuid_nil then Some (ak_key_id key) else None) cx;
          pool = consider_unit pool elig
                   (\<lambda>weight. \<lparr>pu_target = target, pu_key = selection_from_key key,
                              pu_unit_id = ak_key_id key, pu_weight = weight\<rparr>)
      in consider_keys env clk target cx keys cache pool)"

definition target_units ::
    "route_env \<Rightarrow> clock \<Rightarrow> route_target \<Rightarrow> shared_cache \<Rightarrow> quota_context \<Rightarrow> bool \<Rightarrow>
     shared_cache \<times> pool_unit quota_pool" where
  "target_units env clk target cache cx all_keys =
     (let pool = pool_default in
      if \<not> candidate_target_is_active (re_windows env) clk target (clk_minutes clk) then (cache, pool)
      else
        let cx = context_effective cx (rt_upstream_model target) in
        if rt_has_oauth_token target then
          (let (cache, elig) = assess_target_credential env clk cache target None cx in
           (cache, consider_unit pool elig
              (\<lambda>weight. \<lparr>pu_target = target, pu_key = subscription_selection,
                         pu_unit_id = rt_target_id target, pu_weight = weight\<rparr>)))
        else
          let keys = eligible_keys target in
          if keys = [] then
            let secret = trim (rt_api_key target) in
            if secret \<noteq> [] then
              (let (cache, elig) = assess_target_credential env clk cache target None cx in
               (cache, consider_unit pool elig
                  (\<lambda>weight. \<lparr>pu_target = target,
                             pu_key = \<lparr>sel_key_id = None, sel_key_label = None, sel_secret = secret\<rparr>,
                             pu_unit_id = rt_target_id target, pu_weight = weight\<rparr>)))
            else (cache, pool)
          else
            consider_keys env clk target cx
              (if all_keys \<or> rt_key_lb_enabled target then keys else take 1 keys) cache pool)"

fun candidate_units_loop ::
    "route_env \<Rightarrow> clock \<Rightarrow> quota_context \<Rightarrow> uuid option \<Rightarrow> bool \<Rightarrow> route_target list \<Rightarrow> shared_cache \<Rightarrow>
     pool_unit quota_pool \<Rightarrow> shared_cache \<times> pool_unit quota_pool" where
  "candidate_units_loop env clk cx exclude all_keys [] cache pool = (cache, pool)"
| "candidate_units_loop env clk cx exclude all_keys (target # targets) cache pool =
     (let (cache, target_pool) = target_units env clk target cache cx all_keys;
          target_pool = pool_retain
            (\<lambda>u. Some (pu_unit_id u) \<noteq> exclude \<and> Some (rt_target_id (pu_target u)) \<noteq> exclude) target_pool
      in candidate_units_loop env clk cx exclude all_keys targets cache (pool_extend pool target_pool))"

definition candidate_units ::
    "route_env \<Rightarrow> clock \<Rightarrow> route_candidate \<Rightarrow> shared_cache \<Rightarrow> quota_context \<Rightarrow> uuid option \<Rightarrow> bool \<Rightarrow>
     shared_cache \<times> pool_unit quota_pool" where
  "candidate_units env clk candidate cache cx exclude all_keys =
     candidate_units_loop env clk cx exclude all_keys (rc_targets candidate) cache pool_default"

definition draw :: "route_env \<Rightarrow> pool_unit list \<Rightarrow> string \<Rightarrow> pool_unit option" where
  "draw env units stable_key =
     map_option ((!) units)
       (unified_pool_draw (re_sha env) (List.map (\<lambda>u. (pu_unit_id u, pu_weight u)) units) stable_key)"

definition draw_route :: "route_env \<Rightarrow> route_key_unit list \<Rightarrow> string \<Rightarrow> route_key_unit option" where
  "draw_route env units stable_key =
     map_option ((!) units)
       (unified_pool_draw (re_sha env) (List.map (\<lambda>u. (ru_unit_id u, ru_weight u)) units) stable_key)"

definition reserve :: "shared_cache \<Rightarrow> uuid \<Rightarrow> uuid option \<Rightarrow> nat \<Rightarrow> shared_cache" where
  "reserve cache endpoint key estimated =
     map_option (\<lambda>cache. reserve_estimated_tokens cache endpoint (opt_or_default uuid_nil key) estimated) cache"

definition request_model :: "route_env \<Rightarrow> bridge_request \<Rightarrow> string option" where
  "request_model env request =
     Option.bind (re_json env (br_body request)) (\<lambda>v. Option.bind (json_get v ''model'') json_as_str)"

subsection \<open>Selection over a candidate\<close>

record candidate_selection =
  cs_target :: route_target
  cs_key :: endpoint_api_key_selection
  cs_reason :: route_selection_reason
  cs_invalid_override :: bool

definition target_pool ::
    "route_env \<Rightarrow> clock \<Rightarrow> route_target \<Rightarrow> shared_cache \<Rightarrow> quota_context \<Rightarrow> uuid option \<Rightarrow>
     shared_cache \<times> pool_unit quota_pool" where
  "target_pool env clk target cache cx override_id =
     (let (cache, pool) = target_units env clk target cache cx False in
      if \<not> candidate_target_is_active (re_windows env) clk target (clk_minutes clk) then (cache, pool)
      else
        (case Option.bind override_id (\<lambda>i. map_option (Pair i) (override_key target i)) of
           None \<Rightarrow> (cache, pool)
         | Some (i, key) \<Rightarrow>
             let (cache, elig) = assess env clk cache (rt_endpoint_id target) (sel_key_id key)
                                   (context_effective cx (rt_upstream_model target)) in
             (case eligibility_weight elig of
                None \<Rightarrow> (cache, pool)
              | Some weight \<Rightarrow>
                  (cache, pool\<lparr>qp_units := [\<lparr>pu_target = target, pu_key = key, pu_unit_id = i,
                                              pu_weight = weight\<rparr>]\<rparr>))))"

definition candidate_selection_of ::
    "route_env \<Rightarrow> clock \<Rightarrow> route_candidate \<Rightarrow> pool_unit \<Rightarrow> uuid option \<Rightarrow> route_selection_reason \<Rightarrow>
     candidate_selection" where
  "candidate_selection_of env clk candidate u key_override reason =
     \<lparr>cs_target = pu_target u, cs_key = pu_key u, cs_reason = reason,
      cs_invalid_override =
        is_some_and
          (\<lambda>i. \<not> list_ex
                 (\<lambda>target. candidate_target_is_active (re_windows env) clk target (clk_minutes clk) \<and>
                           override_key target i \<noteq> None)
                 (rc_targets candidate))
          key_override\<rparr>"

fun pool_of_targets ::
    "route_env \<Rightarrow> clock \<Rightarrow> quota_context \<Rightarrow> uuid option \<Rightarrow> route_target list \<Rightarrow> shared_cache \<Rightarrow>
     pool_unit quota_pool \<Rightarrow> shared_cache \<times> pool_unit quota_pool" where
  "pool_of_targets env clk cx key_override [] cache pool = (cache, pool)"
| "pool_of_targets env clk cx key_override (target # targets) cache pool =
     (let (cache, one) = target_pool env clk target cache cx key_override
      in pool_of_targets env clk cx key_override targets cache (pool_extend pool one))"

datatype selection_error = SelQuotaUnavailable

definition candidate_select ::
    "route_env \<Rightarrow> clock \<Rightarrow> route_candidate \<Rightarrow> shared_cache \<Rightarrow> quota_context \<Rightarrow> string \<Rightarrow> uuid option \<Rightarrow>
     uuid option \<Rightarrow> shared_cache \<times> (selection_error + candidate_selection option)" where
  "candidate_select env clk candidate cache cx stable_key endpoint_override key_override =
     (let (cache, pinned) =
        (case Option.bind endpoint_override (candidate_target_by_endpoint candidate) of
           None \<Rightarrow> (cache, None)
         | Some target \<Rightarrow>
             let (cache, pool) = target_pool env clk target cache cx key_override
             in (cache, draw env (qp_units pool) stable_key))
      in
        case pinned of
          Some u \<Rightarrow>
            (cache, Inr (Some (candidate_selection_of env clk candidate u key_override RrConversationOverride)))
        | None \<Rightarrow>
            let (cache, pool) = pool_of_targets env clk cx key_override (rc_targets candidate) cache pool_default in
            if \<not> pool_checked pool then (cache, Inl SelQuotaUnavailable)
            else
              (cache, Inr (map_option
                 (\<lambda>u. candidate_selection_of env clk candidate u key_override RrDefault)
                 (draw env (qp_units pool) stable_key))))"

subsection \<open>The pool of one route\<close>

fun consider_route_keys ::
    "route_env \<Rightarrow> clock \<Rightarrow> route_config \<Rightarrow> quota_context \<Rightarrow> endpoint_api_key list \<Rightarrow> shared_cache \<Rightarrow>
     route_key_unit quota_pool \<Rightarrow> shared_cache \<times> route_key_unit quota_pool" where
  "consider_route_keys env clk route cx [] cache pool = (cache, pool)"
| "consider_route_keys env clk route cx (key # keys) cache pool =
     (let selection = selection_from_key key;
          (cache, elig) = assess env clk cache (rg_route_id route) (sel_key_id selection) cx;
          pool = consider_unit pool elig
                   (\<lambda>weight. \<lparr>ru_key = selection, ru_unit_id = ak_key_id key, ru_weight = weight\<rparr>)
      in consider_route_keys env clk route cx keys cache pool)"

definition route_units ::
    "route_env \<Rightarrow> clock \<Rightarrow> route_config \<Rightarrow> shared_cache \<Rightarrow> quota_context \<Rightarrow>
     shared_cache \<times> route_key_unit quota_pool" where
  "route_units env clk route cache cx =
     (let pool = pool_default in
      if rg_has_oauth_token route then
        (let (cache, elig) = subscription_eligibility env clk cache (rg_route_id route) in
         (cache, consider_unit pool elig
            (\<lambda>weight. \<lparr>ru_key = subscription_selection, ru_unit_id = rg_route_id route, ru_weight = weight\<rparr>)))
      else
        let keys = eligible_route_keys route in
        if keys = [] then
          (if trim (rg_api_key route) \<noteq> [] then
             (let (cache, elig) = assess env clk cache (rg_route_id route) (rg_endpoint_key_id route) cx in
              (cache, consider_unit pool elig
                 (\<lambda>weight. \<lparr>ru_key = \<lparr>sel_key_id = rg_endpoint_key_id route,
                                       sel_key_label = rg_endpoint_key_label route,
                                       sel_secret = rg_api_key route\<rparr>,
                            ru_unit_id = opt_or_default (rg_route_id route) (rg_endpoint_key_id route),
                            ru_weight = weight\<rparr>)))
           else (cache, pool))
        else
          consider_route_keys env clk route cx
            (if rg_key_lb_enabled route then keys else take 1 keys) cache pool)"

subsection \<open>The claim of a probe\<close>

definition claim ::
    "clock \<Rightarrow> shared_cache \<Rightarrow> uuid \<Rightarrow> uuid option \<Rightarrow> shared_cache \<times> probe_claim" where
  "claim clk cache endpoint_id key_id =
     (case cache of
        None \<Rightarrow> (None, ClaimNotRequired)
      | Some cache \<Rightarrow>
          let (fb, outcome) = claim_at (qc_feedback cache) (feedback_scope_new endpoint_id key_id) (clk_instant clk)
          in (Some (cache\<lparr>qc_feedback := fb\<rparr>), outcome))"

subsection \<open>Draws of units\<close>

text \<open>
  The contract of the two pools: units carry an id and a weight, and a draw is the unit at the
  index \<open>unified_pool_draw\<close> picks.\<close>

locale drawn_units =
  fixes unit_id :: "'u \<Rightarrow> uuid"
    and weight :: "'u \<Rightarrow> f64"
    and draw_of :: "route_env \<Rightarrow> 'u list \<Rightarrow> string \<Rightarrow> 'u option"
  assumes draw_of_index:
    "draw_of env us k =
       map_option ((!) us) (unified_pool_draw (re_sha env) (List.map (\<lambda>u. (unit_id u, weight u)) us) k)"
begin

lemma draw_of_in:
  assumes "draw_of env us k = Some u"
  shows "u \<in> set us \<and> drawable (weight u)"
proof -
  obtain i where i: "unified_pool_draw (re_sha env) (List.map (\<lambda>u. (unit_id u, weight u)) us) k = Some i"
      "u = us ! i"
    using assms by (auto simp: draw_of_index)
  have "i < length us" using unified_pool_draw_SomeD [OF i(1)] by simp
  with unified_pool_draw_SomeD [OF i(1)] show ?thesis by (simp add: i(2))
qed

lemma draw_of_Nil [simp]: "draw_of env [] k = None"
  using draw_of_in [of env "[]" k] by (cases "draw_of env [] k") auto

lemma draw_of_exists:
  assumes "\<And>u. u \<in> set us \<Longrightarrow> drawable (weight u) \<and> f_le (weight u) (Fin 100) \<and> wf64 (weight u)"
    and "length us \<le> 2 ^ 40" and "us \<noteq> []"
  shows "draw_of env us k \<noteq> None"
proof -
  let ?e = "List.map (\<lambda>u. (unit_id u, weight u)) us"
  have "\<forall>x \<in> set ?e. drawable (snd x) \<longrightarrow> f_le (snd x) (Fin 100)"
    and "\<forall>x \<in> set ?e. wf64 (snd x)" and "length ?e \<le> 2 ^ 40" and "\<exists>x \<in> set ?e. drawable (snd x)"
    using assms by (auto simp: neq_Nil_conv)
  then show ?thesis using unified_pool_draw_exists [of ?e "re_sha env" k] by (simp add: draw_of_index)
qed

lemma draw_of_entry:
  "map_option (\<lambda>u. (unit_id u, weight u)) (draw_of env us k) =
     draw_unit (re_sha env) (List.map (\<lambda>u. (unit_id u, weight u)) us) k"
proof -
  let ?e = "List.map (\<lambda>u. (unit_id u, weight u)) us"
  have "map_option (\<lambda>u. (unit_id u, weight u)) (draw_of env us k) =
    map_option ((!) ?e) (unified_pool_draw (re_sha env) ?e k)"
    using unified_pool_draw_SomeD [of "re_sha env" ?e k]
    by (cases "unified_pool_draw (re_sha env) ?e k") (auto simp: draw_of_index)
  then show ?thesis by (simp only: unified_pool_draw_unit)
qed

lemma draw_of_perm:
  assumes "mset us = mset vs" "distinct (List.map unit_id us)"
  shows "draw_of env us k = draw_of env vs k"
proof -
  let ?f = "\<lambda>u. (unit_id u, weight u)"
  have s: "set us = set vs" using assms(1) by (rule mset_eq_setD)
  have inj: "inj_on ?f (set us)" using assms(2) by (auto simp: distinct_map inj_on_def)
  have "draw_unit (re_sha env) (List.map ?f us) k = draw_unit (re_sha env) (List.map ?f vs) k"
    using assms by (intro draw_unit_perm) (auto simp: comp_def)
  then have eq: "map_option ?f (draw_of env us k) = map_option ?f (draw_of env vs k)"
    by (simp add: draw_of_entry)
  show ?thesis
  proof (cases "draw_of env us k")
    case None
    then show ?thesis using eq by simp
  next
    case (Some u)
    then obtain v where v: "draw_of env vs k = Some v" "?f u = ?f v"
      using eq by (cases "draw_of env vs k") auto
    then have "u = v" using inj_onD [OF inj] draw_of_in [OF Some] draw_of_in [OF v(1)] s by auto
    then show ?thesis using Some v by simp
  qed
qed

end

interpretation units: drawn_units pu_unit_id pu_weight draw
  by unfold_locales (simp add: draw_def)

interpretation route_keys: drawn_units ru_unit_id ru_weight draw_route
  by unfold_locales (simp add: draw_route_def)

subsection \<open>Reading the cache\<close>

text \<open>
  An assessment only prunes the feedback store, so at one instant the order of assessments
  does not matter: \<open>settled\<close> is the cache after any number of them.\<close>

definition settled :: "clock \<Rightarrow> shared_cache \<Rightarrow> shared_cache" where
  "settled clk cache =
     map_option (\<lambda>c. c\<lparr>qc_feedback := prune (clk_instant clk) (qc_feedback c)\<rparr>) cache"

lemma prune_prune [simp]: "prune now (prune now s) = prune now s"
  by (auto simp: prune_def fun_eq_iff opt_filter_def split: option.splits)

lemma settled_simps [simp]: "settled clk None = None" "settled clk (settled clk cache) = settled clk cache"
  by (cases cache; simp add: settled_def)+

lemma eligibility_prune [simp]:
  "snd (eligibility (prune now s) scope now) = snd (eligibility s scope now)"
  "fst (eligibility s scope now) = prune now s"
  by (simp_all add: eligibility_def Let_def)

lemma assess_scope_fst: "fst (assess_scope tmax clk c scope) = c\<lparr>qc_feedback := prune (clk_instant clk) (qc_feedback c)\<rparr>"
  by (simp add: assess_scope_def Let_def eligibility_def)

lemma assess_scope_settled:
  "snd (assess_scope tmax clk (c\<lparr>qc_feedback := prune (clk_instant clk) (qc_feedback c)\<rparr>) scope) =
     snd (assess_scope tmax clk c scope)"
  by (simp add: assess_scope_snd Let_def)

lemma assess_state [simp]: "fst (assess env clk cache e k cx) = settled clk cache"
  using assess_scope_fst by (cases cache) (simp_all add: assess_def settled_def case_prod_unfold Let_def)

lemma assess_settled [simp]: "snd (assess env clk (settled clk cache) e k cx) = snd (assess env clk cache e k cx)"
  by (cases cache) (simp_all add: assess_def settled_def case_prod_unfold Let_def assess_scope_settled)

lemma subscription_state [simp]: "fst (subscription_eligibility env clk cache e) = settled clk cache"
  by (cases cache) (simp_all add: subscription_eligibility_def settled_def case_prod_unfold Let_def)

lemma subscription_settled [simp]:
  "snd (subscription_eligibility env clk (settled clk cache) e) = snd (subscription_eligibility env clk cache e)"
  by (cases cache) (simp_all add: subscription_eligibility_def settled_def case_prod_unfold Let_def)

lemma assess_credential_state [simp]: "fst (assess_target_credential env clk cache t k cx) = settled clk cache"
  by (simp add: assess_target_credential_def)

lemma assess_credential_settled [simp]:
  "snd (assess_target_credential env clk (settled clk cache) t k cx) =
     snd (assess_target_credential env clk cache t k cx)"
  by (simp add: assess_target_credential_def)

lemma settled_cong:
  assumes "settled clk c = settled clk c'"
  shows "snd (assess_target_credential env clk c t k cx) = snd (assess_target_credential env clk c' t k cx)"
    "snd (assess env clk c e k cx) = snd (assess env clk c' e k cx)"
    "snd (subscription_eligibility env clk c e) = snd (subscription_eligibility env clk c' e)"
  by (metis assms assess_credential_settled, metis assms assess_settled, metis assms subscription_settled)

subsection \<open>What an eligible unit is\<close>

text \<open>
  \<open>claimable\<close>: no cooldown and no probe in flight, so a claim at the same instant is granted.\<close>

definition claimable :: "clock \<Rightarrow> shared_cache \<Rightarrow> uuid \<Rightarrow> uuid option \<Rightarrow> bool" where
  "claimable clk cache e k =
     (case cache of
        None \<Rightarrow> True
      | Some c \<Rightarrow>
          let elig = snd (eligibility (qc_feedback c) (feedback_scope_new e k) (clk_instant clk))
          in elig \<noteq> FbCooling \<and> elig \<noteq> FbProbeBusy)"

lemma claimable_settled [simp]: "claimable clk (settled clk cache) e k = claimable clk cache e k"
  by (cases cache) (simp_all add: claimable_def settled_def)

lemma claimable_claim:
  assumes "claimable clk cache e k"
  shows "snd (claim clk cache e k) \<noteq> ClaimLostRace"
proof (cases cache)
  case None
  then show ?thesis by (simp add: claim_def)
next
  case (Some c)
  let ?s = "prune (clk_instant clk) (qc_feedback c)" and ?q = "feedback_scope_new e k"
  have "probe_decision ?s ?q (clk_instant clk) \<noteq> RsvBusy"
    using assms
    by (auto simp: Some claimable_def Let_def eligibility_def probe_decision_def
        split: option.splits quota_feedback_eligibility.splits)
  then show ?thesis
    by (auto simp: Some claim_def claim_at_def reserve_probe_if_required_def Let_def
        split: prod.splits quota_probe_reservation.splits)
qed

lemma assess_eligible:
  assumes "snd (assess env clk cache e k cx) = ElEligible w"
  shows "drawable w \<and> f_le w (Fin 100) \<and> claimable clk cache e k"
proof (cases cache)
  case None
  then show ?thesis using assms by (auto simp: assess_def claimable_def drawable_def)
next
  case (Some c)
  let ?scope = "quota_scope_new e k (qx_model cx) (allow_general cx)"
  have q: "snd (assess_scope (re_tmax env) clk c ?scope) = QaEligible w"
    using assms by (auto simp: Some assess_def Let_def case_prod_unfold split: quota_assessment.splits)
  have s: "feedback_scope ?scope = feedback_scope_new e k"
    by (simp add: feedback_scope_def quota_scope_new_def)
  show ?thesis
    using q f_min_percent
    by (auto simp: Some assess_scope_snd Let_def s claimable_def drawable_def
        split: if_splits option.splits)
qed

lemma subscription_eligible:
  assumes "snd (subscription_eligibility env clk cache e) = ElEligible w"
  shows "w = Fin 1 \<and> claimable clk cache e None"
  using assms
  by (cases cache) (auto simp: subscription_eligibility_def claimable_def case_prod_unfold Let_def split: if_splits)

lemma eligibility_weight_Some: "eligibility_weight el = Some w \<longleftrightarrow> el = ElEligible w"
  by (cases el) auto

text \<open>
  \<open>figures_ok\<close>: the percentages of every fresh observation are what the parsers report, so the
  weights computed from them are binary64 values.\<close>

definition figures_ok :: "clock \<Rightarrow> shared_cache \<Rightarrow> bool" where
  "figures_ok clk cache \<longleftrightarrow>
     (\<forall>c e k key. cache = Some c \<longrightarrow> fresh_observed_key_now clk c e k = Some key \<longrightarrow>
        reported_percents_ok key)"

lemma figures_ok_settled [simp]: "figures_ok clk (settled clk cache) = figures_ok clk cache"
  by (cases cache) (auto simp: figures_ok_def settled_def)

lemma f_add_wf64 [simp]: "wf64 (f_add a b)"
  by (cases a; cases b) auto

lemma apply_backpressure_wf: "wf64 w \<Longrightarrow> wf64 (apply_reservation_backpressure w draws)"
  by (simp add: apply_reservation_backpressure_def Let_def clamp_percent_wf f_div_wf)

lemma key_weight_wf:
  assumes "fresh_observed_key_now clk c e k = Some key \<Longrightarrow> reported_percents_ok key"
    and "fresh_observed_key_now clk c e k = Some key"
    and "key_weight_percent_scoped_now tmax clk c e k model general = Some w"
  shows "wf64 w"
proof -
  have "rel_option lifted (provider_remaining_percent key) (provider_weight_percent (clk_utc clk) key)"
    by (intro provider_lifted assms)
  then have "wf64 u" if "provider_weight_percent (clk_utc clk) key = Some u" for u
    using that by (cases "provider_remaining_percent key") (auto simp: lifted_def)
  moreover have "wf64 u" if "model_weight_percent now usage n = Some u" for now usage n u
    using that by (auto simp: model_weight_percent_def f_max_def f_sub_def)
  ultimately show ?thesis
    using assms(3) unfolding key_weight_unfold [OF assms(2)]
    by (auto simp: apply_backpressure_wf bind_eq_Some_conv split: if_splits option.splits)
qed

lemma assess_weight_wf:
  assumes "figures_ok clk cache" "snd (assess env clk cache e k cx) = ElEligible w"
  shows "wf64 w"
proof (cases cache)
  case None
  then show ?thesis using assms by (auto simp: assess_def)
next
  case (Some c)
  let ?scope = "quota_scope_new e k (qx_model cx) (allow_general cx)"
  let ?k = "opt_or_default uuid_nil k"
  let ?w = "key_weight_percent_scoped_now (re_tmax env) clk c e ?k (qx_model cx) (allow_general cx)"
  have q: "snd (assess_scope (re_tmax env) clk c ?scope) = QaEligible w"
    using assms by (auto simp: Some assess_def Let_def case_prod_unfold split: quota_assessment.splits)
  have "w = Fin 1 \<or> (\<exists>v. ?w = Some v \<and> w = f_min v (Fin 100))"
    using q by (auto simp: assess_scope_snd quota_scope_new_def Let_def split: if_splits option.splits)
  moreover have "wf64 v" if v: "?w = Some v" for v
  proof -
    have "fresh_observed_key_now clk c e ?k \<noteq> None"
      using v by (cases "fresh_observed_key_now clk c e ?k") (simp_all add: key_weight_percent_scoped_now_def)
    then obtain key where key: "fresh_observed_key_now clk c e ?k = Some key" by blast
    then have "reported_percents_ok key" using assms(1) Some by (auto simp: figures_ok_def)
    then show ?thesis using key_weight_wf [OF _ key v] by blast
  qed
  ultimately show ?thesis by (auto simp: f_min_def)
qed

lemma assess_credential_eligible:
  assumes "snd (assess_target_credential env clk cache t k cx) = ElEligible w"
    "rt_has_oauth_token t \<Longrightarrow> k = None"
  shows "drawable w \<and> f_le w (Fin 100) \<and> (figures_ok clk cache \<longrightarrow> wf64 w) \<and>
    claimable clk cache (rt_endpoint_id t) k"
proof (cases "rt_has_oauth_token t")
  case True
  then show ?thesis
    using assms subscription_eligible [of env clk cache "rt_endpoint_id t" w]
    by (simp add: assess_target_credential_def drawable_def)
next
  case False
  then show ?thesis
    using assms assess_eligible [of env clk cache "rt_endpoint_id t" k cx w]
      assess_weight_wf [of clk cache env "rt_endpoint_id t" k cx w]
    by (simp add: assess_target_credential_def)
qed

text \<open>The credential a unit of a target carries.\<close>

definition target_credential :: "route_target \<Rightarrow> endpoint_api_key_selection \<Rightarrow> bool" where
  "target_credential t sel \<longleftrightarrow>
     (if rt_has_oauth_token t then sel = subscription_selection
      else (\<exists>key \<in> set (eligible_keys t). sel = selection_from_key key) \<or>
           eligible_keys t = [] \<and> trim (rt_api_key t) \<noteq> [] \<and>
           sel = \<lparr>sel_key_id = None, sel_key_label = None, sel_secret = trim (rt_api_key t)\<rparr>)"

definition unit_ok :: "route_env \<Rightarrow> clock \<Rightarrow> shared_cache \<Rightarrow> pool_unit \<Rightarrow> bool" where
  "unit_ok env clk cache u \<longleftrightarrow>
     candidate_target_is_active (re_windows env) clk (pu_target u) (clk_minutes clk) \<and>
     target_credential (pu_target u) (pu_key u) \<and>
     drawable (pu_weight u) \<and> f_le (pu_weight u) (Fin 100) \<and>
     (figures_ok clk cache \<longrightarrow> wf64 (pu_weight u)) \<and>
     claimable clk cache (rt_endpoint_id (pu_target u)) (sel_key_id (pu_key u))"

lemma unit_ok_settled: "settled clk c = settled clk c' \<Longrightarrow> unit_ok env clk c u = unit_ok env clk c' u"
  unfolding unit_ok_def by (metis claimable_settled figures_ok_settled)

definition pool_ok :: "'u quota_pool \<Rightarrow> bool" where
  "pool_ok p \<longleftrightarrow> qp_blocked p \<le> qp_configured p \<and>
     (qp_units p = [] \<longrightarrow> qp_blocked p = qp_configured p) \<and> length (qp_units p) \<le> qp_configured p"

lemma pool_ok_default [simp]: "pool_ok pool_default"
  by (simp add: pool_ok_def pool_default_def)

lemma pool_ok_consider [simp]: "pool_ok p \<Longrightarrow> pool_ok (consider_unit p el mk)"
  by (auto simp: pool_ok_def consider_unit_def Let_def split: option.splits)

lemma pool_ok_extend [simp]: "pool_ok p \<Longrightarrow> pool_ok q \<Longrightarrow> pool_ok (pool_extend p q)"
  by (auto simp: pool_ok_def pool_extend_def)

lemma pool_ok_single: "pool_ok p \<Longrightarrow> 0 < qp_configured p \<Longrightarrow> pool_ok (p\<lparr>qp_units := [u]\<rparr>)"
  by (simp add: pool_ok_def)

lemma qp_units_consider:
  "qp_units (consider_unit p el mk) =
     qp_units p @ (case eligibility_weight el of None \<Rightarrow> [] | Some w \<Rightarrow> [mk w])"
  by (simp add: consider_unit_def Let_def split: option.split)

lemma set_units_consider:
  "u \<in> set (qp_units (consider_unit p el mk)) \<longleftrightarrow>
     u \<in> set (qp_units p) \<or> (\<exists>w. el = ElEligible w \<and> u = mk w)"
  by (cases el) (auto simp: qp_units_consider)

lemma qp_configured_consider [simp]:
  "qp_configured (consider_unit p el mk) = Suc (qp_configured p)"
  by (simp add: consider_unit_def Let_def split: option.split)

lemma pool_extend_sel [simp]:
  "qp_units (pool_extend p q) = qp_units p @ qp_units q"
  "qp_configured (pool_extend p q) = qp_configured p + qp_configured q"
  by (simp_all add: pool_extend_def)

lemma pool_default_sel [simp]: "qp_units pool_default = []" "qp_configured pool_default = 0"
  by (simp_all add: pool_default_def)

lemma pool_checked_iff: "pool_ok p \<Longrightarrow> pool_checked p \<longleftrightarrow> qp_units p \<noteq> [] \<or> qp_configured p = 0"
  by (auto simp: pool_ok_def pool_checked_def)

lemma consider_keys_ok:
  assumes "settled clk cache = settled clk c0" "pool_ok pool"
    "\<forall>u \<in> set (qp_units pool). unit_ok env clk c0 u \<and> pu_target u = target"
    "candidate_target_is_active (re_windows env) clk target (clk_minutes clk)"
    "\<not> rt_has_oauth_token target" "set keys \<subseteq> set (eligible_keys target)"
    "consider_keys env clk target cx keys cache pool = (cache', pool')"
  shows "settled clk cache' = settled clk c0 \<and> pool_ok pool' \<and>
    (\<forall>u \<in> set (qp_units pool'). unit_ok env clk c0 u \<and> pu_target u = target) \<and>
    qp_configured pool' = qp_configured pool + length keys"
  using assms
proof (induction env clk target cx keys cache pool rule: consider_keys.induct)
  case (2 env clk target cx key keys cache pool)
  let ?k = "if ak_key_id key \<noteq> uuid_nil then Some (ak_key_id key) else None"
  let ?mk = "\<lambda>w. \<lparr>pu_target = target, pu_key = selection_from_key key, pu_unit_id = ak_key_id key, pu_weight = w\<rparr>"
  obtain el where el: "assess_target_credential env clk cache target ?k cx = (settled clk cache, el)"
    by (metis assess_credential_state prod.collapse)
  have u: "unit_ok env clk c0 (?mk w)" if "el = ElEligible w" for w
  proof -
    have "snd (assess_target_credential env clk c0 target ?k cx) = ElEligible w"
      using el that settled_cong(1) [OF "2.prems"(1)] by (metis snd_conv)
    then have "drawable w \<and> f_le w (Fin 100) \<and> (figures_ok clk c0 \<longrightarrow> wf64 w) \<and>
        claimable clk c0 (rt_endpoint_id target) ?k"
      using "2.prems"(5) by (intro assess_credential_eligible) auto
    then show ?thesis using "2.prems"(4-6) by (auto simp: unit_ok_def target_credential_def)
  qed
  have r: "consider_keys env clk target cx keys (settled clk cache) (consider_unit pool el ?mk) = (cache', pool')"
    using "2.prems"(7) by (simp add: el)
  have "\<forall>u \<in> set (qp_units (consider_unit pool el ?mk)). unit_ok env clk c0 u \<and> pu_target u = target"
    using "2.prems"(3) u by (auto simp: set_units_consider)
  then have "settled clk cache' = settled clk c0 \<and> pool_ok pool' \<and>
    (\<forall>u \<in> set (qp_units pool'). unit_ok env clk c0 u \<and> pu_target u = target) \<and>
    qp_configured pool' = qp_configured (consider_unit pool el ?mk) + length keys"
    using "2.prems"(1,2,4,5,6) r by (intro "2.IH" [OF el [symmetric] refl]) auto
  then show ?case by simp
qed auto

text \<open>How many credentials a target offers.\<close>

definition offered :: "route_env \<Rightarrow> clock \<Rightarrow> route_target \<Rightarrow> bool \<Rightarrow> nat" where
  "offered env clk target all_keys =
     (if \<not> candidate_target_is_active (re_windows env) clk target (clk_minutes clk) then 0
      else if rt_has_oauth_token target then 1
      else if eligible_keys target = [] then (if trim (rt_api_key target) \<noteq> [] then 1 else 0)
      else if all_keys \<or> rt_key_lb_enabled target then length (eligible_keys target) else 1)"

lemma target_units_ok:
  assumes "settled clk cache = settled clk c0"
    "target_units env clk target cache cx all_keys = (cache', pool)"
  shows "settled clk cache' = settled clk c0 \<and> pool_ok pool \<and>
    (\<forall>u \<in> set (qp_units pool). unit_ok env clk c0 u \<and> pu_target u = target) \<and>
    qp_configured pool = offered env clk target all_keys"
proof (cases "candidate_target_is_active (re_windows env) clk target (clk_minutes clk)")
  case False
  then show ?thesis using assms by (auto simp: target_units_def offered_def Let_def)
next
  case active: True
  let ?cx = "context_effective cx (rt_upstream_model target)"
  obtain el where el: "assess_target_credential env clk cache target None ?cx = (settled clk cache, el)"
    by (metis assess_credential_state prod.collapse)
  have e: "drawable w \<and> f_le w (Fin 100) \<and> (figures_ok clk c0 \<longrightarrow> wf64 w) \<and>
      claimable clk c0 (rt_endpoint_id target) None" if "el = ElEligible w" for w
  proof -
    have "snd (assess_target_credential env clk c0 target None ?cx) = ElEligible w"
      using el that settled_cong(1) [OF assms(1)] by (metis snd_conv)
    then show ?thesis by (rule assess_credential_eligible) simp
  qed
  consider "rt_has_oauth_token target" | "\<not> rt_has_oauth_token target" "eligible_keys target = []"
    | "\<not> rt_has_oauth_token target" "eligible_keys target \<noteq> []" by blast
  then show ?thesis
  proof cases
    case 3
    let ?keys = "if all_keys \<or> rt_key_lb_enabled target then eligible_keys target else take 1 (eligible_keys target)"
    have c: "consider_keys env clk target ?cx ?keys cache pool_default = (cache', pool)"
      using assms(2) active 3 by (simp add: target_units_def Let_def)
    have s: "set ?keys \<subseteq> set (eligible_keys target)" by (auto dest: in_set_takeD)
    have "length ?keys = offered env clk target all_keys"
      using active 3 by (simp add: offered_def Suc_leI)
    with consider_keys_ok [OF assms(1) pool_ok_default _ active 3(1) s c] show ?thesis by simp
  qed (use assms active el e in \<open>auto simp: target_units_def offered_def Let_def set_units_consider
      unit_ok_def target_credential_def split: if_splits\<close>)
qed

lemma target_pool_ok:
  assumes "settled clk cache = settled clk c0"
    "target_pool env clk target cache cx override_id = (cache', pool)"
  shows "settled clk cache' = settled clk c0 \<and> pool_ok pool \<and>
    (\<forall>u \<in> set (qp_units pool). unit_ok env clk c0 u \<and> pu_target u = target) \<and>
    qp_configured pool = offered env clk target False"
proof -
  obtain c1 p1 where t: "target_units env clk target cache cx False = (c1, p1)" by fastforce
  note ok = target_units_ok [OF assms(1) t]
  show ?thesis
  proof (cases "candidate_target_is_active (re_windows env) clk target (clk_minutes clk) \<and>
      Option.bind override_id (override_key target) \<noteq> None")
    case False
    then show ?thesis
      using assms(2) ok t by (cases override_id; cases "override_key target (the override_id)")
        (auto simp: target_pool_def split: if_splits)
  next
    case True
    then obtain i sel where i: "override_id = Some i" "override_key target i = Some sel"
      by (auto simp: bind_eq_Some_conv)
    let ?cx = "context_effective cx (rt_upstream_model target)"
    obtain el where el: "assess env clk c1 (rt_endpoint_id target) (sel_key_id sel) ?cx = (settled clk c1, el)"
      by (metis assess_state prod.collapse)
    have "snd (assess env clk c0 (rt_endpoint_id target) (sel_key_id sel) ?cx) = el"
      using el settled_cong(2) [of clk c1 c0] ok by (metis snd_conv)
    then have e: "drawable w \<and> f_le w (Fin 100) \<and> (figures_ok clk c0 \<longrightarrow> wf64 w) \<and>
        claimable clk c0 (rt_endpoint_id target) (sel_key_id sel)"
      if "el = ElEligible w" for w using assess_eligible assess_weight_wf that by blast
    have k: "target_credential target sel" "0 < offered env clk target False"
      using override_key_SomeD [OF i(2)] True by (auto simp: target_credential_def offered_def)
    show ?thesis
      using assms(2) ok True i t el e k
      by (auto simp: target_pool_def eligibility_weight_Some unit_ok_def pool_ok_single split: option.splits)
  qed
qed

lemma pool_of_targets_ok:
  assumes "settled clk cache = settled clk c0" "pool_ok pool"
    "\<forall>u \<in> set (qp_units pool). unit_ok env clk c0 u \<and> pu_target u \<in> T" "set targets \<subseteq> T"
    "pool_of_targets env clk cx key_override targets cache pool = (cache', pool')"
  shows "settled clk cache' = settled clk c0 \<and> pool_ok pool' \<and>
    (\<forall>u \<in> set (qp_units pool'). unit_ok env clk c0 u \<and> pu_target u \<in> T) \<and>
    qp_configured pool' = qp_configured pool + sum_list (List.map (\<lambda>t. offered env clk t False) targets)"
  using assms
proof (induction targets arbitrary: cache pool)
  case (Cons t targets)
  obtain c1 p1 where t: "target_pool env clk t cache cx key_override = (c1, p1)" by fastforce
  note ok = target_pool_ok [OF Cons.prems(1) t]
  have "pool_of_targets env clk cx key_override targets c1 (pool_extend pool p1) = (cache', pool')"
    using Cons.prems(5) by (simp add: t)
  moreover have "pool_ok (pool_extend pool p1)" using ok Cons.prems(2) by simp
  moreover have "\<forall>u \<in> set (qp_units (pool_extend pool p1)). unit_ok env clk c0 u \<and> pu_target u \<in> T"
    using ok Cons.prems(3,4) by auto
  ultimately have "settled clk cache' = settled clk c0 \<and> pool_ok pool' \<and>
    (\<forall>u \<in> set (qp_units pool'). unit_ok env clk c0 u \<and> pu_target u \<in> T) \<and>
    qp_configured pool' = qp_configured (pool_extend pool p1) + sum_list (List.map (\<lambda>t. offered env clk t False) targets)"
    using ok Cons.prems(4) by (intro Cons.IH) auto
  then show ?case using ok by simp
qed auto

lemma candidate_units_loop_ok:
  assumes "settled clk cache = settled clk c0"
    "\<forall>u \<in> set (qp_units pool). unit_ok env clk c0 u \<and> pu_target u \<in> T \<and> Some (pu_unit_id u) \<noteq> exclude"
    "set targets \<subseteq> T"
    "candidate_units_loop env clk cx exclude all_keys targets cache pool = (cache', pool')"
  shows "settled clk cache' = settled clk c0 \<and>
    (\<forall>u \<in> set (qp_units pool'). unit_ok env clk c0 u \<and> pu_target u \<in> T \<and> Some (pu_unit_id u) \<noteq> exclude)"
  using assms
proof (induction targets arbitrary: cache pool)
  case (Cons t targets)
  obtain c1 p1 where t: "target_units env clk t cache cx all_keys = (c1, p1)" by fastforce
  note ok = target_units_ok [OF Cons.prems(1) t]
  show ?case
    by (rule Cons.IH [of c1]) (use Cons.prems ok t in \<open>auto simp: pool_retain_def\<close>)
qed auto


subsection \<open>Pools do not depend on earlier assessments\<close>

lemma assess_credential_pair:
  "assess_target_credential env clk c t k cx = (settled clk c, snd (assess_target_credential env clk c t k cx))"
  by (metis assess_credential_state prod.collapse)

lemma consider_keys_cong:
  assumes "settled clk c = settled clk c'"
  shows "snd (consider_keys env clk t cx keys c pool) = snd (consider_keys env clk t cx keys c' pool)"
  using assms
proof (induction keys arbitrary: c c' pool)
  case (Cons key keys)
  let ?k = "if ak_key_id key \<noteq> uuid_nil then Some (ak_key_id key) else None"
  have "snd (assess_target_credential env clk c t ?k cx) = snd (assess_target_credential env clk c' t ?k cx)"
    by (rule settled_cong(1) [OF Cons.prems])
  then show ?case
    using assess_credential_pair [of env clk c t ?k cx] assess_credential_pair [of env clk c' t ?k cx] Cons.prems
    by (simp add: case_prod_unfold Let_def)
qed simp

lemma target_units_cong:
  assumes "settled clk c = settled clk c'"
  shows "snd (target_units env clk t c cx all) = snd (target_units env clk t c' cx all)"
  using settled_cong(1) [OF assms] consider_keys_cong [OF assms]
  by (simp add: target_units_def Let_def case_prod_unfold)

lemma target_pool_cong:
  assumes "settled clk c = settled clk c'"
  shows "snd (target_pool env clk t c cx ko) = snd (target_pool env clk t c' cx ko)"
proof -
  obtain c1 p where u: "target_units env clk t c cx False = (c1, p)" by fastforce
  obtain c2 p' where u': "target_units env clk t c' cx False = (c2, p')" by fastforce
  have p: "p' = p" using target_units_cong [OF assms, of env t cx False] by (simp add: u u')
  have "settled clk c1 = settled clk c2"
    using target_units_ok [OF refl u] target_units_ok [OF refl u'] assms by simp
  note e = settled_cong(2) [OF this]
  show ?thesis
  proof (cases "Option.bind ko (\<lambda>i. map_option (Pair i) (override_key t i))")
    case None
    then show ?thesis by (simp add: target_pool_def u u' p)
  next
    case (Some ik)
    obtain i key where ik: "ik = (i, key)" by fastforce
    show ?thesis
      using e [of env "rt_endpoint_id t" "sel_key_id key" "context_effective cx (rt_upstream_model t)"]
      by (simp add: target_pool_def u u' p Some ik case_prod_unfold Let_def split: option.split)
  qed
qed

lemma pool_of_targets_cong:
  assumes "settled clk c = settled clk c'"
  shows "snd (pool_of_targets env clk cx ko ts c pool) = snd (pool_of_targets env clk cx ko ts c' pool)"
  using assms
proof (induction ts arbitrary: c c' pool)
  case (Cons t ts)
  obtain c1 p where u: "target_pool env clk t c cx ko = (c1, p)" by fastforce
  obtain c2 p' where u': "target_pool env clk t c' cx ko = (c2, p')" by fastforce
  have p: "p' = p" using target_pool_cong [OF Cons.prems, of env t cx ko] by (simp add: u u')
  have "settled clk c1 = settled clk c2"
    using target_pool_ok [OF refl u] target_pool_ok [OF refl u'] Cons.prems by simp
  from Cons.IH [OF this, of "pool_extend pool p"] show ?case by (simp add: u u' p)
qed simp

subsection \<open>The selection over a candidate\<close>

text \<open>
  The pool of all targets, as \<open>candidate_select\<close> sees it after the pinned target was tried.\<close>

lemma pinned_state:
  assumes "settled clk cache = settled clk c0"
    "(case Option.bind eo (candidate_target_by_endpoint candidate) of
        None \<Rightarrow> (cache, None)
      | Some target \<Rightarrow>
          let (cache, pool) = target_pool env clk target cache cx ko
          in (cache, draw env (qp_units pool) k)) = (cache', pinned)"
  shows "settled clk cache' = settled clk c0 \<and>
    (case pinned of None \<Rightarrow> True
      | Some u \<Rightarrow> unit_ok env clk c0 u \<and> pu_target u \<in> set (rc_targets candidate) \<and>
          Some (rt_endpoint_id (pu_target u)) = eo)"
proof (cases "Option.bind eo (candidate_target_by_endpoint candidate)")
  case None
  then show ?thesis using assms by auto
next
  case (Some t)
  then have t: "t \<in> set (rc_targets candidate)" "Some (rt_endpoint_id t) = eo"
    using candidate_target_by_endpointD by (auto simp: bind_eq_Some_conv)
  obtain c1 p1 where p: "target_pool env clk t cache cx ko = (c1, p1)" by fastforce
  note ok = target_pool_ok [OF assms(1) p]
  have r: "cache' = c1" "pinned = draw env (qp_units p1) k" using assms(2) Some p by auto
  show ?thesis
    using ok r t units.draw_of_in [of env "qp_units p1" k] by (auto split: option.split)
qed

lemma candidate_select_cases:
  assumes "candidate_select env clk candidate cache cx k eo ko = (cache', r)"
  shows "settled clk cache' = settled clk cache \<and>
    (case r of
       Inr (Some sel) \<Rightarrow>
         \<exists>u reason. sel = candidate_selection_of env clk candidate u ko reason \<and> unit_ok env clk cache u \<and>
           pu_target u \<in> set (rc_targets candidate) \<and>
           (reason = RrConversationOverride \<and> Some (rt_endpoint_id (pu_target u)) = eo \<or> reason = RrDefault)
     | _ \<Rightarrow>
         \<exists>pool. pool = snd (pool_of_targets env clk cx ko (rc_targets candidate) cache pool_default) \<and>
           pool_ok pool \<and> (\<forall>u \<in> set (qp_units pool). unit_ok env clk cache u) \<and>
           qp_configured pool = sum_list (List.map (\<lambda>t. offered env clk t False) (rc_targets candidate)) \<and>
           (r = Inl SelQuotaUnavailable \<longleftrightarrow> \<not> pool_checked pool) \<and>
           (r = Inr None \<longrightarrow> draw env (qp_units pool) k = None))"
proof -
  let ?P = "case Option.bind eo (candidate_target_by_endpoint candidate) of
        None \<Rightarrow> (cache, None)
      | Some target \<Rightarrow>
          let (cache, pool) = target_pool env clk target cache cx ko
          in (cache, draw env (qp_units pool) k)"
  obtain c1 pinned where p: "?P = (c1, pinned)" by (cases ?P) auto
  note pin = pinned_state [OF refl p]
  show ?thesis
  proof (cases pinned)
    case (Some u)
    then have "cache' = c1" "r = Inr (Some (candidate_selection_of env clk candidate u ko RrConversationOverride))"
      using assms p by (simp_all add: candidate_select_def)
    then show ?thesis using pin Some by auto
  next
    case None
    obtain c2 pool where q: "pool_of_targets env clk cx ko (rc_targets candidate) c1 pool_default = (c2, pool)"
      by fastforce
    have ok: "settled clk c2 = settled clk cache \<and> pool_ok pool \<and>
        (\<forall>u \<in> set (qp_units pool). unit_ok env clk cache u \<and> pu_target u \<in> set (rc_targets candidate)) \<and>
        qp_configured pool = qp_configured (pool_default :: pool_unit quota_pool) +
          sum_list (List.map (\<lambda>t. offered env clk t False) (rc_targets candidate))"
      by (rule pool_of_targets_ok [OF _ pool_ok_default _ subset_refl q]) (use pin in auto)
    have r: "cache' = c2" "r = (if \<not> pool_checked pool then Inl SelQuotaUnavailable
        else Inr (map_option (\<lambda>u. candidate_selection_of env clk candidate u ko RrDefault) (draw env (qp_units pool) k)))"
      using assms p None q by (auto simp: candidate_select_def split: if_splits)
    show ?thesis
    proof (cases "pool_checked pool \<and> draw env (qp_units pool) k \<noteq> None")
      case True
      then obtain u where u: "draw env (qp_units pool) k = Some u" by blast
      then show ?thesis using True ok r units.draw_of_in [OF u] by auto
    next
      case False
      have d: "qp_configured pool = sum_list (List.map (\<lambda>t. offered env clk t False) (rc_targets candidate))"
        "pool_ok pool" "\<forall>u \<in> set (qp_units pool). unit_ok env clk cache u" "settled clk cache' = settled clk cache"
        using ok r(1) by auto
      have same: "pool = snd (pool_of_targets env clk cx ko (rc_targets candidate) cache pool_default)"
        using q pin pool_of_targets_cong [of clk c1 cache] by (metis snd_conv)
      show ?thesis using False d r(2) same [symmetric] by (cases "pool_checked pool") auto
    qed
  qed
qed


lemma unit_ok_offered: "unit_ok env clk cache u \<Longrightarrow> 0 < offered env clk (pu_target u) all_keys"
  by (auto simp: unit_ok_def target_credential_def offered_def split: if_splits)

lemma offered_le: "offered env clk t all_keys \<le> max (length (rt_api_keys t)) 1"
proof -
  have "length (eligible_keys t) \<le> length (rt_api_keys t)" by (simp add: eligible_keys_def)
  then show ?thesis by (auto simp: offered_def)
qed

lemma offered_sum_le:
  "sum_list (List.map (\<lambda>t. offered env clk t all_keys) (rc_targets candidate)) \<le> candidate_claim_limit candidate"
proof -
  have "sum_list (List.map (\<lambda>t. offered env clk t all_keys) (rc_targets candidate)) \<le>
    sum_list (List.map (\<lambda>t. max (length (rt_api_keys t)) 1) (rc_targets candidate))"
    by (intro sum_list_mono offered_le)
  then show ?thesis by (simp add: candidate_claim_limit_def)
qed

lemma pool_draw_exists:
  assumes "figures_ok clk cache" "pool_ok pool" "\<forall>u \<in> set (qp_units pool). unit_ok env clk cache u"
    "qp_configured pool \<le> 2 ^ 40"
  shows "draw env (qp_units pool) k = None \<longleftrightarrow> qp_units pool = []"
proof
  assume d: "draw env (qp_units pool) k = None"
  show "qp_units pool = []"
  proof (rule ccontr)
    assume ne: "qp_units pool \<noteq> []"
    have "length (qp_units pool) \<le> 2 ^ 40" using assms(2,4) by (simp add: pool_ok_def)
    then have "draw env (qp_units pool) k \<noteq> None"
      using assms(1,3) ne by (intro units.draw_of_exists) (auto simp: unit_ok_def)
    then show False using d by simp
  qed
qed simp

subsection \<open>What the pool of a candidate holds\<close>

text \<open>
  The rule of eligibility, read off the code's guards once and for all: no cooldown and no probe in
  flight, no spent subscription, and for a key neither a remaining percentage nor a weight at zero.\<close>

definition spent :: "f64 option \<Rightarrow> bool" where
  "spent percent \<longleftrightarrow> is_some_and (\<lambda>p. is_finite p \<and> f_le p (Fin 0)) percent"

definition credential_eligible ::
    "route_env \<Rightarrow> clock \<Rightarrow> shared_cache \<Rightarrow> quota_context \<Rightarrow> route_target \<Rightarrow> endpoint_api_key_selection \<Rightarrow> bool" where
  "credential_eligible env clk cache cx t sel \<longleftrightarrow>
     claimable clk cache (rt_endpoint_id t) (sel_key_id sel) \<and>
     (case cache of
        None \<Rightarrow> True
      | Some c \<Rightarrow>
          let e = rt_endpoint_id t; k = opt_or_default uuid_nil (sel_key_id sel);
              model = opt_or (rt_upstream_model t) (qx_model cx)
          in \<not> chatgpt_subscription_exhausted_now (re_tmax env) clk c e \<and>
             (rt_has_oauth_token t \<or>
              \<not> spent (key_remaining_percent_scoped_now (re_tmax env) clk c e k model (allow_general cx)) \<and>
              \<not> spent (key_weight_percent_scoped_now (re_tmax env) clk c e k model (allow_general cx))))"

lemma assess_eligible_iff:
  assumes "\<not> rt_has_oauth_token t"
  shows "(\<exists>w. snd (assess env clk cache (rt_endpoint_id t) (sel_key_id sel) (context_effective cx (rt_upstream_model t))) = ElEligible w) \<longleftrightarrow>
    credential_eligible env clk cache cx t sel"
proof (cases cache)
  case None
  then show ?thesis by (simp add: assess_def credential_eligible_def claimable_def)
next
  case (Some c)
  let ?m = "opt_or (rt_upstream_model t) (qx_model cx)"
  let ?scope = "quota_scope_new (rt_endpoint_id t) (sel_key_id sel) ?m (allow_general cx)"
  have g: "qx_model (context_effective cx (rt_upstream_model t)) = ?m"
    "allow_general (context_effective cx (rt_upstream_model t)) = allow_general cx"
    by (simp_all add: context_effective_def allow_general_def)
  have "(\<exists>w. snd (assess env clk cache (rt_endpoint_id t) (sel_key_id sel) (context_effective cx (rt_upstream_model t))) = ElEligible w) \<longleftrightarrow>
      (\<exists>w. snd (assess_scope (re_tmax env) clk c ?scope) = QaEligible w)"
    by (auto simp: Some assess_def Let_def case_prod_unfold g split: quota_assessment.splits)
  moreover have "feedback_scope ?scope = feedback_scope_new (rt_endpoint_id t) (sel_key_id sel)"
    by (simp add: feedback_scope_def quota_scope_new_def)
  ultimately show ?thesis
    using assms
    by (auto simp: Some assess_scope_snd Let_def claimable_def credential_eligible_def spent_def quota_scope_new_def
        split: option.splits)
qed

lemma assess_credential_iff:
  assumes "rt_has_oauth_token t \<Longrightarrow> sel_key_id sel = None"
  shows "(\<exists>w. snd (assess_target_credential env clk cache t (sel_key_id sel) (context_effective cx (rt_upstream_model t))) = ElEligible w) \<longleftrightarrow>
    credential_eligible env clk cache cx t sel"
proof (cases "rt_has_oauth_token t")
  case True
  then show ?thesis
    using assms by (cases cache)
      (auto simp: assess_target_credential_def subscription_eligibility_def credential_eligible_def claimable_def
        case_prod_unfold Let_def)
next
  case False
  then show ?thesis using assess_eligible_iff [OF False] by (simp add: assess_target_credential_def)
qed

text \<open>The credentials a target puts forward, before any quota.\<close>

definition put_forward :: "route_target \<Rightarrow> bool \<Rightarrow> endpoint_api_key_selection set" where
  "put_forward t all_keys =
     (if rt_has_oauth_token t then {subscription_selection}
      else if eligible_keys t = []
      then (if trim (rt_api_key t) = [] then {}
            else {\<lparr>sel_key_id = None, sel_key_label = None, sel_secret = trim (rt_api_key t)\<rparr>})
      else selection_from_key `
             set (if all_keys \<or> rt_key_lb_enabled t then eligible_keys t else take 1 (eligible_keys t)))"

text \<open>The overriding key, when it is an eligible one of the target, replaces them.\<close>

definition selectable ::
    "route_env \<Rightarrow> clock \<Rightarrow> shared_cache \<Rightarrow> quota_context \<Rightarrow> uuid option \<Rightarrow> route_target \<Rightarrow>
     endpoint_api_key_selection \<Rightarrow> bool" where
  "selectable env clk cache cx key_override t sel \<longleftrightarrow>
     candidate_target_is_active (re_windows env) clk t (clk_minutes clk) \<and> credential_eligible env clk cache cx t sel \<and>
     (case opt_filter (credential_eligible env clk cache cx t) (Option.bind key_override (override_key t)) of
        Some chosen \<Rightarrow> sel = chosen
      | None \<Rightarrow> sel \<in> put_forward t False)"

lemma consider_unit_keys:
  "pu_key ` set (qp_units (consider_unit p el (\<lambda>w. \<lparr>pu_target = t, pu_key = sel, pu_unit_id = i, pu_weight = w\<rparr>))) =
     pu_key ` set (qp_units p) \<union> (if \<exists>w. el = ElEligible w then {sel} else {})"
  by (cases el) (auto simp: qp_units_consider)

lemma consider_keys_keys:
  assumes "\<not> rt_has_oauth_token t"
  shows "pu_key ` set (qp_units (snd (consider_keys env clk t (context_effective cx (rt_upstream_model t)) keys cache pool))) =
    pu_key ` set (qp_units pool) \<union> {sel \<in> selection_from_key ` set keys. credential_eligible env clk cache cx t sel}"
proof (induction keys arbitrary: pool cache)
  case (Cons key keys)
  let ?cx = "context_effective cx (rt_upstream_model t)"
  let ?a = "assess_target_credential env clk cache t (sel_key_id (selection_from_key key)) ?cx"
  have a: "(\<exists>w. snd ?a = ElEligible w) \<longleftrightarrow> credential_eligible env clk cache cx t (selection_from_key key)"
    by (rule assess_credential_iff) (use assms in simp)
  have settled: "credential_eligible env clk (settled clk cache) cx t sel = credential_eligible env clk cache cx t sel" for sel
    using assess_eligible_iff [OF assms, of env clk "settled clk cache" sel cx] assess_eligible_iff [OF assms, of env clk cache sel cx]
    by simp
  have step: "snd (consider_keys env clk t ?cx (key # keys) cache pool) =
      snd (consider_keys env clk t ?cx keys (settled clk cache)
        (consider_unit pool (snd ?a) (\<lambda>w. \<lparr>pu_target = t, pu_key = selection_from_key key, pu_unit_id = ak_key_id key, pu_weight = w\<rparr>)))"
    by (simp add: case_prod_unfold Let_def selection_from_key_def)
  show ?case unfolding step Cons.IH settled consider_unit_keys a by auto
qed simp

lemma target_units_keys:
  assumes "candidate_target_is_active (re_windows env) clk t (clk_minutes clk)"
  shows "pu_key ` set (qp_units (snd (target_units env clk t cache cx all_keys))) =
    {sel \<in> put_forward t all_keys. credential_eligible env clk cache cx t sel}"
proof -
  have one: "(\<exists>w. snd (assess_target_credential env clk cache t None (context_effective cx (rt_upstream_model t))) = ElEligible w) \<longleftrightarrow>
      credential_eligible env clk cache cx t sel" if "sel_key_id sel = None" for sel
    using assess_credential_iff [of t sel env clk cache cx] that by simp
  consider "rt_has_oauth_token t" | "\<not> rt_has_oauth_token t" "eligible_keys t = []"
    | "\<not> rt_has_oauth_token t" "eligible_keys t \<noteq> []" by blast
  then show ?thesis
  proof cases
    case 3
    then show ?thesis using assms consider_keys_keys [OF 3(1)] by (simp add: target_units_def Let_def put_forward_def)
  qed (use assms one [of subscription_selection] one in \<open>auto simp: target_units_def Let_def put_forward_def
      case_prod_unfold consider_unit_keys subscription_selection_def\<close>)
qed

lemma target_pool_keys:
  "pu_key ` set (qp_units (snd (target_pool env clk t cache cx ko))) = {sel. selectable env clk cache cx ko t sel}"
proof (cases "candidate_target_is_active (re_windows env) clk t (clk_minutes clk)")
  case False
  then show ?thesis by (simp add: target_pool_def target_units_def selectable_def)
next
  case True
  note keys = target_units_keys [OF True, of cache cx False]
  obtain c1 p1 where u: "target_units env clk t cache cx False = (c1, p1)" by fastforce
  have settled: "settled clk c1 = settled clk cache" using target_units_ok [OF refl u] by simp
  show ?thesis
  proof (cases "Option.bind ko (override_key t)")
    case None
    then have "Option.bind ko (\<lambda>i. map_option (Pair i) (override_key t i)) = None" by (cases ko) auto
    then show ?thesis using keys True None by (auto simp: target_pool_def u selectable_def opt_filter_def)
  next
    case (Some sel)
    then obtain i where i: "ko = Some i" "override_key t i = Some sel" by (auto simp: bind_eq_Some_conv)
    have no: "\<not> rt_has_oauth_token t" using override_key_SomeD [OF i(2)] by simp
    let ?a = "snd (assess env clk c1 (rt_endpoint_id t) (sel_key_id sel) (context_effective cx (rt_upstream_model t)))"
    have a: "(\<exists>w. ?a = ElEligible w) \<longleftrightarrow> credential_eligible env clk cache cx t sel"
      using assess_eligible_iff [OF no] settled_cong(2) [OF settled] by simp
    show ?thesis
    proof (cases "credential_eligible env clk cache cx t sel")
      case e: True
      then obtain w where "?a = ElEligible w" using a by blast
      then show ?thesis using True e
        by (auto simp: target_pool_def u i case_prod_unfold selectable_def opt_filter_def)
    next
      case False
      then have "eligibility_weight ?a = None" using a by (cases ?a) auto
      then show ?thesis using True False keys
        by (auto simp: target_pool_def u i case_prod_unfold selectable_def opt_filter_def)
    qed
  qed
qed

lemma selectable_settled:
  assumes "settled clk c = settled clk c'"
  shows "selectable env clk c cx ko t sel = selectable env clk c' cx ko t sel"
  using target_pool_keys [of env clk t c cx ko] target_pool_keys [of env clk t c' cx ko] target_pool_cong [OF assms, of env t cx ko]
  by auto

lemma target_pool_units:
  assumes "target_pool env clk t cache cx ko = (cache', pool)" "u \<in> set (qp_units pool)"
  shows "selectable env clk cache cx ko (pu_target u) (pu_key u) \<and> pu_target u = t"
  using target_pool_keys [of env clk t cache cx ko] target_pool_ok [OF refl assms(1)] assms by auto

lemma pool_of_targets_keys:
  "(\<lambda>u. (pu_target u, pu_key u)) ` set (qp_units (snd (pool_of_targets env clk cx ko ts cache pool))) =
     (\<lambda>u. (pu_target u, pu_key u)) ` set (qp_units pool) \<union>
     {(t, sel). t \<in> set ts \<and> selectable env clk cache cx ko t sel}"
proof (induction ts arbitrary: cache pool)
  case (Cons t ts)
  obtain c1 p where p: "target_pool env clk t cache cx ko = (c1, p)" by fastforce
  have "settled clk c1 = settled clk cache" using target_pool_ok [OF refl p] by simp
  then have same: "selectable env clk c1 cx ko t' sel = selectable env clk cache cx ko t' sel" for t' sel
    by (rule selectable_settled)
  have "(\<lambda>u. (pu_target u, pu_key u)) ` set (qp_units p) = {(t', sel). t' = t \<and> selectable env clk cache cx ko t sel}"
    using target_pool_keys [of env clk t cache cx ko] target_pool_units [OF p] by (force simp: p)
  then show ?case by (simp add: p Cons.IH same) (auto simp: image_Un)
qed auto

lemma candidate_select_unit:
  assumes "candidate_select env clk candidate cache cx k eo ko = (cache', Inr (Some sel))"
  shows "cs_target sel \<in> set (rc_targets candidate) \<and> selectable env clk cache cx ko (cs_target sel) (cs_key sel)"
proof (cases "Option.bind eo (candidate_target_by_endpoint candidate)")
  case None
  obtain c2 pool where q: "pool_of_targets env clk cx ko (rc_targets candidate) cache pool_default = (c2, pool)" by fastforce
  obtain u where u: "draw env (qp_units pool) k = Some u" "sel = candidate_selection_of env clk candidate u ko RrDefault"
    using assms by (auto simp: candidate_select_def None q split: if_splits)
  show ?thesis
    using units.draw_of_in [OF u(1)] pool_of_targets_keys [of env clk cx ko "rc_targets candidate" cache pool_default]
    by (auto simp: q u(2) candidate_selection_of_def)
next
  case (Some t)
  then have t: "t \<in> set (rc_targets candidate)" using candidate_target_by_endpointD by (auto simp: bind_eq_Some_conv)
  obtain c1 p where p: "target_pool env clk t cache cx ko = (c1, p)" by fastforce
  show ?thesis
  proof (cases "draw env (qp_units p) k")
    case (Some u)
    then have "sel = candidate_selection_of env clk candidate u ko RrConversationOverride"
      using assms \<open>Option.bind eo _ = Some t\<close> by (simp add: candidate_select_def p)
    then show ?thesis using target_pool_units [OF p, of u] units.draw_of_in [OF Some] t by (auto simp: candidate_selection_of_def)
  next
    case None
    obtain c2 pool where q: "pool_of_targets env clk cx ko (rc_targets candidate) c1 pool_default = (c2, pool)" by fastforce
    obtain u where u: "draw env (qp_units pool) k = Some u" "sel = candidate_selection_of env clk candidate u ko RrDefault"
      using assms \<open>Option.bind eo _ = Some t\<close> by (auto simp: candidate_select_def p None q split: if_splits)
    have "settled clk c1 = settled clk cache" using target_pool_ok [OF refl p] by simp
    note same = selectable_settled [OF this]
    show ?thesis
      using units.draw_of_in [OF u(1)] pool_of_targets_keys [of env clk cx ko "rc_targets candidate" c1 pool_default]
      by (auto simp: q u(2) candidate_selection_of_def same)
  qed
qed

lemma candidate_pool_empty:
  "qp_units (snd (pool_of_targets env clk cx ko (rc_targets candidate) cache pool_default)) = [] \<longleftrightarrow>
     \<not> (\<exists>t \<in> set (rc_targets candidate). \<exists>sel. selectable env clk cache cx ko t sel)"
proof -
  let ?f = "\<lambda>u. (pu_target u, pu_key u)"
  let ?us = "qp_units (snd (pool_of_targets env clk cx ko (rc_targets candidate) cache pool_default))"
  have "?f ` set ?us = {(t, sel). t \<in> set (rc_targets candidate) \<and> selectable env clk cache cx ko t sel}"
    using pool_of_targets_keys [of env clk cx ko "rc_targets candidate" cache pool_default] by simp
  then have "?f ` set ?us = {} \<longleftrightarrow> \<not> (\<exists>t \<in> set (rc_targets candidate). \<exists>sel. selectable env clk cache cx ko t sel)"
    by (simp only:) blast
  then show ?thesis by simp
qed

text \<open>
  C6: What the unified selection returns. A selection is of a target of the candidate that is enabled
  and inside its schedule, and of a credential the target really has and the pool may hold: the
  overriding key when it is an eligible key of the target, else its subscription, its own secret when
  it has no usable key, its first usable key or, load-balanced, any of them; the credential is
  eligible, that is, neither cooling nor being probed, on no spent subscription, and with neither a
  remaining percentage nor a weight at zero. It is the pinned endpoint when the conversation's
  override decided, and a claim at the same instant is not refused. A quota error means that active
  targets offer credentials and that not one credential can be selected.\<close>

theorem candidate_select_sound:
  "case snd (candidate_select env clk candidate cache cx k eo ko) of
     Inr (Some sel) \<Rightarrow>
       cs_target sel \<in> set (rc_targets candidate) \<and>
       target_credential (cs_target sel) (cs_key sel) \<and>
       selectable env clk cache cx ko (cs_target sel) (cs_key sel) \<and>
       (if cs_reason sel = RrConversationOverride then Some (rt_endpoint_id (cs_target sel)) = eo
        else cs_reason sel = RrDefault) \<and>
       snd (claim clk (fst (candidate_select env clk candidate cache cx k eo ko))
              (rt_endpoint_id (cs_target sel)) (sel_key_id (cs_key sel))) \<noteq> ClaimLostRace
   | Inr None \<Rightarrow> True
   | Inl e \<Rightarrow>
       0 < sum_list (List.map (\<lambda>t. offered env clk t False) (rc_targets candidate)) \<and>
       \<not> (\<exists>t \<in> set (rc_targets candidate). \<exists>sel. selectable env clk cache cx ko t sel)"
proof -
  obtain cache' r where cr: "candidate_select env clk candidate cache cx k eo ko = (cache', r)" by fastforce
  note c = candidate_select_cases [OF cr]
  have claim: "snd (claim clk cache' e i) \<noteq> ClaimLostRace" if "claimable clk cache e i" for e i
    using that c claimable_claim [of clk cache' e i] claimable_settled by metis
  consider (sel) sel where "r = Inr (Some sel)" | (none) "r = Inr None" | (err) "r = Inl SelQuotaUnavailable"
    by (metis old.sum.exhaust option.exhaust selection_error.exhaust)
  then show ?thesis
  proof cases
    case sel
    then show ?thesis
      using c cr claim candidate_select_unit [OF cr [unfolded sel]] by (auto simp: candidate_selection_of_def unit_ok_def)
  next
    case none
    then show ?thesis by (simp add: cr)
  next
    case err
    then show ?thesis using c cr pool_checked_iff candidate_pool_empty [of env clk cx ko candidate cache] by fastforce
  qed
qed

text \<open>
  C23: The router finds a credential exactly when there is one to select: for a cache whose
  observations carry percentages within [0, 100], the selection is a credential exactly when
  some target of the candidate has one that can be selected, and it comes back empty-handed without an
  error exactly when no active target offers any credential. What remains is the explicit quota
  error. Neither rounding in the weighted draw nor the pinned endpoint loses an eligible credential.\<close>

theorem candidate_select_available:
  assumes "figures_ok clk cache" and "candidate_claim_limit candidate \<le> 2 ^ 40"
  shows "((\<exists>sel. snd (candidate_select env clk candidate cache cx k eo ko) = Inr (Some sel)) \<longleftrightarrow>
      (\<exists>t \<in> set (rc_targets candidate). \<exists>sel. selectable env clk cache cx ko t sel)) \<and>
    (snd (candidate_select env clk candidate cache cx k eo ko) = Inr None \<longleftrightarrow>
      sum_list (List.map (\<lambda>t. offered env clk t False) (rc_targets candidate)) = 0)"
proof -
  let ?n = "sum_list (List.map (\<lambda>t. offered env clk t False) (rc_targets candidate))"
  let ?some = "\<exists>t \<in> set (rc_targets candidate). \<exists>sel. selectable env clk cache cx ko t sel"
  obtain cache' r where cr: "candidate_select env clk candidate cache cx k eo ko = (cache', r)" by fastforce
  note c = candidate_select_cases [OF cr] and empty = candidate_pool_empty [of env clk cx ko candidate cache]
  have n: "?n \<le> 2 ^ 40" using assms(2) offered_sum_le [of env clk False candidate] by (rule le_trans [rotated])
  consider (sel) sel where "r = Inr (Some sel)" | (none) "r = Inr None" | (err) "r = Inl SelQuotaUnavailable"
    by (metis old.sum.exhaust option.exhaust selection_error.exhaust)
  then show ?thesis
  proof cases
    case sel
    then obtain u where "unit_ok env clk cache u" "pu_target u \<in> set (rc_targets candidate)" using c by auto
    then have "?n \<noteq> 0"
      using unit_ok_offered [of env clk cache u False]
        member_le_sum_list [of "offered env clk (pu_target u) False" "List.map (\<lambda>t. offered env clk t False) (rc_targets candidate)"]
      by auto
    moreover have ?some using candidate_select_unit [OF cr [unfolded sel]] by blast
    ultimately show ?thesis by (simp add: cr sel)
  next
    case none
    then obtain pool where p: "pool = snd (pool_of_targets env clk cx ko (rc_targets candidate) cache pool_default)" "pool_ok pool"
        "\<forall>u \<in> set (qp_units pool). unit_ok env clk cache u" "qp_configured pool = ?n" "pool_checked pool" "draw env (qp_units pool) k = None"
      using c by auto
    then have e: "qp_units pool = []" using pool_draw_exists [OF assms(1) p(2,3)] n by simp
    then have "?n = 0" using p(4,5) pool_checked_iff [OF p(2)] by simp
    then show ?thesis using e empty p(1) by (simp add: cr none)
  next
    case err
    then obtain pool where p: "pool = snd (pool_of_targets env clk cx ko (rc_targets candidate) cache pool_default)" "pool_ok pool"
        "\<not> pool_checked pool" "qp_configured pool = ?n"
      using c by auto
    then have ne: "?n \<noteq> 0" and e: "qp_units pool = []" using pool_checked_iff [OF p(2)] by (simp_all only: not_le) auto
    show ?thesis using ne e empty p(1) by (simp only: cr err snd_conv) simp
  qed
qed

definition demo_env :: route_env where
  "demo_env = \<lparr>re_windows = (\<lambda>_. None), re_sha = (\<lambda>_. replicate 32 (CHR 0x00)), re_tmax = 0,
               re_json = (\<lambda>_. None)\<rparr>"

lemma candidate_select_available_witness:
  "snd (candidate_select demo_env demo_clock demo_candidate None
          \<lparr>qx_model = None, qx_path = ''/v1/responses''\<rparr> ''k'' None None) \<noteq> Inr None"
proof -
  have "offered demo_env demo_clock demo_target False = 1"
    using demo_target_active(2) demo_keys by (simp add: offered_def demo_target_def)
  then show ?thesis
    using candidate_select_available [of demo_clock None demo_candidate demo_env]
    by (simp add: figures_ok_def demo_candidate_def candidate_claim_limit_def demo_target_def)
qed

text \<open>
  C28: The draw is independent of the order in which the pool was filled: two pools with the same
  units, their unit ids distinct, yield the same unit for the same stable key, for the pool of a
  candidate and for the pool of a single route alike.\<close>

theorem draw_order_irrelevant:
  assumes "mset us = mset vs" "distinct (List.map pu_unit_id us)"
    and "mset rs = mset ss" "distinct (List.map ru_unit_id rs)"
  shows "draw env us k = draw env vs k \<and> draw_route env rs k = draw_route env ss k"
  using units.draw_of_perm [OF assms(1,2)] route_keys.draw_of_perm [OF assms(3,4)] by simp

definition demo_unit :: "uuid \<Rightarrow> pool_unit" where
  "demo_unit i = \<lparr>pu_target = demo_target, pu_key = subscription_selection, pu_unit_id = i, pu_weight = Fin 1\<rparr>"

lemma draw_order_irrelevant_witness:
  "draw demo_env [demo_unit 1, demo_unit 2] ''k'' = draw demo_env [demo_unit 2, demo_unit 1] ''k''"
  using draw_order_irrelevant [of "[demo_unit 1, demo_unit 2]" "[demo_unit 2, demo_unit 1]" "[]" "[]"
      demo_env "''k''"]
  by (simp add: add_mset_commute demo_unit_def)

end
