(* ===== verification/Coordinator.thy ===== *)
theory Coordinator
  imports Machine
begin

text \<open>
  The standalone coordinator: \<open>src/standalone_config/coordinator.rs\<close> with the statements under
  \<open>src/sql/standalone/coordinator_*.sql\<close> over the two tables of
  \<open>migrations/standalone/0004_coordinator_state.sql\<close>. A table is a map from its primary key to the
  rest of the row; a statement is atomic, and so is the transaction of \<open>get_or_insert\<close>. Failures
  of the database itself are not represented. \<open>now\<close> is \<open>unix_seconds()\<close>.

  The lemmas give the laws of an expiring key-value store, and over a machine of competing owners
  that a lease never has two live holders.
\<close>

record coordinator_row =
  cr_payload :: string
  cr_expires_at :: int
  cr_updated_at :: int

record lease_row =
  lr_owner :: string
  lr_expires_at :: int
  lr_updated_at :: int

record coordinator =
  co_values :: "string \<times> string \<rightharpoonup> coordinator_row"
  co_leases :: "string \<rightharpoonup> lease_row"

definition coordinator_empty :: coordinator where
  "coordinator_empty = \<lparr>co_values = Map.empty, co_leases = Map.empty\<rparr>"

text \<open>\<open>now.saturating_add(ttl_seconds.max(1) as i64)\<close>: the cast wraps at \<open>2^63\<close>.\<close>

definition u64_as_i64 :: "nat \<Rightarrow> int" where
  "u64_as_i64 n = (if int n \<le> i64_max then int n else int n - 2 ^ 64)"

definition i64_saturating_add :: "int \<Rightarrow> int \<Rightarrow> int" where
  "i64_saturating_add a b = max i64_min (min i64_max (a + b))"

definition lease_until :: "int \<Rightarrow> nat \<Rightarrow> int" where
  "lease_until now ttl_seconds = i64_saturating_add now (u64_as_i64 (max ttl_seconds 1))"

definition unix_seconds :: "clock \<Rightarrow> int" where
  "unix_seconds clk = (if clk_utc clk < 0 then 0 else min (clk_utc clk div 1000000000) i64_max)"

subsection \<open>The statements\<close>

definition sql_get :: "coordinator \<Rightarrow> string \<Rightarrow> string \<Rightarrow> int \<Rightarrow> string option" where
  "sql_get db namespace key now =
     Option.bind (co_values db (namespace, key)) (\<lambda>row.
       if now < cr_expires_at row then Some (cr_payload row) else None)"

definition sql_upsert :: "coordinator \<Rightarrow> string \<Rightarrow> string \<Rightarrow> string \<Rightarrow> int \<Rightarrow> int \<Rightarrow> coordinator" where
  "sql_upsert db namespace key payload expires_at now =
     db\<lparr>co_values := (co_values db)((namespace, key) \<mapsto>
          \<lparr>cr_payload = payload, cr_expires_at = expires_at, cr_updated_at = now\<rparr>)\<rparr>"

definition sql_delete_expired :: "coordinator \<Rightarrow> int \<Rightarrow> coordinator" where
  "sql_delete_expired db now =
     db\<lparr>co_values := (\<lambda>k. opt_filter (\<lambda>row. now < cr_expires_at row) (co_values db k))\<rparr>"

definition sql_insert_if_absent ::
    "coordinator \<Rightarrow> string \<Rightarrow> string \<Rightarrow> string \<Rightarrow> int \<Rightarrow> int \<Rightarrow> coordinator" where
  "sql_insert_if_absent db namespace key payload expires_at now =
     (case co_values db (namespace, key) of
        Some _ \<Rightarrow> db
      | None \<Rightarrow> sql_upsert db namespace key payload expires_at now)"

definition sql_refresh ::
    "coordinator \<Rightarrow> int \<Rightarrow> int \<Rightarrow> string \<Rightarrow> string \<Rightarrow> string \<Rightarrow> coordinator" where
  "sql_refresh db expires_at now namespace key payload =
     (case co_values db (namespace, key) of
        Some row \<Rightarrow>
          if cr_payload row = payload \<and> now < cr_expires_at row
          then db\<lparr>co_values := (co_values db)((namespace, key) \<mapsto>
                    row\<lparr>cr_expires_at := expires_at, cr_updated_at := now\<rparr>)\<rparr>
          else db
      | None \<Rightarrow> db)"

definition sql_replace ::
    "coordinator \<Rightarrow> string \<Rightarrow> int \<Rightarrow> int \<Rightarrow> string \<Rightarrow> string \<Rightarrow> string \<Rightarrow> coordinator \<times> nat" where
  "sql_replace db replacement expires_at now namespace key expected =
     (case co_values db (namespace, key) of
        Some row \<Rightarrow>
          if cr_payload row = expected \<and> now < cr_expires_at row
          then (sql_upsert db namespace key replacement expires_at now, 1)
          else (db, 0)
      | None \<Rightarrow> (db, 0))"

definition sql_delete :: "coordinator \<Rightarrow> string \<Rightarrow> string \<Rightarrow> coordinator \<times> nat" where
  "sql_delete db namespace key =
     (db\<lparr>co_values := (co_values db)((namespace, key) := None)\<rparr>,
      case co_values db (namespace, key) of Some _ \<Rightarrow> 1 | None \<Rightarrow> 0)"

text \<open>The upsert of a lease returns its owner only when the row was inserted or updated.\<close>

definition sql_acquire_lease ::
    "coordinator \<Rightarrow> string \<Rightarrow> string \<Rightarrow> int \<Rightarrow> int \<Rightarrow> coordinator \<times> string option" where
  "sql_acquire_lease db key owner expires_at now =
     (let granted = db\<lparr>co_leases := (co_leases db)(key \<mapsto>
            \<lparr>lr_owner = owner, lr_expires_at = expires_at, lr_updated_at = now\<rparr>)\<rparr>
      in case co_leases db key of
           None \<Rightarrow> (granted, Some owner)
         | Some row \<Rightarrow>
             if lr_expires_at row \<le> now \<or> lr_owner row = owner then (granted, Some owner)
             else (db, None))"

definition sql_release_lease :: "coordinator \<Rightarrow> string \<Rightarrow> string \<Rightarrow> coordinator" where
  "sql_release_lease db key owner =
     (case co_leases db key of
        Some row \<Rightarrow>
          if lr_owner row = owner then db\<lparr>co_leases := (co_leases db)(key := None)\<rparr> else db
      | None \<Rightarrow> db)"

subsection \<open>The operations\<close>

definition coord_get :: "int \<Rightarrow> coordinator \<Rightarrow> string \<Rightarrow> string \<Rightarrow> string option" where
  "coord_get now db namespace key = sql_get db namespace key now"

definition coord_put :: "int \<Rightarrow> coordinator \<Rightarrow> string \<Rightarrow> string \<Rightarrow> string \<Rightarrow> nat \<Rightarrow> coordinator" where
  "coord_put now db namespace key payload ttl_seconds =
     sql_upsert db namespace key payload (lease_until now ttl_seconds) now"

text \<open>\<^const>\<open>None\<close> is the \<open>RowNotFound\<close> error of \<open>fetch_one\<close>, which rolls the transaction back.\<close>

definition coord_get_or_insert ::
    "int \<Rightarrow> coordinator \<Rightarrow> string \<Rightarrow> string \<Rightarrow> string \<Rightarrow> nat \<Rightarrow> coordinator \<times> string option" where
  "coord_get_or_insert now db namespace key payload ttl_seconds =
     (let tx = sql_delete_expired db now;
          tx = sql_insert_if_absent tx namespace key payload (lease_until now ttl_seconds) now
      in case sql_get tx namespace key now of
           None \<Rightarrow> (db, None)
         | Some current \<Rightarrow>
             (sql_refresh tx (lease_until now ttl_seconds) now namespace key current, Some current))"

definition coord_replace_if_current ::
    "int \<Rightarrow> coordinator \<Rightarrow> string \<Rightarrow> string \<Rightarrow> string \<Rightarrow> string \<Rightarrow> nat \<Rightarrow> coordinator \<times> bool" where
  "coord_replace_if_current now db namespace key expected replacement ttl_seconds =
     (let (db, rows) = sql_replace db replacement (lease_until now ttl_seconds) now namespace key expected
      in (db, rows = 1))"

definition coord_delete :: "coordinator \<Rightarrow> string \<Rightarrow> string \<Rightarrow> coordinator \<times> bool" where
  "coord_delete db namespace key = (let (db, rows) = sql_delete db namespace key in (db, rows = 1))"

definition acquire_lease :: "int \<Rightarrow> coordinator \<Rightarrow> string \<Rightarrow> string \<Rightarrow> nat \<Rightarrow> coordinator \<times> bool" where
  "acquire_lease now db key owner ttl_seconds =
     (let (db, row) = sql_acquire_lease db key owner (lease_until now ttl_seconds) now
      in (db, is_some_and (\<lambda>value. value = owner) row))"

definition release_lease :: "coordinator \<Rightarrow> string \<Rightarrow> string \<Rightarrow> coordinator" where
  "release_lease db key owner = sql_release_lease db key owner"

subsection \<open>Laws of the store\<close>

lemma lease_until_later:
  assumes "int ttl_seconds \<le> i64_max" "now < i64_max"
  shows "now < lease_until now ttl_seconds"
proof -
  have "int (max ttl_seconds 1) \<le> i64_max" using assms(1) by (simp add: i64_max_def max_def)
  then have "u64_as_i64 (max ttl_seconds 1) = int (max ttl_seconds 1)" by (simp add: u64_as_i64_def)
  moreover have "1 \<le> int (max ttl_seconds 1)" by simp
  ultimately show ?thesis using assms(2) by (simp add: lease_until_def i64_saturating_add_def)
qed

lemma sql_get_upsert [simp]:
  "sql_get (sql_upsert db ns k p e n) ns' k' now =
     (if (ns', k') = (ns, k) then (if now < e then Some p else None) else sql_get db ns' k' now)"
  by (simp add: sql_get_def sql_upsert_def)

lemma sql_get_delete_expired [simp]: "sql_get (sql_delete_expired db now) ns k now = sql_get db ns k now"
  by (auto simp: sql_get_def sql_delete_expired_def opt_filter_def split: option.splits)

lemma sql_get_delete [simp]:
  "sql_get (fst (sql_delete db ns k)) ns' k' now = (if (ns', k') = (ns, k) then None else sql_get db ns' k' now)"
  by (simp add: sql_get_def sql_delete_def)

lemma sql_get_refresh:
  assumes "now < e"
  shows "sql_get (sql_refresh db e now ns k p) ns' k' now = sql_get db ns' k' now"
  using assms by (auto simp: sql_get_def sql_refresh_def split: option.split)

lemma sql_replace_eq:
  "sql_replace db r e now ns k x =
     (if sql_get db ns k now = Some x then (sql_upsert db ns k r e now, 1) else (db, 0))"
  by (auto simp: sql_replace_def sql_get_def split: option.splits)

lemma coord_get_or_insert_sound:
  assumes "int ttl \<le> i64_max" "now < i64_max"
    and "coord_get_or_insert now db ns k p ttl = (db', r)"
  shows "r = Some (opt_or_default p (sql_get db ns k now)) \<and>
    sql_get db' ns' k' now = (if (ns', k') = (ns, k) then r else sql_get db ns' k' now)"
proof -
  note e = lease_until_later [OF assms(1,2)]
  let ?tx = "sql_delete_expired db now"
  have live: "co_values ?tx (ns, k) = None \<longleftrightarrow> sql_get db ns k now = None"
    by (auto simp: sql_delete_expired_def sql_get_def opt_filter_def split: option.split)
  have i: "sql_get (sql_insert_if_absent ?tx ns k p (lease_until now ttl) now) ns' k' now =
      (if (ns', k') = (ns, k) then Some (opt_or_default p (sql_get db ns k now)) else sql_get db ns' k' now)"
    for ns' k'
    using live e by (cases "co_values ?tx (ns, k)") (auto simp: sql_insert_if_absent_def)
  show ?thesis
    using assms(3) i [of ns k] i [of ns' k'] sql_get_refresh [OF e]
    by (auto simp: coord_get_or_insert_def Let_def)
qed

subsection \<open>Leases\<close>

text \<open>
  A machine of owners acquiring and releasing leases at non-decreasing instants. \<open>ls_held\<close> records
  what each owner was told: the end of the lease its last successful acquisition granted.\<close>

record lease_system =
  ls_db :: coordinator
  ls_now :: int
  ls_held :: "string \<times> string \<rightharpoonup> int"

datatype lease_op =
    LeaseAcquire string string nat int
  | LeaseRelease string string

definition lease_init :: "lease_system \<Rightarrow> bool" where
  "lease_init s \<longleftrightarrow> ls_held s = Map.empty"

inductive lease_step :: "lease_system \<Rightarrow> lease_op \<Rightarrow> lease_system \<Rightarrow> bool" where
  acquire_granted:
    "\<lbrakk>ls_now s \<le> now; acquire_lease now (ls_db s) key owner ttl = (db, True)\<rbrakk> \<Longrightarrow>
     lease_step s (LeaseAcquire key owner ttl now)
       (s\<lparr>ls_db := db, ls_now := now, ls_held := (ls_held s)((key, owner) \<mapsto> lease_until now ttl)\<rparr>)"
| acquire_refused:
    "\<lbrakk>ls_now s \<le> now; acquire_lease now (ls_db s) key owner ttl = (db, False)\<rbrakk> \<Longrightarrow>
     lease_step s (LeaseAcquire key owner ttl now) (s\<lparr>ls_db := db, ls_now := now\<rparr>)"
| release:
    "lease_step s (LeaseRelease key owner)
       (s\<lparr>ls_db := release_lease (ls_db s) key owner, ls_held := (ls_held s)((key, owner) := None)\<rparr>)"

inductive_cases lease_stepE: "lease_step s op s'"

text \<open>Every grant that has not ended is the row of the table.\<close>

definition lease_inv :: "lease_system \<Rightarrow> bool" where
  "lease_inv s \<longleftrightarrow>
     (\<forall>key owner until. ls_held s (key, owner) = Some until \<longrightarrow> ls_now s < until \<longrightarrow>
        (\<exists>row. co_leases (ls_db s) key = Some row \<and> lr_owner row = owner \<and> lr_expires_at row = until))"

lemma live_lease_row:
  "\<lbrakk>lease_inv s; ls_held s (key, owner) = Some until; ls_now s < until\<rbrakk> \<Longrightarrow>
     \<exists>row. co_leases (ls_db s) key = Some row \<and> lr_owner row = owner \<and> lr_expires_at row = until"
  by (simp add: lease_inv_def)

lemma acquire_lease_eq:
  "acquire_lease now db key owner ttl =
     (if (case co_leases db key of None \<Rightarrow> True | Some row \<Rightarrow> lr_expires_at row \<le> now \<or> lr_owner row = owner)
      then (db\<lparr>co_leases := (co_leases db)(key \<mapsto>
              \<lparr>lr_owner = owner, lr_expires_at = lease_until now ttl, lr_updated_at = now\<rparr>)\<rparr>, True)
      else (db, False))"
  by (simp add: acquire_lease_def sql_acquire_lease_def Let_def split: option.split)

lemma lease_step_inv: "lease_step s op s' \<Longrightarrow> lease_inv s \<Longrightarrow> lease_inv s'"
proof (induction rule: lease_step.induct)
  case (acquire_granted s now key owner ttl db)
  have free: "case co_leases (ls_db s) key of None \<Rightarrow> True
      | Some row \<Rightarrow> lr_expires_at row \<le> now \<or> lr_owner row = owner"
    and db: "co_leases db = (co_leases (ls_db s))(key \<mapsto>
      \<lparr>lr_owner = owner, lr_expires_at = lease_until now ttl, lr_updated_at = now\<rparr>)"
    using acquire_granted(2) by (auto simp: acquire_lease_eq split: if_splits)
  show ?case
    unfolding lease_inv_def
  proof (intro allI impI)
    fix k o' until
    assume h: "ls_held (s\<lparr>ls_db := db, ls_now := now,
        ls_held := (ls_held s)((key, owner) \<mapsto> lease_until now ttl)\<rparr>) (k, o') = Some until"
      and t: "ls_now (s\<lparr>ls_db := db, ls_now := now,
        ls_held := (ls_held s)((key, owner) \<mapsto> lease_until now ttl)\<rparr>) < until"
    show "\<exists>row. co_leases (ls_db (s\<lparr>ls_db := db, ls_now := now,
        ls_held := (ls_held s)((key, owner) \<mapsto> lease_until now ttl)\<rparr>)) k = Some row \<and>
        lr_owner row = o' \<and> lr_expires_at row = until"
    proof (cases "(k, o') = (key, owner)")
      case True
      then show ?thesis using h by (auto simp: db)
    next
      case False
      then have "ls_held s (k, o') = Some until" "ls_now s < until" "now < until"
        using h t acquire_granted(1) by auto
      then obtain row where row: "co_leases (ls_db s) k = Some row" "lr_owner row = o'" "lr_expires_at row = until"
        using live_lease_row [OF acquire_granted.prems] by blast
      then have "k \<noteq> key" using free False \<open>now < until\<close> by auto
      then show ?thesis using row by (simp add: db)
    qed
  qed
next
  case (acquire_refused s now key owner ttl db)
  have "db = ls_db s" using acquire_refused(2) by (simp add: acquire_lease_eq split: if_splits)
  then show ?case using acquire_refused by (fastforce simp: lease_inv_def)
next
  case (release s key owner)
  then show ?case
    by (fastforce simp: lease_inv_def release_lease_def sql_release_lease_def split: option.split if_splits)
qed

interpretation leases: machine lease_init lease_step lease_inv
proof unfold_locales
  show "lease_inv s" if "lease_init s" for s using that by (simp add: lease_inv_def lease_init_def)
qed (rule lease_step_inv)

text \<open>
  C4: A lease has at most one live holder. However many owners acquire and release leases, in
  whatever order and with whatever durations, at every reachable point two owners whose last
  grant of the same key has not ended and was not released are the same owner; and as long as a
  grant lives, an acquisition by anyone else is refused and leaves the table as it is.\<close>

theorem lease_exclusive:
  assumes "reachable lease_init lease_step s"
    and "ls_held s (key, owner) = Some until" "ls_now s < until"
  shows "(ls_held s (key, owner') = Some until' \<longrightarrow> ls_now s < until' \<longrightarrow> owner' = owner) \<and>
    (owner' \<noteq> owner \<longrightarrow> ls_now s \<le> now \<longrightarrow> now < until \<longrightarrow>
       acquire_lease now (ls_db s) key owner' ttl = (ls_db s, False))"
proof -
  have inv: "lease_inv s" using assms(1) by (rule leases.reachable_inv)
  obtain row where row: "co_leases (ls_db s) key = Some row" "lr_owner row = owner" "lr_expires_at row = until"
    using live_lease_row [OF inv assms(2,3)] by blast
  show ?thesis
    using row live_lease_row [OF inv, of key owner' until'] by (auto simp: acquire_lease_eq)
qed

definition demo_lease :: lease_system where
  "demo_lease =
     \<lparr>ls_db = fst (acquire_lease 100 coordinator_empty ''job'' ''a'' 30), ls_now = 100,
      ls_held = [(''job'', ''a'') \<mapsto> 130]\<rparr>"

lemma demo_lease_reachable: "reachable lease_init lease_step demo_lease"
proof -
  let ?s = "\<lparr>ls_db = coordinator_empty, ls_now = 0, ls_held = Map.empty\<rparr>"
  have "lease_init ?s" by (simp add: lease_init_def)
  then have r: "reachable lease_init lease_step ?s" by (rule reach_init)
  have "lease_until 100 30 = 130" by (simp add: lease_until_def u64_as_i64_def i64_saturating_add_def i64_max_def i64_min_def)
  moreover have "acquire_lease 100 (ls_db ?s) ''job'' ''a'' 30 = (ls_db demo_lease, True)"
    by (simp add: demo_lease_def acquire_lease_eq coordinator_empty_def)
  ultimately have "lease_step ?s (LeaseAcquire ''job'' ''a'' 30 100) demo_lease"
    using acquire_granted [of ?s 100 "''job''" "''a''" 30 "ls_db demo_lease"] by (simp add: demo_lease_def)
  with r show ?thesis by (rule reach_step)
qed

lemma lease_exclusive_witness:
  "acquire_lease 129 (ls_db demo_lease) ''job'' ''b'' 30 = (ls_db demo_lease, False) \<and>
   snd (acquire_lease 130 (ls_db demo_lease) ''job'' ''b'' 30)"
proof -
  have "lease_until 100 30 = 130" by (simp add: lease_until_def u64_as_i64_def i64_saturating_add_def i64_max_def i64_min_def)
  then have "snd (acquire_lease 130 (ls_db demo_lease) ''job'' ''b'' 30)"
    by (simp add: demo_lease_def acquire_lease_eq coordinator_empty_def)
  then show ?thesis
    using lease_exclusive [OF demo_lease_reachable, of "''job''" "''a''" 130 "''b''" 0 129 30]
    by (simp add: demo_lease_def)
qed

end
