(* ===== verification/ResponseAffinity.thy ===== *)
theory ResponseAffinity
  imports UnifiedPool Coordinator "HOL-Library.AList"
begin

text \<open>
  The session-affinity store of \<open>src/response_affinity.rs\<close>: the in-process backend, the SQLite
  backend over theory Coordinator, the Valkey backend's three Lua scripts, and the unavailable
  one. A store operation takes the clock it reads, the state and its arguments and returns the new
  state with \<^term>\<open>Inr\<close> of its result or \<^term>\<open>Inl ()\<close> for an error. The JSON codec of a binding
  is the parameter \<open>codec\<close>, the commands of the Valkey server are the parameter \<open>redis_ops\<close>.

  \<open>affinity_contract\<close> states what the router relies on: reads do not change what is stored, a
  creation keeps an existing binding, and a replacement is a compare-and-swap. The in-process and
  the SQLite backend satisfy it; the last section shows what the SQLite reader, two statements
  without a transaction, loses when another worker runs between them.
\<close>

subsection \<open>Operations\<close>

type_synonym 'a outcome = "unit + 'a"

record 's affinity_ops =
  ao_get :: "clock \<Rightarrow> 's \<Rightarrow> string \<Rightarrow> 's \<times> affinity_binding option outcome"
  ao_peek :: "clock \<Rightarrow> 's \<Rightarrow> string \<Rightarrow> 's \<times> affinity_binding option outcome"
  ao_get_or_create :: "clock \<Rightarrow> 's \<Rightarrow> string \<Rightarrow> affinity_binding \<Rightarrow> 's \<times> affinity_binding outcome"
  ao_delete :: "clock \<Rightarrow> 's \<Rightarrow> string \<Rightarrow> 's \<times> bool outcome"
  ao_replace :: "clock \<Rightarrow> 's \<Rightarrow> string \<Rightarrow> affinity_binding \<Rightarrow> affinity_binding \<Rightarrow> 's \<times> bool outcome"

definition affinity_prefix :: string where "affinity_prefix = ''pfy:responses-affinity:''"

definition cache_key :: "(string \<Rightarrow> string) \<Rightarrow> int \<Rightarrow> uuid \<Rightarrow> string \<Rightarrow> string" where
  "cache_key sha user_id rule_id stable_identity =
     affinity_prefix @
     hex_digest (sha (dec_int user_id @ [CHR 0x00] @ uuid_bytes rule_id @ [CHR 0x00] @ stable_identity))"

definition unavailable_ops :: "'s affinity_ops" where
  "unavailable_ops =
     \<lparr>ao_get = (\<lambda>clk s key. (s, Inl ())), ao_peek = (\<lambda>clk s key. (s, Inl ())),
      ao_get_or_create = (\<lambda>clk s key b. (s, Inl ())), ao_delete = (\<lambda>clk s key. (s, Inl ())),
      ao_replace = (\<lambda>clk s key e r. (s, Inl ()))\<rparr>"

subsection \<open>The in-process backend\<close>

record local_entry =
  le_binding :: affinity_binding
  le_expires_at :: nat
  le_last_access :: nat

record local_affinity =
  la_bindings :: "(string \<times> local_entry) list"
  la_ttl :: nat
  la_max_entries :: nat
  la_next_access :: nat

definition local_with_ttl_and_capacity :: "nat \<Rightarrow> nat \<Rightarrow> local_affinity" where
  "local_with_ttl_and_capacity ttl max_entries =
     \<lparr>la_bindings = [], la_ttl = ttl, la_max_entries = max max_entries 1, la_next_access = 0\<rparr>"

text \<open>\<open>next_access.fetch_add(1)\<close>, a wrapping 64-bit counter; the value before the addition.\<close>

definition next_access :: "local_affinity \<Rightarrow> local_affinity \<times> nat" where
  "next_access s = (s\<lparr>la_next_access := (la_next_access s + 1) mod 2 ^ 64\<rparr>, la_next_access s)"

definition retain_live :: "nat \<Rightarrow> local_affinity \<Rightarrow> local_affinity" where
  "retain_live now s = s\<lparr>la_bindings := filter (\<lambda>(_, e). now < le_expires_at e) (la_bindings s)\<rparr>"

definition put_entry :: "local_affinity \<Rightarrow> string \<Rightarrow> nat \<Rightarrow> affinity_binding \<Rightarrow> local_affinity" where
  "put_entry s key now b =
     (let (s, access) = next_access s in
      s\<lparr>la_bindings := AList.update key
          \<lparr>le_binding = b, le_expires_at = now + la_ttl s, le_last_access = access\<rparr> (la_bindings s)\<rparr>)"

text \<open>The least recently used entry, the smaller key first among equals.\<close>

definition access_rank :: "string \<times> local_entry \<Rightarrow> nat \<times> nat list" where
  "access_rank e = (le_last_access (snd e), List.map byte (fst e))"

fun oldest_key :: "(string \<times> local_entry) list \<Rightarrow> string option" where
  "oldest_key [] = None"
| "oldest_key (e # es) =
     Some (fst (foldl (\<lambda>best x. if access_rank x < access_rank best then x else best) e es))"

definition evict_if_full :: "local_affinity \<Rightarrow> local_affinity" where
  "evict_if_full s =
     (if la_max_entries s \<le> length (la_bindings s)
      then (case oldest_key (la_bindings s) of
              Some oldest \<Rightarrow> s\<lparr>la_bindings := AList.delete oldest (la_bindings s)\<rparr>
            | None \<Rightarrow> s)
      else s)"

definition local_get :: "clock \<Rightarrow> local_affinity \<Rightarrow> string \<Rightarrow> local_affinity \<times> affinity_binding option outcome" where
  "local_get clk s key =
     (let now = clk_instant clk; s = retain_live now s in
      case map_of (la_bindings s) key of
        None \<Rightarrow> (s, Inr None)
      | Some entry \<Rightarrow> (put_entry s key now (le_binding entry), Inr (Some (le_binding entry))))"

definition local_peek :: "clock \<Rightarrow> local_affinity \<Rightarrow> string \<Rightarrow> local_affinity \<times> affinity_binding option outcome" where
  "local_peek clk s key =
     (let s = retain_live (clk_instant clk) s in
      (s, Inr (map_option le_binding (map_of (la_bindings s) key))))"

definition local_get_or_create ::
    "clock \<Rightarrow> local_affinity \<Rightarrow> string \<Rightarrow> affinity_binding \<Rightarrow> local_affinity \<times> affinity_binding outcome" where
  "local_get_or_create clk s key candidate =
     (let now = clk_instant clk; s = retain_live now s in
      case map_of (la_bindings s) key of
        Some entry \<Rightarrow> (put_entry s key now (le_binding entry), Inr (le_binding entry))
      | None \<Rightarrow> (put_entry (evict_if_full s) key now candidate, Inr candidate))"

definition local_delete :: "clock \<Rightarrow> local_affinity \<Rightarrow> string \<Rightarrow> local_affinity \<times> bool outcome" where
  "local_delete clk s key =
     (let s = retain_live (clk_instant clk) s in
      (s\<lparr>la_bindings := AList.delete key (la_bindings s)\<rparr>, Inr (map_of (la_bindings s) key \<noteq> None)))"

definition local_replace ::
    "clock \<Rightarrow> local_affinity \<Rightarrow> string \<Rightarrow> affinity_binding \<Rightarrow> affinity_binding \<Rightarrow>
     local_affinity \<times> bool outcome" where
  "local_replace clk s key expected replacement =
     (let now = clk_instant clk; s = retain_live now s in
      case map_of (la_bindings s) key of
        None \<Rightarrow> (s, Inr False)
      | Some entry \<Rightarrow>
          if le_binding entry \<noteq> expected then (s, Inr False)
          else (put_entry s key now replacement, Inr True))"

definition local_ops :: "local_affinity affinity_ops" where
  "local_ops =
     \<lparr>ao_get = local_get, ao_peek = local_peek, ao_get_or_create = local_get_or_create,
      ao_delete = local_delete, ao_replace = local_replace\<rparr>"

subsection \<open>The SQLite backend\<close>

record binding_codec =
  bc_to_string :: "affinity_binding \<Rightarrow> string"
  bc_from_str :: "string \<Rightarrow> affinity_binding option"

definition affinity_namespace :: string where "affinity_namespace = ''response-affinity''"

definition decode :: "binding_codec \<Rightarrow> string \<Rightarrow> affinity_binding outcome" where
  "decode codec payload = (case bc_from_str codec payload of Some b \<Rightarrow> Inr b | None \<Rightarrow> Inl ())"

text \<open>The reader is a \<open>get\<close> and, when it found a payload, a \<open>put\<close> of that payload.\<close>

definition sqlite_get_read :: "clock \<Rightarrow> coordinator \<Rightarrow> string \<Rightarrow> string option" where
  "sqlite_get_read clk db key = coord_get (unix_seconds clk) db affinity_namespace key"

definition sqlite_get_write ::
    "binding_codec \<Rightarrow> nat \<Rightarrow> clock \<Rightarrow> coordinator \<Rightarrow> string \<Rightarrow> string \<Rightarrow>
     coordinator \<times> affinity_binding option outcome" where
  "sqlite_get_write codec ttl clk db key payload =
     (coord_put (unix_seconds clk) db affinity_namespace key payload ttl,
      case decode codec payload of Inr b \<Rightarrow> Inr (Some b) | Inl e \<Rightarrow> Inl e)"

definition sqlite_get ::
    "binding_codec \<Rightarrow> nat \<Rightarrow> clock \<Rightarrow> coordinator \<Rightarrow> string \<Rightarrow> coordinator \<times> affinity_binding option outcome" where
  "sqlite_get codec ttl clk db key =
     (case sqlite_get_read clk db key of
        None \<Rightarrow> (db, Inr None)
      | Some payload \<Rightarrow> sqlite_get_write codec ttl clk db key payload)"

definition sqlite_peek ::
    "binding_codec \<Rightarrow> clock \<Rightarrow> coordinator \<Rightarrow> string \<Rightarrow> coordinator \<times> affinity_binding option outcome" where
  "sqlite_peek codec clk db key =
     (db, case coord_get (unix_seconds clk) db affinity_namespace key of
            None \<Rightarrow> Inr None
          | Some payload \<Rightarrow> (case decode codec payload of Inr b \<Rightarrow> Inr (Some b) | Inl e \<Rightarrow> Inl e))"

definition sqlite_get_or_create ::
    "binding_codec \<Rightarrow> nat \<Rightarrow> clock \<Rightarrow> coordinator \<Rightarrow> string \<Rightarrow> affinity_binding \<Rightarrow>
     coordinator \<times> affinity_binding outcome" where
  "sqlite_get_or_create codec ttl clk db key candidate =
     (case coord_get_or_insert (unix_seconds clk) db affinity_namespace key (bc_to_string codec candidate) ttl of
        (db, None) \<Rightarrow> (db, Inl ())
      | (db, Some value) \<Rightarrow> (db, decode codec value))"

definition sqlite_delete :: "clock \<Rightarrow> coordinator \<Rightarrow> string \<Rightarrow> coordinator \<times> bool outcome" where
  "sqlite_delete clk db key = (let (db, deleted) = coord_delete db affinity_namespace key in (db, Inr deleted))"

definition sqlite_replace ::
    "binding_codec \<Rightarrow> nat \<Rightarrow> clock \<Rightarrow> coordinator \<Rightarrow> string \<Rightarrow> affinity_binding \<Rightarrow> affinity_binding \<Rightarrow>
     coordinator \<times> bool outcome" where
  "sqlite_replace codec ttl clk db key expected replacement =
     (let (db, replaced) =
        coord_replace_if_current (unix_seconds clk) db affinity_namespace key
          (bc_to_string codec expected) (bc_to_string codec replacement) ttl
      in (db, Inr replaced))"

definition sqlite_ops :: "binding_codec \<Rightarrow> nat \<Rightarrow> coordinator affinity_ops" where
  "sqlite_ops codec ttl_seconds =
     (let ttl = max ttl_seconds 1 in
      \<lparr>ao_get = sqlite_get codec ttl, ao_peek = sqlite_peek codec,
       ao_get_or_create = sqlite_get_or_create codec ttl, ao_delete = sqlite_delete,
       ao_replace = sqlite_replace codec ttl\<rparr>)"

subsection \<open>The Valkey backend\<close>

text \<open>
  The commands the scripts call. A script runs atomically in the server, so a script is one
  function on the server's state. Instants are those of the server.\<close>

record 'r redis_ops =
  rd_get :: "clock \<Rightarrow> 'r \<Rightarrow> string \<Rightarrow> string option"
  rd_set_ex :: "clock \<Rightarrow> 'r \<Rightarrow> string \<Rightarrow> string \<Rightarrow> nat \<Rightarrow> 'r"
  rd_expire :: "clock \<Rightarrow> 'r \<Rightarrow> string \<Rightarrow> nat \<Rightarrow> 'r"
  rd_del :: "clock \<Rightarrow> 'r \<Rightarrow> string \<Rightarrow> 'r \<times> nat"

definition get_or_create_script :: "'r redis_ops \<Rightarrow> clock \<Rightarrow> 'r \<Rightarrow> string \<Rightarrow> string \<Rightarrow> nat \<Rightarrow> 'r \<times> string" where
  "get_or_create_script rd clk r key payload ttl =
     (case rd_get rd clk r key of
        Some current \<Rightarrow> (rd_expire rd clk r key ttl, current)
      | None \<Rightarrow> (rd_set_ex rd clk r key payload ttl, payload))"

definition get_and_refresh_script :: "'r redis_ops \<Rightarrow> clock \<Rightarrow> 'r \<Rightarrow> string \<Rightarrow> nat \<Rightarrow> 'r \<times> string option" where
  "get_and_refresh_script rd clk r key ttl =
     (case rd_get rd clk r key of
        None \<Rightarrow> (r, None)
      | Some payload \<Rightarrow> (rd_expire rd clk r key ttl, Some payload))"

definition replace_if_match_script ::
    "'r redis_ops \<Rightarrow> clock \<Rightarrow> 'r \<Rightarrow> string \<Rightarrow> string \<Rightarrow> string \<Rightarrow> nat \<Rightarrow> 'r \<times> nat" where
  "replace_if_match_script rd clk r key expected replacement ttl =
     (if rd_get rd clk r key = Some expected then (rd_set_ex rd clk r key replacement ttl, 1) else (r, 0))"

definition decode_opt :: "binding_codec \<Rightarrow> string option \<Rightarrow> affinity_binding option outcome" where
  "decode_opt codec payload =
     (case payload of
        None \<Rightarrow> Inr None
      | Some p \<Rightarrow> (case decode codec p of Inr b \<Rightarrow> Inr (Some b) | Inl e \<Rightarrow> Inl e))"

definition redis_get ::
    "'r redis_ops \<Rightarrow> binding_codec \<Rightarrow> nat \<Rightarrow> clock \<Rightarrow> 'r \<Rightarrow> string \<Rightarrow> 'r \<times> affinity_binding option outcome" where
  "redis_get rd codec ttl clk r key =
     (let (r, payload) = get_and_refresh_script rd clk r key ttl in (r, decode_opt codec payload))"

definition redis_peek ::
    "'r redis_ops \<Rightarrow> binding_codec \<Rightarrow> clock \<Rightarrow> 'r \<Rightarrow> string \<Rightarrow> 'r \<times> affinity_binding option outcome" where
  "redis_peek rd codec clk r key = (r, decode_opt codec (rd_get rd clk r key))"

definition redis_get_or_create ::
    "'r redis_ops \<Rightarrow> binding_codec \<Rightarrow> nat \<Rightarrow> clock \<Rightarrow> 'r \<Rightarrow> string \<Rightarrow> affinity_binding \<Rightarrow>
     'r \<times> affinity_binding outcome" where
  "redis_get_or_create rd codec ttl clk r key candidate =
     (let (r, payload) = get_or_create_script rd clk r key (bc_to_string codec candidate) ttl
      in (r, decode codec payload))"

definition redis_delete :: "'r redis_ops \<Rightarrow> clock \<Rightarrow> 'r \<Rightarrow> string \<Rightarrow> 'r \<times> bool outcome" where
  "redis_delete rd clk r key = (let (r, deleted) = rd_del rd clk r key in (r, Inr (0 < deleted)))"

definition redis_replace ::
    "'r redis_ops \<Rightarrow> binding_codec \<Rightarrow> nat \<Rightarrow> clock \<Rightarrow> 'r \<Rightarrow> string \<Rightarrow> affinity_binding \<Rightarrow> affinity_binding \<Rightarrow>
     'r \<times> bool outcome" where
  "redis_replace rd codec ttl clk r key expected replacement =
     (let (r, replaced) = replace_if_match_script rd clk r key (bc_to_string codec expected)
                            (bc_to_string codec replacement) ttl
      in (r, Inr (replaced = 1)))"

definition redis_affinity_ops :: "'r redis_ops \<Rightarrow> binding_codec \<Rightarrow> nat \<Rightarrow> 'r affinity_ops" where
  "redis_affinity_ops rd codec ttl_seconds =
     (let ttl = max ttl_seconds 1 in
      \<lparr>ao_get = redis_get rd codec ttl, ao_peek = redis_peek rd codec,
       ao_get_or_create = redis_get_or_create rd codec ttl, ao_delete = redis_delete rd,
       ao_replace = redis_replace rd codec ttl\<rparr>)"

subsection \<open>The contract\<close>

text \<open>
  \<open>live s clk\<close> is the map of bindings that have not ended at \<open>clk\<close>, \<open>good\<close> the well-formed states at
  a clock. An operation that fails promises nothing about the key, but keeps the state good.\<close>

locale affinity_contract =
  fixes ops :: "'s affinity_ops"
    and live :: "'s \<Rightarrow> clock \<Rightarrow> string \<rightharpoonup> affinity_binding"
    and good :: "'s \<Rightarrow> clock \<Rightarrow> bool"
  assumes get_law: "\<lbrakk>good s clk; ao_get ops clk s key = (s', Inr r)\<rbrakk> \<Longrightarrow>
      r = live s clk key \<and> live s' clk = live s clk \<and> good s' clk"
    and peek_law: "\<lbrakk>good s clk; ao_peek ops clk s key = (s', Inr r)\<rbrakk> \<Longrightarrow>
      r = live s clk key \<and> live s' clk = live s clk \<and> good s' clk"
    and create_law: "\<lbrakk>good s clk; ao_get_or_create ops clk s key b = (s', Inr x)\<rbrakk> \<Longrightarrow>
      x = opt_or_default b (live s clk key) \<and> live s' clk key = Some x \<and>
      (\<forall>k. k \<noteq> key \<longrightarrow> live s' clk k = live s clk k \<or> live s clk key = None \<and> live s' clk k = None) \<and> good s' clk"
    and delete_law: "\<lbrakk>good s clk; ao_delete ops clk s key = (s', Inr d)\<rbrakk> \<Longrightarrow>
      (live s clk key \<noteq> None \<longrightarrow> d) \<and> live s' clk = (live s clk)(key := None) \<and> good s' clk"
    and replace_law: "\<lbrakk>good s clk; ao_replace ops clk s key e b = (s', Inr d)\<rbrakk> \<Longrightarrow>
      (d \<longleftrightarrow> live s clk key = Some e) \<and>
      live s' clk = (if d then (live s clk)(key \<mapsto> b) else live s clk) \<and> good s' clk"
begin

text \<open>Two compare-and-swaps from the same expected binding: at most the first succeeds.\<close>

lemma one_winner:
  assumes "good s clk" "ao_replace ops clk s key e b = (s1, Inr r1)" "ao_replace ops clk s1 key e c = (s2, Inr r2)"
    and "b \<noteq> e"
  shows "\<not> (r1 \<and> r2)"
  using replace_law [OF assms(1,2)] replace_law [OF _ assms(3)] assms(4) by auto

text \<open>Racing creators of a session agree on one binding.\<close>

lemma creators_agree:
  assumes "good s clk" "ao_get_or_create ops clk s key b = (s1, Inr x)" "ao_get_or_create ops clk s1 key c = (s2, Inr y)"
  shows "x = y"
  using create_law [OF assms(1,2)] create_law [OF _ assms(3)] by auto

lemma read_back:
  assumes "good s clk" "ao_get_or_create ops clk s key b = (s1, Inr x)" "ao_get ops clk s1 key = (s2, Inr y)"
  shows "y = Some x"
  using create_law [OF assms(1,2)] get_law [OF _ assms(3)] by auto

end

subsection \<open>The in-process backend keeps the contract\<close>

definition local_live :: "local_affinity \<Rightarrow> clock \<Rightarrow> string \<rightharpoonup> affinity_binding" where
  "local_live s clk key =
     Option.bind (map_of (la_bindings s) key) (\<lambda>e.
       if clk_instant clk < le_expires_at e then Some (le_binding e) else None)"

definition local_good :: "local_affinity \<Rightarrow> clock \<Rightarrow> bool" where
  "local_good s clk \<longleftrightarrow> distinct (List.map fst (la_bindings s)) \<and>
     length (la_bindings s) \<le> la_max_entries s \<and> 0 < la_max_entries s \<and> 0 < la_ttl s"

lemma distinct_filter_fst: "distinct (List.map fst xs) \<Longrightarrow> distinct (List.map fst (filter P xs))"
  by (induction xs) auto

lemma map_of_filter_distinct:
  "distinct (List.map fst xs) \<Longrightarrow>
     map_of (filter (\<lambda>(_, e). P e) xs) k = opt_filter P (map_of xs k)"
proof (induction xs)
  case (Cons x xs)
  then show ?case by (cases x) (auto simp: map_of_eq_None_iff dest!: map_of_SomeD split: option.splits
      simp: opt_filter_def)
qed simp

lemma retain_live_sel [simp]:
  "la_ttl (retain_live now s) = la_ttl s" "la_max_entries (retain_live now s) = la_max_entries s"
  by (simp_all add: retain_live_def)

lemma retain_live_good: "local_good s clk \<Longrightarrow> local_good (retain_live now s) clk"
  by (auto simp: local_good_def retain_live_def distinct_filter_fst intro: le_trans [OF length_filter_le])

lemma retain_live_map:
  "local_good s clk \<Longrightarrow>
     map_of (la_bindings (retain_live now s)) k = opt_filter (\<lambda>e. now < le_expires_at e) (map_of (la_bindings s) k)"
  by (simp add: retain_live_def local_good_def map_of_filter_distinct)

lemma local_live_retain:
  assumes "local_good s clk"
  shows "local_live (retain_live (clk_instant clk) s) clk = local_live s clk"
    and "map_option le_binding (map_of (la_bindings (retain_live (clk_instant clk) s)) k) = local_live s clk k"
  using retain_live_map [OF assms, of "clk_instant clk"]
  by (auto simp: local_live_def opt_filter_def fun_eq_iff split: option.splits)

lemma put_entry_sel [simp]:
  "la_ttl (put_entry s key now b) = la_ttl s" "la_max_entries (put_entry s key now b) = la_max_entries s"
  by (simp_all add: put_entry_def next_access_def)

lemma put_entry_live:
  "0 < la_ttl s \<Longrightarrow> local_live (put_entry s key (clk_instant clk) b) clk = (local_live s clk)(key \<mapsto> b)"
  by (auto simp: local_live_def put_entry_def next_access_def update_conv' fun_eq_iff)

lemma update_length:
  "length (AList.update k v xs) = (if map_of xs k = None then Suc (length xs) else length xs)"
  by (induction xs) auto

lemma put_entry_good:
  assumes "local_good s clk" "map_of (la_bindings s) key \<noteq> None \<or> length (la_bindings s) < la_max_entries s"
  shows "local_good (put_entry s key now b) clk"
  using assms by (auto simp: local_good_def put_entry_def next_access_def update_length distinct_update)

lemma foldl_choice_in: "foldl (\<lambda>best x. if P x best then x else best) e es \<in> insert e (set es)"
proof (induction es arbitrary: e)
  case (Cons a es)
  show ?case using Cons.IH [of "if P a e then a else e"] by (auto split: if_splits)
qed simp

lemma oldest_key_in: "xs \<noteq> [] \<Longrightarrow> \<exists>k. oldest_key xs = Some k \<and> k \<in> fst ` set xs"
proof (cases xs)
  case (Cons e es)
  have "foldl (\<lambda>best x. if access_rank x < access_rank best then x else best) e es \<in> set (e # es)"
    using foldl_choice_in [of "\<lambda>x best. access_rank x < access_rank best" e es] by simp
  then show ?thesis using Cons by auto
qed simp

lemma delete_length: "k \<in> fst ` set xs \<Longrightarrow> length (AList.delete k xs) < length xs"
  by (auto simp: AList.delete_eq intro: length_filter_less)

lemma evict_good:
  assumes "local_good s clk"
  shows "local_good (evict_if_full s) clk \<and> length (la_bindings (evict_if_full s)) < la_max_entries s \<and>
    la_max_entries (evict_if_full s) = la_max_entries s \<and> la_ttl (evict_if_full s) = la_ttl s"
proof (cases "la_max_entries s \<le> length (la_bindings s)")
  case False
  then show ?thesis using assms by (simp add: evict_if_full_def)
next
  case True
  then have "la_bindings s \<noteq> []" using assms by (auto simp: local_good_def)
  then obtain k where k: "oldest_key (la_bindings s) = Some k" "k \<in> fst ` set (la_bindings s)"
    using oldest_key_in by blast
  have "length (AList.delete k (la_bindings s)) < length (la_bindings s)" by (rule delete_length [OF k(2)])
  then show ?thesis using assms True by (auto simp: evict_if_full_def k(1) local_good_def distinct_delete)
qed

lemma evict_live: "local_live (evict_if_full s) clk k = local_live s clk k \<or> local_live (evict_if_full s) clk k = None"
  by (auto simp: evict_if_full_def local_live_def delete_conv' split: option.split)

interpretation in_process: affinity_contract local_ops local_live local_good
proof unfold_locales
  fix s clk key s' r
  assume g: "local_good s clk" and op: "ao_get local_ops clk s key = (s', Inr r)"
  let ?s = "retain_live (clk_instant clk) s"
  note l = local_live_retain [OF g] and gr = retain_live_good [OF g]
  show "r = local_live s clk key \<and> local_live s' clk = local_live s clk \<and> local_good s' clk"
  proof (cases "map_of (la_bindings ?s) key")
    case None
    then show ?thesis using op l(2) [of key] l(1) gr by (auto simp: local_ops_def local_get_def Let_def)
  next
    case (Some e)
    have p: "s' = put_entry ?s key (clk_instant clk) (le_binding e)" "r = Some (le_binding e)"
      using op Some by (auto simp: local_ops_def local_get_def Let_def)
    have "local_live s clk key = Some (le_binding e)" using l(2) [of key] Some by simp
    moreover have "local_live s' clk = (local_live s clk)(key \<mapsto> le_binding e)"
      using g l(1) by (simp add: p(1) put_entry_live local_good_def)
    ultimately show ?thesis using p(2) put_entry_good [OF gr] Some by (auto simp: p(1))
  qed
next
  fix s clk key s' r
  assume g: "local_good s clk" and op: "ao_peek local_ops clk s key = (s', Inr r)"
  show "r = local_live s clk key \<and> local_live s' clk = local_live s clk \<and> local_good s' clk"
    using op local_live_retain [OF g] retain_live_good [OF g] by (auto simp: local_ops_def local_peek_def Let_def)
next
  fix s clk key b s' r
  assume g: "local_good s clk" and op: "ao_get_or_create local_ops clk s key b = (s', Inr r)"
  let ?s = "retain_live (clk_instant clk) s"
  note l = local_live_retain [OF g] and gr = retain_live_good [OF g]
  show "r = opt_or_default b (local_live s clk key) \<and> local_live s' clk key = Some r \<and>
      (\<forall>k. k \<noteq> key \<longrightarrow> local_live s' clk k = local_live s clk k \<or> local_live s clk key = None \<and> local_live s' clk k = None) \<and>
      local_good s' clk"
  proof (cases "map_of (la_bindings ?s) key")
    case None
    have p: "s' = put_entry (evict_if_full ?s) key (clk_instant clk) b" "r = b"
      using op None by (auto simp: local_ops_def local_get_or_create_def Let_def)
    note ev = evict_good [OF gr]
    have "local_live s clk key = None" using l(2) [of key] None by simp
    moreover have "local_live s' clk = (local_live (evict_if_full ?s) clk)(key \<mapsto> b)"
      using ev g by (simp add: p(1) put_entry_live local_good_def)
    moreover have "local_good s' clk" using ev by (auto simp: p(1) intro: put_entry_good)
    ultimately show ?thesis using evict_live [of ?s clk] l(1) p(2) by auto
  next
    case (Some e)
    have p: "s' = put_entry ?s key (clk_instant clk) (le_binding e)" "r = le_binding e"
      using op Some by (auto simp: local_ops_def local_get_or_create_def Let_def)
    have "local_live s clk key = Some (le_binding e)" using l(2) [of key] Some by simp
    moreover have "local_live s' clk = (local_live s clk)(key \<mapsto> le_binding e)"
      using g l(1) by (simp add: p(1) put_entry_live local_good_def)
    ultimately show ?thesis using p(2) put_entry_good [OF gr] Some by (auto simp: p(1))
  qed
next
  fix s clk key s' r
  assume g: "local_good s clk" and op: "ao_delete local_ops clk s key = (s', Inr r)"
  let ?s = "retain_live (clk_instant clk) s"
  note l = local_live_retain [OF g] and gr = retain_live_good [OF g]
  have p: "s' = ?s\<lparr>la_bindings := AList.delete key (la_bindings ?s)\<rparr>" "r = (map_of (la_bindings ?s) key \<noteq> None)"
    using op by (auto simp: local_ops_def local_delete_def Let_def)
  have "local_live s' clk = (local_live ?s clk)(key := None)"
    by (auto simp: p(1) local_live_def delete_conv' fun_eq_iff)
  moreover have "local_live s clk key \<noteq> None \<longrightarrow> r" using l(2) [of key] p(2) by auto
  moreover have "local_good s' clk"
    using gr by (auto simp: p(1) local_good_def distinct_delete intro: le_trans [OF length_delete_le])
  ultimately show "(local_live s clk key \<noteq> None \<longrightarrow> r) \<and> local_live s' clk = (local_live s clk)(key := None) \<and> local_good s' clk"
    by (simp add: l(1))
next
  fix s clk key e b s' r
  assume g: "local_good s clk" and op: "ao_replace local_ops clk s key e b = (s', Inr r)"
  let ?s = "retain_live (clk_instant clk) s"
  note l = local_live_retain [OF g] and gr = retain_live_good [OF g]
  show "(r \<longleftrightarrow> local_live s clk key = Some e) \<and>
      local_live s' clk = (if r then (local_live s clk)(key \<mapsto> b) else local_live s clk) \<and> local_good s' clk"
  proof (cases "map_of (la_bindings ?s) key")
    case None
    then show ?thesis using op l(2) [of key] l(1) gr by (auto simp: local_ops_def local_replace_def Let_def)
  next
    case (Some x)
    then have v: "local_live s clk key = Some (le_binding x)" using l(2) [of key] by simp
    show ?thesis
    proof (cases "le_binding x = e")
      case True
      have p: "s' = put_entry ?s key (clk_instant clk) b" "r = True"
        using op Some True by (auto simp: local_ops_def local_replace_def Let_def)
      then show ?thesis using v True g l(1) put_entry_good [OF gr] Some
        by (simp add: put_entry_live local_good_def)
    next
      case False
      then have "s' = ?s" "r = False" using op Some by (auto simp: local_ops_def local_replace_def Let_def)
      then show ?thesis using v False l(1) gr by simp
    qed
  qed
qed


subsection \<open>The SQLite and Valkey backends keep the contract\<close>

definition codec_ok :: "binding_codec \<Rightarrow> bool" where
  "codec_ok codec \<longleftrightarrow> (\<forall>b. bc_from_str codec (bc_to_string codec b) = Some b)"

definition decode_live :: "binding_codec \<Rightarrow> string option \<Rightarrow> affinity_binding option" where
  "decode_live codec payload = Option.bind payload (bc_from_str codec)"

text \<open>Every payload of the namespace was written by this code.\<close>

definition canonical :: "binding_codec \<Rightarrow> string option \<Rightarrow> bool" where
  "canonical codec payload \<longleftrightarrow> (\<forall>p. payload = Some p \<longrightarrow> (\<exists>b. p = bc_to_string codec b))"

lemma decode_canonical:
  assumes "codec_ok codec" "canonical codec payload"
  shows "payload = map_option (bc_to_string codec) (decode_live codec payload)"
    and "payload = Some p \<Longrightarrow> decode codec p = Inr (the (decode_live codec payload)) \<and> decode_live codec payload \<noteq> None"
  using assms by (cases payload; auto simp: codec_ok_def canonical_def decode_live_def decode_def)+

lemma decode_to_string [simp]: "codec_ok codec \<Longrightarrow> decode_live codec (Some (bc_to_string codec b)) = Some b"
  by (simp add: codec_ok_def decode_live_def)

lemma to_string_inj: "codec_ok codec \<Longrightarrow> bc_to_string codec a = bc_to_string codec b \<longleftrightarrow> a = b"
  by (metis codec_ok_def option.inject)

lemma canonical_simps [simp]: "canonical codec None" "canonical codec (Some (bc_to_string codec b))"
  by (auto simp: canonical_def)

lemma canonical_equals:
  "\<lbrakk>codec_ok codec; canonical codec payload\<rbrakk> \<Longrightarrow>
     payload = Some (bc_to_string codec e) \<longleftrightarrow> decode_live codec payload = Some e"
  using decode_canonical(1) by fastforce

definition sqlite_payload :: "coordinator \<Rightarrow> clock \<Rightarrow> string \<Rightarrow> string option" where
  "sqlite_payload db clk key = sql_get db affinity_namespace key (unix_seconds clk)"

definition sqlite_live :: "binding_codec \<Rightarrow> coordinator \<Rightarrow> clock \<Rightarrow> string \<rightharpoonup> affinity_binding" where
  "sqlite_live codec db clk key = decode_live codec (sqlite_payload db clk key)"

definition sqlite_good :: "binding_codec \<Rightarrow> nat \<Rightarrow> coordinator \<Rightarrow> clock \<Rightarrow> bool" where
  "sqlite_good codec ttl db clk \<longleftrightarrow>
     codec_ok codec \<and> int ttl \<le> i64_max \<and> unix_seconds clk < i64_max \<and>
     (\<forall>key. canonical codec (sqlite_payload db clk key))"

lemma sqlite_until: "sqlite_good codec ttl db clk \<Longrightarrow> unix_seconds clk < lease_until (unix_seconds clk) (max ttl 1)"
  by (intro lease_until_later) (auto simp: sqlite_good_def i64_max_def)

lemma sqlite_put_payload:
  assumes "sqlite_good codec ttl db clk"
  shows "sqlite_payload (sql_upsert db affinity_namespace key p (lease_until (unix_seconds clk) (max ttl 1)) (unix_seconds clk)) clk k =
    (if k = key then Some p else sqlite_payload db clk k)"
  using sqlite_until [OF assms] by (simp add: sqlite_payload_def)

interpretation sqlite: affinity_contract "sqlite_ops codec ttl" "sqlite_live codec" "sqlite_good codec ttl"
  for codec ttl
proof unfold_locales
  fix s clk key s' r
  assume g: "sqlite_good codec ttl s clk" and op: "ao_get (sqlite_ops codec ttl) clk s key = (s', Inr r)"
  have c: "codec_ok codec" "canonical codec (sqlite_payload s clk key)" using g by (auto simp: sqlite_good_def)
  show "r = sqlite_live codec s clk key \<and> sqlite_live codec s' clk = sqlite_live codec s clk \<and> sqlite_good codec ttl s' clk"
  proof (cases "sqlite_payload s clk key")
    case None
    then show ?thesis
      using op g by (auto simp: sqlite_ops_def sqlite_get_def sqlite_get_read_def coord_get_def sqlite_payload_def
          sqlite_live_def decode_live_def Let_def)
  next
    case (Some p)
    have s': "s' = sql_upsert s affinity_namespace key p (lease_until (unix_seconds clk) (max ttl 1)) (unix_seconds clk)"
      and r: "(case decode codec p of Inr b \<Rightarrow> Inr (Some b) | Inl e \<Rightarrow> Inl e) = (Inr r :: affinity_binding option outcome)"
      using op Some by (auto simp: sqlite_ops_def sqlite_get_def sqlite_get_read_def sqlite_get_write_def
          coord_get_def coord_put_def sqlite_payload_def Let_def)
    have same: "sqlite_payload s' clk k = sqlite_payload s clk k" for k
      using sqlite_put_payload [OF g] Some by (simp add: s')
    have "r = sqlite_live codec s clk key"
      using r decode_canonical(2) [OF c Some] by (auto simp: sqlite_live_def)
    then show ?thesis using same g by (simp add: sqlite_live_def sqlite_good_def fun_eq_iff)
  qed
next
  fix s clk key s' r
  assume g: "sqlite_good codec ttl s clk" and op: "ao_peek (sqlite_ops codec ttl) clk s key = (s', Inr r)"
  have c: "codec_ok codec" "canonical codec (sqlite_payload s clk key)" using g by (auto simp: sqlite_good_def)
  show "r = sqlite_live codec s clk key \<and> sqlite_live codec s' clk = sqlite_live codec s clk \<and> sqlite_good codec ttl s' clk"
    using op g decode_canonical(2) [OF c]
    by (cases "sqlite_payload s clk key")
      (auto simp: sqlite_ops_def sqlite_peek_def coord_get_def sqlite_payload_def sqlite_live_def decode_live_def Let_def)
next
  fix s clk key b s' x
  assume g: "sqlite_good codec ttl s clk" and op: "ao_get_or_create (sqlite_ops codec ttl) clk s key b = (s', Inr x)"
  let ?now = "unix_seconds clk" and ?p = "bc_to_string codec b"
  have b: "int (max ttl 1) \<le> i64_max" "?now < i64_max" using g by (auto simp: sqlite_good_def i64_max_def)
  obtain v where v: "coord_get_or_insert ?now s affinity_namespace key ?p (max ttl 1) = (s', Some v)"
      "decode codec v = Inr x"
    using op by (auto simp: sqlite_ops_def sqlite_get_or_create_def Let_def split: prod.splits option.splits)
  note l = coord_get_or_insert_sound [OF b v(1)]
  have c: "codec_ok codec" "\<And>k. canonical codec (sqlite_payload s clk k)" using g by (auto simp: sqlite_good_def)
  have pv: "v = opt_or_default ?p (sqlite_payload s clk key)"
    and pl: "sqlite_payload s' clk k = (if k = key then Some v else sqlite_payload s clk k)" for k
    using l by (auto simp: sqlite_payload_def)
  have can: "canonical codec (Some v)" using c(2) [of key] by (cases "sqlite_payload s clk key") (auto simp: pv)
  have x: "decode_live codec (Some v) = Some x"
    using decode_canonical(2) [OF c(1) can refl] v(2) by auto
  have "x = opt_or_default b (sqlite_live codec s clk key)"
    using x c(1) by (cases "sqlite_payload s clk key") (auto simp: pv sqlite_live_def decode_live_def codec_ok_def)
  then show "x = opt_or_default b (sqlite_live codec s clk key) \<and> sqlite_live codec s' clk key = Some x \<and>
      (\<forall>k. k \<noteq> key \<longrightarrow> sqlite_live codec s' clk k = sqlite_live codec s clk k \<or>
        sqlite_live codec s clk key = None \<and> sqlite_live codec s' clk k = None) \<and> sqlite_good codec ttl s' clk"
    using x g can pl by (auto simp: sqlite_live_def sqlite_good_def)
next
  fix s clk key s' d
  assume g: "sqlite_good codec ttl s clk" and op: "ao_delete (sqlite_ops codec ttl) clk s key = (s', Inr d)"
  have s': "s' = fst (sql_delete s affinity_namespace key)" and d: "d = (co_values s (affinity_namespace, key) \<noteq> None)"
    using op by (auto simp: sqlite_ops_def sqlite_delete_def coord_delete_def sql_delete_def Let_def split: option.splits)
  have pl: "sqlite_payload s' clk k = (if k = key then None else sqlite_payload s clk k)" for k
    by (simp add: sqlite_payload_def s')
  have "sqlite_live codec s clk key \<noteq> None \<longrightarrow> d"
    by (auto simp: sqlite_live_def sqlite_payload_def decode_live_def sql_get_def d bind_eq_Some_conv)
  then show "(sqlite_live codec s clk key \<noteq> None \<longrightarrow> d) \<and>
      sqlite_live codec s' clk = (sqlite_live codec s clk)(key := None) \<and> sqlite_good codec ttl s' clk"
    using g pl by (auto simp: sqlite_live_def sqlite_good_def fun_eq_iff decode_live_def)
next
  fix s clk key e b s' d
  assume g: "sqlite_good codec ttl s clk" and op: "ao_replace (sqlite_ops codec ttl) clk s key e b = (s', Inr d)"
  let ?now = "unix_seconds clk"
  have c: "codec_ok codec" "canonical codec (sqlite_payload s clk key)" using g by (auto simp: sqlite_good_def)
  have s': "s' = (if d then sql_upsert s affinity_namespace key (bc_to_string codec b)
        (lease_until ?now (max ttl 1)) ?now else s)"
    and d: "d \<longleftrightarrow> sqlite_payload s clk key = Some (bc_to_string codec e)"
    using op by (auto simp: sqlite_ops_def sqlite_replace_def coord_replace_if_current_def sql_replace_eq
        sqlite_payload_def Let_def split: if_splits)
  have pl: "sqlite_payload s' clk k = (if d \<and> k = key then Some (bc_to_string codec b) else sqlite_payload s clk k)" for k
    using sqlite_put_payload [OF g] by (simp add: s')
  show "(d \<longleftrightarrow> sqlite_live codec s clk key = Some e) \<and>
      sqlite_live codec s' clk = (if d then (sqlite_live codec s clk)(key \<mapsto> b) else sqlite_live codec s clk) \<and>
      sqlite_good codec ttl s' clk"
    using d canonical_equals [OF c] pl g c(1) by (auto simp: sqlite_live_def sqlite_good_def fun_eq_iff)
qed

text \<open>The documented behaviour of the commands, at one instant of the server.\<close>

definition redis_ok :: "'r redis_ops \<Rightarrow> bool" where
  "redis_ok rd \<longleftrightarrow>
     (\<forall>clk r k k' p n. 0 < n \<longrightarrow>
        rd_get rd clk (rd_set_ex rd clk r k p n) k' = (if k' = k then Some p else rd_get rd clk r k')) \<and>
     (\<forall>clk r k k' n. 0 < n \<longrightarrow> rd_get rd clk (rd_expire rd clk r k n) k' = rd_get rd clk r k') \<and>
     (\<forall>clk r k k'. rd_get rd clk (fst (rd_del rd clk r k)) k' = (if k' = k then None else rd_get rd clk r k') \<and>
        (0 < snd (rd_del rd clk r k) \<longleftrightarrow> rd_get rd clk r k \<noteq> None))"

definition redis_live :: "'r redis_ops \<Rightarrow> binding_codec \<Rightarrow> 'r \<Rightarrow> clock \<Rightarrow> string \<rightharpoonup> affinity_binding" where
  "redis_live rd codec r clk key = decode_live codec (rd_get rd clk r key)"

definition redis_good :: "'r redis_ops \<Rightarrow> binding_codec \<Rightarrow> 'r \<Rightarrow> clock \<Rightarrow> bool" where
  "redis_good rd codec r clk \<longleftrightarrow>
     redis_ok rd \<and> codec_ok codec \<and> (\<forall>key. canonical codec (rd_get rd clk r key))"

lemma redis_okD:
  assumes "redis_ok rd"
  shows "0 < n \<Longrightarrow> rd_get rd clk (rd_set_ex rd clk r k p n) k' = (if k' = k then Some p else rd_get rd clk r k')"
    and "0 < n \<Longrightarrow> rd_get rd clk (rd_expire rd clk r k n) k' = rd_get rd clk r k'"
    and "rd_get rd clk (fst (rd_del rd clk r k)) k' = (if k' = k then None else rd_get rd clk r k')"
    and "0 < snd (rd_del rd clk r k) \<longleftrightarrow> rd_get rd clk r k \<noteq> None"
  using assms by (auto simp: redis_ok_def)

lemmas redis_script_defs = redis_affinity_ops_def redis_get_def redis_peek_def redis_get_or_create_def
  redis_delete_def redis_replace_def decode_opt_def get_and_refresh_script_def get_or_create_script_def
  replace_if_match_script_def Let_def

interpretation redis: affinity_contract "redis_affinity_ops rd codec ttl" "redis_live rd codec" "redis_good rd codec"
  for rd codec ttl
proof unfold_locales
  fix s clk key s' r
  assume g: "redis_good rd codec s clk" and op: "ao_get (redis_affinity_ops rd codec ttl) clk s key = (s', Inr r)"
  have ok: "redis_ok rd" and c: "codec_ok codec" "canonical codec (rd_get rd clk s key)"
    using g by (auto simp: redis_good_def)
  show "r = redis_live rd codec s clk key \<and> redis_live rd codec s' clk = redis_live rd codec s clk \<and> redis_good rd codec s' clk"
    using op g decode_canonical(2) [OF c] redis_okD(2) [OF ok, of "max ttl 1"]
    by (cases "rd_get rd clk s key")
      (auto simp: redis_script_defs redis_live_def redis_good_def decode_live_def fun_eq_iff)
next
  fix s clk key s' r
  assume g: "redis_good rd codec s clk" and op: "ao_peek (redis_affinity_ops rd codec ttl) clk s key = (s', Inr r)"
  have c: "codec_ok codec" "canonical codec (rd_get rd clk s key)" using g by (auto simp: redis_good_def)
  show "r = redis_live rd codec s clk key \<and> redis_live rd codec s' clk = redis_live rd codec s clk \<and> redis_good rd codec s' clk"
    using op g decode_canonical(2) [OF c]
    by (cases "rd_get rd clk s key") (auto simp: redis_script_defs redis_live_def decode_live_def)
next
  fix s clk key b s' x
  assume g: "redis_good rd codec s clk"
    and op: "ao_get_or_create (redis_affinity_ops rd codec ttl) clk s key b = (s', Inr x)"
  have ok: "redis_ok rd" and c: "codec_ok codec" "canonical codec (rd_get rd clk s key)"
    using g by (auto simp: redis_good_def)
  show "x = opt_or_default b (redis_live rd codec s clk key) \<and> redis_live rd codec s' clk key = Some x \<and>
      (\<forall>k. k \<noteq> key \<longrightarrow> redis_live rd codec s' clk k = redis_live rd codec s clk k \<or>
        redis_live rd codec s clk key = None \<and> redis_live rd codec s' clk k = None) \<and> redis_good rd codec s' clk"
    using op g decode_canonical(2) [OF c] redis_okD(1,2) [OF ok, of "max ttl 1"] decode_canonical(2) [OF c(1), of "Some (bc_to_string codec b)"]
    by (cases "rd_get rd clk s key")
      (auto simp: redis_script_defs redis_live_def redis_good_def decode_live_def codec_ok_def)
next
  fix s clk key s' d
  assume g: "redis_good rd codec s clk" and op: "ao_delete (redis_affinity_ops rd codec ttl) clk s key = (s', Inr d)"
  have ok: "redis_ok rd" using g by (simp add: redis_good_def)
  have s': "s' = fst (rd_del rd clk s key)" "d = (0 < snd (rd_del rd clk s key))"
    using op by (auto simp: redis_script_defs case_prod_unfold)
  show "(redis_live rd codec s clk key \<noteq> None \<longrightarrow> d) \<and>
      redis_live rd codec s' clk = (redis_live rd codec s clk)(key := None) \<and> redis_good rd codec s' clk"
    using g redis_okD(3,4) [OF ok]
    by (auto simp: s' redis_live_def redis_good_def decode_live_def fun_eq_iff bind_eq_Some_conv)
next
  fix s clk key e b s' d
  assume g: "redis_good rd codec s clk" and op: "ao_replace (redis_affinity_ops rd codec ttl) clk s key e b = (s', Inr d)"
  have ok: "redis_ok rd" and c: "codec_ok codec" "canonical codec (rd_get rd clk s key)"
    using g by (auto simp: redis_good_def)
  have s': "s' = (if d then rd_set_ex rd clk s key (bc_to_string codec b) (max ttl 1) else s)"
    and d: "d \<longleftrightarrow> rd_get rd clk s key = Some (bc_to_string codec e)"
    using op by (auto simp: redis_script_defs split: if_splits)
  show "(d \<longleftrightarrow> redis_live rd codec s clk key = Some e) \<and>
      redis_live rd codec s' clk = (if d then (redis_live rd codec s clk)(key \<mapsto> b) else redis_live rd codec s clk) \<and>
      redis_good rd codec s' clk"
    using d canonical_equals [OF c] redis_okD(1) [OF ok, of "max ttl 1"] g c(1)
    by (auto simp: s' redis_live_def redis_good_def fun_eq_iff)
qed


subsection \<open>Stores that answer\<close>

text \<open>
  A store whose operations do not fail in a good state. The Valkey and SQLite models fail only on
  a payload that does not decode; that a connection may be lost is left to the \<open>outcome\<close> type.\<close>

locale affinity_answers = affinity_contract ops live good
  for ops :: "'s affinity_ops" and live :: "'s \<Rightarrow> clock \<Rightarrow> string \<rightharpoonup> affinity_binding"
    and good :: "'s \<Rightarrow> clock \<Rightarrow> bool" +
  assumes get_answers: "good s clk \<Longrightarrow> \<exists>s' x. ao_get ops clk s key = (s', Inr x)"
    and create_answers: "good s clk \<Longrightarrow> \<exists>s' x. ao_get_or_create ops clk s key b = (s', Inr x)"
    and delete_answers: "good s clk \<Longrightarrow> \<exists>s' x. ao_delete ops clk s key = (s', Inr x)"
    and replace_answers: "good s clk \<Longrightarrow> \<exists>s' x. ao_replace ops clk s key e b = (s', Inr x)"
begin

lemma get_live:
  assumes "good s clk"
  obtains s' where "ao_get ops clk s key = (s', Inr (live s clk key))" "live s' clk = live s clk" "good s' clk"
  using get_answers [OF assms, of key] get_law [OF assms, of key] by blast

lemma create_live:
  assumes "good s clk" "live s clk key = None"
  obtains s' where "ao_get_or_create ops clk s key b = (s', Inr b)" "live s' clk key = Some b" "good s' clk"
  using create_answers [OF assms(1), of key b] create_law [OF assms(1), of key b] assms(2) by auto

lemma delete_live:
  assumes "good s clk"
  obtains s' d where "ao_delete ops clk s key = (s', Inr d)" "live s' clk key = None" "good s' clk"
  using delete_answers [OF assms(1), of key] delete_law [OF assms(1), of key] by auto

lemma replace_live:
  assumes "good s clk" "live s clk key = Some e"
  obtains s' where "ao_replace ops clk s key e b = (s', Inr True)" "live s' clk key = Some b" "good s' clk"
  using replace_answers [OF assms(1), of key e b] replace_law [OF assms(1), of key e b] assms(2) by auto

end

interpretation in_process_answers: affinity_answers local_ops local_live local_good
  by unfold_locales (auto simp: local_ops_def local_get_def local_get_or_create_def local_delete_def
      local_replace_def Let_def split: option.splits)

lemma decode_good:
  assumes "codec_ok codec" "canonical codec (Some p)"
  shows "\<exists>b. decode codec p = Inr b"
  using decode_canonical(2) [OF assms refl] by auto

interpretation sqlite_answers: affinity_answers "sqlite_ops codec ttl" "sqlite_live codec" "sqlite_good codec ttl"
  for codec ttl
proof unfold_locales
  fix s clk key
  assume g: "sqlite_good codec ttl s clk"
  have c: "codec_ok codec" "canonical codec (sqlite_payload s clk key)" using g by (auto simp: sqlite_good_def)
  show "\<exists>s' x. ao_get (sqlite_ops codec ttl) clk s key = (s', Inr x)"
  proof (cases "sqlite_payload s clk key")
    case (Some p)
    then obtain b where "decode codec p = Inr b" using decode_good [OF c(1)] c(2) by auto
    then show ?thesis using Some
      by (simp add: sqlite_ops_def sqlite_get_def sqlite_get_read_def sqlite_get_write_def coord_get_def
          sqlite_payload_def Let_def)
  qed (simp add: sqlite_ops_def sqlite_get_def sqlite_get_read_def coord_get_def sqlite_payload_def Let_def)
next
  fix s clk key b
  assume g: "sqlite_good codec ttl s clk"
  let ?now = "unix_seconds clk" and ?p = "bc_to_string codec b"
  have bounds: "int (max ttl 1) \<le> i64_max" "?now < i64_max" using g by (auto simp: sqlite_good_def i64_max_def)
  obtain db r where op: "coord_get_or_insert ?now s affinity_namespace key ?p (max ttl 1) = (db, r)" by fastforce
  have r: "r = Some (opt_or_default ?p (sqlite_payload s clk key))"
    using coord_get_or_insert_sound [OF bounds op] by (simp add: sqlite_payload_def)
  have c: "codec_ok codec" "canonical codec (sqlite_payload s clk key)" using g by (auto simp: sqlite_good_def)
  have "canonical codec (Some (opt_or_default ?p (sqlite_payload s clk key)))"
    using c(2) by (cases "sqlite_payload s clk key") auto
  then obtain x where "decode codec (opt_or_default ?p (sqlite_payload s clk key)) = Inr x"
    using decode_good [OF c(1)] by blast
  then show "\<exists>s' x. ao_get_or_create (sqlite_ops codec ttl) clk s key b = (s', Inr x)"
    by (simp add: sqlite_ops_def sqlite_get_or_create_def Let_def op r del: One_nat_def)
qed (auto simp: sqlite_ops_def sqlite_delete_def sqlite_replace_def Let_def split: prod.splits)

interpretation redis_answers: affinity_answers "redis_affinity_ops rd codec ttl" "redis_live rd codec"
    "redis_good rd codec"
  for rd codec ttl
proof unfold_locales
  fix s clk key
  assume g: "redis_good rd codec s clk"
  have c: "codec_ok codec" "canonical codec (rd_get rd clk s key)" using g by (auto simp: redis_good_def)
  obtain x where x: "rd_get rd clk s key = None \<or>
      (\<exists>p. rd_get rd clk s key = Some p \<and> decode codec p = Inr x)"
    using decode_good [OF c(1)] c(2) by (cases "rd_get rd clk s key") auto
  then show "\<exists>s' x. ao_get (redis_affinity_ops rd codec ttl) clk s key = (s', Inr x)"
    by (auto simp: redis_script_defs)
  fix b
  have "decode codec (bc_to_string codec b) = Inr b" using c(1) by (simp add: decode_def codec_ok_def)
  with x show "\<exists>s' x. ao_get_or_create (redis_affinity_ops rd codec ttl) clk s key b = (s', Inr x)"
    by (auto simp: redis_script_defs)
qed (auto simp: redis_script_defs split: prod.splits)

subsection \<open>What the stores promise the router\<close>

text \<open>Two workers rebinding away from, or creating, the binding of one session at one instant.\<close>

definition race_rebind ::
    "'s affinity_ops \<Rightarrow> clock \<Rightarrow> 's \<Rightarrow> string \<Rightarrow> affinity_binding \<Rightarrow> affinity_binding \<Rightarrow> affinity_binding \<Rightarrow>
     bool outcome \<times> bool outcome" where
  "race_rebind ops clk s key e b c =
     (let (s, first) = ao_replace ops clk s key e b;
          (s, second) = ao_replace ops clk s key e c
      in (first, second))"

definition race_create ::
    "'s affinity_ops \<Rightarrow> clock \<Rightarrow> 's \<Rightarrow> string \<Rightarrow> affinity_binding \<Rightarrow> affinity_binding \<Rightarrow>
     affinity_binding outcome \<times> affinity_binding outcome" where
  "race_create ops clk s key b c =
     (let (s, first) = ao_get_or_create ops clk s key b;
          (s, second) = ao_get_or_create ops clk s key c
      in (first, second))"

definition agree :: "affinity_binding outcome \<times> affinity_binding outcome \<Rightarrow> bool" where
  "agree r = (case r of (Inr x, Inr y) \<Rightarrow> x = y | _ \<Rightarrow> True)"

context affinity_contract
begin

lemma race_rebind_one:
  assumes "good s clk" "b \<noteq> e"
  shows "race_rebind ops clk s key e b c \<noteq> (Inr True, Inr True)"
proof
  assume both: "race_rebind ops clk s key e b c = (Inr True, Inr True)"
  obtain s1 w1 where op1: "ao_replace ops clk s key e b = (s1, w1)" by fastforce
  obtain s2 w2 where op2: "ao_replace ops clk s1 key e c = (s2, w2)" by fastforce
  have "w1 = Inr True" "w2 = Inr True" using both by (simp_all add: race_rebind_def op1 op2)
  then show False using one_winner [OF assms(1) _ _ assms(2)] op1 op2 by blast
qed

lemma race_create_agree:
  assumes "good s clk"
  shows "agree (race_create ops clk s key b c)"
  using creators_agree [OF assms] by (auto simp: race_create_def agree_def split: prod.splits sum.splits)

end

text \<open>
  C7: Every backend resolves races alike. In a well-formed store at one instant, of two workers
  that try to rebind a session away from the same binding at most one is told that it won, and two
  workers that create a binding for the same session are given the same one. This holds for the
  in-process store under its capacity limit, for the SQLite coordinator and for the Valkey scripts,
  whatever the codec (as long as it reads back what it wrote) and the server (as long as its
  commands do what they document).\<close>

theorem affinity_races:
  assumes "local_good l clk" "sqlite_good codec ttl db clk" "redis_good rd codec r clk" "b \<noteq> e"
  shows "race_rebind local_ops clk l key e b c \<noteq> (Inr True, Inr True) \<and>
    race_rebind (sqlite_ops codec ttl) clk db key e b c \<noteq> (Inr True, Inr True) \<and>
    race_rebind (redis_affinity_ops rd codec ttl') clk r key e b c \<noteq> (Inr True, Inr True) \<and>
    agree (race_create local_ops clk l key b c) \<and>
    agree (race_create (sqlite_ops codec ttl) clk db key b c) \<and>
    agree (race_create (redis_affinity_ops rd codec ttl') clk r key b c)"
  using in_process.race_rebind_one [OF assms(1,4)] in_process.race_create_agree [OF assms(1)]
    sqlite.race_rebind_one [OF assms(2,4)] sqlite.race_create_agree [OF assms(2)]
    redis.race_rebind_one [OF assms(3,4)] redis.race_create_agree [OF assms(3)]
  by blast

text \<open>A codec and a server to run them on.\<close>

definition uuid_of_bytes :: "string \<Rightarrow> uuid" where
  "uuid_of_bytes bs = of_nat (foldl (\<lambda>a c. a * 256 + byte c) 0 bs)"

lemma byte_char_of_mod: "byte (char_of n) = n mod 256"
  by (simp add: byte_def)

lemma foldl_base256:
  "foldl (\<lambda>a c. a * 256 + byte c) 0 (List.map (\<lambda>i. char_of (n div 256 ^ (k - Suc i))) [0..<k]) =
     n mod 256 ^ k" for n :: nat
proof (induction k arbitrary: n)
  case (Suc k)
  have "List.map (\<lambda>i. char_of (n div 256 ^ (Suc k - Suc i))) [0..<Suc k] =
    List.map (\<lambda>i. char_of (n div 256 div 256 ^ (k - Suc i))) [0..<k] @ [char_of n :: char]"
    by (auto simp: div_mult2_eq [symmetric] Suc_diff_Suc simp del: power_Suc simp flip: power_Suc intro!: arg_cong [of _ _ char_of])
  moreover have "n div 256 mod 256 ^ k * 256 + n mod 256 = n mod 256 ^ Suc k"
    using mod_mult2_eq [of n 256 "256 ^ k"] by simp
  ultimately show ?case using Suc.IH [of "n div 256"] by (simp only: foldl_append foldl.simps byte_char_of_mod)
qed simp

lemma uuid_of_uuid_bytes: "uuid_of_bytes (uuid_bytes u) = u"
proof -
  have unat_u: "unat u < 2 ^ LENGTH(128)" by (rule unsigned_less)
  have "foldl (\<lambda>a c. a * 256 + byte c) 0 (uuid_bytes u) = unat u mod 256 ^ 16"
    using foldl_base256 [of "unat u" 16] by (simp add: uuid_bytes_def)
  also have "\<dots> = unat u" using unat_u by simp
  finally show ?thesis by (simp add: uuid_of_bytes_def)
qed

lemma length_uuid_bytes [simp]: "length (uuid_bytes u) = 16"
  by (simp add: uuid_bytes_def)

definition demo_codec :: binding_codec where
  "demo_codec =
     \<lparr>bc_to_string = (\<lambda>b. uuid_bytes (ab_endpoint_id b) @
        (case ab_endpoint_key_id b of None \<Rightarrow> ''n'' | Some k \<Rightarrow> ''s'' @ uuid_bytes k) @ ab_fingerprint b),
      bc_from_str = (\<lambda>p. case drop 16 p of
          CHR ''n'' # f \<Rightarrow> Some \<lparr>ab_endpoint_id = uuid_of_bytes (take 16 p), ab_endpoint_key_id = None,
                                  ab_fingerprint = f\<rparr>
        | CHR ''s'' # f \<Rightarrow> Some \<lparr>ab_endpoint_id = uuid_of_bytes (take 16 p),
                                  ab_endpoint_key_id = Some (uuid_of_bytes (take 16 f)),
                                  ab_fingerprint = drop 16 f\<rparr>
        | _ \<Rightarrow> None)\<rparr>"

lemma demo_codec_ok: "codec_ok demo_codec"
  by (auto simp: codec_ok_def demo_codec_def uuid_of_uuid_bytes split: option.split)

definition demo_redis :: "(string \<rightharpoonup> string) redis_ops" where
  "demo_redis =
     \<lparr>rd_get = (\<lambda>clk r k. r k), rd_set_ex = (\<lambda>clk r k p n. r(k \<mapsto> p)), rd_expire = (\<lambda>clk r k n. r),
      rd_del = (\<lambda>clk r k. (r(k := None), case r k of None \<Rightarrow> 0 | Some _ \<Rightarrow> 1))\<rparr>"

lemma demo_redis_ok: "redis_ok demo_redis"
  by (simp add: redis_ok_def demo_redis_def split: option.split)

definition demo_now :: clock where
  "demo_now = \<lparr>clk_instant = 0, clk_utc = 0, clk_weekday = 1, clk_minutes = 0\<rparr>"

definition demo_binding :: "uuid \<Rightarrow> affinity_binding" where
  "demo_binding e = \<lparr>ab_endpoint_id = e, ab_endpoint_key_id = None, ab_fingerprint = ''f''\<rparr>"

lemma demo_stores_good:
  "local_good (local_with_ttl_and_capacity 60 2) demo_now"
  "sqlite_good demo_codec 60 coordinator_empty demo_now"
  "redis_good demo_redis demo_codec Map.empty demo_now"
  using demo_codec_ok demo_redis_ok
  by (simp_all add: local_good_def local_with_ttl_and_capacity_def sqlite_good_def sqlite_payload_def sql_get_def
      coordinator_empty_def i64_max_def unix_seconds_def demo_now_def redis_good_def demo_redis_def)

lemma affinity_races_witness:
  "agree (race_create local_ops demo_now (local_with_ttl_and_capacity 60 2) ''k'' (demo_binding 1) (demo_binding 2)) \<and>
   agree (race_create (redis_affinity_ops demo_redis demo_codec 60) demo_now Map.empty ''k'' (demo_binding 1) (demo_binding 2))"
  using affinity_races [OF demo_stores_good, of "demo_binding 1" "demo_binding 2" "''k''" "demo_binding 2" 60]
  by (simp add: demo_binding_def)

text \<open>
  C27: The SQLite reader undoes a concurrent rebind. When another worker's compare-and-swap runs
  between the reader's two statements, it reports success, and yet the reader's second statement
  writes the old binding back and returns it: the session is again bound to the credential that
  was just replaced, and the winner routes somewhere else than the store says.\<close>

theorem sqlite_get_reverts_rebind:
  assumes "sqlite_good codec ttl db clk" "sqlite_live codec db clk key = Some e" "b \<noteq> e"
  shows "let payload = the (sqlite_get_read clk db key);
             (rebound, won) = ao_replace (sqlite_ops codec ttl) clk db key e b;
             (final, found) = sqlite_get_write codec (max ttl 1) clk rebound key payload
         in won = Inr True \<and> sqlite_live codec rebound clk key = Some b \<and>
            found = Inr (Some e) \<and> sqlite_live codec final clk key = Some e"
proof -
  have c: "codec_ok codec" "canonical codec (sqlite_payload db clk key)" using assms(1) by (auto simp: sqlite_good_def)
  have p: "sqlite_payload db clk key = Some (bc_to_string codec e)"
    using canonical_equals [OF c] assms(2) by (simp add: sqlite_live_def)
  obtain d won where op: "ao_replace (sqlite_ops codec ttl) clk db key e b = (d, won)" by fastforce
  then obtain w where w: "won = Inr w" by (auto simp: sqlite_ops_def sqlite_replace_def Let_def split: prod.splits)
  note law = sqlite.replace_law [OF assms(1) op [unfolded w]]
  have good: "sqlite_good codec ttl d clk" and true: "w" and rebound: "sqlite_live codec d clk key = Some b"
    using law assms(2) by auto
  have read: "the (sqlite_get_read clk db key) = bc_to_string codec e"
    using p by (simp add: sqlite_get_read_def coord_get_def sqlite_payload_def)
  have "sqlite_live codec (coord_put (unix_seconds clk) d affinity_namespace key (bc_to_string codec e) (max ttl 1)) clk key = Some e"
    using sqlite_put_payload [OF good] c(1) by (simp add: coord_put_def sqlite_live_def)
  moreover have "decode codec (bc_to_string codec e) = Inr e" using c(1) by (simp add: decode_def codec_ok_def)
  ultimately show ?thesis using true rebound by (simp add: op read w sqlite_get_write_def)
qed

definition demo_bound_db :: coordinator where
  "demo_bound_db =
     sql_upsert coordinator_empty affinity_namespace ''k'' (bc_to_string demo_codec (demo_binding 1)) 100 0"

lemma sqlite_get_reverts_rebind_witness:
  "let payload = the (sqlite_get_read demo_now demo_bound_db ''k'');
       (rebound, won) = ao_replace (sqlite_ops demo_codec 60) demo_now demo_bound_db ''k'' (demo_binding 1) (demo_binding 2);
       (final, found) = sqlite_get_write demo_codec (max 60 1) demo_now rebound ''k'' payload
   in won = Inr True \<and> sqlite_live demo_codec final demo_now ''k'' = Some (demo_binding 1)"
proof -
  have p: "sqlite_payload demo_bound_db demo_now k =
      (if k = ''k'' then Some (bc_to_string demo_codec (demo_binding 1)) else None)" for k
    by (simp add: sqlite_payload_def demo_bound_db_def unix_seconds_def demo_now_def i64_max_def)
      (simp add: sql_get_def coordinator_empty_def)
  have "sqlite_good demo_codec 60 demo_bound_db demo_now"
    using demo_codec_ok p by (simp add: sqlite_good_def i64_max_def unix_seconds_def demo_now_def)
  moreover have "sqlite_live demo_codec demo_bound_db demo_now ''k'' = Some (demo_binding 1)"
    using demo_codec_ok by (simp add: sqlite_live_def p)
  moreover have "demo_binding 2 \<noteq> demo_binding 1" by (simp add: demo_binding_def)
  ultimately show ?thesis
    using sqlite_get_reverts_rebind [of demo_codec 60 demo_bound_db demo_now "''k''" "demo_binding 1" "demo_binding 2"]
    by (auto simp: Let_def case_prod_unfold)
qed

end
