(* ===== verification/SessionRouting.thy ===== *)
theory SessionRouting
  imports KeyPool ResponseAffinity
begin

text \<open>
  The selection of a route: \<open>selection.rs\<close>, \<open>session_affinity.rs\<close>, \<open>session_affinity_quota.rs\<close>,
  \<open>session_quota_selection.rs\<close>, \<open>quota_selection.rs\<close> and the loop of \<open>route_key_eligibility.rs\<close>
  under \<open>src/worker/runtime/routing/\<close>.

  The quota cache and the session store are shared with every other request. A request runs as a
  sequence of turns: before each synchronous section or store call the other requests run
  (\<open>oth_run\<close>, any function of the turn's number on the two shared states), then the section reads
  the clock of its turn. The number of turns so far is part of the state, so that different turns
  can meet different interference. The theorems hold for every \<open>others\<close> unless they say otherwise.

  A claimed probe permit is released where Rust drops it: when the selection that holds it is
  discarded.
\<close>

subsection \<open>Turns\<close>

record 's world =
  wo_cache :: shared_cache
  wo_store :: 's
  wo_turn :: nat

record 's others =
  oth_clock :: "nat \<Rightarrow> clock"
  oth_run :: "nat \<Rightarrow> shared_cache \<times> 's \<Rightarrow> shared_cache \<times> 's"

definition turn :: "'s others \<Rightarrow> 's world \<Rightarrow> 's world \<times> clock" where
  "turn oth w =
     (let (cache, store) = oth_run oth (wo_turn w) (wo_cache w, wo_store w)
      in (\<lparr>wo_cache = cache, wo_store = store, wo_turn = Suc (wo_turn w)\<rparr>, oth_clock oth (wo_turn w)))"

definition on_cache ::
    "'s others \<Rightarrow> (clock \<Rightarrow> shared_cache \<Rightarrow> shared_cache \<times> 'a) \<Rightarrow> 's world \<Rightarrow> 's world \<times> 'a" where
  "on_cache oth f w =
     (let (w, clk) = turn oth w; (cache, r) = f clk (wo_cache w) in (w\<lparr>wo_cache := cache\<rparr>, r))"

definition on_store ::
    "'s others \<Rightarrow> (clock \<Rightarrow> 's \<Rightarrow> 's \<times> 'a) \<Rightarrow> 's world \<Rightarrow> 's world \<times> 'a" where
  "on_store oth f w =
     (let (w, clk) = turn oth w; (store, r) = f clk (wo_store w) in (w\<lparr>wo_store := store\<rparr>, r))"

definition update_cache :: "'s others \<Rightarrow> (clock \<Rightarrow> shared_cache \<Rightarrow> shared_cache) \<Rightarrow> 's world \<Rightarrow> 's world" where
  "update_cache oth f w = fst (on_cache oth (\<lambda>clk cache. (f clk cache, ())) w)"

subsection \<open>Errors\<close>

record affinity_audit =
  au_endpoint_id :: "uuid option"
  au_endpoint_key_id :: "uuid option"
  au_model_route_rule_id :: "uuid option"
  au_requested_endpoint_id :: "uuid option"
  au_requested_key_id :: "uuid option"

definition audit_default :: affinity_audit where
  "audit_default =
     \<lparr>au_endpoint_id = None, au_endpoint_key_id = None, au_model_route_rule_id = None,
      au_requested_endpoint_id = None, au_requested_key_id = None\<rparr>"

record affinity_error =
  ae_status :: nat
  ae_code :: string
  ae_message :: string
  ae_audit :: affinity_audit

definition identity_required :: affinity_error where
  "identity_required =
     \<lparr>ae_status = 400, ae_code = ''responses_session_identity_required'',
      ae_message = ''session affinity requires a stable session identity'',
      ae_audit = audit_default\<rparr>"

definition backend_unavailable :: affinity_error where
  "backend_unavailable =
     \<lparr>ae_status = 503, ae_code = ''responses_session_affinity_unavailable'',
      ae_message = ''session affinity backend is unavailable'',
      ae_audit = audit_default\<rparr>"

definition target_unavailable :: "affinity_audit \<Rightarrow> affinity_error" where
  "target_unavailable audit =
     \<lparr>ae_status = 503, ae_code = ''responses_session_affinity_target_unavailable'',
      ae_message = ''the bound session endpoint or API key is unavailable'',
      ae_audit = audit\<rparr>"

definition conflict :: "affinity_audit \<Rightarrow> affinity_error" where
  "conflict audit =
     \<lparr>ae_status = 409, ae_code = ''responses_session_affinity_conflict'',
      ae_message = ''the requested endpoint or API key conflicts with the bound session'',
      ae_audit = audit\<rparr>"

datatype route_error =
    ReAffinity affinity_error
  | ReQuotaUnavailable
  | ReMissingCredential string
  | ReSchedule string

subsection \<open>The identity of a session\<close>

definition uuid_to_string :: "uuid \<Rightarrow> string" where
  "uuid_to_string u =
     (let h = hex_digest (uuid_bytes u) in
      take 8 h @ ''-'' @ take 4 (drop 8 h) @ ''-'' @ take 4 (drop 12 h) @ ''-'' @
      take 4 (drop 16 h) @ ''-'' @ drop 20 h)"

definition endpoint_key_stickiness_value :: "bridge_request \<Rightarrow> prompt_log \<Rightarrow> string option" where
  "endpoint_key_stickiness_value request plog =
     (case pl_conversation_id plog of
        Some conversation_id \<Rightarrow> Some (''conversation:'' @ uuid_to_string conversation_id)
      | None \<Rightarrow>
     (case non_blank (pl_previous_response_id plog) of
        Some previous_response_id \<Rightarrow> Some (''previous_response_id:'' @ previous_response_id)
      | None \<Rightarrow>
     (case non_blank (pl_conversation_key plog) of
        Some conversation_key \<Rightarrow> Some (''provider_conversation:'' @ conversation_key)
      | None \<Rightarrow>
     (case non_blank (pl_session_header_id plog) of
        Some session_header_id \<Rightarrow> Some (''session_header:'' @ session_header_id)
      | None \<Rightarrow>
          map_option (\<lambda>value. ''client_key:'' @ value) (non_blank (br_client_key_hash request))))))"

definition routing_stable_key :: "bridge_request \<Rightarrow> prompt_log \<Rightarrow> string option \<Rightarrow> string" where
  "routing_stable_key request plog routing_key =
     opt_or_default ''default''
       (opt_or (endpoint_key_stickiness_value request plog) (non_blank routing_key))"

definition previous_response_chain :: "prompt_log \<Rightarrow> bool" where
  "previous_response_chain plog = is_some_and (\<lambda>value. value \<noteq> []) (map_option trim (pl_previous_response_id plog))"

subsection \<open>One session request\<close>

record session_selection =
  ss_target :: route_target
  ss_key :: endpoint_api_key_selection
  ss_reason :: route_selection_reason
  ss_probe :: "probe_holder option"

datatype binding_selection = BoundSelected session_selection | BoundQuotaExhausted | BoundUnavailable

text \<open>What the functions of one request share: its environment, the others and its arguments.\<close>

record 's session_call =
  sx_env :: route_env
  sx_oth :: "'s others"
  sx_ops :: "'s affinity_ops"
  sx_candidate :: route_candidate
  sx_request :: bridge_request
  sx_log :: prompt_log
  sx_key :: string
  sx_identity :: string

definition sx_context :: "'s session_call \<Rightarrow> quota_context" where
  "sx_context call =
     \<lparr>qx_model = request_model (sx_env call) (sx_request call), qx_path = br_path (sx_request call)\<rparr>"

definition sx_estimated :: "'s session_call \<Rightarrow> nat" where
  "sx_estimated call = estimate_input_tokens (br_body (sx_request call))"

definition binding_audit :: "uuid \<Rightarrow> affinity_binding option \<Rightarrow> prompt_log \<Rightarrow> affinity_audit" where
  "binding_audit rule_id binding plog =
     \<lparr>au_endpoint_id = map_option ab_endpoint_id binding,
      au_endpoint_key_id = Option.bind binding ab_endpoint_key_id,
      au_model_route_rule_id = Some rule_id,
      au_requested_endpoint_id = pl_override_endpoint_id plog,
      au_requested_key_id = pl_override_endpoint_key_id plog\<rparr>"

definition override_conflicts_with_binding :: "affinity_binding \<Rightarrow> prompt_log \<Rightarrow> bool" where
  "override_conflicts_with_binding binding plog \<longleftrightarrow>
     is_some_and (\<lambda>endpoint_id. endpoint_id \<noteq> ab_endpoint_id binding) (pl_override_endpoint_id plog) \<or>
     is_some_and (\<lambda>key_id. ab_endpoint_key_id binding \<noteq> Some key_id) (pl_override_endpoint_key_id plog)"

definition selection_for_binding ::
    "'s session_call \<Rightarrow> affinity_binding \<Rightarrow> clock \<Rightarrow> shared_cache \<Rightarrow> shared_cache \<times> binding_selection" where
  "selection_for_binding call binding clk cache =
     (let env = sx_env call in
      case opt_filter
             (\<lambda>target. rt_enabled target \<and>
                effective_stored_is_active_at (re_windows env) clk (rt_active_windows target)
                  (rt_endpoint_active_windows target) (clk_minutes clk))
             (candidate_target_by_endpoint (sx_candidate call) (ab_endpoint_id binding)) of
        None \<Rightarrow> (cache, BoundUnavailable)
      | Some target \<Rightarrow>
          (case select_bound_credential (re_sha env) target binding of
             None \<Rightarrow> (cache, BoundUnavailable)
           | Some key_selection \<Rightarrow>
               let cx = context_effective (sx_context call) (rt_upstream_model target);
                   (cache, elig) = assess_target_credential env clk cache target (sel_key_id key_selection) cx
               in (cache,
                   if eligibility_weight elig = None then BoundQuotaExhausted
                   else BoundSelected \<lparr>ss_target = target, ss_key = key_selection,
                                       ss_reason = RrSessionAffinity, ss_probe = None\<rparr>)))"

definition bound_unit_id :: "(string \<Rightarrow> string) \<Rightarrow> route_candidate \<Rightarrow> affinity_binding \<Rightarrow> uuid option" where
  "bound_unit_id sha candidate binding =
     (case ab_endpoint_key_id binding of
        Some key_id \<Rightarrow> Some key_id
      | None \<Rightarrow>
          Option.bind (candidate_target_by_endpoint candidate (ab_endpoint_id binding)) (\<lambda>target.
          Option.bind (select_bound_credential sha target binding) (\<lambda>selection. sel_key_id selection)))"

definition quota_failover_selection ::
    "'s session_call \<Rightarrow> affinity_binding \<Rightarrow> clock \<Rightarrow> shared_cache \<Rightarrow>
     shared_cache \<times> (session_selection \<times> affinity_binding) option" where
  "quota_failover_selection call binding clk cache =
     (let env = sx_env call;
          exclude = bound_unit_id (re_sha env) (sx_candidate call) binding;
          chained = previous_response_chain (sx_log call);
          (cache, pool) = candidate_units env clk (sx_candidate call) cache (sx_context call) exclude True;
          units = (if chained
                   then filter (\<lambda>u. rt_endpoint_id (pu_target u) = ab_endpoint_id binding) (qp_units pool)
                   else qp_units pool)
      in (cache,
          map_option
            (\<lambda>u. (\<lparr>ss_target = pu_target u, ss_key = pu_key u, ss_reason = RrQuotaFailover, ss_probe = None\<rparr>,
                  credential_binding (re_sha env) (pu_target u) (pu_key u)))
            (draw env units (sx_identity call))))"

definition claim_selection_probe ::
    "session_selection \<Rightarrow> clock \<Rightarrow> shared_cache \<Rightarrow> shared_cache \<times> session_selection \<times> bool" where
  "claim_selection_probe selection clk cache =
     (case claim clk cache (rt_endpoint_id (ss_target selection)) (sel_key_id (ss_key selection)) of
        (cache, ClaimNotRequired) \<Rightarrow> (cache, selection, True)
      | (cache, ClaimReserved permit) \<Rightarrow> (cache, selection\<lparr>ss_probe := Some permit\<rparr>, True)
      | (cache, ClaimLostRace) \<Rightarrow> (cache, selection, False))"

text \<open>The drop of a selection releases its permit.\<close>

definition drop_permit :: "probe_holder option \<Rightarrow> clock \<Rightarrow> shared_cache \<Rightarrow> shared_cache" where
  "drop_permit probe clk cache =
     (case probe of
        None \<Rightarrow> cache
      | Some permit \<Rightarrow>
          map_option
            (\<lambda>c. c\<lparr>qc_feedback := fst (holder_release (qc_feedback c) permit (clk_instant clk))\<rparr>) cache)"

definition drop_selection :: "'s session_call \<Rightarrow> session_selection \<Rightarrow> 's world \<Rightarrow> 's world" where
  "drop_selection call selection w = update_cache (sx_oth call) (drop_permit (ss_probe selection)) w"

definition reserve_selection :: "'s session_call \<Rightarrow> session_selection \<Rightarrow> 's world \<Rightarrow> 's world" where
  "reserve_selection call selection w =
     update_cache (sx_oth call)
       (\<lambda>clk cache. reserve cache (rt_endpoint_id (ss_target selection)) (sel_key_id (ss_key selection))
                      (sx_estimated call)) w"

fun quota_failover_with_probe ::
    "'s session_call \<Rightarrow> affinity_binding \<Rightarrow> nat \<Rightarrow> 's world \<Rightarrow>
     's world \<times> (session_selection \<times> affinity_binding) option" where
  "quota_failover_with_probe call binding 0 w = (w, None)"
| "quota_failover_with_probe call binding (Suc n) w =
     (case on_cache (sx_oth call) (quota_failover_selection call binding) w of
        (w, None) \<Rightarrow> (w, None)
      | (w, Some (selection, replacement)) \<Rightarrow>
          (case on_cache (sx_oth call) (claim_selection_probe selection) w of
             (w, selection, True) \<Rightarrow> (w, Some (selection, replacement))
           | (w, selection, False) \<Rightarrow> quota_failover_with_probe call binding n w))"

text \<open>\<open>heal_stale_binding\<close> drops the outcome of the replacement.\<close>

definition heal_stale_binding ::
    "'s session_call \<Rightarrow> affinity_binding \<Rightarrow> session_selection \<Rightarrow> 's world \<Rightarrow> 's world" where
  "heal_stale_binding call binding selection w =
     (let replacement = credential_binding (re_sha (sx_env call)) (ss_target selection) (ss_key selection) in
      if replacement = binding then w
      else fst (on_store (sx_oth call)
                  (\<lambda>clk s. ao_replace (sx_ops call) clk s (sx_key call) binding replacement) w))"

subsection \<open>A new binding\<close>

text \<open>\<open>session_quota_selection::select\<close>: the override, then the preferred endpoint, then the pool.\<close>

definition session_override_draw ::
    "'s session_call \<Rightarrow> affinity_audit \<Rightarrow> clock \<Rightarrow> shared_cache \<Rightarrow>
     shared_cache \<times> (route_error + candidate_selection option)" where
  "session_override_draw call audit clk cache =
     (let env = sx_env call; candidate = sx_candidate call; plog = sx_log call in
      case pl_override_endpoint_id plog of
        None \<Rightarrow> (cache, Inr None)
      | Some i \<Rightarrow>
          (case opt_filter
                  (\<lambda>target. candidate_target_is_active (re_windows env) clk target (clk_minutes clk))
                  (candidate_target_by_endpoint candidate i) of
             None \<Rightarrow> (cache, Inl (ReAffinity (target_unavailable audit)))
           | Some target \<Rightarrow>
               let (cache, pool) = target_pool env clk target cache (sx_context call)
                                     (pl_override_endpoint_key_id plog)
               in (cache, Inr (map_option
                     (\<lambda>u. candidate_selection_of env clk candidate u (pl_override_endpoint_key_id plog)
                            RrConversationOverride)
                     (draw env (qp_units pool) (sx_identity call))))))"

definition session_preferred_draw ::
    "'s session_call \<Rightarrow> clock \<Rightarrow> shared_cache \<Rightarrow> shared_cache \<times> candidate_selection option" where
  "session_preferred_draw call clk cache =
     (let env = sx_env call; candidate = sx_candidate call; plog = sx_log call in
      case Option.bind (pl_preferred_endpoint_id plog) (candidate_target_by_endpoint candidate) of
        None \<Rightarrow> (cache, None)
      | Some target \<Rightarrow>
          let (cache, pool) = target_pool env clk target cache (sx_context call)
                                (pl_override_endpoint_key_id plog)
          in (cache, map_option
                (\<lambda>u. candidate_selection_of env clk candidate u (pl_override_endpoint_key_id plog)
                       RrSessionAffinity)
                (draw env (qp_units pool) (sx_identity call))))"

definition session_pool_draw ::
    "'s session_call \<Rightarrow> affinity_audit \<Rightarrow> clock \<Rightarrow> shared_cache \<Rightarrow>
     shared_cache \<times> (route_error + candidate_selection)" where
  "session_pool_draw call audit clk cache =
     (let env = sx_env call; candidate = sx_candidate call; plog = sx_log call;
          (cache, pool) = pool_of_targets env clk (sx_context call) (pl_override_endpoint_key_id plog)
                            (rc_targets candidate) cache pool_default
      in
        if \<not> pool_checked pool then (cache, Inl ReQuotaUnavailable)
        else
          (case draw env (qp_units pool) (sx_identity call) of
             None \<Rightarrow> (cache, Inl (ReAffinity (target_unavailable audit)))
           | Some u \<Rightarrow>
               (cache, Inr (candidate_selection_of env clk candidate u (pl_override_endpoint_key_id plog)
                              RrSessionAffinity))))"

definition session_quota_select ::
    "'s session_call \<Rightarrow> affinity_audit \<Rightarrow> clock \<Rightarrow> shared_cache \<Rightarrow>
     shared_cache \<times> (route_error + candidate_selection)" where
  "session_quota_select call audit clk cache =
     (case session_override_draw call audit clk cache of
        (cache, Inl e) \<Rightarrow> (cache, Inl e)
      | (cache, Inr (Some selected)) \<Rightarrow> (cache, Inr selected)
      | (cache, Inr None) \<Rightarrow>
          (case session_preferred_draw call clk cache of
             (cache, Some selected) \<Rightarrow> (cache, Inr selected)
           | (cache, None) \<Rightarrow> session_pool_draw call audit clk cache))"

fun select_new_binding ::
    "'s session_call \<Rightarrow> affinity_audit \<Rightarrow> nat \<Rightarrow> 's world \<Rightarrow>
     's world \<times> (route_error + session_selection \<times> affinity_binding)" where
  "select_new_binding call audit 0 w = (w, Inl ReQuotaUnavailable)"
| "select_new_binding call audit (Suc n) w =
     (case on_cache (sx_oth call) (session_quota_select call audit) w of
        (w, Inl e) \<Rightarrow> (w, Inl e)
      | (w, Inr selected) \<Rightarrow>
          if cs_invalid_override selected then (w, Inl (ReAffinity (conflict audit)))
          else
            (let selection = \<lparr>ss_target = cs_target selected, ss_key = cs_key selected,
                              ss_reason = cs_reason selected, ss_probe = None\<rparr>
             in
               case on_cache (sx_oth call) (claim_selection_probe selection) w of
                 (w, selection, True) \<Rightarrow>
                   (w, Inr (selection,
                      credential_binding (re_sha (sx_env call)) (ss_target selection) (ss_key selection)))
               | (w, selection, False) \<Rightarrow> select_new_binding call audit n w))"

subsection \<open>The passes of a session request\<close>

text \<open>A pass of the loop ends the request or goes on with the binding it leaves.\<close>

datatype pass_outcome = Finished "route_error + session_selection" | Retry "affinity_binding option"

definition resolve_binding ::
    "'s session_call \<Rightarrow> affinity_binding \<Rightarrow> 's world \<Rightarrow> 's world \<times> binding_selection" where
  "resolve_binding call binding w =
     (case on_cache (sx_oth call) (selection_for_binding call binding) w of
        (w, BoundSelected selection) \<Rightarrow>
          (case on_cache (sx_oth call) (claim_selection_probe selection) w of
             (w, selection, True) \<Rightarrow> (w, BoundSelected selection)
           | (w, selection, False) \<Rightarrow> (w, BoundQuotaExhausted))
      | (w, other) \<Rightarrow> (w, other))"

definition failover_pass ::
    "'s session_call \<Rightarrow> affinity_binding \<Rightarrow> 's world \<Rightarrow> 's world \<times> pass_outcome" where
  "failover_pass call binding w =
     (case quota_failover_with_probe call binding (candidate_claim_limit (sx_candidate call)) w of
        (w, None) \<Rightarrow> (w, Finished (Inl ReQuotaUnavailable))
      | (w, Some (selection, replacement)) \<Rightarrow>
          (case on_store (sx_oth call)
                  (\<lambda>clk s. ao_replace (sx_ops call) clk s (sx_key call) binding replacement) w of
             (w, Inr True) \<Rightarrow> (reserve_selection call selection w, Finished (Inr selection))
           | (w, Inr False) \<Rightarrow>
               (case on_store (sx_oth call) (\<lambda>clk s. ao_get (sx_ops call) clk s (sx_key call)) w of
                  (w, Inr current) \<Rightarrow> (drop_selection call selection w, Retry current)
                | (w, Inl _) \<Rightarrow>
                    (drop_selection call selection w, Finished (Inl (ReAffinity backend_unavailable))))
           | (w, Inl _) \<Rightarrow>
               (drop_selection call selection w, Finished (Inl (ReAffinity backend_unavailable)))))"

definition unavailable_pass ::
    "'s session_call \<Rightarrow> affinity_binding \<Rightarrow> affinity_audit \<Rightarrow> 's world \<Rightarrow> 's world \<times> pass_outcome" where
  "unavailable_pass call binding audit w =
     (if previous_response_chain (sx_log call)
      then (w, Finished (Inl (ReAffinity (target_unavailable audit))))
      else
        let (w, clk) = turn (sx_oth call) w;
            binding_state = bound_binding_state (re_sha (sx_env call)) (re_windows (sx_env call)) clk
                              (sx_candidate call) binding
        in
          if binding_state \<noteq> BsActive then
            (case on_store (sx_oth call) (\<lambda>clk s. ao_delete (sx_ops call) clk s (sx_key call)) w of
               (w, Inr _) \<Rightarrow> (w, Retry None)
             | (w, Inl _) \<Rightarrow> (w, Finished (Inl (ReAffinity backend_unavailable))))
          else (w, Finished (Inl (ReAffinity (target_unavailable audit)))))"

definition bound_pass ::
    "'s session_call \<Rightarrow> affinity_binding \<Rightarrow> 's world \<Rightarrow> 's world \<times> pass_outcome" where
  "bound_pass call binding w =
     (let audit = binding_audit (rc_rule_id (sx_candidate call)) (Some binding) (sx_log call) in
      if override_conflicts_with_binding binding (sx_log call)
      then (w, Finished (Inl (ReAffinity (conflict audit))))
      else
        case resolve_binding call binding w of
          (w, BoundSelected selection) \<Rightarrow>
            (reserve_selection call selection (heal_stale_binding call binding selection w),
             Finished (Inr selection))
        | (w, BoundQuotaExhausted) \<Rightarrow> failover_pass call binding w
        | (w, BoundUnavailable) \<Rightarrow> unavailable_pass call binding audit w)"

definition new_pass :: "'s session_call \<Rightarrow> 's world \<Rightarrow> 's world \<times> pass_outcome" where
  "new_pass call w =
     (case select_new_binding call audit_default (candidate_claim_limit (sx_candidate call)) w of
        (w, Inl e) \<Rightarrow> (w, Finished (Inl e))
      | (w, Inr (selection, candidate_binding)) \<Rightarrow>
          (case on_store (sx_oth call)
                  (\<lambda>clk s. ao_get_or_create (sx_ops call) clk s (sx_key call) candidate_binding) w of
             (w, Inl _) \<Rightarrow>
               (drop_selection call selection w, Finished (Inl (ReAffinity backend_unavailable)))
           | (w, Inr created) \<Rightarrow>
               if created = candidate_binding
               then (reserve_selection call selection w, Finished (Inr selection))
               else (drop_selection call selection w, Retry (Some created))))"

text \<open>The loop; the second component is the local variable \<open>binding\<close> when it ends.\<close>

fun session_passes ::
    "'s session_call \<Rightarrow> nat \<Rightarrow> affinity_binding option \<Rightarrow> 's world \<Rightarrow>
     's world \<times> affinity_binding option \<times> (route_error + session_selection)" where
  "session_passes call 0 binding w =
     (w, binding,
      Inl (ReAffinity (target_unavailable (binding_audit (rc_rule_id (sx_candidate call)) binding (sx_log call)))))"
| "session_passes call (Suc n) binding w =
     (case (case binding of Some current \<Rightarrow> bound_pass call current w | None \<Rightarrow> new_pass call w) of
        (w, Finished r) \<Rightarrow> (w, binding, r)
      | (w, Retry next_binding) \<Rightarrow> session_passes call n next_binding w)"

subsection \<open>The quota refresh before a selection\<close>

text \<open>
  The reads behind the refresh: the subscription service's snapshot of an endpoint, and
  \<open>refresh_if_due\<close>, whose error is only logged.\<close>

record quota_services =
  qv_subscription :: "clock \<Rightarrow> uuid \<Rightarrow> routing_snapshot_read option"
  qv_refresh_if_due :: "clock \<Rightarrow> quota_cache \<Rightarrow> uuid \<Rightarrow> quota_cache"

fun refresh_targets ::
    "quota_services \<Rightarrow> 's others \<Rightarrow> route_target list \<Rightarrow> 's world \<Rightarrow> 's world" where
  "refresh_targets serv oth [] w = w"
| "refresh_targets serv oth (target # targets) w =
     (let endpoint_id = rt_endpoint_id target;
          w = update_cache oth
                (\<lambda>clk. map_option (\<lambda>c. hydrate_chatgpt_subscription clk c
                   (qv_subscription serv clk endpoint_id) endpoint_id (rt_provider target))) w;
          w = update_cache oth (\<lambda>clk. map_option (\<lambda>c. qv_refresh_if_due serv clk c endpoint_id)) w
      in refresh_targets serv oth targets w)"

definition refresh_candidate_quota ::
    "quota_services \<Rightarrow> 's others \<Rightarrow> route_candidate \<Rightarrow> 's world \<Rightarrow> 's world" where
  "refresh_candidate_quota serv oth candidate w =
     (if wo_cache w = None then w else refresh_targets serv oth (rc_targets candidate) w)"

subsection \<open>The session entry\<close>

definition session_call_of ::
    "route_env \<Rightarrow> 's others \<Rightarrow> 's affinity_ops \<Rightarrow> route_candidate \<Rightarrow> bridge_request \<Rightarrow> prompt_log \<Rightarrow> int \<Rightarrow>
     string \<Rightarrow> 's session_call" where
  "session_call_of env oth ops candidate request plog user_id stable_identity =
     \<lparr>sx_env = env, sx_oth = oth, sx_ops = ops, sx_candidate = candidate, sx_request = request,
      sx_log = plog, sx_key = cache_key (re_sha env) user_id (rc_rule_id candidate) stable_identity,
      sx_identity = stable_identity\<rparr>"

definition session_select ::
    "route_env \<Rightarrow> 's others \<Rightarrow> 's affinity_ops \<Rightarrow> quota_services \<Rightarrow> route_candidate \<Rightarrow> bridge_request \<Rightarrow>
     prompt_log \<Rightarrow> int \<Rightarrow> 's world \<Rightarrow> 's world \<times> affinity_binding option \<times> (route_error + session_selection)" where
  "session_select env oth ops serv candidate request plog user_id w =
     (case endpoint_key_stickiness_value request plog of
        None \<Rightarrow> (w, None, Inl (ReAffinity identity_required))
      | Some stable_identity \<Rightarrow>
          if wo_cache w = None then (w, None, Inl (ReAffinity backend_unavailable))
          else
            (let call = session_call_of env oth ops candidate request plog user_id stable_identity in
             case on_store oth (\<lambda>clk s. ao_get ops clk s (sx_key call)) w of
               (w, Inl _) \<Rightarrow> (w, None, Inl (ReAffinity backend_unavailable))
             | (w, Inr binding) \<Rightarrow> session_passes call 2 binding (refresh_candidate_quota serv oth candidate w)))"

subsection \<open>The unified selection\<close>

record selected_route =
  sr_route :: route_config
  sr_probe :: "probe_holder option"
  sr_clear_override :: bool

definition route_from_target ::
    "route_target \<Rightarrow> int \<Rightarrow> uuid \<Rightarrow> endpoint_api_key_selection \<Rightarrow> route_selection_reason \<Rightarrow> route_config" where
  "route_from_target target user_id rule_id key_selection reason =
     \<lparr>rg_route_id = rt_endpoint_id target, rg_user_id = user_id, rg_model_route_rule_id = Some rule_id,
      rg_base_url = rt_base_url target, rg_api_key = sel_secret key_selection,
      rg_endpoint_key_id = sel_key_id key_selection, rg_endpoint_key_label = sel_key_label key_selection,
      rg_api_keys = rt_api_keys target, rg_key_lb_enabled = rt_key_lb_enabled target,
      rg_native_api = rt_native_api target, rg_upstream_model = rt_upstream_model target,
      rg_route_selection_reason = reason, rg_provider = rt_provider target,
      rg_service_tier = rt_service_tier target,
      rg_proxy_url = resolve_proxy_url (rt_proxy_url target) (rt_proxy_url_override target),
      rg_dev_system_normalize = rt_dev_system_normalize target,
      rg_thinking_downgrade_enabled = rt_thinking_downgrade_enabled target,
      rg_thinking_effort_override = rt_thinking_effort_override target,
      rg_compact_mode = rt_compact_mode target, rg_has_oauth_token = rt_has_oauth_token target,
      rg_embedding_dimensions_override = rt_embedding_dimensions_override target\<rparr>"

definition select_unified_candidate ::
    "route_env \<Rightarrow> route_candidate \<Rightarrow> bridge_request \<Rightarrow> prompt_log \<Rightarrow> string option \<Rightarrow> clock \<Rightarrow> shared_cache \<Rightarrow>
     shared_cache \<times> (selection_error + candidate_selection option)" where
  "select_unified_candidate env candidate request plog routing_key clk cache =
     candidate_select env clk candidate cache
       \<lparr>qx_model = request_model env request, qx_path = br_path request\<rparr>
       (routing_stable_key request plog routing_key)
       (pl_override_endpoint_id plog) (pl_override_endpoint_key_id plog)"

definition reserve_selected_key ::
    "'s others \<Rightarrow> bridge_request \<Rightarrow> uuid \<Rightarrow> uuid option \<Rightarrow> 's world \<Rightarrow> 's world" where
  "reserve_selected_key oth request endpoint_id key_id w =
     update_cache oth (\<lambda>clk cache. reserve cache endpoint_id key_id (estimate_input_tokens (br_body request))) w"

fun unified_claims ::
    "route_env \<Rightarrow> 's others \<Rightarrow> route_candidate \<Rightarrow> bridge_request \<Rightarrow> prompt_log \<Rightarrow> string option \<Rightarrow> nat \<Rightarrow>
     's world \<Rightarrow> 's world \<times> (route_error + (candidate_selection \<times> probe_holder option) option)" where
  "unified_claims env oth candidate request plog routing_key 0 w = (w, Inl ReQuotaUnavailable)"
| "unified_claims env oth candidate request plog routing_key (Suc n) w =
     (case on_cache oth (select_unified_candidate env candidate request plog routing_key) w of
        (w, Inl SelQuotaUnavailable) \<Rightarrow> (w, Inl ReQuotaUnavailable)
      | (w, Inr None) \<Rightarrow> (w, Inr None)
      | (w, Inr (Some selected)) \<Rightarrow>
          (let endpoint_id = rt_endpoint_id (cs_target selected); key_id = sel_key_id (cs_key selected) in
           case on_cache oth (\<lambda>clk cache. claim clk cache endpoint_id key_id) w of
             (w, ClaimNotRequired) \<Rightarrow>
               (reserve_selected_key oth request endpoint_id key_id w, Inr (Some (selected, None)))
           | (w, ClaimReserved permit) \<Rightarrow>
               (reserve_selected_key oth request endpoint_id key_id w, Inr (Some (selected, Some permit)))
           | (w, ClaimLostRace) \<Rightarrow> unified_claims env oth candidate request plog routing_key n w))"

text \<open>
  \<open>sr_clear_override\<close> is the call of \<open>clear_invalid_conversation_endpoint_key_override\<close>: the
  conversation's stored key override is cleared in the database.\<close>

definition clear_invalid_override :: "shared_cache \<Rightarrow> prompt_log \<Rightarrow> bool \<Rightarrow> bool" where
  "clear_invalid_override cache plog invalid \<longleftrightarrow>
     invalid \<and> cache \<noteq> None \<and> pl_conversation_id plog \<noteq> None"

definition select_route_for_candidate ::
    "route_env \<Rightarrow> 's others \<Rightarrow> 's affinity_ops \<Rightarrow> quota_services \<Rightarrow> bool \<Rightarrow> route_candidate \<Rightarrow> bridge_request \<Rightarrow>
     prompt_log \<Rightarrow> int \<Rightarrow> string option \<Rightarrow> 's world \<Rightarrow> 's world \<times> (route_error + selected_route option)" where
  "select_route_for_candidate env oth ops serv standalone candidate request plog user_id routing_key w =
     (let (w, clk) = turn oth w; now_min = clk_minutes clk in
      if \<not> list_ex (\<lambda>target. candidate_target_is_active (re_windows env) clk target now_min) (rc_targets candidate)
      then (w, Inl (ReSchedule (schedule_unavailable_message (re_windows env) candidate now_min)))
      else if \<not> standalone \<and> rc_routing_strategy candidate = ResponsesSessionAffinity \<and>
              (br_path request = ''/v1/responses'' \<or> br_path request = ''/v1/chat/completions'')
      then
        (case session_select env oth ops serv candidate request plog user_id w of
           (w, _, Inl e) \<Rightarrow> (w, Inl e)
         | (w, _, Inr selected) \<Rightarrow>
             (w, Inr (Some \<lparr>sr_route = route_from_target (ss_target selected) user_id (rc_rule_id candidate)
                                       (ss_key selected) (ss_reason selected),
                            sr_probe = ss_probe selected, sr_clear_override = False\<rparr>)))
      else
        (case unified_claims env oth candidate request plog routing_key (candidate_claim_limit candidate)
                (refresh_candidate_quota serv oth candidate w) of
           (w, Inl e) \<Rightarrow> (w, Inl e)
         | (w, Inr None) \<Rightarrow> (w, Inr None)
         | (w, Inr (Some (selected, probe))) \<Rightarrow>
             (w, Inr (Some \<lparr>sr_route = route_from_target (cs_target selected) user_id (rc_rule_id candidate)
                                       (cs_key selected) (cs_reason selected),
                            sr_probe = probe,
                            sr_clear_override =
                              clear_invalid_override (wo_cache w) plog (cs_invalid_override selected)\<rparr>))))"

subsection \<open>The credential of one route\<close>

record key_selection_result =
  kr_selection :: endpoint_api_key_selection
  kr_invalid_override :: bool
  kr_probe :: "probe_holder option"

definition missing_credential_message :: "route_config \<Rightarrow> string" where
  "missing_credential_message route =
     (if rg_provider route = POpenAi
      then ''route has no configured API key; complete the ChatGPT login for this endpoint or store a Platform API key''
      else ''route has no configured API key'')"

definition route_override_selection ::
    "route_env \<Rightarrow> route_config \<Rightarrow> quota_context \<Rightarrow> uuid option \<Rightarrow> clock \<Rightarrow> shared_cache \<Rightarrow>
     shared_cache \<times> endpoint_api_key_selection option" where
  "route_override_selection env route cx key_override clk cache =
     (case Option.bind key_override (\<lambda>i. find (\<lambda>key. ak_key_id key = i) (eligible_route_keys route)) of
        None \<Rightarrow> (cache, None)
      | Some key \<Rightarrow>
          let selection = selection_from_key key;
              (cache, elig) = assess env clk cache (rg_route_id route) (sel_key_id selection) cx
          in (cache, if eligibility_weight elig \<noteq> None then Some selection else None))"

definition route_pool_selection ::
    "route_env \<Rightarrow> route_config \<Rightarrow> quota_context \<Rightarrow> string option \<Rightarrow> clock \<Rightarrow> shared_cache \<Rightarrow>
     shared_cache \<times> (route_error + endpoint_api_key_selection)" where
  "route_pool_selection env route cx stable_key clk cache =
     (let (cache, pool) = route_units env clk route cache cx in
      if \<not> pool_checked pool then (cache, Inl ReQuotaUnavailable)
      else
        (case (case stable_key of
                 Some stable_key \<Rightarrow> draw_route env (qp_units pool) stable_key
               | None \<Rightarrow> (case qp_units pool of [] \<Rightarrow> None | u # us \<Rightarrow> Some u)) of
           None \<Rightarrow> (cache, Inl (ReMissingCredential (missing_credential_message route)))
         | Some u \<Rightarrow> (cache, Inr (ru_key u))))"

definition route_selection ::
    "route_env \<Rightarrow> route_config \<Rightarrow> quota_context \<Rightarrow> uuid option \<Rightarrow> string option \<Rightarrow> clock \<Rightarrow> shared_cache \<Rightarrow>
     shared_cache \<times> (route_error + endpoint_api_key_selection)" where
  "route_selection env route cx key_override stable_key clk cache =
     (case route_override_selection env route cx key_override clk cache of
        (cache, Some selection) \<Rightarrow> (cache, Inr selection)
      | (cache, None) \<Rightarrow> route_pool_selection env route cx stable_key clk cache)"

fun route_claims ::
    "route_env \<Rightarrow> 's others \<Rightarrow> route_config \<Rightarrow> bridge_request \<Rightarrow> quota_context \<Rightarrow> uuid option \<Rightarrow> string option \<Rightarrow>
     nat \<Rightarrow> 's world \<Rightarrow> 's world \<times> (route_error + endpoint_api_key_selection \<times> probe_holder option)" where
  "route_claims env oth route request cx key_override stable_key 0 w = (w, Inl ReQuotaUnavailable)"
| "route_claims env oth route request cx key_override stable_key (Suc n) w =
     (case on_cache oth (route_selection env route cx key_override stable_key) w of
        (w, Inl e) \<Rightarrow> (w, Inl e)
      | (w, Inr selection) \<Rightarrow>
          (case on_cache oth (\<lambda>clk cache. claim clk cache (rg_route_id route) (sel_key_id selection)) w of
             (w, ClaimNotRequired) \<Rightarrow>
               (reserve_selected_key oth request (rg_route_id route) (sel_key_id selection) w,
                Inr (selection, None))
           | (w, ClaimReserved permit) \<Rightarrow>
               (reserve_selected_key oth request (rg_route_id route) (sel_key_id selection) w,
                Inr (selection, Some permit))
           | (w, ClaimLostRace) \<Rightarrow> route_claims env oth route request cx key_override stable_key n w))"

definition materialize ::
    "route_env \<Rightarrow> 's others \<Rightarrow> route_config \<Rightarrow> bridge_request \<Rightarrow> prompt_log \<Rightarrow> 's world \<Rightarrow>
     's world \<times> (route_error + key_selection_result)" where
  "materialize env oth route request plog w =
     (let cx = context_effective \<lparr>qx_model = request_model env request, qx_path = br_path request\<rparr>
                 (rg_upstream_model route);
          key_override = pl_override_endpoint_key_id plog;
          invalid = is_some_and
            (\<lambda>i. \<not> list_ex (\<lambda>key. ak_key_id key = i) (eligible_route_keys route)) key_override;
          stable_key = endpoint_key_stickiness_value request plog
      in
        case route_claims env oth route request cx key_override stable_key (route_claim_limit route) w of
          (w, Inl e) \<Rightarrow> (w, Inl e)
        | (w, Inr (selection, probe)) \<Rightarrow>
            (w, Inr \<lparr>kr_selection = selection, kr_invalid_override = invalid, kr_probe = probe\<rparr>))"

end
