(* ===== verification/SessionSafety.thy ===== *)
theory SessionSafety
  imports SessionRouting
begin

text \<open>
  What a session request returns whatever the other requests do meanwhile: every theorem here
  is for an arbitrary \<open>others\<close> and an arbitrary session store.
\<close>

subsection \<open>Turns\<close>

lemma on_cacheE:
  assumes "on_cache oth f w = (w', r)"
  obtains clk cache cache' where "f clk cache = (cache', r)"
  using assms by (auto simp: on_cache_def Let_def split: prod.splits)

lemma claim_selection_probe_keeps:
  assumes "claim_selection_probe selection clk cache = (cache', selection', ok)"
  shows "ss_target selection' = ss_target selection \<and> ss_key selection' = ss_key selection \<and>
    ss_reason selection' = ss_reason selection"
  using assms by (auto simp: claim_selection_probe_def split: prod.splits probe_claim.splits)

lemma target_credential_of_unit: "unit_ok env clk cache u \<Longrightarrow> target_credential (pu_target u) (pu_key u)"
  by (simp add: unit_ok_def)

subsection \<open>A bound session\<close>

text \<open>A selection that follows the binding, and one that fails over from it.\<close>

definition follows_binding :: "'s session_call \<Rightarrow> affinity_binding \<Rightarrow> session_selection \<Rightarrow> bool" where
  "follows_binding call b sel \<longleftrightarrow>
     ss_reason sel = RrSessionAffinity \<and>
     candidate_target_by_endpoint (sx_candidate call) (ab_endpoint_id b) = Some (ss_target sel) \<and>
     select_bound_credential (re_sha (sx_env call)) (ss_target sel) b = Some (ss_key sel)"

definition fails_over :: "'s session_call \<Rightarrow> affinity_binding \<Rightarrow> session_selection \<Rightarrow> bool" where
  "fails_over call b sel \<longleftrightarrow>
     ss_reason sel = RrQuotaFailover \<and> ss_target sel \<in> set (rc_targets (sx_candidate call)) \<and>
     target_credential (ss_target sel) (ss_key sel) \<and>
     (if previous_response_chain (sx_log call) then rt_endpoint_id (ss_target sel) = ab_endpoint_id b else True)"

lemma follows_binding_cong:
  "ss_target t = ss_target s \<Longrightarrow> ss_key t = ss_key s \<Longrightarrow> ss_reason t = ss_reason s \<Longrightarrow>
     follows_binding call b t = follows_binding call b s \<and> fails_over call b t = fails_over call b s"
  by (simp add: follows_binding_def fails_over_def)

lemma selection_for_binding_follows:
  assumes "selection_for_binding call b clk cache = (cache', BoundSelected sel)"
  shows "follows_binding call b sel"
  using assms
  by (auto simp: selection_for_binding_def follows_binding_def Let_def opt_filter_def
      split: option.splits if_splits prod.splits)

lemma candidate_units_ok:
  assumes "candidate_units env clk candidate cache cx exclude all_keys = (cache', pool)"
  shows "settled clk cache' = settled clk cache \<and>
    (\<forall>u \<in> set (qp_units pool). unit_ok env clk cache u \<and> pu_target u \<in> set (rc_targets candidate) \<and>
       Some (pu_unit_id u) \<noteq> exclude)"
  using candidate_units_loop_ok [OF refl _ subset_refl assms [unfolded candidate_units_def]] by simp

lemma quota_failover_selection_fails_over:
  assumes "quota_failover_selection call b clk cache = (cache', Some (sel, replacement))"
  shows "fails_over call b sel"
proof -
  obtain c1 pool where cu: "candidate_units (sx_env call) clk (sx_candidate call) cache (sx_context call)
      (bound_unit_id (re_sha (sx_env call)) (sx_candidate call) b) True = (c1, pool)" by fastforce
  let ?units = "if previous_response_chain (sx_log call)
    then filter (\<lambda>u. rt_endpoint_id (pu_target u) = ab_endpoint_id b) (qp_units pool) else qp_units pool"
  from assms obtain u where u: "draw (sx_env call) ?units (sx_identity call) = Some u"
    and sel: "sel = \<lparr>ss_target = pu_target u, ss_key = pu_key u, ss_reason = RrQuotaFailover, ss_probe = None\<rparr>"
    by (auto simp: quota_failover_selection_def Let_def cu split: if_splits)
  have "u \<in> set ?units" using units.draw_of_in [OF u] by simp
  then show ?thesis
    using candidate_units_ok [OF cu] by (auto simp: sel fails_over_def target_credential_of_unit split: if_splits)
qed

lemma resolve_binding_follows:
  assumes "resolve_binding call b w = (w', BoundSelected sel)"
  shows "follows_binding call b sel"
proof -
  obtain w1 found where f: "on_cache (sx_oth call) (selection_for_binding call b) w = (w1, found)" by fastforce
  from assms obtain s0 where found: "found = BoundSelected s0"
    by (auto simp: resolve_binding_def f split: binding_selection.splits prod.splits bool.splits)
  obtain w2 s ok where c: "on_cache (sx_oth call) (claim_selection_probe s0) w1 = (w2, s, ok)"
    by (metis prod_cases3)
  from assms have s: "s = sel" by (auto simp: resolve_binding_def f found c split: bool.splits)
  have "follows_binding call b s0"
    using f found by (auto elim!: on_cacheE dest: selection_for_binding_follows)
  moreover have "ss_target sel = ss_target s0 \<and> ss_key sel = ss_key s0 \<and> ss_reason sel = ss_reason s0"
    using c by (auto simp: s elim!: on_cacheE dest: claim_selection_probe_keeps)
  ultimately show ?thesis using follows_binding_cong by metis
qed

lemma quota_failover_with_probe_fails_over:
  assumes "quota_failover_with_probe call b n w = (w', Some (sel, replacement))"
  shows "fails_over call b sel"
  using assms
proof (induction n arbitrary: w)
  case (Suc n)
  obtain w1 drawn where d: "on_cache (sx_oth call) (quota_failover_selection call b) w = (w1, drawn)" by fastforce
  from Suc.prems obtain s0 r0 where drawn: "drawn = Some (s0, r0)" by (auto simp: d split: option.splits)
  obtain w2 s ok where c: "on_cache (sx_oth call) (claim_selection_probe s0) w1 = (w2, s, ok)"
    by (metis prod_cases3)
  have "fails_over call b s0"
    using d drawn by (auto elim!: on_cacheE dest: quota_failover_selection_fails_over)
  moreover have "ss_target s = ss_target s0 \<and> ss_key s = ss_key s0 \<and> ss_reason s = ss_reason s0"
    using c by (auto elim!: on_cacheE dest: claim_selection_probe_keeps)
  ultimately have "fails_over call b s" using follows_binding_cong by metis
  then show ?case using Suc by (cases ok) (auto simp: d drawn c)
qed simp

lemma bound_pass_finished:
  assumes "bound_pass call b w = (w', Finished (Inr sel))"
  shows "\<not> override_conflicts_with_binding b (sx_log call) \<and> (follows_binding call b sel \<or> fails_over call b sel)"
  using assms
  by (auto simp: bound_pass_def failover_pass_def unavailable_pass_def Let_def
      dest!: resolve_binding_follows quota_failover_with_probe_fails_over
      split: if_splits prod.splits binding_selection.splits option.splits sum.splits bool.splits)

subsection \<open>A new session\<close>

definition fresh_selection :: "'s session_call \<Rightarrow> session_selection \<Rightarrow> bool" where
  "fresh_selection call sel \<longleftrightarrow>
     ss_target sel \<in> set (rc_targets (sx_candidate call)) \<and> target_credential (ss_target sel) (ss_key sel) \<and>
     (if ss_reason sel = RrConversationOverride
      then pl_override_endpoint_id (sx_log call) = Some (rt_endpoint_id (ss_target sel))
      else ss_reason sel = RrSessionAffinity)"

text \<open>What every branch of \<open>session_quota_select\<close> returns, with the cache it leaves.\<close>

definition drawn_selection ::
    "'s session_call \<Rightarrow> clock \<Rightarrow> shared_cache \<Rightarrow> candidate_selection \<Rightarrow> bool" where
  "drawn_selection call clk cache selected \<longleftrightarrow>
     (\<exists>u reason. selected = candidate_selection_of (sx_env call) clk (sx_candidate call) u
                              (pl_override_endpoint_key_id (sx_log call)) reason \<and>
        unit_ok (sx_env call) clk cache u \<and> pu_target u \<in> set (rc_targets (sx_candidate call)) \<and>
        (reason = RrConversationOverride \<and>
           pl_override_endpoint_id (sx_log call) = Some (rt_endpoint_id (pu_target u)) \<or>
         reason = RrSessionAffinity))"

lemma drawn_selectionI:
  assumes "unit_ok (sx_env call) clk cache u" "pu_target u \<in> set (rc_targets (sx_candidate call))"
    "reason = RrConversationOverride \<and>
       pl_override_endpoint_id (sx_log call) = Some (rt_endpoint_id (pu_target u)) \<or>
     reason = RrSessionAffinity"
  shows "drawn_selection call clk cache (candidate_selection_of (sx_env call) clk (sx_candidate call) u
           (pl_override_endpoint_key_id (sx_log call)) reason)"
  using assms unfolding drawn_selection_def by blast

lemma target_pool_draw:
  assumes "target_pool env clk target cache cx ko = (cache', pool)" "draw env (qp_units pool) k = Some u"
    "settled clk cache = settled clk c0"
  shows "unit_ok env clk c0 u \<and> pu_target u = target"
  using target_pool_ok [OF assms(3,1)] units.draw_of_in [OF assms(2)] by blast

lemma session_override_draw_ok:
  assumes "session_override_draw call audit clk cache = (cache', r)"
  shows "settled clk cache' = settled clk cache \<and>
    (case r of Inr (Some selected) \<Rightarrow> drawn_selection call clk cache selected | _ \<Rightarrow> True)"
proof (cases "pl_override_endpoint_id (sx_log call)")
  case None
  then show ?thesis using assms by (auto simp: session_override_draw_def Let_def)
next
  case (Some i)
  show ?thesis
  proof (cases "opt_filter (\<lambda>target. candidate_target_is_active (re_windows (sx_env call)) clk target (clk_minutes clk))
      (candidate_target_by_endpoint (sx_candidate call) i)")
    case None
    then show ?thesis using assms Some by (auto simp: session_override_draw_def Let_def)
  next
    case target: (Some target)
    then have t: "target \<in> set (rc_targets (sx_candidate call))" "rt_endpoint_id target = i"
      by (auto simp: opt_filter_def split: option.splits if_splits dest: candidate_target_by_endpointD)
    obtain c1 pool where p: "target_pool (sx_env call) clk target cache (sx_context call)
        (pl_override_endpoint_key_id (sx_log call)) = (c1, pool)" by fastforce
    show ?thesis
      using assms target_pool_ok [OF refl p] target_pool_draw [OF p _ refl] t
      by (cases "draw (sx_env call) (qp_units pool) (sx_identity call)")
        (auto simp: session_override_draw_def Some target p Let_def intro!: drawn_selectionI)
  qed
qed

lemma session_preferred_draw_ok:
  assumes "session_preferred_draw call clk cache = (cache', r)" "settled clk cache = settled clk c0"
  shows "settled clk cache' = settled clk c0 \<and>
    (case r of Some selected \<Rightarrow> drawn_selection call clk c0 selected | None \<Rightarrow> True)"
proof (cases "Option.bind (pl_preferred_endpoint_id (sx_log call)) (candidate_target_by_endpoint (sx_candidate call))")
  case None
  then show ?thesis using assms by (auto simp: session_preferred_draw_def Let_def)
next
  case (Some target)
  then have t: "target \<in> set (rc_targets (sx_candidate call))"
    by (auto simp: bind_eq_Some_conv dest: candidate_target_by_endpointD)
  obtain c1 pool where p: "target_pool (sx_env call) clk target cache (sx_context call)
      (pl_override_endpoint_key_id (sx_log call)) = (c1, pool)" by fastforce
  show ?thesis
    using assms target_pool_ok [OF assms(2) p] target_pool_draw [OF p _ assms(2)] t
    by (cases "draw (sx_env call) (qp_units pool) (sx_identity call)")
      (auto simp: session_preferred_draw_def Some p Let_def intro!: drawn_selectionI)
qed

lemma session_pool_draw_ok:
  assumes "session_pool_draw call audit clk cache = (cache', r)" "settled clk cache = settled clk c0"
  shows "settled clk cache' = settled clk c0 \<and>
    (case r of Inr selected \<Rightarrow> drawn_selection call clk c0 selected | Inl _ \<Rightarrow> True)"
proof -
  let ?T = "rc_targets (sx_candidate call)"
  obtain c1 pool where p: "pool_of_targets (sx_env call) clk (sx_context call)
      (pl_override_endpoint_key_id (sx_log call)) ?T cache pool_default = (c1, pool)" by fastforce
  note ok = pool_of_targets_ok [OF assms(2) pool_ok_default _ subset_refl p]
  show ?thesis
    using assms(1) ok units.draw_of_in [of "sx_env call" "qp_units pool" "sx_identity call"]
    by (auto simp: session_pool_draw_def Let_def p split: if_splits option.splits intro!: drawn_selectionI)
qed

lemma session_quota_select_ok:
  assumes "session_quota_select call audit clk cache = (cache', r)"
  shows "settled clk cache' = settled clk cache \<and>
    (case r of Inr selected \<Rightarrow> drawn_selection call clk cache selected | Inl _ \<Rightarrow> True)"
proof -
  obtain c1 r1 where o: "session_override_draw call audit clk cache = (c1, r1)" by fastforce
  note ok1 = session_override_draw_ok [OF o]
  obtain c2 r2 where p: "session_preferred_draw call clk c1 = (c2, r2)" by fastforce
  have s1: "settled clk c1 = settled clk cache" using ok1 by simp
  note ok2 = session_preferred_draw_ok [OF p s1]
  have s2: "settled clk c2 = settled clk cache" using ok2 by simp
  obtain c3 r3 where q: "session_pool_draw call audit clk c2 = (c3, r3)" by fastforce
  note ok3 = session_pool_draw_ok [OF q s2]
  show ?thesis
    using assms ok1 ok2 ok3
    by (auto simp: session_quota_select_def o p q split: sum.splits option.splits)
qed

lemma drawn_fresh:
  assumes "drawn_selection call clk cache selected"
    "ss_target sel = cs_target selected" "ss_key sel = cs_key selected" "ss_reason sel = cs_reason selected"
  shows "fresh_selection call sel"
  using assms by (auto simp: drawn_selection_def fresh_selection_def candidate_selection_of_def target_credential_of_unit)

lemma select_new_binding_fresh:
  assumes "select_new_binding call audit n w = (w', Inr (sel, binding))"
  shows "fresh_selection call sel \<and> binding = credential_binding (re_sha (sx_env call)) (ss_target sel) (ss_key sel)"
  using assms
proof (induction n arbitrary: w)
  case (Suc n)
  obtain w1 r where d: "on_cache (sx_oth call) (session_quota_select call audit) w = (w1, r)" by fastforce
  from Suc.prems obtain selected where r: "r = Inr selected" and v: "\<not> cs_invalid_override selected"
    by (auto simp: d split: sum.splits if_splits)
  let ?s0 = "\<lparr>ss_target = cs_target selected, ss_key = cs_key selected, ss_reason = cs_reason selected, ss_probe = None\<rparr>"
  obtain w2 s ok where c: "on_cache (sx_oth call) (claim_selection_probe ?s0) w1 = (w2, s, ok)"
    by (metis prod_cases3)
  obtain clk cache where ds: "drawn_selection call clk cache selected"
    using d r by (auto elim!: on_cacheE dest!: session_quota_select_ok)
  have k: "ss_target s = cs_target selected \<and> ss_key s = cs_key selected \<and> ss_reason s = cs_reason selected"
    using c by (auto elim!: on_cacheE dest: claim_selection_probe_keeps)
  show ?case
  proof (cases ok)
    case True
    then show ?thesis using Suc.prems drawn_fresh [OF ds] k by (auto simp: d r v c Let_def)
  next
    case False
    then have "select_new_binding call audit n w2 = (w', Inr (sel, binding))"
      using Suc.prems by (simp add: d r v c Let_def)
    then show ?thesis by (rule Suc.IH)
  qed
qed simp

lemma new_pass_finished: "new_pass call w = (w', Finished (Inr sel)) \<Longrightarrow> fresh_selection call sel"
  by (auto simp: new_pass_def dest!: select_new_binding_fresh
      split: prod.splits sum.splits if_splits)

subsection \<open>The request\<close>

definition selection_respects ::
    "'s session_call \<Rightarrow> affinity_binding option \<Rightarrow> session_selection \<Rightarrow> bool" where
  "selection_respects call binding sel =
     (case binding of
        Some b \<Rightarrow> \<not> override_conflicts_with_binding b (sx_log call) \<and>
          (follows_binding call b sel \<or> fails_over call b sel)
      | None \<Rightarrow> fresh_selection call sel)"

text \<open>
  How a request comes to leave the binding \<open>b\<close> it holds: a stale binding is cleared, for a request that
  continues no previous response; or its failover finds that another request has changed the stored
  binding meanwhile. A new binding may find that another request created one first.\<close>

definition stale_cleared :: "'s session_call \<Rightarrow> affinity_binding \<Rightarrow> 's world \<Rightarrow> bool" where
  "stale_cleared call b w \<longleftrightarrow>
     \<not> previous_response_chain (sx_log call) \<and>
     (\<exists>w1 w2 clk w3 r. resolve_binding call b w = (w1, BoundUnavailable) \<and> turn (sx_oth call) w1 = (w2, clk) \<and>
        bound_binding_state (re_sha (sx_env call)) (re_windows (sx_env call)) clk (sx_candidate call) b \<noteq> BsActive \<and>
        on_store (sx_oth call) (\<lambda>clk s. ao_delete (sx_ops call) clk s (sx_key call)) w2 = (w3, Inr r))"

definition superseded :: "'s session_call \<Rightarrow> affinity_binding \<Rightarrow> 's world \<Rightarrow> affinity_binding option \<Rightarrow> bool" where
  "superseded call b w current \<longleftrightarrow>
     (\<exists>w1 w2 sel replacement w3 w4. resolve_binding call b w = (w1, BoundQuotaExhausted) \<and>
        quota_failover_with_probe call b (candidate_claim_limit (sx_candidate call)) w1 = (w2, Some (sel, replacement)) \<and>
        on_store (sx_oth call) (\<lambda>clk s. ao_replace (sx_ops call) clk s (sx_key call) b replacement) w2 = (w3, Inr False) \<and>
        on_store (sx_oth call) (\<lambda>clk s. ao_get (sx_ops call) clk s (sx_key call)) w3 = (w4, Inr current))"

definition created_first :: "'s session_call \<Rightarrow> 's world \<Rightarrow> affinity_binding \<Rightarrow> bool" where
  "created_first call w created \<longleftrightarrow>
     (\<exists>w1 w2 sel binding. select_new_binding call audit_default (candidate_claim_limit (sx_candidate call)) w =
          (w1, Inr (sel, binding)) \<and>
        on_store (sx_oth call) (\<lambda>clk s. ao_get_or_create (sx_ops call) clk s (sx_key call) binding) w1 =
          (w2, Inr created) \<and> created \<noteq> binding)"

lemma bound_pass_retry:
  assumes "bound_pass call b w = (w', Retry next_binding)"
  shows "\<not> override_conflicts_with_binding b (sx_log call) \<and>
    (next_binding = None \<and> stale_cleared call b w \<or> superseded call b w next_binding)"
proof -
  have no: "\<not> override_conflicts_with_binding b (sx_log call)" using assms by (auto simp: bound_pass_def Let_def split: if_splits)
  obtain w1 found where r: "resolve_binding call b w = (w1, found)" by fastforce
  show ?thesis
  proof (cases found)
    case (BoundSelected sel)
    then show ?thesis using assms no by (simp add: bound_pass_def Let_def r)
  next
    case BoundQuotaExhausted
    then have "failover_pass call b w1 = (w', Retry next_binding)" using assms no by (simp add: bound_pass_def Let_def r)
    then have "superseded call b w next_binding"
      unfolding superseded_def failover_pass_def r BoundQuotaExhausted
      by (force split: prod.splits option.splits sum.splits bool.splits)
    then show ?thesis using no by blast
  next
    case BoundUnavailable
    let ?audit = "binding_audit (rc_rule_id (sx_candidate call)) (Some b) (sx_log call)"
    have u: "unavailable_pass call b ?audit w1 = (w', Retry next_binding)"
      using assms no BoundUnavailable by (simp add: bound_pass_def Let_def r)
    obtain w2 clk where t: "turn (sx_oth call) w1 = (w2, clk)" by fastforce
    have "next_binding = None \<and> stale_cleared call b w"
      using u unfolding stale_cleared_def unavailable_pass_def r BoundUnavailable
      by (force simp: t Let_def split: prod.splits sum.splits if_splits)
    then show ?thesis using no by blast
  qed
qed

lemma new_pass_retry: "new_pass call w = (w', Retry next_binding) \<Longrightarrow> \<exists>created. next_binding = Some created \<and> created_first call w created"
  unfolding new_pass_def created_first_def by (force split: prod.splits sum.splits if_splits)

text \<open>What a selection owes to the binding the request found when it started.\<close>

definition respects_first ::
    "'s session_call \<Rightarrow> affinity_binding option \<Rightarrow> 's world \<Rightarrow> affinity_binding option \<Rightarrow> session_selection \<Rightarrow> bool" where
  "respects_first call found w ended sel \<longleftrightarrow>
     selection_respects call ended sel \<and>
     (case found of
        Some b \<Rightarrow>
          \<not> override_conflicts_with_binding b (sx_log call) \<and>
          (ended = Some b \<or> ended = None \<and> stale_cleared call b w \<or> superseded call b w ended)
      | None \<Rightarrow> ended = None \<or> (\<exists>created. ended = Some created \<and> created_first call w created))"

lemma session_passes_respects:
  assumes "session_passes call n binding w = (w', last_binding, Inr sel)"
  shows "selection_respects call last_binding sel"
  using assms
proof (induction n arbitrary: binding w)
  case (Suc n)
  show ?case
  proof (cases binding)
    case None
    then show ?thesis
      using Suc by (auto simp: selection_respects_def dest: new_pass_finished split: prod.splits pass_outcome.splits)
  next
    case (Some b)
    then show ?thesis
      using Suc by (auto simp: selection_respects_def dest: bound_pass_finished split: prod.splits pass_outcome.splits)
  qed
qed simp

lemma two_passes_respect_first:
  assumes "session_passes call 2 found w = (w', ended, Inr sel)"
  shows "respects_first call found w ended sel"
proof -
  obtain w1 out where p: "(case found of Some current \<Rightarrow> bound_pass call current w | None \<Rightarrow> new_pass call w) = (w1, out)"
    by fastforce
  have respects: "selection_respects call ended sel" by (rule session_passes_respects [OF assms])
  have ended: "(case out of Finished r \<Rightarrow> ended = found \<and> r = Inr sel | Retry next_binding \<Rightarrow> ended = next_binding)"
    using assms by (auto simp: numeral_2_eq_2 p split: pass_outcome.splits option.splits prod.splits)
  show ?thesis
  proof (cases found)
    case None
    then show ?thesis
      using ended p respects new_pass_retry [of call w w1] by (cases out) (auto simp: respects_first_def)
  next
    case (Some b)
    then show ?thesis
      using ended p respects bound_pass_retry [of call b w w1] bound_pass_finished [of call b w w1 sel]
      by (cases out) (auto simp: respects_first_def)
  qed
qed

text \<open>
  C1: Session affinity, for any store and any interleaving with other requests. A session request
  that found a binding when it started, which the conversation's override may not contradict, ends
  on that binding, with exactly the bound credential or, on a quota failover, with a usable credential
  of the candidate; a continuation of a previous response fails over within the bound endpoint.
  It leaves the binding in two ways only: the binding is stale, the request is no continuation, and
  the binding is cleared; or the request was failing over and another request had changed the stored
  binding, in which case it holds to the binding it then finds. Without a binding it draws a usable
  credential of the candidate, that of the overriding endpoint if it says so, unless another request
  created a binding first, to which it holds.\<close>

theorem session_affinity_strict:
  "case session_select env oth ops serv candidate request plog user_id w of
     (w', ended, Inr sel) \<Rightarrow>
       \<exists>stable_identity w0 found. endpoint_key_stickiness_value request plog = Some stable_identity \<and>
         (let call = session_call_of env oth ops candidate request plog user_id stable_identity in
          on_store oth (\<lambda>clk s. ao_get ops clk s (sx_key call)) w = (w0, Inr found) \<and>
          respects_first call found (refresh_candidate_quota serv oth candidate w0) ended sel)
   | (w', _, Inl e) \<Rightarrow> True"
proof -
  obtain w' ended r where s: "session_select env oth ops serv candidate request plog user_id w = (w', ended, r)"
    by (metis prod_cases3)
  show ?thesis
  proof (cases r)
    case (Inl e)
    then show ?thesis by (simp add: s)
  next
    case (Inr sel)
    with s show ?thesis
      by (auto simp: session_select_def Let_def split: option.splits if_splits prod.splits sum.splits
          intro: two_passes_respect_first)
  qed
qed

end
