(* ===== verification/SessionSpec.thy ===== *)
theory SessionSpec
  imports SessionSafety
begin

text \<open>
  What a session request promises, as a function: from the binding the store holds and the quota
  cache after the refresh to the binding the store holds afterwards and the credential chosen.
  The specification has no store operations, claims, permits, retries or second pass. A request
  that runs undisturbed at one instant implements it on every store that answers, which the three
  backends do.
\<close>

subsection \<open>The specification\<close>

definition brief :: "session_selection \<Rightarrow> route_target \<times> endpoint_api_key_selection \<times> route_selection_reason" where
  "brief sel = (ss_target sel, ss_key sel, ss_reason sel)"

type_synonym session_result =
  "affinity_binding option \<times> (route_error + route_target \<times> endpoint_api_key_selection \<times> route_selection_reason)"

definition new_session_spec :: "'s session_call \<Rightarrow> clock \<Rightarrow> shared_cache \<Rightarrow> session_result" where
  "new_session_spec call clk cache =
     (case snd (session_quota_select call audit_default clk cache) of
        Inl e \<Rightarrow> (None, Inl e)
      | Inr selected \<Rightarrow>
          if cs_invalid_override selected then (None, Inl (ReAffinity (conflict audit_default)))
          else (Some (credential_binding (re_sha (sx_env call)) (cs_target selected) (cs_key selected)),
                Inr (cs_target selected, cs_key selected, cs_reason selected)))"

definition session_spec ::
    "'s session_call \<Rightarrow> clock \<Rightarrow> shared_cache \<Rightarrow> affinity_binding option \<Rightarrow> session_result" where
  "session_spec call clk cache binding =
     (case binding of
        None \<Rightarrow> new_session_spec call clk cache
      | Some b \<Rightarrow>
          let audit = binding_audit (rc_rule_id (sx_candidate call)) (Some b) (sx_log call) in
          if override_conflicts_with_binding b (sx_log call) then (Some b, Inl (ReAffinity (conflict audit)))
          else
            (case snd (selection_for_binding call b clk cache) of
               BoundSelected sel \<Rightarrow>
                 (Some (credential_binding (re_sha (sx_env call)) (ss_target sel) (ss_key sel)), Inr (brief sel))
             | BoundQuotaExhausted \<Rightarrow>
                 (case snd (quota_failover_selection call b clk cache) of
                    None \<Rightarrow> (Some b, Inl ReQuotaUnavailable)
                  | Some (sel, replacement) \<Rightarrow> (Some replacement, Inr (brief sel)))
             | BoundUnavailable \<Rightarrow>
                 if previous_response_chain (sx_log call)
                 then (Some b, Inl (ReAffinity (target_unavailable audit)))
                 else new_session_spec call clk cache))"

subsection \<open>Undisturbed turns\<close>

definition alone :: "clock \<Rightarrow> 's others" where
  "alone clk = \<lparr>oth_clock = (\<lambda>_. clk), oth_run = (\<lambda>_ shared. shared)\<rparr>"

definition next_turn :: "'s world \<Rightarrow> 's world" where
  "next_turn w = w\<lparr>wo_turn := Suc (wo_turn w)\<rparr>"

lemma next_turn_sel [simp]: "wo_cache (next_turn w) = wo_cache w" "wo_store (next_turn w) = wo_store w"
  by (simp_all add: next_turn_def)

lemma turn_alone [simp]: "turn (alone clk) w = (next_turn w, clk)"
  by (cases w) (simp add: turn_def alone_def next_turn_def)

lemma on_cache_alone:
  "f clk (wo_cache w) = (cache, r) \<Longrightarrow>
     on_cache (alone clk) f w = ((next_turn w)\<lparr>wo_cache := cache\<rparr>, r)"
  by (simp add: on_cache_def)

lemma on_store_alone:
  "f clk (wo_store w) = (store, r) \<Longrightarrow>
     on_store (alone clk) f w = ((next_turn w)\<lparr>wo_store := store\<rparr>, r)"
  by (simp add: on_store_def)

lemma update_cache_alone [simp]:
  "wo_store (update_cache (alone clk) f w) = wo_store w"
  "wo_cache (update_cache (alone clk) f w) = f clk (wo_cache w)"
  by (simp_all add: update_cache_def on_cache_def)

subsection \<open>A claim after an assessment succeeds\<close>

lemma claimable_cong:
  "settled clk c = settled clk c' \<Longrightarrow> claimable clk c e k = claimable clk c' e k"
  by (metis claimable_settled)

lemma claim_selection_probe_ok:
  assumes "claimable clk cache (rt_endpoint_id (ss_target sel)) (sel_key_id (ss_key sel))"
  obtains cache' sel' where "claim_selection_probe sel clk cache = (cache', sel', True)" "brief sel' = brief sel"
proof -
  obtain cache' sel' ok where c: "claim_selection_probe sel clk cache = (cache', sel', ok)" by (metis prod_cases3)
  have "snd (claim clk cache (rt_endpoint_id (ss_target sel)) (sel_key_id (ss_key sel))) \<noteq> ClaimLostRace"
    by (rule claimable_claim [OF assms])
  then have "ok" using c by (auto simp: claim_selection_probe_def split: prod.splits probe_claim.splits)
  moreover have "brief sel' = brief sel" using claim_selection_probe_keeps [OF c] by (simp add: brief_def)
  ultimately show thesis using c that [of cache' sel'] by simp
qed

lemma bound_credential_no_key:
  "select_bound_credential sha t b = Some sel \<Longrightarrow> rt_has_oauth_token t \<Longrightarrow> sel_key_id sel = None"
  by (auto simp: select_bound_credential_def split: if_splits)

lemma selection_for_binding_claimable:
  assumes "selection_for_binding call b clk cache = (cache', BoundSelected sel)"
  shows "cache' = settled clk cache \<and> claimable clk cache (rt_endpoint_id (ss_target sel)) (sel_key_id (ss_key sel))"
proof -
  from assms obtain target key w where sel: "ss_target sel = target" "ss_key sel = key"
    and k: "select_bound_credential (re_sha (sx_env call)) target b = Some key"
    and a: "assess_target_credential (sx_env call) clk cache target (sel_key_id key)
        (context_effective (sx_context call) (rt_upstream_model target)) = (cache', ElEligible w)"
    by (auto simp: selection_for_binding_def Let_def eligibility_weight_Some
        split: option.splits if_splits prod.splits)
  have "cache' = settled clk cache" using a assess_credential_pair by (metis prod.inject)
  then show ?thesis
    using a assess_credential_eligible [of "sx_env call" clk cache target "sel_key_id key", OF _ bound_credential_no_key [OF k]]
    by (metis sel snd_conv)
qed

lemma selection_for_binding_exhausted:
  assumes "selection_for_binding call b clk cache = (cache', BoundQuotaExhausted)"
  shows "cache' = settled clk cache"
  using assms
  by (auto simp: selection_for_binding_def Let_def split: option.splits if_splits prod.splits)
    (metis assess_credential_pair prod.inject)

text \<open>Without interference the binding is unavailable exactly when its state is not active.\<close>

lemma selection_for_binding_unavailable:
  assumes "selection_for_binding call b clk cache = (cache', BoundUnavailable)"
  shows "cache' = cache \<and>
    bound_binding_state (re_sha (sx_env call)) (re_windows (sx_env call)) clk (sx_candidate call) b \<noteq> BsActive"
  using assms
  by (auto simp: selection_for_binding_def bound_binding_state_def Let_def opt_filter_def
      split: option.splits if_splits prod.splits)

lemma candidate_units_loop_cong:
  assumes "settled clk c = settled clk c'"
  shows "snd (candidate_units_loop env clk cx ex all ts c pool) = snd (candidate_units_loop env clk cx ex all ts c' pool)"
  using assms
proof (induction ts arbitrary: c c' pool)
  case (Cons t ts)
  obtain c1 p where u: "target_units env clk t c cx all = (c1, p)" by fastforce
  obtain c2 p' where u': "target_units env clk t c' cx all = (c2, p')" by fastforce
  have p: "p' = p" using target_units_cong [OF Cons.prems, of env t cx all] by (simp add: u u')
  have "settled clk c1 = settled clk c2"
    using target_units_ok [OF refl u] target_units_ok [OF refl u'] Cons.prems by simp
  from Cons.IH [OF this] show ?case by (simp add: u u' p)
qed simp

lemma quota_failover_selection_cong:
  assumes "settled clk c = settled clk c'"
  shows "snd (quota_failover_selection call b clk c) = snd (quota_failover_selection call b clk c')"
proof -
  note e = candidate_units_loop_cong [OF assms]
  show ?thesis using e by (simp add: quota_failover_selection_def candidate_units_def Let_def case_prod_unfold)
qed

lemma quota_failover_selection_claimable:
  assumes "quota_failover_selection call b clk cache = (cache', Some (sel, replacement))"
  shows "settled clk cache' = settled clk cache \<and>
    claimable clk cache (rt_endpoint_id (ss_target sel)) (sel_key_id (ss_key sel))"
proof -
  obtain c1 pool where cu: "candidate_units (sx_env call) clk (sx_candidate call) cache (sx_context call)
      (bound_unit_id (re_sha (sx_env call)) (sx_candidate call) b) True = (c1, pool)" by fastforce
  let ?units = "if previous_response_chain (sx_log call)
    then filter (\<lambda>u. rt_endpoint_id (pu_target u) = ab_endpoint_id b) (qp_units pool) else qp_units pool"
  from assms obtain u where u: "draw (sx_env call) ?units (sx_identity call) = Some u"
    and sel: "ss_target sel = pu_target u" "ss_key sel = pu_key u" and c: "cache' = c1"
    by (auto simp: quota_failover_selection_def Let_def cu split: if_splits)
  have "u \<in> set ?units" using units.draw_of_in [OF u] by simp
  then have "u \<in> set (qp_units pool)" by (auto split: if_splits)
  then show ?thesis using candidate_units_ok [OF cu] by (auto simp: sel c unit_ok_def)
qed

lemma session_quota_select_claimable:
  assumes "session_quota_select call audit clk cache = (cache', Inr selected)"
  shows "settled clk cache' = settled clk cache \<and>
    claimable clk cache (rt_endpoint_id (cs_target selected)) (sel_key_id (cs_key selected))"
  using session_quota_select_ok [OF assms]
  by (auto simp: drawn_selection_def unit_ok_def candidate_selection_of_def)

subsection \<open>The loops stop at their first claim\<close>

lemma candidate_claim_limit_Suc: "\<exists>n. candidate_claim_limit c = Suc n"
  using candidate_claim_limit_pos [of c] by (metis gr0_implies_Suc)

lemma select_new_binding_alone:
  assumes "sx_oth call = alone clk"
  shows "case select_new_binding call audit (Suc n) w of (w', r) \<Rightarrow> wo_store w' = wo_store w \<and>
    (case snd (session_quota_select call audit clk (wo_cache w)) of
        Inl e \<Rightarrow> r = Inl e
      | Inr selected \<Rightarrow>
          if cs_invalid_override selected then r = Inl (ReAffinity (conflict audit))
          else \<exists>sel. brief sel = (cs_target selected, cs_key selected, cs_reason selected) \<and>
            r = Inr (sel, credential_binding (re_sha (sx_env call)) (cs_target selected) (cs_key selected)))"
proof -
  obtain c1 q where q: "session_quota_select call audit clk (wo_cache w) = (c1, q)" by fastforce
  note step = on_cache_alone [of "session_quota_select call audit", OF q]
  show ?thesis
  proof (cases q)
    case (Inl e)
    then show ?thesis using step
      by (auto simp: assms q)
  next
    case (Inr selected)
    show ?thesis
    proof (cases "cs_invalid_override selected")
      case True
      then show ?thesis using step
      by (auto simp: assms q Inr)
    next
      case False
      let ?s0 = "\<lparr>ss_target = cs_target selected, ss_key = cs_key selected, ss_reason = cs_reason selected, ss_probe = None\<rparr>"
      have "claimable clk c1 (rt_endpoint_id (ss_target ?s0)) (sel_key_id (ss_key ?s0))"
        using session_quota_select_claimable [OF q [unfolded Inr]] claimable_cong [of clk c1 "wo_cache w"] by simp
      then obtain c2 s where c: "claim_selection_probe ?s0 clk c1 = (c2, s, True)" "brief s = brief ?s0"
        by (rule claim_selection_probe_ok)
      let ?w1 = "(next_turn w)\<lparr>wo_cache := c1\<rparr>"
      have "on_cache (alone clk) (claim_selection_probe ?s0) ?w1 = ((next_turn ?w1)\<lparr>wo_cache := c2\<rparr>, s, True)"
        using c(1) by (intro on_cache_alone) simp
      then show ?thesis using step False c(2)
      by (auto simp: assms q Inr brief_def)
    qed
  qed
qed

lemma resolve_binding_alone:
  assumes "sx_oth call = alone clk"
  shows "case resolve_binding call b w of (w', r) \<Rightarrow> wo_store w' = wo_store w \<and>
    (case snd (selection_for_binding call b clk (wo_cache w)) of
        BoundSelected sel \<Rightarrow> \<exists>s. r = BoundSelected s \<and> brief s = brief sel
      | BoundQuotaExhausted \<Rightarrow> r = BoundQuotaExhausted \<and> settled clk (wo_cache w') = settled clk (wo_cache w)
      | BoundUnavailable \<Rightarrow> r = BoundUnavailable \<and> wo_cache w' = wo_cache w)"
proof -
  obtain c1 found where f: "selection_for_binding call b clk (wo_cache w) = (c1, found)" by fastforce
  note step = on_cache_alone [of "selection_for_binding call b", OF f]
  show ?thesis
  proof (cases found)
    case (BoundSelected sel)
    note cl = selection_for_binding_claimable [OF f [unfolded BoundSelected]]
    then have "claimable clk c1 (rt_endpoint_id (ss_target sel)) (sel_key_id (ss_key sel))" by simp
    then obtain c2 s where c: "claim_selection_probe sel clk c1 = (c2, s, True)" "brief s = brief sel"
      by (rule claim_selection_probe_ok)
    let ?w1 = "(next_turn w)\<lparr>wo_cache := c1\<rparr>"
    have "on_cache (alone clk) (claim_selection_probe sel) ?w1 = ((next_turn ?w1)\<lparr>wo_cache := c2\<rparr>, s, True)"
      using c(1) by (intro on_cache_alone) simp
    then show ?thesis using step c(2)
      by (auto simp: resolve_binding_def assms f BoundSelected)
  next
    case BoundQuotaExhausted
    then show ?thesis using step selection_for_binding_exhausted [OF f [unfolded BoundQuotaExhausted]]
      by (auto simp: resolve_binding_def assms f)
  next
    case BoundUnavailable
    then show ?thesis using step selection_for_binding_unavailable [OF f [unfolded BoundUnavailable]]
      by (auto simp: resolve_binding_def assms f)
  qed
qed

lemma quota_failover_with_probe_alone:
  assumes "sx_oth call = alone clk" "settled clk (wo_cache w) = settled clk c0"
  shows "case quota_failover_with_probe call b (Suc n) w of (w', r) \<Rightarrow> wo_store w' = wo_store w \<and>
    (case snd (quota_failover_selection call b clk c0) of
        None \<Rightarrow> r = None
      | Some (sel, replacement) \<Rightarrow> \<exists>s. r = Some (s, replacement) \<and> brief s = brief sel)"
proof -
  obtain c1 d where d: "quota_failover_selection call b clk (wo_cache w) = (c1, d)" by fastforce
  note step = on_cache_alone [of "quota_failover_selection call b", OF d]
  have eq: "snd (quota_failover_selection call b clk c0) = d"
    using quota_failover_selection_cong [OF assms(2), of call b] d by simp
  show ?thesis
  proof (cases d)
    case None
    then show ?thesis using step eq
      by (auto simp: assms(1))
  next
    case (Some p)
    obtain sel replacement where p: "p = (sel, replacement)" by fastforce
    note cl = quota_failover_selection_claimable [OF d [unfolded Some p]]
    then have "claimable clk c1 (rt_endpoint_id (ss_target sel)) (sel_key_id (ss_key sel))"
      using claimable_cong [of clk c1 "wo_cache w"] by simp
    then obtain c2 s where c: "claim_selection_probe sel clk c1 = (c2, s, True)" "brief s = brief sel"
      by (rule claim_selection_probe_ok)
    let ?w1 = "(next_turn w)\<lparr>wo_cache := c1\<rparr>"
    have "on_cache (alone clk) (claim_selection_probe sel) ?w1 = ((next_turn ?w1)\<lparr>wo_cache := c2\<rparr>, s, True)"
      using c(1) by (intro on_cache_alone) simp
    then show ?thesis using step eq c(2)
      by (auto simp: assms(1) Some p)
  qed
qed

subsection \<open>The request implements the specification\<close>

definition refreshed :: "quota_services \<Rightarrow> clock \<Rightarrow> route_candidate \<Rightarrow> quota_cache \<Rightarrow> quota_cache" where
  "refreshed serv clk candidate cache =
     foldl
       (\<lambda>c target. qv_refresh_if_due serv clk
          (hydrate_chatgpt_subscription clk c (qv_subscription serv clk (rt_endpoint_id target))
             (rt_endpoint_id target) (rt_provider target))
          (rt_endpoint_id target))
       cache (rc_targets candidate)"

lemma refresh_targets_alone:
  "wo_cache w = Some c \<Longrightarrow>
     wo_store (refresh_targets serv (alone clk) targets w) = wo_store w \<and>
     wo_cache (refresh_targets serv (alone clk) targets w) =
       Some (foldl
         (\<lambda>c target. qv_refresh_if_due serv clk
            (hydrate_chatgpt_subscription clk c (qv_subscription serv clk (rt_endpoint_id target))
               (rt_endpoint_id target) (rt_provider target))
            (rt_endpoint_id target)) c targets)"
  by (induction targets arbitrary: w c) (simp_all add: Let_def)

lemma refresh_candidate_quota_alone:
  assumes "wo_cache w = Some c"
  shows "wo_store (refresh_candidate_quota serv (alone clk) candidate w) = wo_store w"
    "wo_cache (refresh_candidate_quota serv (alone clk) candidate w) = Some (refreshed serv clk candidate c)"
  using refresh_targets_alone [OF assms] by (simp_all add: refresh_candidate_quota_def assms refreshed_def)

context affinity_answers
begin

lemma new_pass_spec:
  assumes "sx_oth call = alone clk" "sx_ops call = ops" "good (wo_store w) clk"
    "live (wo_store w) clk (sx_key call) = None"
  shows "\<exists>w' r. new_pass call w = (w', Finished r) \<and> good (wo_store w') clk \<and>
    (live (wo_store w') clk (sx_key call), map_sum (\<lambda>e. e) brief r) = new_session_spec call clk (wo_cache w)"
proof -
  obtain n where n: "candidate_claim_limit (sx_candidate call) = Suc n" using candidate_claim_limit_Suc by blast
  obtain w1 r where s: "select_new_binding call audit_default (Suc n) w = (w1, r)" by fastforce
  note f = select_new_binding_alone [OF assms(1), where audit = audit_default and n = n and w = w, unfolded s prod.case]
  note limit = s [folded n]
  have st: "wo_store w1 = wo_store w" using f by simp
  show ?thesis
  proof (cases r)
    case (Inl e)
    then have "new_session_spec call clk (wo_cache w) = (None, Inl e)"
      using f by (auto simp: new_session_spec_def split: sum.splits if_splits)
    then show ?thesis using assms st by (simp add: new_pass_def limit Inl)
  next
    case (Inr p)
    then obtain selected sel where q: "snd (session_quota_select call audit_default clk (wo_cache w)) = Inr selected"
      and v: "\<not> cs_invalid_override selected"
      and b: "brief sel = (cs_target selected, cs_key selected, cs_reason selected)"
      and p: "p = (sel, credential_binding (re_sha (sx_env call)) (cs_target selected) (cs_key selected))"
      using f by (auto split: sum.splits if_splits)
    let ?b = "credential_binding (re_sha (sx_env call)) (cs_target selected) (cs_key selected)"
    obtain s' where c: "ao_get_or_create ops clk (wo_store w1) (sx_key call) ?b = (s', Inr ?b)"
      "live s' clk (sx_key call) = Some ?b" "good s' clk"
      using create_live [of "wo_store w1" clk "sx_key call" ?b] assms(3,4) st by auto
    note o = on_store_alone [where f = "\<lambda>clk s. ao_get_or_create ops clk s (sx_key call) ?b", OF c(1)]
    show ?thesis using c(2,3) q v b
      by (simp add: new_pass_def limit Inr p assms(1,2) o reserve_selection_def new_session_spec_def)
  qed
qed

lemma heal_stale_binding_spec:
  assumes "sx_oth call = alone clk" "sx_ops call = ops" "good (wo_store w) clk"
    "live (wo_store w) clk (sx_key call) = Some b"
  shows "good (wo_store (heal_stale_binding call b sel w)) clk \<and>
    live (wo_store (heal_stale_binding call b sel w)) clk (sx_key call) =
      Some (credential_binding (re_sha (sx_env call)) (ss_target sel) (ss_key sel))"
proof -
  let ?r = "credential_binding (re_sha (sx_env call)) (ss_target sel) (ss_key sel)"
  obtain s' where c: "ao_replace ops clk (wo_store w) (sx_key call) b ?r = (s', Inr True)"
    "live s' clk (sx_key call) = Some ?r" "good s' clk"
    using replace_live [OF assms(3,4), of ?r] by blast
  note o = on_store_alone [where f = "\<lambda>clk s. ao_replace ops clk s (sx_key call) b ?r", OF c(1)]
  show ?thesis using assms c(2,3) by (simp add: heal_stale_binding_def Let_def o)
qed

lemma failover_pass_spec:
  assumes "sx_oth call = alone clk" "sx_ops call = ops" "good (wo_store w) clk"
    "live (wo_store w) clk (sx_key call) = Some b" "settled clk (wo_cache w) = settled clk c0"
  shows "\<exists>w' r. failover_pass call b w = (w', Finished r) \<and> good (wo_store w') clk \<and>
    (live (wo_store w') clk (sx_key call), map_sum (\<lambda>e. e) brief r) =
      (case snd (quota_failover_selection call b clk c0) of
         None \<Rightarrow> (Some b, Inl ReQuotaUnavailable)
       | Some (sel, replacement) \<Rightarrow> (Some replacement, Inr (brief sel)))"
proof -
  obtain n where n: "candidate_claim_limit (sx_candidate call) = Suc n" using candidate_claim_limit_Suc by blast
  obtain w1 d where q: "quota_failover_with_probe call b (Suc n) w = (w1, d)" by fastforce
  note f = quota_failover_with_probe_alone [OF assms(1,5), where b = b and n = n, unfolded q prod.case]
  note limit = q [folded n]
  have st: "wo_store w1 = wo_store w" using f by simp
  show ?thesis
  proof (cases d)
    case None
    then have "snd (quota_failover_selection call b clk c0) = None" using f by (auto split: option.splits)
    then show ?thesis using assms st by (simp add: failover_pass_def limit None)
  next
    case (Some p)
    then obtain sel replacement s where d: "snd (quota_failover_selection call b clk c0) = Some (sel, replacement)"
      and p: "p = (s, replacement)" and br: "brief s = brief sel"
      using f by (auto split: option.splits)
    obtain s' where c: "ao_replace ops clk (wo_store w1) (sx_key call) b replacement = (s', Inr True)"
      "live s' clk (sx_key call) = Some replacement" "good s' clk"
      using replace_live [of "wo_store w1" clk "sx_key call" b replacement] assms(3,4) st by auto
    note o = on_store_alone [where f = "\<lambda>clk s. ao_replace ops clk s (sx_key call) b replacement", OF c(1)]
    show ?thesis using c(2,3) br d
      by (simp add: failover_pass_def limit Some p assms(1,2) o reserve_selection_def)
  qed
qed

text \<open>A pass on a stale binding deletes it and leaves the new session to the next pass.\<close>

lemma bound_pass_spec:
  assumes "sx_oth call = alone clk" "sx_ops call = ops" "good (wo_store w) clk"
    "live (wo_store w) clk (sx_key call) = Some b"
  shows "\<exists>w' out. bound_pass call b w = (w', out) \<and> good (wo_store w') clk \<and>
    (case out of
       Finished r \<Rightarrow>
         (live (wo_store w') clk (sx_key call), map_sum (\<lambda>e. e) brief r) = session_spec call clk (wo_cache w) (Some b)
     | Retry nb \<Rightarrow> nb = None \<and> live (wo_store w') clk (sx_key call) = None \<and> wo_cache w' = wo_cache w \<and>
         session_spec call clk (wo_cache w) (Some b) = new_session_spec call clk (wo_cache w))"
proof (cases "override_conflicts_with_binding b (sx_log call)")
  case True
  then show ?thesis using assms by (simp add: bound_pass_def session_spec_def Let_def)
next
  case False
  obtain w1 r where rb: "resolve_binding call b w = (w1, r)" by fastforce
  note f = resolve_binding_alone [OF assms(1), where b = b and w = w, unfolded rb prod.case]
  have st: "wo_store w1 = wo_store w" using f by simp
  obtain c1 found where sb: "selection_for_binding call b clk (wo_cache w) = (c1, found)" by fastforce
  show ?thesis
  proof (cases found)
    case (BoundSelected sel)
    then obtain s where r: "r = BoundSelected s" "brief s = brief sel" using f by (auto simp: sb)
    have "good (wo_store w1) clk" "live (wo_store w1) clk (sx_key call) = Some b" using assms st by simp_all
    note h = heal_stale_binding_spec [OF assms(1,2) this, of s]
    have "ss_target s = ss_target sel" "ss_key s = ss_key sel" using r(2) by (simp_all add: brief_def)
    then show ?thesis using h r False
      by (simp add: bound_pass_def session_spec_def Let_def rb sb BoundSelected reserve_selection_def assms(1))
  next
    case BoundQuotaExhausted
    then have r: "r = BoundQuotaExhausted" "settled clk (wo_cache w1) = settled clk (wo_cache w)"
      using f by (simp_all add: sb)
    have "good (wo_store w1) clk" "live (wo_store w1) clk (sx_key call) = Some b" using assms st by simp_all
    then obtain w' q where "failover_pass call b w1 = (w', Finished q) \<and> good (wo_store w') clk \<and>
        (live (wo_store w') clk (sx_key call), map_sum (\<lambda>e. e) brief q) =
        (case snd (quota_failover_selection call b clk (wo_cache w)) of
           None \<Rightarrow> (Some b, Inl ReQuotaUnavailable)
         | Some (sel, replacement) \<Rightarrow> (Some replacement, Inr (brief sel)))"
      using failover_pass_spec [OF assms(1,2) _ _ r(2)] by blast
    then show ?thesis using False
      by (simp add: bound_pass_def session_spec_def Let_def rb sb BoundQuotaExhausted r(1))
  next
    case BoundUnavailable
    then have r: "r = BoundUnavailable" "wo_cache w1 = wo_cache w" using f by (simp_all add: sb)
    have stale: "bound_binding_state (re_sha (sx_env call)) (re_windows (sx_env call)) clk (sx_candidate call) b \<noteq> BsActive"
      using selection_for_binding_unavailable [OF sb [unfolded BoundUnavailable]] by simp
    obtain s' x where c: "ao_delete ops clk (wo_store w1) (sx_key call) = (s', Inr x)"
      "live s' clk (sx_key call) = None" "good s' clk"
      using delete_live [of "wo_store w1" clk "sx_key call"] assms(3) st by auto
    have o: "on_store (alone clk) (\<lambda>clk s. ao_delete ops clk s (sx_key call)) (next_turn w1) =
        ((next_turn (next_turn w1))\<lparr>wo_store := s'\<rparr>, Inr x)"
      using c(1) by (intro on_store_alone) simp
    show ?thesis
    proof (cases "previous_response_chain (sx_log call)")
      case True
      then show ?thesis using False assms st
        by (simp add: bound_pass_def session_spec_def Let_def rb sb BoundUnavailable r unavailable_pass_def)
    next
      case chain: False
      then show ?thesis using False stale c(2,3) r(2)
        by (simp add: bound_pass_def session_spec_def Let_def rb sb BoundUnavailable r(1) unavailable_pass_def
            assms(1,2) o)
    qed
  qed
qed

lemma session_passes_spec:
  assumes "sx_oth call = alone clk" "sx_ops call = ops" "good (wo_store w) clk"
  shows "\<exists>w' lb r. session_passes call 2 (live (wo_store w) clk (sx_key call)) w = (w', lb, r) \<and>
    good (wo_store w') clk \<and>
    (live (wo_store w') clk (sx_key call), map_sum (\<lambda>e. e) brief r) =
      session_spec call clk (wo_cache w) (live (wo_store w) clk (sx_key call))"
proof -
  let ?l = "live (wo_store w) clk (sx_key call)"
  have two: "(2 :: nat) = Suc (Suc 0)" by simp
  show ?thesis
  proof (cases ?l)
    case None
    then show ?thesis
      using new_pass_spec [OF assms None] by (auto simp: two session_spec_def)
  next
    case (Some b)
    obtain w1 out where p: "bound_pass call b w = (w1, out)" and g: "good (wo_store w1) clk"
      and o: "(case out of
       Finished r \<Rightarrow>
         (live (wo_store w1) clk (sx_key call), map_sum (\<lambda>e. e) brief r) = session_spec call clk (wo_cache w) (Some b)
     | Retry nb \<Rightarrow> nb = None \<and> live (wo_store w1) clk (sx_key call) = None \<and> wo_cache w1 = wo_cache w \<and>
         session_spec call clk (wo_cache w) (Some b) = new_session_spec call clk (wo_cache w))"
      using bound_pass_spec [OF assms Some] by blast
    show ?thesis
    proof (cases out)
      case (Finished r)
      then show ?thesis using g o by (simp add: two Some p)
    next
      case (Retry nb)
      then have nb: "nb = None" "live (wo_store w1) clk (sx_key call) = None" "wo_cache w1 = wo_cache w"
        and sp: "session_spec call clk (wo_cache w) (Some b) = new_session_spec call clk (wo_cache w)"
        using o by simp_all
      from new_pass_spec [OF assms(1,2) g nb(2)] obtain w2 r where
        "new_pass call w1 = (w2, Finished r)" "good (wo_store w2) clk"
        "(live (wo_store w2) clk (sx_key call), map_sum (\<lambda>e. e) brief r) = new_session_spec call clk (wo_cache w1)"
        by blast
      then show ?thesis using nb by (simp add: two Some p Retry sp)
    qed
  qed
qed

lemma session_select_spec:
  assumes "good s clk" "endpoint_key_stickiness_value request plog = Some stable_identity"
  shows "let call = session_call_of env (alone clk) ops candidate request plog user_id stable_identity in
    case session_select env (alone clk) ops serv candidate request plog user_id
           \<lparr>wo_cache = Some cache, wo_store = s, wo_turn = n\<rparr> of
      (w', _, r) \<Rightarrow> good (wo_store w') clk \<and>
        (live (wo_store w') clk (sx_key call), map_sum (\<lambda>e. e) brief r) =
          session_spec call clk (Some (refreshed serv clk candidate cache)) (live s clk (sx_key call))"
proof -
  let ?call = "session_call_of env (alone clk) ops candidate request plog user_id stable_identity"
  let ?w = "\<lparr>wo_cache = Some cache, wo_store = s, wo_turn = n\<rparr>"
  have call: "sx_oth ?call = alone clk" "sx_ops ?call = ops" by (simp_all add: session_call_of_def)
  obtain s1 where g: "ao_get ops clk s (sx_key ?call) = (s1, Inr (live s clk (sx_key ?call)))"
    "live s1 clk = live s clk" "good s1 clk"
    by (rule get_live [OF assms(1)])
  let ?w1 = "(next_turn ?w)\<lparr>wo_store := s1\<rparr>"
  have o: "on_store (alone clk) (\<lambda>clk s. ao_get ops clk s (sx_key ?call)) ?w = (?w1, Inr (live s clk (sx_key ?call)))"
    using g(1) by (intro on_store_alone) simp
  let ?w2 = "refresh_candidate_quota serv (alone clk) candidate ?w1"
  have w2: "wo_store ?w2 = s1" "wo_cache ?w2 = Some (refreshed serv clk candidate cache)"
    using refresh_candidate_quota_alone [of ?w1 cache] by simp_all
  have "good (wo_store ?w2) clk" using g(3) w2 by simp
  from session_passes_spec [OF call this] obtain w' lb r where
    "session_passes ?call 2 (live s clk (sx_key ?call)) ?w2 = (w', lb, r)" "good (wo_store w') clk"
    "(live (wo_store w') clk (sx_key ?call), map_sum (\<lambda>e. e) brief r) =
      session_spec ?call clk (Some (refreshed serv clk candidate cache)) (live s clk (sx_key ?call))"
    by (auto simp: w2 g(2))
  then show ?thesis using o by (simp add: session_select_def assms(2) Let_def)
qed

end

text \<open>
  C3: An undisturbed session request implements the specification on every backend: whatever the
  session's state (unbound, bound and usable, bound but out of quota, bound to a credential that
  went away, contradicted by an override), it returns the credential the specification names and
  leaves the store holding the binding the specification names. In particular a stale session is
  rebound within the request unless it continues a previous response, an exhausted one moves to
  the replacement it is answered with, and a refused request leaves the stored binding alone.\<close>

theorem session_select_implements_spec:
  assumes "endpoint_key_stickiness_value request plog = Some stable_identity"
    and "local_good l clk" "sqlite_good codec ttl db clk" "redis_good rd codec r clk"
  shows
    "(let call = session_call_of env (alone clk) local_ops candidate request plog user_id stable_identity in
      case session_select env (alone clk) local_ops serv candidate request plog user_id
             \<lparr>wo_cache = Some cache, wo_store = l, wo_turn = n\<rparr> of
        (w', _, result) \<Rightarrow>
          (local_live (wo_store w') clk (sx_key call), map_sum (\<lambda>e. e) brief result) =
            session_spec call clk (Some (refreshed serv clk candidate cache)) (local_live l clk (sx_key call))) \<and>
     (let call = session_call_of env (alone clk) (sqlite_ops codec ttl) candidate request plog user_id stable_identity in
      case session_select env (alone clk) (sqlite_ops codec ttl) serv candidate request plog user_id
             \<lparr>wo_cache = Some cache, wo_store = db, wo_turn = n\<rparr> of
        (w', _, result) \<Rightarrow>
          (sqlite_live codec (wo_store w') clk (sx_key call), map_sum (\<lambda>e. e) brief result) =
            session_spec call clk (Some (refreshed serv clk candidate cache)) (sqlite_live codec db clk (sx_key call))) \<and>
     (let call = session_call_of env (alone clk) (redis_affinity_ops rd codec ttl') candidate request plog user_id
                   stable_identity in
      case session_select env (alone clk) (redis_affinity_ops rd codec ttl') serv candidate request plog user_id
             \<lparr>wo_cache = Some cache, wo_store = r, wo_turn = n\<rparr> of
        (w', _, result) \<Rightarrow>
          (redis_live rd codec (wo_store w') clk (sx_key call), map_sum (\<lambda>e. e) brief result) =
            session_spec call clk (Some (refreshed serv clk candidate cache)) (redis_live rd codec r clk (sx_key call)))"
  using in_process_answers.session_select_spec [OF assms(2,1), of env candidate user_id serv cache n]
    sqlite_answers.session_select_spec [OF assms(3,1), of env candidate user_id serv cache n]
    redis_answers.session_select_spec [OF assms(4,1), of env ttl' candidate user_id serv cache n]
  by (simp add: Let_def split_beta)

definition demo_request :: bridge_request where
  "demo_request =
     \<lparr>br_request_id = ''r'', br_method = ''POST'', br_path = ''/v1/responses'', br_headers = [], br_body = [],
      br_request_deadline_unix_ms = 0, br_user_id = None, br_client_key_hash = Some ''h'',
      br_request_user_agent = None, br_content_encoding = None, br_compressed = False,
      br_compressed_bytes = None, br_decompressed_bytes = None, br_compression_ratio = None\<rparr>"

definition demo_log :: "uuid option \<Rightarrow> prompt_log" where
  "demo_log override =
     \<lparr>pl_conversation_id = None, pl_preferred_endpoint_id = None, pl_override_endpoint_id = override,
      pl_override_endpoint_key_id = None, pl_session_header_id = None, pl_previous_response_id = None,
      pl_conversation_key = None\<rparr>"

definition demo_services :: quota_services where
  "demo_services = \<lparr>qv_subscription = (\<lambda>_ _. None), qv_refresh_if_due = (\<lambda>_ c _. c)\<rparr>"

text \<open>A session bound to endpoint 1 whose conversation was moved to endpoint 2 is refused.\<close>

lemma session_select_implements_spec_witness:
  "case session_select demo_env (alone demo_now) (redis_affinity_ops demo_redis demo_codec 60) demo_services
          demo_candidate demo_request (demo_log (Some 2)) 1
          \<lparr>wo_cache = Some quota_cache_default,
           wo_store = (\<lambda>_. Some (bc_to_string demo_codec (demo_binding 1))), wo_turn = 0\<rparr> of
     (w', _, result) \<Rightarrow>
       map_sum (\<lambda>e. e) brief result =
         Inl (ReAffinity (conflict (binding_audit 1 (Some (demo_binding 1)) (demo_log (Some 2)))))"
proof -
  have id: "endpoint_key_stickiness_value demo_request (demo_log ov) = Some ''client_key:h''" for ov
  proof -
    have "trim ''h'' = ''h''" by code_simp
    then show ?thesis by (simp add: endpoint_key_stickiness_value_def demo_request_def demo_log_def)
  qed
  let ?r = "\<lambda>_ :: string. Some (bc_to_string demo_codec (demo_binding 1))"
  have r: "redis_good demo_redis demo_codec ?r demo_now"
    using demo_codec_ok demo_redis_ok by (simp add: redis_good_def demo_redis_def)
  have live: "redis_live demo_redis demo_codec ?r demo_now k = Some (demo_binding 1)" for k
    using demo_codec_ok by (simp add: redis_live_def demo_redis_def)
  have clash: "override_conflicts_with_binding (demo_binding 1) (demo_log (Some 2))"
    by (simp add: override_conflicts_with_binding_def demo_binding_def demo_log_def is_some_and_def)
  show ?thesis
    using session_select_implements_spec [OF id [of "Some 2"] demo_stores_good(1,2) r, where env = demo_env and
        candidate = demo_candidate and user_id = 1 and serv = demo_services and cache = quota_cache_default and
        n = 0 and ttl' = 60]
    by (auto simp: Let_def session_spec_def live clash session_call_of_def demo_candidate_def split: prod.splits)
qed

end
