(* ===== verification/RouteSelection.thy ===== *)
theory RouteSelection
  imports SessionSpec
begin

text \<open>
  The two selections without a session, \<open>materialize\<close> and the unified one: what they return under
  any interleaving, and that undisturbed their claim loops end at the first draw.
\<close>

subsection \<open>Credentials of a route\<close>

definition route_credential :: "route_config \<Rightarrow> endpoint_api_key_selection \<Rightarrow> bool" where
  "route_credential route sel \<longleftrightarrow>
     (if rg_has_oauth_token route then sel = subscription_selection
      else (\<exists>key \<in> set (eligible_route_keys route). sel = selection_from_key key) \<or>
           eligible_route_keys route = [] \<and> trim (rg_api_key route) \<noteq> [] \<and>
           sel = \<lparr>sel_key_id = rg_endpoint_key_id route, sel_key_label = rg_endpoint_key_label route,
                  sel_secret = rg_api_key route\<rparr>)"

definition route_unit_ok :: "clock \<Rightarrow> shared_cache \<Rightarrow> route_config \<Rightarrow> route_key_unit \<Rightarrow> bool" where
  "route_unit_ok clk cache route u \<longleftrightarrow>
     route_credential route (ru_key u) \<and> claimable clk cache (rg_route_id route) (sel_key_id (ru_key u))"

lemma assess_pair: "assess env clk c e k cx = (settled clk c, snd (assess env clk c e k cx))"
  by (metis assess_state prod.collapse)

lemma consider_route_keys_ok:
  assumes "settled clk cache = settled clk c0" "\<forall>u \<in> set (qp_units pool). route_unit_ok clk c0 route u"
    "\<not> rg_has_oauth_token route" "set keys \<subseteq> set (eligible_route_keys route)"
    "consider_route_keys env clk route cx keys cache pool = (cache', pool')"
  shows "settled clk cache' = settled clk c0 \<and> (\<forall>u \<in> set (qp_units pool'). route_unit_ok clk c0 route u)"
  using assms
proof (induction keys arbitrary: cache pool)
  case (Cons key keys)
  let ?sel = "selection_from_key key"
  let ?el = "snd (assess env clk cache (rg_route_id route) (sel_key_id ?sel) cx)"
  let ?pool = "consider_unit pool ?el (\<lambda>weight. \<lparr>ru_key = ?sel, ru_unit_id = ak_key_id key, ru_weight = weight\<rparr>)"
  have step: "consider_route_keys env clk route cx keys (settled clk cache) ?pool = (cache', pool')"
    using Cons.prems(5) by (simp add: Let_def case_prod_unfold)
  have "claimable clk c0 (rg_route_id route) (sel_key_id ?sel)" if "?el = ElEligible w" for w
    using assess_eligible [OF that] claimable_cong [OF Cons.prems(1)] by blast
  moreover have "route_credential route ?sel" using Cons.prems(3,4) by (auto simp: route_credential_def)
  ultimately have "\<forall>u \<in> set (qp_units ?pool). route_unit_ok clk c0 route u"
    using Cons.prems(2) by (auto simp: set_units_consider route_unit_ok_def)
  then show ?case using Cons.prems step by (intro Cons.IH [OF _ _ _ _ step]) auto
qed simp

lemma route_units_ok:
  assumes "route_units env clk route cache cx = (cache', pool)"
  shows "settled clk cache' = settled clk cache \<and> (\<forall>u \<in> set (qp_units pool). route_unit_ok clk cache route u)"
proof (cases "rg_has_oauth_token route")
  case True
  have "subscription_eligibility env clk cache (rg_route_id route) =
      (settled clk cache, snd (subscription_eligibility env clk cache (rg_route_id route)))"
    by (metis subscription_state prod.collapse)
  then obtain el where el: "subscription_eligibility env clk cache (rg_route_id route) = (settled clk cache, el)" by blast
  show ?thesis
    using assms True subscription_eligible [of env clk cache "rg_route_id route"]
    by (auto simp: route_units_def Let_def el set_units_consider route_unit_ok_def route_credential_def)
next
  case False
  show ?thesis
  proof (cases "eligible_route_keys route = []")
    case True
    obtain el where el: "assess env clk cache (rg_route_id route) (rg_endpoint_key_id route) cx = (settled clk cache, el)"
      using assess_pair by blast
    show ?thesis
      using assms True False assess_eligible [of env clk cache "rg_route_id route" "rg_endpoint_key_id route" cx]
      by (auto simp: route_units_def Let_def el set_units_consider route_unit_ok_def route_credential_def
          split: if_splits)
  next
    case keys: False
    let ?keys = "if rg_key_lb_enabled route then eligible_route_keys route else take 1 (eligible_route_keys route)"
    have "consider_route_keys env clk route cx ?keys cache pool_default = (cache', pool)"
      using assms False keys by (simp add: route_units_def Let_def)
    then show ?thesis
      using set_take_subset [of 1 "eligible_route_keys route"]
      by (intro consider_route_keys_ok [OF refl _ False]) (simp_all split: if_splits)
  qed
qed

lemma route_selection_ok:
  assumes "route_selection env route cx ko sk clk cache = (cache', Inr sel)"
  shows "settled clk cache' = settled clk cache \<and> route_credential route sel \<and>
    claimable clk cache (rg_route_id route) (sel_key_id sel)"
proof -
  obtain c1 ov where o: "route_override_selection env route cx ko clk cache = (c1, ov)" by fastforce
  have s1: "settled clk c1 = settled clk cache"
    using o assess_pair by (auto simp: route_override_selection_def Let_def split: option.splits prod.splits)
      (metis prod.inject settled_simps(2))+
  show ?thesis
  proof (cases ov)
    case (Some s)
    with o obtain i key where k: "find (\<lambda>key. ak_key_id key = i) (eligible_route_keys route) = Some key"
      and s: "s = selection_from_key key"
      and w: "eligibility_weight (snd (assess env clk cache (rg_route_id route) (sel_key_id s) cx)) \<noteq> None"
      by (auto simp: route_override_selection_def Let_def bind_eq_Some_conv
          split: option.splits prod.splits if_splits)
    have "key \<in> set (eligible_route_keys route)" using find_SomeD [OF k] by simp
    then have "route_credential route s" by (auto simp: route_credential_def s eligible_route_keys_def)
    moreover obtain w' where "snd (assess env clk cache (rg_route_id route) (sel_key_id s) cx) = ElEligible w'"
      using w by (auto simp: eligibility_weight_Some)
    then have "claimable clk cache (rg_route_id route) (sel_key_id s)" using assess_eligible by blast
    ultimately show ?thesis using assms s1 by (simp add: route_selection_def o Some)
  next
    case None
    obtain c2 pool where p: "route_units env clk route c1 cx = (c2, pool)" by fastforce
    note ok = route_units_ok [OF p]
    from assms None obtain u where u: "u \<in> set (qp_units pool)" "sel = ru_key u" "cache' = c2"
      by (auto simp: route_selection_def o route_pool_selection_def p dest: route_keys.draw_of_in
          split: if_splits option.splits list.splits)
    then have "route_unit_ok clk c1 route u" using ok by blast
    then show ?thesis using ok s1 claimable_cong [OF s1] by (simp add: route_unit_ok_def u)
  qed
qed

subsection \<open>The claim loops\<close>

lemma route_claims_credential:
  "route_claims env oth route request cx ko sk n w = (w', Inr (sel, probe)) \<Longrightarrow> route_credential route sel"
proof (induction n arbitrary: w)
  case (Suc n)
  obtain w1 r where d: "on_cache oth (route_selection env route cx ko sk) w = (w1, r)" by fastforce
  obtain s where r: "r = Inr s" using Suc.prems by (auto simp: d split: sum.splits)
  have "route_credential route s" using d r by (auto elim!: on_cacheE dest: route_selection_ok)
  then show ?case using Suc by (auto simp: d r split: prod.splits probe_claim.splits)
qed simp

lemma claim_alone:
  assumes "claimable clk (wo_cache w) e k"
  obtains w1 o' where "on_cache (alone clk) (\<lambda>clk cache. claim clk cache e k) w = (w1, o')" "o' \<noteq> ClaimLostRace"
proof -
  obtain c o' where c: "claim clk (wo_cache w) e k = (c, o')" by fastforce
  have "o' \<noteq> ClaimLostRace" using claimable_claim [OF assms] c by simp
  then show thesis using that on_cache_alone [where f = "\<lambda>clk cache. claim clk cache e k", OF c] by blast
qed

lemma route_claims_alone:
  "case snd (route_selection env route cx ko sk clk (wo_cache w)) of
     Inl e \<Rightarrow> snd (route_claims env (alone clk) route request cx ko sk (Suc n) w) = Inl e
   | Inr sel \<Rightarrow> \<exists>probe. snd (route_claims env (alone clk) route request cx ko sk (Suc n) w) = Inr (sel, probe)"
proof -
  obtain c1 r where q: "route_selection env route cx ko sk clk (wo_cache w) = (c1, r)" by fastforce
  note step = on_cache_alone [of "route_selection env route cx ko sk", OF q]
  show ?thesis
  proof (cases r)
    case (Inl e)
    then show ?thesis using step by (simp add: q)
  next
    case (Inr sel)
    have "claimable clk c1 (rg_route_id route) (sel_key_id sel)"
      using route_selection_ok [OF q [unfolded Inr]] claimable_cong [of clk c1 "wo_cache w"] by simp
    then have "claimable clk (wo_cache ((next_turn w)\<lparr>wo_cache := c1\<rparr>)) (rg_route_id route) (sel_key_id sel)" by simp
    then obtain w2 out where "on_cache (alone clk) (\<lambda>clk cache. claim clk cache (rg_route_id route) (sel_key_id sel))
        ((next_turn w)\<lparr>wo_cache := c1\<rparr>) = (w2, out)" "out \<noteq> ClaimLostRace"
      by (rule claim_alone)
    then show ?thesis using step by (cases out) (auto simp: q Inr)
  qed
qed

lemma unified_claims_alone:
  "case snd (select_unified_candidate env candidate request plog routing_key clk (wo_cache w)) of
     Inl _ \<Rightarrow> snd (unified_claims env (alone clk) candidate request plog routing_key (Suc n) w) = Inl ReQuotaUnavailable
   | Inr None \<Rightarrow> snd (unified_claims env (alone clk) candidate request plog routing_key (Suc n) w) = Inr None
   | Inr (Some sel) \<Rightarrow>
       \<exists>probe. snd (unified_claims env (alone clk) candidate request plog routing_key (Suc n) w) = Inr (Some (sel, probe))"
proof -
  obtain c1 r where q: "select_unified_candidate env candidate request plog routing_key clk (wo_cache w) = (c1, r)" by fastforce
  note step = on_cache_alone [of "select_unified_candidate env candidate request plog routing_key", OF q]
  show ?thesis
  proof (cases r)
    case (Inl e)
    then show ?thesis using step by (cases e) (simp add: q)
  next
    case (Inr m)
    show ?thesis
    proof (cases m)
      case None
      then show ?thesis using step by (simp add: q Inr)
    next
      case (Some sel)
      have "settled clk c1 = settled clk (wo_cache w)"
        "claimable clk (wo_cache w) (rt_endpoint_id (cs_target sel)) (sel_key_id (cs_key sel))"
        using candidate_select_cases [OF q [unfolded select_unified_candidate_def Inr Some]]
        by (auto simp: unit_ok_def candidate_selection_of_def)
      then have "claimable clk (wo_cache ((next_turn w)\<lparr>wo_cache := c1\<rparr>)) (rt_endpoint_id (cs_target sel)) (sel_key_id (cs_key sel))"
        using claimable_cong [of clk c1 "wo_cache w"] by simp
      then obtain w2 out where "on_cache (alone clk)
          (\<lambda>clk cache. claim clk cache (rt_endpoint_id (cs_target sel)) (sel_key_id (cs_key sel)))
          ((next_turn w)\<lparr>wo_cache := c1\<rparr>) = (w2, out)" "out \<noteq> ClaimLostRace"
        by (rule claim_alone)
      then show ?thesis using step by (cases out) (auto simp: q Inr Some Let_def)
    qed
  qed
qed

text \<open>
  C22: A resolved route is given one of its own usable credentials, under any interleaving with the
  other requests: its subscription, or one of its enabled and non-empty keys, or its own secret
  when it has no such key. Undisturbed, the bounded claim loops of a route and of the unified
  selection end at their first draw: the outcome is that of one selection, its error or its
  credential, and a request for which there is capacity is never refused because claims were
  lost.\<close>

theorem claim_loops_total:
  "(case materialize env oth route request plog w of
      (w', Inr res) \<Rightarrow> route_credential route (kr_selection res)
    | (w', Inl _) \<Rightarrow> True) \<and>
   (let cx = context_effective \<lparr>qx_model = request_model env request, qx_path = br_path request\<rparr>
               (rg_upstream_model route)
    in case snd (route_selection env route cx (pl_override_endpoint_key_id plog)
                   (endpoint_key_stickiness_value request plog) clk (wo_cache w)) of
         Inl e \<Rightarrow> snd (materialize env (alone clk) route request plog w) = Inl e
       | Inr sel \<Rightarrow>
           (case snd (materialize env (alone clk) route request plog w) of
              Inr res \<Rightarrow> kr_selection res = sel
            | Inl _ \<Rightarrow> False)) \<and>
   (let claimed = snd (unified_claims env (alone clk) candidate request plog routing_key
                         (candidate_claim_limit candidate) w)
    in case snd (select_unified_candidate env candidate request plog routing_key clk (wo_cache w)) of
         Inl _ \<Rightarrow> claimed = Inl ReQuotaUnavailable
       | Inr None \<Rightarrow> claimed = Inr None
       | Inr (Some sel) \<Rightarrow> (\<exists>probe. claimed = Inr (Some (sel, probe))))"
proof (intro conjI)
  show "case materialize env oth route request plog w of
      (w', Inr res) \<Rightarrow> route_credential route (kr_selection res)
    | (w', Inl _) \<Rightarrow> True"
    by (auto simp: materialize_def Let_def dest: route_claims_credential split: prod.splits sum.splits)
next
  let ?cx = "context_effective \<lparr>qx_model = request_model env request, qx_path = br_path request\<rparr>
    (rg_upstream_model route)"
  obtain n where n: "route_claim_limit route = Suc n" using route_claim_limit_pos [of route] by (metis gr0_implies_Suc)
  note a = route_claims_alone [where env = env and route = route and request = request and cx = ?cx and
      ko = "pl_override_endpoint_key_id plog" and sk = "endpoint_key_stickiness_value request plog" and
      clk = clk and w = w and n = n, folded n]
  show "let cx = ?cx in
      case snd (route_selection env route cx (pl_override_endpoint_key_id plog)
                  (endpoint_key_stickiness_value request plog) clk (wo_cache w)) of
        Inl e \<Rightarrow> snd (materialize env (alone clk) route request plog w) = Inl e
      | Inr sel \<Rightarrow>
          (case snd (materialize env (alone clk) route request plog w) of
             Inr res \<Rightarrow> kr_selection res = sel
           | Inl _ \<Rightarrow> False)"
    using a by (auto simp: materialize_def Let_def split: sum.splits prod.splits)
next
  obtain n where n: "candidate_claim_limit candidate = Suc n" using candidate_claim_limit_Suc by blast
  show "let claimed = snd (unified_claims env (alone clk) candidate request plog routing_key
                         (candidate_claim_limit candidate) w)
    in case snd (select_unified_candidate env candidate request plog routing_key clk (wo_cache w)) of
         Inl _ \<Rightarrow> claimed = Inl ReQuotaUnavailable
       | Inr None \<Rightarrow> claimed = Inr None
       | Inr (Some sel) \<Rightarrow> (\<exists>probe. claimed = Inr (Some (sel, probe)))"
    unfolding Let_def n by (rule unified_claims_alone)
qed

end
