(* ===== verification/UpstreamError.thy ===== *)
theory UpstreamError
  imports Json ActiveWindows "HOL-Library.Sublist"
begin

text \<open>
  \<open>src/upstream_error.rs\<close>: why an upstream answered with an error. A body is read through the
  code and message fields of its JSON when it parses, through a fallback on its text when it does
  not, and through tables of phrases; transient signals win over statements of exhaustion.

  Unicode lower-casing, the JSON parser and the printer of floating-point JSON numbers are
  parameters. The lemmas say which fields and which places of a text the readers see, and the
  property states when a response is taken for a spent account.
\<close>

datatype upstream_failure_cause = UfExhausted | UfRateLimited | UfUnavailable

record error_env =
  ee_lower :: "string \<Rightarrow> string"
  ee_json :: "string \<Rightarrow> json option"
  ee_float_text :: "f64 \<Rightarrow> string"

subsection \<open>Tables\<close>

definition utf8 :: "nat list \<Rightarrow> string" where
  "utf8 bs = List.map char_of bs"

definition rate_limit_provider_code :: nat where "rate_limit_provider_code = 2062"

definition exhausted_provider_codes :: "nat list" where "exhausted_provider_codes = [2056, 2067]"

definition rate_limit_phrases :: "string list" where
  "rate_limit_phrases =
     [''rate limit'',
      ''rate limits'',
      ''too many requests'',
      ''request rate'',
      ''requests per minute'',
      ''token rate'',
      ''tokens per minute'',
      ''tpm limit'',
      ''rpm limit'',
      ''concurrency limit'',
      ''concurrent requests'',
      ''too many concurrent'',
      ''throttl'',
      ''in flight'',
      ''inflight'',
      ''credit reservation'',
      ''reserved credits'',
      ''pending requests'']"

definition unavailable_phrases :: "string list" where
  "unavailable_phrases =
     [''service unavailable'',
      ''temporarily unavailable'',
      ''temporarily unable'',
      ''temporarily not available'',
      ''upstream unavailable'',
      ''endpoint unavailable'',
      ''provider unavailable'',
      ''model unavailable'',
      ''no available provider'',
      ''no available capacity'',
      ''out of service'',
      ''under maintenance'',
      ''overloaded'']"

definition exhausted_phrases :: "string list" where
  "exhausted_phrases =
     [''insufficient quota'',
      ''insufficient balance'',
      ''insufficient credits'',
      ''insufficient funds'',
      ''usage limit reached'',
      ''usage limit exceeded'',
      ''usage limit exhausted'',
      ''quota exhausted'',
      ''quota exceeded'',
      ''credit limit exhausted'',
      ''credits exhausted'',
      ''credit exhausted'',
      ''gousagelimiterror'',
      ''monthly usage limit'',
      ''weekly usage limit'',
      ''daily usage limit'',
      ''free usage limit'',
      utf8 [0xE9, 0xA2, 0x9D, 0xE5, 0xBA, 0xA6, 0xE4, 0xB8, 0x8D, 0xE8, 0xB6, 0xB3],
      utf8 [0xE4, 0xBD, 0x99, 0xE9, 0xA2, 0x9D, 0xE4, 0xB8, 0x8D, 0xE8, 0xB6, 0xB3],
      utf8 [0xE9, 0xA2, 0x9D, 0xE5, 0xBA, 0xA6, 0xE5, 0xB7, 0xB2, 0xE7, 0x94, 0xA8, 0xE5, 0xB0, 0xBD],
      utf8 [0xE9, 0xA2, 0x9D, 0xE5, 0xBA, 0xA6, 0xE8, 0x80, 0x97, 0xE5, 0xB0, 0xBD],
      utf8 [0xE7, 0x94, 0xA8, 0xE9, 0x87, 0x8F, 0xE4, 0xB8, 0x8A, 0xE9, 0x99, 0x90, 0xE5, 0xB7, 0xB2, 0xE7, 0x94, 0xA8, 0xE5, 0xB0, 0xBD],
      utf8 [0xE7, 0x94, 0xA8, 0xE9, 0x87, 0x8F, 0xE4, 0xB8, 0x8A, 0xE9, 0x99, 0x90, 0xE5, 0xB7, 0xB2, 0xE8, 0x80, 0x97, 0xE5, 0xB0, 0xBD],
      utf8 [0xE7, 0x94, 0xA8, 0xE9, 0x87, 0x8F, 0xE5, 0xB7, 0xB2, 0xE8, 0xBE, 0xBE, 0xE4, 0xB8, 0x8A, 0xE9, 0x99, 0x90]]"

definition code_keys :: "string list" where
  "code_keys = [''code'', ''error code'', ''provider code'', ''provider error code'']"

definition key_value_separators :: string where
  "key_value_separators = [CHR '' '', CHR 0x09, CHR 0x22, CHR 0x27, CHR '':'', CHR ''='', CHR ''.'']"

definition message_exhaustion_phrases :: "string list" where
  "message_exhaustion_phrases =
     [utf8 [0xE5, 0xB7, 0xB2, 0xE8, 0xBE, 0xBE, 0xE5, 0x88, 0xB0] @ '' token plan '' @ utf8 [0xE7, 0x94, 0xA8, 0xE9, 0x87, 0x8F, 0xE4, 0xB8, 0x8A, 0xE9, 0x99, 0x90],
      utf8 [0xE7, 0x94, 0xA8, 0xE9, 0x87, 0x8F, 0xE5, 0xB7, 0xB2, 0xE8, 0xBE, 0xBE, 0xE4, 0xB8, 0x8A, 0xE9, 0x99, 0x90],
      utf8 [0xE7, 0x94, 0xA8, 0xE9, 0x87, 0x8F, 0xE4, 0xB8, 0x8A, 0xE9, 0x99, 0x90, 0xE5, 0xB7, 0xB2, 0xE7, 0x94, 0xA8, 0xE5, 0xB0, 0xBD],
      utf8 [0xE7, 0x94, 0xA8, 0xE9, 0x87, 0x8F, 0xE4, 0xB8, 0x8A, 0xE9, 0x99, 0x90, 0xE5, 0xB7, 0xB2, 0xE8, 0x80, 0x97, 0xE5, 0xB0, 0xBD],
      utf8 [0xE9, 0xA2, 0x9D, 0xE5, 0xBA, 0xA6, 0xE5, 0xB7, 0xB2, 0xE7, 0x94, 0xA8, 0xE5, 0xB0, 0xBD],
      utf8 [0xE9, 0xA2, 0x9D, 0xE5, 0xBA, 0xA6, 0xE8, 0x80, 0x97, 0xE5, 0xB0, 0xBD],
      ''usage limit reached'',
      ''usage limit exceeded'',
      ''usage limit exhausted'']"

definition generic_provider_codes :: "string list" where
  "generic_provider_codes = [''server error'']"

definition message_keys :: "string list" where
  "message_keys = [''message'', ''error message'']"

subsection \<open>Text\<close>

text \<open>\<open>str::contains\<close> and \<open>str::match_indices\<close>: every match with the text before and after it,
  matches never overlapping. On well-formed UTF-8 a match of bytes is a match of characters.\<close>

fun str_contains :: "string \<Rightarrow> string \<Rightarrow> bool" where
  "str_contains [] p = (p = [])"
| "str_contains (c # s) p = (prefix p (c # s) \<or> str_contains s p)"

definition contains_any :: "string list \<Rightarrow> string \<Rightarrow> bool" where
  "contains_any phrases s = list_ex (str_contains s) phrases"

fun matches_from :: "string \<Rightarrow> nat \<Rightarrow> string \<Rightarrow> string \<Rightarrow> (string \<times> string) list" where
  "matches_from p skip before [] = []"
| "matches_from p (Suc k) before (c # s) = matches_from p k (before @ [c]) s"
| "matches_from p 0 before (c # s) =
     (if prefix p (c # s)
      then (before, drop (length p) (c # s)) # matches_from p (length p - 1) (before @ [c]) s
      else matches_from p 0 (before @ [c]) s)"

definition match_indices :: "string \<Rightarrow> string \<Rightarrow> (string \<times> string) list" where
  "match_indices s p = matches_from p 0 [] s"

definition fold_separators :: "char \<Rightarrow> char" where
  "fold_separators c = (if c = CHR ''_'' \<or> c = CHR ''-'' then CHR '' '' else c)"

definition fold_text :: "error_env \<Rightarrow> string \<Rightarrow> string" where
  "fold_text env value = List.map fold_separators (ee_lower env value)"

definition at_key_start :: "string \<Rightarrow> bool" where
  "at_key_start before =
     (case rev (trim_end before) of
        [] \<Rightarrow> True
      | c # _ \<Rightarrow> List.member [CHR ''{'', CHR ''['', CHR ''('', CHR '','', CHR '':'', CHR 0x22, CHR 0x27] c)"

definition ends_value :: "string \<Rightarrow> bool" where
  "ends_value rest =
     (case rest of
        [] \<Rightarrow> True
      | c # _ \<Rightarrow> List.member [CHR '' '', CHR 0x09, CHR 0x0A, CHR '')'', CHR 0x22, CHR 0x27,
                          CHR '','', CHR ''}'', CHR '']'', CHR '';''] c)"

definition code_value_after_key :: "string \<Rightarrow> string option" where
  "code_value_after_key rest =
     (let value = dropWhile (\<lambda>c. List.member key_value_separators c) rest;
          digits = takeWhile is_ascii_digit value
      in if digits = [] \<or> \<not> ends_value (drop (length digits) value) then None else Some digits)"

definition full_width_open :: string where "full_width_open = utf8 [0xEF, 0xBC, 0x88]"

definition full_width_close :: string where "full_width_close = utf8 [0xEF, 0xBC, 0x89]"

text \<open>What follows each opening parenthesis of a text.\<close>

fun after_opens :: "string \<Rightarrow> string list" where
  "after_opens [] = []"
| "after_opens (c # s) =
     (if c = CHR ''('' then [s]
      else if prefix full_width_open (c # s) then [drop 3 (c # s)] else []) @ after_opens s"

definition closes_code :: "string \<Rightarrow> string \<Rightarrow> bool" where
  "closes_code wanted value \<longleftrightarrow>
     prefix wanted value \<and>
     (prefix '')'' (drop (length wanted) value) \<or> prefix full_width_close (drop (length wanted) value))"

definition parenthesized_code :: "string \<Rightarrow> string \<Rightarrow> bool" where
  "parenthesized_code folded wanted = list_ex (closes_code wanted) (after_opens folded)"

definition mentions_free_text_code :: "string \<Rightarrow> nat \<Rightarrow> bool" where
  "mentions_free_text_code folded wanted \<longleftrightarrow>
     list_ex
       (\<lambda>key. list_ex
          (\<lambda>(before, rest). at_key_start before \<and> code_value_after_key rest = Some (dec_nat wanted))
          (match_indices folded key))
       code_keys \<or>
     parenthesized_code folded (dec_nat wanted)"

text \<open>\<open>str::parse::<u32>\<close>: an optional plus sign, then digits, within 32 bits.\<close>

definition parse_u32 :: "string \<Rightarrow> nat option" where
  "parse_u32 s =
     (let digits = (case s of CHR ''+'' # t \<Rightarrow> t | _ \<Rightarrow> s) in
      if digits = [] \<or> \<not> list_all is_ascii_digit digits then None
      else if digits_value digits < 2 ^ 32 then Some (digits_value digits) else None)"

subsection \<open>JSON fields\<close>

definition is_code_key :: "error_env \<Rightarrow> string \<Rightarrow> bool" where
  "is_code_key env key = List.member code_keys (trim (fold_text env key))"

definition is_message_key :: "error_env \<Rightarrow> string \<Rightarrow> bool" where
  "is_message_key env key = List.member message_keys (trim (fold_text env key))"

definition number_text :: "error_env \<Rightarrow> json_number \<Rightarrow> string" where
  "number_text env n =
     (case n of NumU64 k \<Rightarrow> dec_nat k | NumI64 i \<Rightarrow> dec_int i | NumF64 x \<Rightarrow> ee_float_text env x)"

definition scalar_text :: "error_env \<Rightarrow> json \<Rightarrow> string option" where
  "scalar_text env value =
     (case value of
        JNum n \<Rightarrow> Some (number_text env n)
      | JStr s \<Rightarrow> Some (trim s)
      | _ \<Rightarrow> None)"

fun collect_codes :: "error_env \<Rightarrow> json \<Rightarrow> string list"
  and collect_field_codes :: "error_env \<Rightarrow> (string \<times> json) list \<Rightarrow> string list"
  and collect_item_codes :: "error_env \<Rightarrow> json list \<Rightarrow> string list"
where
  "collect_codes env (JObj members) = collect_field_codes env members"
| "collect_codes env (JArr items) = collect_item_codes env items"
| "collect_codes env JNull = []"
| "collect_codes env (JBool b) = []"
| "collect_codes env (JNum n) = []"
| "collect_codes env (JStr s) = []"
| "collect_field_codes env [] = []"
| "collect_field_codes env ((key, field) # members) =
     (case (if is_code_key env key then scalar_text env field else None) of
        Some scalar \<Rightarrow> [scalar]
      | None \<Rightarrow> []) @
     collect_codes env field @ collect_field_codes env members"
| "collect_item_codes env [] = []"
| "collect_item_codes env (v # items) = collect_codes env v @ collect_item_codes env items"

fun collect_messages :: "error_env \<Rightarrow> json \<Rightarrow> string list"
  and collect_field_messages :: "error_env \<Rightarrow> (string \<times> json) list \<Rightarrow> string list"
  and collect_item_messages :: "error_env \<Rightarrow> json list \<Rightarrow> string list"
where
  "collect_messages env (JObj members) = collect_field_messages env members"
| "collect_messages env (JArr items) = collect_item_messages env items"
| "collect_messages env JNull = []"
| "collect_messages env (JBool b) = []"
| "collect_messages env (JNum n) = []"
| "collect_messages env (JStr s) = []"
| "collect_field_messages env [] = []"
| "collect_field_messages env ((key, field) # members) =
     (case (if is_message_key env key then json_as_str field else None) of
        Some message \<Rightarrow> [message]
      | None \<Rightarrow> []) @
     collect_messages env field @ collect_field_messages env members"
| "collect_item_messages env [] = []"
| "collect_item_messages env (v # items) = collect_messages env v @ collect_item_messages env items"

definition mentions_structured_code :: "string list \<Rightarrow> nat \<Rightarrow> bool" where
  "mentions_structured_code codes wanted = list_ex (\<lambda>code. parse_u32 code = Some wanted) codes"

definition is_generic_or_exhaustion_code :: "error_env \<Rightarrow> string \<Rightarrow> bool" where
  "is_generic_or_exhaustion_code env code =
     (let code = trim (fold_text env code) in
      List.member generic_provider_codes code \<or> List.member exhausted_phrases code \<or>
      list_ex (\<lambda>wanted. code = dec_nat wanted) exhausted_provider_codes)"

definition message_signature :: "error_env \<Rightarrow> string \<Rightarrow> nat option" where
  "message_signature env message =
     (let folded = fold_text env message in
      if contains_any message_exhaustion_phrases folded
      then find (\<lambda>code. parenthesized_code folded (dec_nat code)) exhausted_provider_codes
      else None)"

fun find_map_option :: "('a \<Rightarrow> 'b option) \<Rightarrow> 'a list \<Rightarrow> 'b option" where
  "find_map_option f [] = None"
| "find_map_option f (x # xs) = (case f x of Some y \<Rightarrow> Some y | None \<Rightarrow> find_map_option f xs)"

definition message_exhaustion_signature :: "error_env \<Rightarrow> json \<Rightarrow> nat option" where
  "message_exhaustion_signature env value =
     find_map_option (message_signature env) (collect_messages env value)"

subsection \<open>Classification\<close>

definition classify_upstream_body :: "error_env \<Rightarrow> string \<Rightarrow> upstream_failure_cause option" where
  "classify_upstream_body env body =
     (let folded = fold_text env body;
          parsed = ee_json env body;
          structured = map_option (collect_codes env) parsed;
          mentions = (\<lambda>wanted. case structured of
             Some codes \<Rightarrow> mentions_structured_code codes wanted
           | None \<Rightarrow> mentions_free_text_code folded wanted);
          explicit_conflict = is_some_and
             (list_ex (\<lambda>code. \<not> is_generic_or_exhaustion_code env code)) structured;
          message_exhaustion = Option.bind parsed (message_exhaustion_signature env) \<noteq> None
      in
        if mentions rate_limit_provider_code \<or> contains_any rate_limit_phrases folded
        then Some UfRateLimited
        else if contains_any unavailable_phrases folded then Some UfUnavailable
        else if list_ex mentions exhausted_provider_codes \<or>
                \<not> explicit_conflict \<and> (message_exhaustion \<or> contains_any exhausted_phrases folded)
        then Some UfExhausted
        else None)"

definition classify_upstream_failure ::
    "error_env \<Rightarrow> nat \<Rightarrow> string \<Rightarrow> upstream_failure_cause option" where
  "classify_upstream_failure env status body =
     (if 200 \<le> status \<and> status < 300 then None
      else
        (case classify_upstream_body env body of
           Some cause \<Rightarrow> Some cause
         | None \<Rightarrow> if status = 429 then Some UfRateLimited else None))"

record mapped_invalid =
  mi_code :: string
  mi_hint :: string
  mi_retryable :: bool

definition map_upstream_invalid_request :: "string \<Rightarrow> mapped_invalid option" where
  "map_upstream_invalid_request body =
     (let has_missing_output = str_contains body ''No tool output found for function call'';
          has_expired_reasoning =
            str_contains body ''was not found or has expired'' \<and> str_contains body ''reasoning item''
      in
        if \<not> has_missing_output \<and> \<not> has_expired_reasoning then None
        else Some
          \<lparr>mi_code = ''retryable_invalid_continuation'',
           mi_hint = ''drop previous_response_id, truncate before the orphan call_*, then retry once'',
           mi_retryable = True\<rparr>)"

subsection \<open>What the readers see\<close>

lemma str_contains_sublist: "str_contains s p \<longleftrightarrow> sublist p s"
  by (induction s) (auto simp: sublist_Cons_right)

lemma contains_any_iff: "contains_any phrases s \<longleftrightarrow> (\<exists>p \<in> set phrases. sublist p s)"
  by (auto simp: contains_any_def list_ex_iff str_contains_sublist)

text \<open>The fields of a JSON value, at any depth.\<close>

inductive json_field :: "json \<Rightarrow> string \<Rightarrow> json \<Rightarrow> bool" where
  json_field_here: "(k, f) \<in> set members \<Longrightarrow> json_field (JObj members) k f"
| json_field_member: "(k', v) \<in> set members \<Longrightarrow> json_field v k f \<Longrightarrow> json_field (JObj members) k f"
| json_field_item: "v \<in> set items \<Longrightarrow> json_field v k f \<Longrightarrow> json_field (JArr items) k f"

inductive_simps json_field_obj: "json_field (JObj members) k f"
inductive_simps json_field_arr: "json_field (JArr items) k f"
inductive_simps json_field_scalar [simp]:
  "json_field JNull k f" "json_field (JBool b) k f" "json_field (JNum n) k f" "json_field (JStr s) k f"

lemma json_field_simps [simp]:
  "\<not> json_field (JObj []) k f"
  "json_field (JObj ((k', v) # members)) k f \<longleftrightarrow>
     k = k' \<and> f = v \<or> json_field v k f \<or> json_field (JObj members) k f"
  "\<not> json_field (JArr []) k f"
  "json_field (JArr (v # items)) k f \<longleftrightarrow> json_field v k f \<or> json_field (JArr items) k f"
  by (auto simp: json_field_obj json_field_arr)

lemma set_collect_codes:
  "s \<in> set (collect_codes env v) \<longleftrightarrow>
     (\<exists>k f. json_field v k f \<and> is_code_key env k \<and> scalar_text env f = Some s)"
  "s \<in> set (collect_field_codes env members) \<longleftrightarrow>
     (\<exists>k f. json_field (JObj members) k f \<and> is_code_key env k \<and> scalar_text env f = Some s)"
  "s \<in> set (collect_item_codes env items) \<longleftrightarrow>
     (\<exists>k f. json_field (JArr items) k f \<and> is_code_key env k \<and> scalar_text env f = Some s)"
  by (induction env v and env members and env items
        rule: collect_codes_collect_field_codes_collect_item_codes.induct)
    (auto split: option.splits, metis)

lemma set_collect_messages:
  "s \<in> set (collect_messages env v) \<longleftrightarrow> (\<exists>k. json_field v k (JStr s) \<and> is_message_key env k)"
  "s \<in> set (collect_field_messages env members) \<longleftrightarrow>
     (\<exists>k. json_field (JObj members) k (JStr s) \<and> is_message_key env k)"
  "s \<in> set (collect_item_messages env items) \<longleftrightarrow>
     (\<exists>k. json_field (JArr items) k (JStr s) \<and> is_message_key env k)"
  by (induction env v and env members and env items
        rule: collect_messages_collect_field_messages_collect_item_messages.induct)
    (auto split: option.splits simp: json_as_str_Some, metis json_as_str_Some)

lemma find_map_option_None: "find_map_option f xs = None \<longleftrightarrow> (\<forall>x \<in> set xs. f x = None)"
  by (induction xs) (auto split: option.splits)

subsection \<open>The free-text fallback\<close>

lemma matches_from_sound:
  "(b, r) \<in> set (matches_from p k before s) \<Longrightarrow> before @ s = b @ p @ r"
proof (induction p k before s rule: matches_from.induct)
  case (3 p before c s)
  then show ?case by (auto split: if_splits simp: prefix_def)
qed auto

text \<open>A match no proper prefix of the pattern leads to is not hidden by an earlier one.\<close>

lemma matches_from_complete:
  assumes "before @ s = a @ p @ r" "length before + k \<le> length a" "p \<noteq> []"
    and "\<And>x j. a = x @ take j p \<Longrightarrow> j = 0 \<or> length p \<le> j"
  shows "(a, r) \<in> set (matches_from p k before s)"
  using assms
proof (induction p k before s rule: matches_from.induct)
  case (2 p k before c s)
  show ?case using "2.prems" by (auto intro!: "2.IH")
next
  case (3 p before c s)
  show ?case
  proof (cases "length before = length a")
    case True
    then have "before = a" "c # s = p @ r" using "3.prems"(1) by auto
    then have "prefix p (c # s)" "drop (length p) (c # s) = r" by simp_all
    then show ?thesis using \<open>before = a\<close> by simp
  next
    case False
    then have lt: "length before < length a" using "3.prems"(2) by simp
    show ?thesis
    proof (cases "prefix p (c # s)")
      case pre: True
      then obtain t where t: "c # s = p @ t" by (auto simp: prefix_def)
      have "length before + length p \<le> length a"
      proof (rule ccontr)
        assume no: "\<not> ?thesis"
        let ?j = "length a - length before"
        have "a = take (length a) (before @ p @ t)" using "3.prems"(1) t by (metis append_eq_conv_conj)
        also have "\<dots> = before @ take ?j p" using lt no by simp
        finally show False using "3.prems"(4) [of before ?j] lt no by simp
      qed
      then have "(a, r) \<in> set (matches_from p (length p - 1) (before @ [c]) s)"
        using "3.prems" lt pre by (intro "3.IH"(1)) (auto simp: Suc_le_eq)
      then show ?thesis using pre by simp
    next
      case False
      then show ?thesis using "3.prems" lt by (auto intro!: "3.IH"(2))
    qed
  qed
qed simp

lemma code_value_after_key_Some:
  "code_value_after_key rest = Some d \<longleftrightarrow>
     (\<exists>seps r. rest = seps @ d @ r \<and> set seps \<subseteq> set key_value_separators \<and> d \<noteq> [] \<and>
        list_all is_ascii_digit d \<and> ends_value r)"
  (is "?l \<longleftrightarrow> ?r")
proof
  let ?P = "\<lambda>c. List.member key_value_separators c"
  assume ?l
  then have d: "d = takeWhile is_ascii_digit (dropWhile ?P rest)" "d \<noteq> []"
    "ends_value (drop (length d) (dropWhile ?P rest))"
    by (auto simp: code_value_after_key_def Let_def split: if_splits)
  have "rest = takeWhile ?P rest @ d @ drop (length d) (dropWhile ?P rest)"
    by (metis d(1) takeWhile_dropWhile_id takeWhile_eq_take append_take_drop_id)
  moreover have "list_all is_ascii_digit d"
    unfolding d(1) by (metis list_all_iff set_takeWhileD)
  moreover have "set (takeWhile ?P rest) \<subseteq> set key_value_separators"
    by (auto dest: set_takeWhileD)
  ultimately show ?r using d(2,3) by blast
next
  let ?P = "\<lambda>c. List.member key_value_separators c"
  assume ?r
  then obtain seps r where r: "rest = seps @ d @ r" "set seps \<subseteq> set key_value_separators" "d \<noteq> []"
    "list_all is_ascii_digit d" "ends_value r" by blast
  obtain c d' where c: "d = c # d'" using r(3) by (cases d) auto
  have "\<not> ?P c" using r(4) c by (auto simp: key_value_separators_def is_ascii_digit_def byte_def)
  then have "dropWhile ?P rest = d @ r" using r(1,2) c by (auto simp: dropWhile_append2 subset_iff)
  moreover have "takeWhile is_ascii_digit (d @ r) = d"
    using r(4,5) by (cases r)
      (auto simp: takeWhile_append2 list_all_iff ends_value_def is_ascii_digit_def byte_def)
  ultimately show ?l using r by (simp add: code_value_after_key_def)
qed

lemma after_opens_iff:
  "t \<in> set (after_opens s) \<longleftrightarrow> (\<exists>a. s = a @ ''('' @ t \<or> s = a @ full_width_open @ t)"
proof (induction s)
  case Nil
  show ?case by (simp add: full_width_open_def utf8_def)
next
  case (Cons c s)
  have fw: "full_width_open = [CHR 0xEF, CHR 0xBC, CHR 0x88]"
    by code_simp
  have open_at: "prefix full_width_open (c # s) \<Longrightarrow> t = drop 3 (c # s) \<longleftrightarrow> c # s = full_width_open @ t"
    by (auto simp: prefix_def fw)
  have ne: "c = CHR ''('' \<Longrightarrow> \<not> prefix full_width_open (c # s)"
    by (auto simp: fw)
  show ?case
    using Cons open_at ne
    by (auto simp: Cons_eq_append_conv) (auto simp: fw)
qed

lemma trim_end_letter:
  "byte c < 0x80 \<Longrightarrow> \<not> ws1 c \<Longrightarrow> trim_end (x @ [c]) = x @ [c]"
  by (cases "rev x"; cases "tl (rev x)")
    (auto simp: trim_end_def ws2_def ws3_def)

lemma trim_end_space: "trim_end (x @ '' '') = trim_end x"
  by (cases "rev x"; cases "tl (rev x)") (auto simp: trim_end_def ws1_def byte_def)

definition key_char :: "char \<Rightarrow> bool" where
  "key_char c \<longleftrightarrow> 97 \<le> byte c \<and> byte c \<le> 122"

lemma trim_end_words:
  assumes "y \<noteq> []" "key_char (hd y)" "\<forall>c \<in> set y. key_char c \<or> c = CHR '' ''"
  shows "\<exists>z c. trim_end (x @ y) = z @ [c] \<and> key_char c"
  using assms
proof (induction y rule: rev_induct)
  case (snoc c y)
  show ?case
  proof (cases "key_char c")
    case True
    then have "trim_end ((x @ y) @ [c]) = (x @ y) @ [c]"
      by (intro trim_end_letter) (auto simp: key_char_def ws1_def)
    then show ?thesis using True by auto
  next
    case False
    then have c: "c = CHR '' ''" using snoc.prems by simp
    have y: "y \<noteq> []" using snoc.prems(2) False by (cases y) auto
    then have "\<exists>z c. trim_end (x @ y) = z @ [c] \<and> key_char c"
      using snoc.prems by (intro snoc.IH) (auto simp: hd_append)
    then show ?thesis using trim_end_space [of "x @ y"] c by simp
  qed
qed simp

lemma inside_key_no_start:
  assumes "key \<in> set code_keys" "0 < j"
  shows "\<not> at_key_start (x @ take j key)"
proof -
  have "key \<noteq> [] \<and> key_char (hd key) \<and> (\<forall>c \<in> set key. key_char c \<or> c = CHR '' '')"
    using assms(1) by (auto simp: code_keys_def key_char_def byte_def)
  then have "take j key \<noteq> []" "key_char (hd (take j key))" "\<forall>c \<in> set (take j key). key_char c \<or> c = CHR '' ''"
    using assms(2) by (auto simp: hd_take dest: in_set_takeD)
  from trim_end_words [OF this] obtain z c where "trim_end (x @ take j key) = z @ [c]" "key_char c" by blast
  then show ?thesis by (auto simp: at_key_start_def key_char_def byte_def)
qed

text \<open>
  A code stands in a text when one of the code keys starts where a field name can start and, past
  separators only, the code follows as a closed value, or when the code stands alone between
  parentheses.\<close>

definition code_stands_in :: "string \<Rightarrow> string \<Rightarrow> bool" where
  "code_stands_in code text \<longleftrightarrow>
     (\<exists>key \<in> set code_keys. \<exists>before seps rest.
        text = before @ key @ seps @ code @ rest \<and> at_key_start before \<and>
        set seps \<subseteq> set key_value_separators \<and> ends_value rest) \<or>
     (\<exists>before opening closing rest.
        text = before @ opening @ code @ closing @ rest \<and>
        opening \<in> {''('', full_width_open} \<and> closing \<in> {'')'', full_width_close})"

lemma parenthesized_code_iff:
  "parenthesized_code text code \<longleftrightarrow>
     (\<exists>before opening closing rest.
        text = before @ opening @ code @ closing @ rest \<and>
        opening \<in> {''('', full_width_open} \<and> closing \<in> {'')'', full_width_close})"
  (is "?l \<longleftrightarrow> ?r")
proof -
  have "closes_code code t \<longleftrightarrow> (\<exists>rest. t = code @ '')'' @ rest \<or> t = code @ full_width_close @ rest)" for t
    by (auto simp: closes_code_def prefix_def)
  then show ?thesis
    by (simp only: parenthesized_code_def list_ex_iff Bex_def after_opens_iff insert_iff empty_iff) blast
qed

lemma byte_digit: "d < 10 \<Longrightarrow> is_ascii_digit (digit_char d)"
  by (auto simp: is_ascii_digit_def digit_char_def byte_def of_char_of take_bit_eq_mod)

lemma dec_nat_digits: "dec_nat n \<noteq> [] \<and> list_all is_ascii_digit (dec_nat n)"
proof (induction n rule: dec_nat.induct)
  case (1 n)
  then show ?case by (subst (1 2) dec_nat.simps) (auto simp: byte_digit)
qed

lemma mentions_free_text_code_iff: "mentions_free_text_code text code \<longleftrightarrow> code_stands_in (dec_nat code) text"
proof -
  have "(\<exists>(before, rest) \<in> set (match_indices text key).
           at_key_start before \<and> code_value_after_key rest = Some (dec_nat code)) \<longleftrightarrow>
        (\<exists>before seps rest. text = before @ key @ seps @ dec_nat code @ rest \<and> at_key_start before \<and>
           set seps \<subseteq> set key_value_separators \<and> ends_value rest)"
    (is "?l \<longleftrightarrow> ?r") if key: "key \<in> set code_keys" for key
  proof
    assume ?l
    then obtain b t where b: "(b, t) \<in> set (match_indices text key)" "at_key_start b"
      "code_value_after_key t = Some (dec_nat code)" by blast
    have "text = b @ key @ t" using matches_from_sound [OF b(1) [unfolded match_indices_def]] by simp
    then show ?r using b(2,3) by (auto simp: code_value_after_key_Some)
  next
    assume ?r
    then obtain b seps t where r: "text = b @ key @ seps @ dec_nat code @ t" "at_key_start b"
      "set seps \<subseteq> set key_value_separators" "ends_value t" by blast
    have "(b, seps @ dec_nat code @ t) \<in> set (match_indices text key)"
      unfolding match_indices_def
    proof (rule matches_from_complete)
      show "key \<noteq> []" using key by (auto simp: code_keys_def)
      show "j = 0 \<or> length key \<le> j" if "b = x @ take j key" for x j
        using inside_key_no_start [OF key, of j x] r(2) that by auto
    qed (simp_all add: r(1))
    moreover have "code_value_after_key (seps @ dec_nat code @ t) = Some (dec_nat code)"
      using r(3,4) dec_nat_digits by (auto simp: code_value_after_key_Some)
    ultimately show ?l using r(2) by blast
  qed
  then show ?thesis
    by (auto simp: mentions_free_text_code_def code_stands_in_def parenthesized_code_iff list_ex_iff)
qed

subsection \<open>The verdict\<close>

definition code_field :: "error_env \<Rightarrow> json \<Rightarrow> string \<Rightarrow> bool" where
  "code_field env v s \<longleftrightarrow> (\<exists>k f. json_field v k f \<and> is_code_key env k \<and> scalar_text env f = Some s)"

definition message_field :: "error_env \<Rightarrow> json \<Rightarrow> string \<Rightarrow> bool" where
  "message_field env v s \<longleftrightarrow> (\<exists>k. json_field v k (JStr s) \<and> is_message_key env k)"

definition names_code :: "error_env \<Rightarrow> string \<Rightarrow> nat \<Rightarrow> bool" where
  "names_code env body code \<longleftrightarrow>
     (case ee_json env body of
        Some v \<Rightarrow> \<exists>s. code_field env v s \<and> parse_u32 s = Some code
      | None \<Rightarrow> code_stands_in (dec_nat code) (fold_text env body))"

definition says :: "error_env \<Rightarrow> string \<Rightarrow> string list \<Rightarrow> bool" where
  "says env text phrases \<longleftrightarrow> (\<exists>p \<in> set phrases. sublist p (fold_text env text))"

definition names_other_cause :: "error_env \<Rightarrow> string \<Rightarrow> bool" where
  "names_other_cause env body \<longleftrightarrow>
     (\<exists>v s. ee_json env body = Some v \<and> code_field env v s \<and> \<not> is_generic_or_exhaustion_code env s)"

definition message_states_exhaustion :: "error_env \<Rightarrow> string \<Rightarrow> bool" where
  "message_states_exhaustion env body \<longleftrightarrow>
     (\<exists>v m code. ee_json env body = Some v \<and> message_field env v m \<and>
        says env m message_exhaustion_phrases \<and> code \<in> {2056, 2067} \<and>
        parenthesized_code (fold_text env m) (dec_nat code))"

lemma set_fields:
  "set (collect_codes env v) = {s. code_field env v s}"
  "set (collect_messages env v) = {m. message_field env v m}"
  by (simp_all add: set_eq_iff set_collect_codes set_collect_messages code_field_def message_field_def)

lemma mentions_names:
  "(case map_option (collect_codes env) (ee_json env body) of
      Some codes \<Rightarrow> mentions_structured_code codes code
    | None \<Rightarrow> mentions_free_text_code (fold_text env body) code) \<longleftrightarrow> names_code env body code"
  by (simp add: names_code_def mentions_structured_code_def list_ex_iff set_fields
      mentions_free_text_code_iff split: option.splits)

lemma conflict_names:
  "is_some_and (list_ex (\<lambda>code. \<not> is_generic_or_exhaustion_code env code))
     (map_option (collect_codes env) (ee_json env body)) \<longleftrightarrow> names_other_cause env body"
  by (auto simp: names_other_cause_def is_some_and_iff list_ex_iff set_fields)

lemma message_signature_None:
  "message_signature env m = None \<longleftrightarrow>
     \<not> (says env m message_exhaustion_phrases \<and>
        (\<exists>code \<in> {2056, 2067}. parenthesized_code (fold_text env m) (dec_nat code)))"
  by (auto simp: message_signature_def Let_def says_def contains_any_iff find_None_iff
      exhausted_provider_codes_def)

lemma message_exhaustion_states:
  "Option.bind (ee_json env body) (message_exhaustion_signature env) \<noteq> None \<longleftrightarrow>
     message_states_exhaustion env body"
  by (cases "ee_json env body")
    (auto simp: message_states_exhaustion_def message_exhaustion_signature_def find_map_option_None
      set_fields message_signature_None)

text \<open>
  C12: The cause given to an upstream answer. A success has none. An error is throttling when a
  recognised code field, at any depth of its JSON, is 2062 or a transient phrase occurs, whatever
  else it says; otherwise an outage when an explicit phrase says so; otherwise a spent account when
  a code field is 2056 or 2067, or when no code field names another cause and an exhaustion phrase
  occurs or a message states exhaustion with its code in parentheses; otherwise throttling when the
  status is 429; otherwise nothing. In a body that is not JSON a code counts only where it stands
  as the whole value of a recognised key or alone between parentheses.\<close>

theorem upstream_failure_verdict:
  "classify_upstream_failure env status body =
     (if 200 \<le> status \<and> status < 300 then None
      else if names_code env body 2062 \<or> says env body rate_limit_phrases then Some UfRateLimited
      else if says env body unavailable_phrases then Some UfUnavailable
      else if names_code env body 2056 \<or> names_code env body 2067 \<or>
        \<not> names_other_cause env body \<and>
        (message_states_exhaustion env body \<or> says env body exhausted_phrases)
      then Some UfExhausted
      else if status = 429 then Some UfRateLimited
      else None)"
proof -
  have "classify_upstream_body env body =
    (if names_code env body 2062 \<or> says env body rate_limit_phrases then Some UfRateLimited
     else if says env body unavailable_phrases then Some UfUnavailable
     else if names_code env body 2056 \<or> names_code env body 2067 \<or>
       \<not> names_other_cause env body \<and>
       (message_states_exhaustion env body \<or> says env body exhausted_phrases)
     then Some UfExhausted
     else None)"
    unfolding classify_upstream_body_def Let_def mentions_names conflict_names message_exhaustion_states
    by (simp only: rate_limit_provider_code_def exhausted_provider_codes_def says_def contains_any_iff
        list_ex_iff list.set bex_simps insert_iff empty_iff HOL.simp_thms disj_assoc)
  then show ?thesis by (auto simp: classify_upstream_failure_def)
qed

end
