(* ===== verification/StreamText.thy ===== *)
theory StreamText
  imports Prelude
begin

text \<open>
  \<open>src/stream_text.rs\<close>: the decoder that turns the byte chunks of an upstream stream into lines. A
  chunk may end inside a character or inside a line; what is left over waits for the next chunk.

  UTF-8 is written out twice: as the code sees it, the validation of \<open>str::from_utf8\<close> with the
  place of the first fault and whether more bytes could still repair it; and as the encoding of
  code points, which says what the result should be. Slices and drains of a \<open>String\<close> panic off its
  character boundaries, so a panic is one of the outcomes of the model. The capacity of a string's
  buffer is not determined by its contents and is an argument of the operations that read it.
\<close>

subsection \<open>UTF-8\<close>

text \<open>The first character of a byte string: its length, a fault no byte can repair, or too few bytes.\<close>

datatype utf8_head = UhChar nat | UhInvalid | UhIncomplete

definition utf8_head :: "string \<Rightarrow> utf8_head" where
  "utf8_head bs =
     (case bs of
        [] \<Rightarrow> UhIncomplete
      | a # bs \<Rightarrow>
          if byte a < 0x80 then UhChar 1
          else if byte a < 0xC2 \<or> 0xF4 < byte a then UhInvalid
          else
            (case bs of
               [] \<Rightarrow> UhIncomplete
             | b # bs \<Rightarrow>
                 if byte a < 0xE0 then (if cont_byte b then UhChar 2 else UhInvalid)
                 else if \<not> utf8_second_ok a b then UhInvalid
                 else
                   (case bs of
                      [] \<Rightarrow> UhIncomplete
                    | c # bs \<Rightarrow>
                        if \<not> cont_byte c then UhInvalid
                        else if byte a < 0xF0 then UhChar 3
                        else
                          (case bs of
                             [] \<Rightarrow> UhIncomplete
                           | d # _ \<Rightarrow> if cont_byte d then UhChar 4 else UhInvalid))))"

lemma utf8_head_bounds: "utf8_head bs = UhChar n \<Longrightarrow> 0 < n \<and> n \<le> length bs"
  by (auto simp: utf8_head_def split: list.splits if_splits)

function valid_up_to :: "string \<Rightarrow> nat" where
  "valid_up_to bs =
     (case utf8_head bs of
        UhChar n \<Rightarrow> n + valid_up_to (drop n bs)
      | _ \<Rightarrow> 0)"
  by auto
termination
  by (relation "measure length") (use utf8_head_bounds in fastforce)+

declare valid_up_to.simps [simp del]

text \<open>\<open>Utf8Error\<close>: \<open>valid_up_to\<close> and whether \<open>error_len\<close> is \<open>None\<close>.\<close>

record utf8_error =
  ue_valid_up_to :: nat
  ue_incomplete :: bool

definition from_utf8 :: "string \<Rightarrow> utf8_error + string" where
  "from_utf8 bs =
     (let n = valid_up_to bs in
      if n = length bs then Inr bs
      else Inl \<lparr>ue_valid_up_to = n, ue_incomplete = (utf8_head (drop n bs) = UhIncomplete)\<rparr>)"

subsection \<open>Strings\<close>

definition is_char_boundary :: "string \<Rightarrow> nat \<Rightarrow> bool" where
  "is_char_boundary s i \<longleftrightarrow> i = 0 \<or> i = length s \<or> i < length s \<and> \<not> cont_byte (s ! i)"

datatype decoder_fault = DecoderError | SlicePanic

text \<open>\<open>&s[i..]\<close>, \<open>&s[i..j]\<close> and \<open>s.drain(..i)\<close>.\<close>

definition slice_from :: "string \<Rightarrow> nat \<Rightarrow> decoder_fault + string" where
  "slice_from s i = (if is_char_boundary s i then Inr (drop i s) else Inl SlicePanic)"

definition slice :: "string \<Rightarrow> nat \<Rightarrow> nat \<Rightarrow> decoder_fault + string" where
  "slice s i j =
     (if i \<le> j \<and> is_char_boundary s i \<and> is_char_boundary s j then Inr (take (j - i) (drop i s))
      else Inl SlicePanic)"

fun find_char :: "char \<Rightarrow> string \<Rightarrow> nat option" where
  "find_char c [] = None"
| "find_char c (x # xs) = (if x = c then Some 0 else map_option Suc (find_char c xs))"

abbreviation newline :: char where "newline \<equiv> CHR 0x0A"
abbreviation carriage_return :: char where "carriage_return \<equiv> CHR 0x0D"

definition trim_end_char :: "char \<Rightarrow> string \<Rightarrow> string" where
  "trim_end_char c s = rev (dropWhile (\<lambda>x. x = c) (rev s))"

lemma find_char_None: "find_char c s = None \<longleftrightarrow> c \<notin> set s"
  by (induction s) auto

lemma find_char_Some: "find_char c s = Some i \<Longrightarrow> i < length s \<and> s = take i s @ c # drop (Suc i) s \<and> c \<notin> set (take i s)"
  by (induction s arbitrary: i) (auto split: if_splits)

subsection \<open>The decoder\<close>

record line_decoder =
  ld_pending_bytes :: string
  ld_text_buffer :: string
  ld_line_start :: nat

definition decoder_default :: line_decoder where
  "decoder_default = \<lparr>ld_pending_bytes = [], ld_text_buffer = [], ld_line_start = 0\<rparr>"

definition decode_pending :: "bool \<Rightarrow> line_decoder \<Rightarrow> decoder_fault + line_decoder" where
  "decode_pending require_complete d =
     (if ld_pending_bytes d = [] then Inr d
      else
        (case from_utf8 (ld_pending_bytes d) of
           Inr text \<Rightarrow>
             Inr (d\<lparr>ld_text_buffer := ld_text_buffer d @ text, ld_pending_bytes := []\<rparr>)
         | Inl err \<Rightarrow>
             if ue_incomplete err \<and> \<not> require_complete then
               (if ue_valid_up_to err = 0 then Inr d
                else
                  (case from_utf8 (take (ue_valid_up_to err) (ld_pending_bytes d)) of
                     Inl _ \<Rightarrow> Inl DecoderError
                   | Inr text \<Rightarrow>
                       Inr (d\<lparr>ld_text_buffer := ld_text_buffer d @ text,
                              ld_pending_bytes := drop (ue_valid_up_to err) (ld_pending_bytes d)\<rparr>)))
             else Inl DecoderError))"

text \<open>The loop of \<open>drain_lines\<close>.\<close>

function drain_loop :: "string \<Rightarrow> nat \<Rightarrow> string list \<Rightarrow> decoder_fault + nat \<times> string list" where
  "drain_loop text line_start lines =
     (case slice_from text line_start of
        Inl fault \<Rightarrow> Inl fault
      | Inr rest \<Rightarrow>
          (case find_char newline rest of
             None \<Rightarrow> Inr (line_start, lines)
           | Some relative_index \<Rightarrow>
               let index = line_start + relative_index in
               (case slice text line_start index of
                  Inl fault \<Rightarrow> Inl fault
                | Inr line \<Rightarrow>
                    drain_loop text (index + 1) (lines @ [trim_end_char carriage_return line]))))"
  by auto
termination
  by (relation "measure (\<lambda>(text, start, _). length text - start)")
    (auto simp: slice_from_def is_char_boundary_def split: if_splits dest: find_char_Some)

declare drain_loop.simps [simp del]

definition compact_if_needed :: "nat \<Rightarrow> line_decoder \<Rightarrow> decoder_fault + line_decoder" where
  "compact_if_needed capacity d =
     (let text = ld_text_buffer d; start = ld_line_start d in
      if start = 0 then Inr d
      else if length text \<le> start then Inr (d\<lparr>ld_text_buffer := [], ld_line_start := 0\<rparr>)
      else if capacity div 2 \<le> start \<or> length text div 2 \<le> start then
        (case slice_from text start of
           Inl fault \<Rightarrow> Inl fault
         | Inr rest \<Rightarrow> Inr (d\<lparr>ld_text_buffer := rest, ld_line_start := 0\<rparr>))
      else Inr d)"

definition drain_lines :: "nat \<Rightarrow> line_decoder \<Rightarrow> decoder_fault + line_decoder \<times> string list" where
  "drain_lines capacity d =
     (case drain_loop (ld_text_buffer d) (ld_line_start d) [] of
        Inl fault \<Rightarrow> Inl fault
      | Inr (start, lines) \<Rightarrow>
          (case compact_if_needed capacity (d\<lparr>ld_line_start := start\<rparr>) of
             Inl fault \<Rightarrow> Inl fault
           | Inr d \<Rightarrow> Inr (d, lines)))"

definition decoder_push ::
    "nat \<Rightarrow> line_decoder \<Rightarrow> string \<Rightarrow> decoder_fault + line_decoder \<times> string list" where
  "decoder_push capacity d chunk =
     (case decode_pending False (d\<lparr>ld_pending_bytes := ld_pending_bytes d @ chunk\<rparr>) of
        Inl fault \<Rightarrow> Inl fault
      | Inr d \<Rightarrow> drain_lines capacity d)"

definition decoder_finish :: "line_decoder \<Rightarrow> decoder_fault + line_decoder \<times> string option" where
  "decoder_finish d =
     (case decode_pending True d of
        Inl fault \<Rightarrow> Inl fault
      | Inr d \<Rightarrow>
          if length (ld_text_buffer d) \<le> ld_line_start d
          then Inr (d\<lparr>ld_text_buffer := [], ld_line_start := 0\<rparr>, None)
          else
            (case slice_from (ld_text_buffer d) (ld_line_start d) of
               Inl fault \<Rightarrow> Inl fault
             | Inr remaining \<Rightarrow>
                 Inr (d\<lparr>ld_text_buffer := [], ld_line_start := 0\<rparr>, Some remaining)))"

text \<open>A stream: its chunks one after another, each with the buffer's capacity at that time, and the end.\<close>

fun decoder_pushes ::
    "(nat \<times> string) list \<Rightarrow> line_decoder \<Rightarrow> decoder_fault + line_decoder \<times> string list" where
  "decoder_pushes [] d = Inr (d, [])"
| "decoder_pushes ((capacity, chunk) # chunks) d =
     (case decoder_push capacity d chunk of
        Inl fault \<Rightarrow> Inl fault
      | Inr (d, lines) \<Rightarrow>
          (case decoder_pushes chunks d of
             Inl fault \<Rightarrow> Inl fault
           | Inr (d, lines') \<Rightarrow> Inr (d, lines @ lines')))"

definition decode_stream :: "(nat \<times> string) list \<Rightarrow> decoder_fault + string list \<times> string option" where
  "decode_stream chunks =
     (case decoder_pushes chunks decoder_default of
        Inl fault \<Rightarrow> Inl fault
      | Inr (d, lines) \<Rightarrow> map_sum id (\<lambda>(d, remaining). (lines, remaining)) (decoder_finish d))"

subsection \<open>Well-formed text\<close>

text \<open>Unicode scalar values and their encoding.\<close>

definition scalar_value :: "nat \<Rightarrow> bool" where
  "scalar_value cp \<longleftrightarrow> cp < 0xD800 \<or> 0xE000 \<le> cp \<and> cp < 0x110000"

definition utf8_encode :: "nat \<Rightarrow> string" where
  "utf8_encode cp =
     List.map char_of
       (if cp < 0x80 then [cp]
        else if cp < 0x800 then [0xC0 + cp div 64, 0x80 + cp mod 64]
        else if cp < 0x10000 then [0xE0 + cp div 4096, 0x80 + cp div 64 mod 64, 0x80 + cp mod 64]
        else [0xF0 + cp div 262144, 0x80 + cp div 4096 mod 64, 0x80 + cp div 64 mod 64, 0x80 + cp mod 64])"

definition utf8_text :: "string \<Rightarrow> bool" where
  "utf8_text s \<longleftrightarrow> (\<exists>cps. (\<forall>cp \<in> set cps. scalar_value cp) \<and> s = concat (List.map utf8_encode cps))"

lemma utf8_head_encode:
  assumes "scalar_value cp"
  shows "utf8_head (utf8_encode cp @ r) = UhChar (length (utf8_encode cp))"
proof -
  define q where "q = cp div 64"
  have q: "64 * q \<le> cp" "cp < 64 * q + 64" by (simp_all add: q_def)
  consider "cp < 0x80" | "0x80 \<le> cp" "cp < 0x800" | "0x800 \<le> cp" "cp < 0x10000" | "0x10000 \<le> cp" "cp < 0x110000"
    using assms unfolding scalar_value_def by linarith
  then show ?thesis
  proof cases
    case 1
    then show ?thesis by (simp add: utf8_encode_def utf8_head_def byte_char_of)
  next
    case 2
    then have "2 \<le> q" "q < 32" using q by simp_all
    with 2 show ?thesis
      by (simp add: utf8_encode_def utf8_head_def byte_char_of cont_byte_def flip: q_def)
  next
    case 3
    define a b where "a = q div 64" and "b = q mod 64"
    have ab: "q = 64 * a + b" "b < 64" by (simp_all add: a_def b_def)
    have e: "utf8_encode cp = List.map char_of [0xE0 + a, 0x80 + b, 0x80 + cp mod 64]"
      using 3 by (simp add: utf8_encode_def a_def b_def q_def flip: div_mult2_eq)
    have "a < 16" "a = 0 \<longrightarrow> 32 \<le> b" "a = 13 \<longrightarrow> b < 32"
      using 3 ab q assms unfolding scalar_value_def by linarith+
    then show ?thesis
      using ab(2) by (simp add: e utf8_head_def byte_char_of cont_byte_def utf8_second_ok_def) linarith
  next
    case 4
    define a b where "a = q div 64 div 64" and "b = q div 64 mod 64"
    have ab: "q div 64 = 64 * a + b" "b < 64" by (simp_all add: a_def b_def)
    have e: "utf8_encode cp = List.map char_of [0xF0 + a, 0x80 + b, 0x80 + q mod 64, 0x80 + cp mod 64]"
      using 4 by (simp add: utf8_encode_def a_def b_def q_def flip: div_mult2_eq)
    have "a < 5" "a = 0 \<longrightarrow> 16 \<le> b" "a = 4 \<longrightarrow> b < 16"
      using 4 ab q by linarith+
    then show ?thesis
      using ab(2) by (simp add: e utf8_head_def byte_char_of cont_byte_def utf8_second_ok_def) linarith
  qed
qed

lemma base64_digits:
  "(r::nat) < 64 \<Longrightarrow> (64 * q + r) div 64 = q" "(r::nat) < 64 \<Longrightarrow> (64 * q + r) mod 64 = r"
  by simp_all

lemma cont_digit: "cont_byte c \<Longrightarrow> byte c - 0x80 < 64"
  unfolding cont_byte_def by linarith

lemma utf8_head_decode:
  assumes "utf8_head bs = UhChar n"
  shows "\<exists>cp. scalar_value cp \<and> take n bs = utf8_encode cp"
proof -
  have eq: "c = char_of k \<longleftrightarrow> byte c = k" if "k < 256" for c k
    using that by (auto simp: byte_def)
  from assms consider
      a where "take n bs = [a]" "byte a < 0x80"
    | a b where "take n bs = [a, b]" "0xC2 \<le> byte a" "byte a < 0xE0" "cont_byte b"
    | a b c where "take n bs = [a, b, c]" "0xE0 \<le> byte a" "byte a < 0xF0" "utf8_second_ok a b" "cont_byte c"
    | a b c d where "take n bs = [a, b, c, d]" "0xF0 \<le> byte a" "byte a \<le> 0xF4" "utf8_second_ok a b"
        "cont_byte c" "cont_byte d"
    by (auto simp: utf8_head_def not_less not_le split: list.splits if_splits)
  then show ?thesis
  proof cases
    case 1
    then show ?thesis
      by (intro exI [of _ "byte a"]) (simp add: scalar_value_def utf8_encode_def eq)
  next
    case 2
    define cp where "cp = 64 * (byte a - 0xC0) + (byte b - 0x80)"
    have "cp div 64 = byte a - 0xC0" "cp mod 64 = byte b - 0x80"
      unfolding cp_def using cont_digit [OF 2(4)] by (rule base64_digits)+
    moreover have "0x80 \<le> cp" "cp < 0x800"
      using 2 by (auto simp: cp_def cont_byte_def)
    ultimately show ?thesis
      using 2 by (intro exI [of _ cp]) (simp add: scalar_value_def utf8_encode_def eq cont_byte_def)
  next
    case 3
    define cp where "cp = 64 * (64 * (byte a - 0xE0) + (byte b - 0x80)) + (byte c - 0x80)"
    have b: "cont_byte b" using 3(4) by (auto simp: utf8_second_ok_def cont_byte_def)
    have q: "cp div 64 = 64 * (byte a - 0xE0) + (byte b - 0x80)" "cp mod 64 = byte c - 0x80"
      unfolding cp_def using cont_digit [OF 3(5)] by (rule base64_digits)+
    have "cp div 64 div 64 = byte a - 0xE0" "cp div 64 mod 64 = byte b - 0x80"
      unfolding q(1) using cont_digit [OF b] by (rule base64_digits)+
    then have q': "cp div 4096 = byte a - 0xE0" "cp div 64 mod 64 = byte b - 0x80"
      by (simp_all flip: div_mult2_eq)
    define A B C where "A = byte a - 0xE0" and "B = byte b - 0x80" and "C = byte c - 0x80"
    have "A < 16" "A = 0 \<longrightarrow> 32 \<le> B" "A = 13 \<longrightarrow> B < 32"
      using 3(2,3,4) b unfolding A_def B_def utf8_second_ok_def cont_byte_def by linarith+
    then consider "A = 0" "32 \<le> B" | "1 \<le> A" "A \<le> 12" | "A = 13" "B < 32" | "14 \<le> A" "A < 16"
      by fastforce
    moreover have "cp = 64 * (64 * A + B) + C" "B < 64" "C < 64"
      using cont_digit [OF b] cont_digit [OF 3(5)] by (simp_all add: cp_def A_def B_def C_def)
    ultimately have "0x800 \<le> cp \<and> cp < 0x10000 \<and> (cp < 0xD800 \<or> 0xE000 \<le> cp)"
      by cases auto
    then have "0x800 \<le> cp" "cp < 0x10000" "scalar_value cp"
      by (auto simp: scalar_value_def)
    then show ?thesis
      using 3 b q(2) q' by (intro exI [of _ cp]) (simp add: utf8_encode_def eq cont_byte_def)
  next
    case 4
    define cp where "cp = 64 * (64 * (64 * (byte a - 0xF0) + (byte b - 0x80)) + (byte c - 0x80)) + (byte d - 0x80)"
    have b: "cont_byte b" using 4(4) by (auto simp: utf8_second_ok_def cont_byte_def)
    have q: "cp div 64 = 64 * (64 * (byte a - 0xF0) + (byte b - 0x80)) + (byte c - 0x80)" "cp mod 64 = byte d - 0x80"
      unfolding cp_def using cont_digit [OF 4(6)] by (rule base64_digits)+
    have "cp div 64 div 64 = 64 * (byte a - 0xF0) + (byte b - 0x80)" "cp div 64 mod 64 = byte c - 0x80"
      unfolding q(1) using cont_digit [OF 4(5)] by (rule base64_digits)+
    then have q': "cp div 4096 = 64 * (byte a - 0xF0) + (byte b - 0x80)" "cp div 64 mod 64 = byte c - 0x80"
      by (simp_all flip: div_mult2_eq)
    have "cp div 4096 div 64 = byte a - 0xF0" "cp div 4096 mod 64 = byte b - 0x80"
      unfolding q'(1) using cont_digit [OF b] by (rule base64_digits)+
    then have q'': "cp div 262144 = byte a - 0xF0" "cp div 4096 mod 64 = byte b - 0x80"
      by (simp_all flip: div_mult2_eq)
    define A B C D where "A = byte a - 0xF0" and "B = byte b - 0x80" and "C = byte c - 0x80" and "D = byte d - 0x80"
    have "A < 5" "A = 0 \<longrightarrow> 16 \<le> B" "A = 4 \<longrightarrow> B < 16"
      using 4(2,3,4) b unfolding A_def B_def utf8_second_ok_def cont_byte_def by linarith+
    then consider "A = 0" "16 \<le> B" | "1 \<le> A" "A \<le> 3" | "A = 4" "B < 16"
      by fastforce
    moreover have "cp = 64 * (64 * (64 * A + B) + C) + D" "B < 64" "C < 64" "D < 64"
      using cont_digit [OF b] cont_digit [OF 4(5)] cont_digit [OF 4(6)]
      by (simp_all add: cp_def A_def B_def C_def D_def)
    ultimately have "0x10000 \<le> cp \<and> cp < 0x110000" by cases auto
    then show ?thesis
      using 4 b q(2) q'(2) q'' by (intro exI [of _ cp]) (simp add: utf8_encode_def eq cont_byte_def scalar_value_def)
  qed
qed

text \<open>Encoded characters: an ASCII byte alone, or bytes above 0x7F the first of which starts it.\<close>

lemma utf8_encode_bytes:
  assumes "scalar_value cp"
  shows "utf8_encode cp \<noteq> [] \<and> \<not> cont_byte (hd (utf8_encode cp)) \<and>
    ((\<forall>c \<in> set (utf8_encode cp). 0x80 \<le> byte c) \<or> (\<exists>c. utf8_encode cp = [c] \<and> byte c < 0x80))"
proof -
  have "cp < 0x800 \<longrightarrow> cp div 64 < 32" "cp < 0x10000 \<longrightarrow> cp div 4096 < 16" "cp < 0x110000 \<longrightarrow> cp div 262144 < 5"
    by auto
  then show ?thesis
    using assms by (auto simp: utf8_encode_def byte_char_of cont_byte_def scalar_value_def)
qed

lemma utf8_text_Nil [simp]: "utf8_text []"
  by (auto simp: utf8_text_def intro: exI [of _ "[]"])

lemma utf8_text_append: "utf8_text x \<Longrightarrow> utf8_text y \<Longrightarrow> utf8_text (x @ y)"
  unfolding utf8_text_def
proof (elim exE conjE)
  fix cps cps'
  assume "\<forall>cp \<in> set cps. scalar_value cp" "\<forall>cp \<in> set cps'. scalar_value cp"
    "x = concat (List.map utf8_encode cps)" "y = concat (List.map utf8_encode cps')"
  then show "\<exists>cps. (\<forall>cp \<in> set cps. scalar_value cp) \<and> x @ y = concat (List.map utf8_encode cps)"
    by (intro exI [of _ "cps @ cps'"]) auto
qed

lemma utf8_text_encode: "scalar_value cp \<Longrightarrow> utf8_text (utf8_encode cp)"
  unfolding utf8_text_def by (intro exI [of _ "[cp]"]) simp

lemma utf8_text_induct [consumes 1, case_names Nil char]:
  assumes "utf8_text s" "P []"
    and "\<And>cp s. scalar_value cp \<Longrightarrow> utf8_text s \<Longrightarrow> P s \<Longrightarrow> P (utf8_encode cp @ s)"
  shows "P s"
proof -
  obtain cps where "\<forall>cp \<in> set cps. scalar_value cp" "s = concat (List.map utf8_encode cps)"
    using assms(1) by (auto simp: utf8_text_def)
  then show ?thesis
  proof (induction cps arbitrary: s)
    case (Cons cp cps)
    have "utf8_text (concat (List.map utf8_encode cps))" using Cons.prems(1) by (auto simp: utf8_text_def)
    then show ?case using Cons by (auto intro!: assms(3))
  qed (simp add: assms(2))
qed

text \<open>An ASCII byte splits well-formed text into well-formed parts.\<close>

lemma utf8_text_split_ascii:
  assumes "utf8_text s" "s = x @ c # y" "byte c < 0x80"
  shows "utf8_text x \<and> utf8_text y"
  using assms
proof (induction arbitrary: x rule: utf8_text_induct)
  case (char cp s)
  note enc = utf8_encode_bytes [OF char.hyps(1)]
  show ?case
  proof (cases "length x < length (utf8_encode cp)")
    case True
    then have "c \<in> set (utf8_encode cp)"
      using char.prems by (metis append_eq_append_conv_if in_set_conv_decomp append_take_drop_id nth_append nth_append_length nth_mem)
    then have "utf8_encode cp = [c]" using enc char.prems(2) by force
    then show ?thesis using char True by simp
  next
    case False
    then obtain x' where x: "x = utf8_encode cp @ x'"
      using char.prems(1) by (metis append_eq_append_conv2 append_eq_conv_conj le_add1 length_append not_less take_all_iff append.right_neutral)
    then have "utf8_text x' \<and> utf8_text y" using char by simp
    then show ?thesis using utf8_text_append [OF utf8_text_encode [OF char.hyps(1)]] x by simp
  qed
qed simp

lemma utf8_text_boundary: "utf8_text s \<Longrightarrow> s = [] \<or> \<not> cont_byte (hd s)"
  by (induction rule: utf8_text_induct) (use utf8_encode_bytes in \<open>auto simp: hd_append\<close>)

lemma boundary_drop: "i \<le> length s \<Longrightarrow> utf8_text (drop i s) \<Longrightarrow> is_char_boundary s i"
  using utf8_text_boundary [of "drop i s"] by (auto simp: is_char_boundary_def hd_drop_conv_nth)

lemma utf8_text_trim_end_char:
  assumes "utf8_text s" "byte c < 0x80"
  shows "utf8_text (trim_end_char c s)"
  using assms
proof (induction s rule: rev_induct)
  case (snoc x s)
  show ?case
  proof (cases "x = c")
    case True
    then have "utf8_text s" using utf8_text_split_ascii [OF snoc.prems(1), of s c "[]"] snoc.prems(2) by simp
    then show ?thesis using snoc True by (simp add: trim_end_char_def)
  qed (use snoc.prems in \<open>simp add: trim_end_char_def\<close>)
qed (simp add: trim_end_char_def)

subsection \<open>Validation\<close>

lemma valid_up_to_le: "valid_up_to bs \<le> length bs"
proof (induction bs rule: valid_up_to.induct)
  case (1 bs)
  show ?case
  proof (cases "utf8_head bs")
    case (UhChar n)
    then show ?thesis using 1 [OF UhChar] utf8_head_bounds [OF UhChar] by (simp add: valid_up_to.simps [of bs] le_diff_conv2)
  qed (simp_all add: valid_up_to.simps [of bs])
qed

lemma valid_prefix_text: "utf8_text (take (valid_up_to bs) bs)"
proof (induction bs rule: valid_up_to.induct)
  case (1 bs)
  show ?case
  proof (cases "utf8_head bs")
    case (UhChar n)
    then obtain cp where cp: "scalar_value cp" "take n bs = utf8_encode cp" using utf8_head_decode by blast
    have "take (n + valid_up_to (drop n bs)) bs = take n bs @ take (valid_up_to (drop n bs)) (drop n bs)"
      by (simp add: take_add)
    then show ?thesis
      using 1 [OF UhChar] UhChar utf8_text_append [OF utf8_text_encode [OF cp(1)]]
      by (simp add: valid_up_to.simps [of bs] cp(2))
  qed (simp_all add: valid_up_to.simps [of bs])
qed

lemma valid_up_to_append: "utf8_text x \<Longrightarrow> valid_up_to (x @ y) = length x + valid_up_to y"
proof (induction rule: utf8_text_induct)
  case (char cp s)
  then show ?case
    by (simp add: valid_up_to.simps [of "utf8_encode cp @ s @ y"] utf8_head_encode)
qed simp

lemma valid_up_to_stop: "\<nexists>n. utf8_head (drop (valid_up_to bs) bs) = UhChar n"
proof (induction bs rule: valid_up_to.induct)
  case (1 bs)
  show ?case
  proof (cases "utf8_head bs")
    case (UhChar n)
    then show ?thesis using 1 [OF UhChar] by (simp add: valid_up_to.simps [of bs] add.commute)
  qed (simp_all add: valid_up_to.simps [of bs])
qed

lemma utf8_text_iff: "utf8_text bs \<longleftrightarrow> valid_up_to bs = length bs"
  using valid_up_to_append [of bs "[]"] valid_prefix_text [of bs] valid_up_to_le [of "[]"] by auto

lemma list4_cases:
  obtains "xs = []" | a where "xs = [a]" | a b where "xs = [a, b]" | a b c where "xs = [a, b, c]"
    | a b c d ys where "xs = a # b # c # d # ys"
proof (cases xs)
  case xs: (Cons a x1)
  show thesis
  proof (cases x1)
    case x1: (Cons b x2)
    show thesis
    proof (cases x2)
      case x2: (Cons c x3)
      show thesis using that(4,5) xs x1 x2 by (cases x3) blast+
    qed (use that(3) xs x1 in blast)
  qed (use that(2) xs in blast)
qed (use that(1) in blast)

lemma utf8_head_append:
  "utf8_head x = UhInvalid \<Longrightarrow> utf8_head (x @ y) = UhInvalid"
  "utf8_head x = UhChar n \<Longrightarrow> utf8_head (x @ y) = UhChar n"
  by (cases x rule: list4_cases; auto simp: utf8_head_def split: if_split_asm)
    (cases x rule: list4_cases; auto simp: utf8_head_def split: if_split_asm)

lemma valid_up_to_rest:
  "valid_up_to (bs @ y) = valid_up_to bs + valid_up_to (drop (valid_up_to bs) bs @ y)"
proof -
  have "valid_up_to (take (valid_up_to bs) bs @ drop (valid_up_to bs) bs @ y) =
    valid_up_to bs + valid_up_to (drop (valid_up_to bs) bs @ y)"
    using valid_up_to_append [OF valid_prefix_text] valid_up_to_le [of bs] by (simp add: min_def)
  then show ?thesis by (simp flip: append_assoc)
qed

abbreviation undecoded :: "string \<Rightarrow> string" where
  "undecoded bs \<equiv> drop (valid_up_to bs) bs"

lemma undecoded_append: "undecoded (bs @ y) = undecoded (undecoded bs @ y)"
  using valid_up_to_le [of bs] by (simp add: valid_up_to_rest [of bs y] add.commute)

lemma valid_up_to_zero: "utf8_head bs = UhInvalid \<or> utf8_head bs = UhIncomplete \<Longrightarrow> valid_up_to bs = 0"
  by (auto simp: valid_up_to.simps [of bs])

lemma undecoded_invalid:
  "utf8_head (undecoded bs) = UhInvalid \<Longrightarrow> utf8_head (undecoded (bs @ y)) = UhInvalid"
  using utf8_head_append(1) [of "undecoded bs" y] by (simp add: undecoded_append valid_up_to_zero del: drop_append)

subsection \<open>Lines\<close>

fun split_lines :: "string \<Rightarrow> string list \<times> string" where
  "split_lines [] = ([], [])"
| "split_lines (c # s) =
     (case split_lines s of
        (lines, rest) \<Rightarrow>
          if c = newline then ([] # lines, rest)
          else (case lines of
                  [] \<Rightarrow> ([], c # rest)
                | line # lines \<Rightarrow> ((c # line) # lines, rest)))"

lemma split_lines_none: "newline \<notin> set r \<Longrightarrow> split_lines r = ([], r)"
  by (induction r) auto

lemma split_lines_line:
  "newline \<notin> set l \<Longrightarrow> split_lines (l @ newline # s) = (l # fst (split_lines s), snd (split_lines s))"
  by (induction l) (auto split: prod.splits)

lemma split_lines_iff:
  "split_lines s = (ls, r) \<longleftrightarrow>
     s = concat (List.map (\<lambda>l. l @ [newline]) ls) @ r \<and> newline \<notin> set r \<and> (\<forall>l \<in> set ls. newline \<notin> set l)"
proof
  show "split_lines s = (ls, r) \<Longrightarrow>
     s = concat (List.map (\<lambda>l. l @ [newline]) ls) @ r \<and> newline \<notin> set r \<and> (\<forall>l \<in> set ls. newline \<notin> set l)"
    by (induction s arbitrary: ls r) (auto split: prod.splits list.splits if_splits)
next
  have "newline \<notin> set r \<Longrightarrow> \<forall>l \<in> set ls. newline \<notin> set l \<Longrightarrow>
      split_lines (concat (List.map (\<lambda>l. l @ [newline]) ls) @ r) = (ls, r)" for ls r
    by (induction ls) (simp_all add: split_lines_none split_lines_line)
  then show "s = concat (List.map (\<lambda>l. l @ [newline]) ls) @ r \<and> newline \<notin> set r \<and>
      (\<forall>l \<in> set ls. newline \<notin> set l) \<Longrightarrow> split_lines s = (ls, r)"
    by blast
qed

lemma split_lines_append:
  "split_lines (x @ y) =
     (fst (split_lines x) @ fst (split_lines (snd (split_lines x) @ y)), snd (split_lines (snd (split_lines x) @ y)))"
proof -
  obtain ls r ls' r' where s: "split_lines x = (ls, r)" "split_lines (r @ y) = (ls', r')" by fastforce
  note iff = s [unfolded split_lines_iff]
  have "split_lines (x @ y) = (ls @ ls', r')"
    using iff by (simp add: split_lines_iff) auto
  then show ?thesis by (simp add: s)
qed

lemma utf8_text_split_lines:
  "utf8_text s \<Longrightarrow> split_lines s = (ls, r) \<Longrightarrow> utf8_text r \<and> (\<forall>l \<in> set ls. utf8_text l)"
proof (induction ls arbitrary: s)
  case (Cons l ls)
  then have s: "s = l @ newline # concat (List.map (\<lambda>l. l @ [newline]) ls) @ r" "newline \<notin> set r"
    "\<forall>l \<in> set ls. newline \<notin> set l"
    by (auto simp: split_lines_iff)
  have "utf8_text l \<and> utf8_text (concat (List.map (\<lambda>l. l @ [newline]) ls) @ r)"
    by (rule utf8_text_split_ascii [OF Cons.prems(1) s(1)]) (simp add: byte_def)
  moreover have "split_lines (concat (List.map (\<lambda>l. l @ [newline]) ls) @ r) = (ls, r)"
    using s by (simp add: split_lines_iff)
  ultimately show ?case using Cons.IH by auto
qed (auto simp: split_lines_iff)

subsection \<open>The operations\<close>

definition decoder_typed :: "line_decoder \<Rightarrow> bool" where
  "decoder_typed d \<longleftrightarrow>
     utf8_text (ld_text_buffer d) \<and> ld_line_start d \<le> length (ld_text_buffer d) \<and>
     utf8_text (drop (ld_line_start d) (ld_text_buffer d))"

lemma decoder_typed_pending [simp]: "decoder_typed (d\<lparr>ld_pending_bytes := p\<rparr>) = decoder_typed d"
  by (simp add: decoder_typed_def)

text \<open>The lines a decoder yet has to hand out.\<close>

abbreviation unread :: "line_decoder \<Rightarrow> string" where
  "unread d \<equiv> drop (ld_line_start d) (ld_text_buffer d)"

lemma from_utf8_eq:
  "from_utf8 bs =
     (if undecoded bs = [] then Inr bs
      else Inl \<lparr>ue_valid_up_to = valid_up_to bs, ue_incomplete = (utf8_head (undecoded bs) = UhIncomplete)\<rparr>)"
  using valid_up_to_le [of bs] by (simp add: from_utf8_def Let_def)

lemma undecoded_valid [simp]: "undecoded (take (valid_up_to bs) bs) = []"
  using valid_prefix_text [of bs] by (simp add: utf8_text_iff)

lemma utf8_head_Nil [simp]: "utf8_head [] = UhIncomplete"
  by (simp add: utf8_head_def)

lemma valid_up_to_Nil [simp]: "valid_up_to [] = 0"
  by (simp add: valid_up_to.simps)

lemma decode_pending_eq:
  "decode_pending require_complete d =
     (let p = ld_pending_bytes d in
      if undecoded p = [] \<or> utf8_head (undecoded p) = UhIncomplete \<and> \<not> require_complete
      then Inr (d\<lparr>ld_text_buffer := ld_text_buffer d @ take (valid_up_to p) p,
                  ld_pending_bytes := undecoded p\<rparr>)
      else Inl DecoderError)"
  by (auto simp: decode_pending_def Let_def from_utf8_eq)

lemma drain_loop_lines:
  assumes "utf8_text t" "start \<le> length t" "utf8_text (drop start t)"
    and "split_lines (drop start t) = (ls, r)"
  shows "\<exists>start' \<le> length t.
    drain_loop t start lines = Inr (start', lines @ List.map (trim_end_char carriage_return) ls) \<and>
    drop start' t = r"
  using assms(2-)
proof (induction ls arbitrary: start lines)
  case Nil
  then have "find_char newline (drop start t) = None"
    by (auto simp: split_lines_iff find_char_None)
  then show ?case
    using Nil boundary_drop [of start t]
    by (auto simp: drain_loop.simps [of t start] slice_from_def split_lines_iff)
next
  case (Cons l ls)
  let ?rest = "concat (List.map (\<lambda>l. l @ [newline]) ls) @ r"
  have d: "drop start t = l @ newline # ?rest" "newline \<notin> set l"
    using Cons.prems(3) by (auto simp: split_lines_iff)
  have found: "find_char newline (l @ newline # ?rest) = Some (length l)"
    using d(2) by (induction l) auto
  have len: "length t = start + length l + 1 + length ?rest"
    using arg_cong [OF d(1), of length] Cons.prems(1) by simp
  have rest: "drop (start + length l + 1) t = ?rest"
    using arg_cong [OF d(1), of "drop (length l + 1)"] by (simp add: add.commute)
  have "utf8_text l \<and> utf8_text ?rest"
    by (rule utf8_text_split_ascii [OF Cons.prems(2) d(1)]) (simp add: byte_def)
  have nl: "t ! (start + length l) = newline"
    using d(1) len by (metis Cons.prems(1) nth_append_length nth_drop)
  have b: "is_char_boundary t start" "is_char_boundary t (start + length l)"
    using boundary_drop [OF Cons.prems(1,2)] len nl
    by (simp_all add: is_char_boundary_def cont_byte_def byte_def)
  have "split_lines ?rest = (ls, r)" using Cons.prems(3) by (auto simp: split_lines_iff)
  then obtain start' where "start' \<le> length t" "drop start' t = r"
    "drain_loop t (start + length l + 1) (lines @ [trim_end_char carriage_return l]) =
      Inr (start', (lines @ [trim_end_char carriage_return l]) @ List.map (trim_end_char carriage_return) ls)"
    using Cons.IH [of "start + length l + 1" "lines @ [trim_end_char carriage_return l]", unfolded rest]
      \<open>utf8_text l \<and> utf8_text ?rest\<close> len
    by (elim meta_impE) auto
  then show ?case
    by (simp add: drain_loop.simps [of t start] slice_from_def slice_def b d found)
qed

lemma drain_lines_typed:
  assumes "decoder_typed d" "split_lines (unread d) = (ls, r)"
  shows "\<exists>d'. drain_lines capacity d = Inr (d', List.map (trim_end_char carriage_return) ls) \<and>
    decoder_typed d' \<and> unread d' = r \<and> ld_pending_bytes d' = ld_pending_bytes d"
proof -
  note typed = assms(1) [unfolded decoder_typed_def]
  obtain start where start: "start \<le> length (ld_text_buffer d)" "drop start (ld_text_buffer d) = r"
    "drain_loop (ld_text_buffer d) (ld_line_start d) [] = Inr (start, List.map (trim_end_char carriage_return) ls)"
    using drain_loop_lines [OF _ _ _ assms(2), of "[]"] typed by auto
  have "utf8_text r" using utf8_text_split_lines [OF _ assms(2)] typed by blast
  then have "is_char_boundary (ld_text_buffer d) start" using boundary_drop start by blast
  then have "\<exists>d'. compact_if_needed capacity (d\<lparr>ld_line_start := start\<rparr>) = Inr d' \<and>
    decoder_typed d' \<and> unread d' = r \<and> ld_pending_bytes d' = ld_pending_bytes d"
    using start(1,2) typed \<open>utf8_text r\<close>
    by (auto simp: compact_if_needed_def Let_def slice_from_def decoder_typed_def)
  then show ?thesis using start(3) by (auto simp: drain_lines_def)
qed

lemma decode_pending_typed:
  assumes "decoder_typed d"
  shows "decode_pending require_complete d = Inl DecoderError \<or>
    (\<exists>d'. decode_pending require_complete d = Inr d' \<and> decoder_typed d' \<and>
       unread d' = unread d @ take (valid_up_to (ld_pending_bytes d)) (ld_pending_bytes d) \<and>
       ld_pending_bytes d' = undecoded (ld_pending_bytes d))"
  using assms valid_prefix_text [of "ld_pending_bytes d"]
  by (auto simp: decode_pending_eq Let_def decoder_typed_def intro!: utf8_text_append)

text \<open>
  C38: The decoder is type safe. From any state whose text is well-formed UTF-8 and whose line start
  is on a character boundary of it, no chunk and no end of stream makes a slice of the text panic;
  a chunk that is accepted leaves such a state, and the lines and the remaining text handed out are
  well-formed UTF-8, whatever bytes arrive and whatever the capacity of the buffer is.\<close>

theorem decoder_type_safe:
  assumes "decoder_typed d"
  shows "decoder_push capacity d chunk \<noteq> Inl SlicePanic \<and>
    (\<forall>d' lines. decoder_push capacity d chunk = Inr (d', lines) \<longrightarrow>
       decoder_typed d' \<and> list_all utf8_text lines) \<and>
    decoder_finish d \<noteq> Inl SlicePanic \<and>
    (\<forall>d' remaining. decoder_finish d = Inr (d', Some remaining) \<longrightarrow> utf8_text remaining)"
proof -
  let ?d = "d\<lparr>ld_pending_bytes := ld_pending_bytes d @ chunk\<rparr>"
  have "decoder_typed ?d" using assms by simp
  from decode_pending_typed [OF this, of False]
  have push: "decoder_push capacity d chunk = Inl DecoderError \<or>
    (\<exists>d' lines. decoder_push capacity d chunk = Inr (d', lines) \<and> decoder_typed d' \<and> list_all utf8_text lines)"
  proof (elim disjE exE conjE)
    fix d1
    assume d1: "decode_pending False ?d = Inr d1" "decoder_typed d1"
    obtain ls r where sp: "split_lines (unread d1) = (ls, r)" by fastforce
    then have "\<forall>l \<in> set ls. utf8_text l" using utf8_text_split_lines [OF _ sp] d1(2) by (simp add: decoder_typed_def)
    then have "list_all utf8_text (List.map (trim_end_char carriage_return) ls)"
      by (auto simp: list_all_iff byte_def intro!: utf8_text_trim_end_char)
    then show ?thesis using drain_lines_typed [OF d1(2) sp, of capacity] d1(1) by (auto simp: decoder_push_def)
  qed (simp add: decoder_push_def)
  have finish: "decoder_finish d = Inl DecoderError \<or> (\<exists>d'. decoder_finish d = Inr (d', None)) \<or>
    (\<exists>d' remaining. decoder_finish d = Inr (d', Some remaining) \<and> utf8_text remaining)"
    using decode_pending_typed [OF assms, of True]
  proof (elim disjE exE conjE)
    fix d1
    assume d1: "decode_pending True d = Inr d1" "decoder_typed d1"
    then have "is_char_boundary (ld_text_buffer d1) (ld_line_start d1)"
      using boundary_drop by (simp add: decoder_typed_def)
    then show ?thesis using d1 by (simp add: decoder_finish_def decoder_typed_def slice_from_def)
  qed (simp add: decoder_finish_def)
  show ?thesis using push finish by auto
qed

theorem decoder_type_safe_witness:
  "decoder_push 64 decoder_default (''ab'' @ [newline] @ utf8_encode 0x4F60) \<noteq> Inl SlicePanic"
  using decoder_type_safe [of decoder_default 64] by (simp add: decoder_typed_def decoder_default_def)

subsection \<open>Streams\<close>

text \<open>The state after the bytes of \<open>bs\<close>.\<close>

definition decoder_at :: "line_decoder \<Rightarrow> string \<Rightarrow> bool" where
  "decoder_at d bs \<longleftrightarrow>
     decoder_typed d \<and> ld_pending_bytes d = undecoded bs \<and> utf8_head (undecoded bs) = UhIncomplete \<and>
     unread d = snd (split_lines (take (valid_up_to bs) bs))"

lemma decoder_at_start: "decoder_at decoder_default []"
  by (simp add: decoder_at_def decoder_typed_def decoder_default_def)

lemma take_valid_append:
  "take (valid_up_to (bs @ y)) (bs @ y) =
     take (valid_up_to bs) bs @ take (valid_up_to (undecoded bs @ y)) (undecoded bs @ y)"
  using valid_up_to_le [of bs] by (simp add: valid_up_to_rest [of bs y] take_add add.commute)

lemma decoder_push_at:
  assumes "decoder_at d bs"
  shows "(if utf8_head (undecoded (bs @ chunk)) = UhInvalid then decoder_push capacity d chunk = Inl DecoderError
    else \<exists>d' ls. decoder_push capacity d chunk = Inr (d', List.map (trim_end_char carriage_return) ls) \<and>
      decoder_at d' (bs @ chunk) \<and>
      fst (split_lines (take (valid_up_to (bs @ chunk)) (bs @ chunk))) =
        fst (split_lines (take (valid_up_to bs) bs)) @ ls)"
proof -
  let ?d = "d\<lparr>ld_pending_bytes := ld_pending_bytes d @ chunk\<rparr>" and ?p = "undecoded bs @ chunk"
  have typed: "decoder_typed ?d" and pend: "ld_pending_bytes ?d = ?p"
    using assms by (simp_all add: decoder_at_def)
  have und: "undecoded (bs @ chunk) = undecoded ?p" by (rule undecoded_append)
  have head: "utf8_head (undecoded ?p) = UhInvalid \<or> utf8_head (undecoded ?p) = UhIncomplete"
    using valid_up_to_stop [of ?p] by (cases "utf8_head (undecoded ?p)") auto
  show ?thesis
  proof (cases "utf8_head (undecoded ?p) = UhInvalid")
    case True
    then have "undecoded ?p \<noteq> []" by auto
    with True have "decode_pending False ?d = Inl DecoderError"
      by (simp add: decode_pending_eq pend Let_def del: drop_append drop_eq_Nil)
    then show ?thesis using True by (simp add: decoder_push_def und del: drop_append)
  next
    case False
    then have inc: "utf8_head (undecoded ?p) = UhIncomplete" using head by blast
    then have "decode_pending False ?d \<noteq> Inl DecoderError"
      by (simp add: decode_pending_eq pend Let_def del: drop_append drop_eq_Nil)
    with decode_pending_typed [OF typed, of False] obtain d1 where d1: "decode_pending False ?d = Inr d1"
      "decoder_typed d1" "unread d1 = unread d @ take (valid_up_to ?p) ?p" "ld_pending_bytes d1 = undecoded ?p"
      unfolding pend by auto
    obtain ls r where sp: "split_lines (unread d1) = (ls, r)" by fastforce
    from drain_lines_typed [OF d1(2) sp, of capacity] obtain d' where d': "decoder_typed d'" "unread d' = r"
      "ld_pending_bytes d' = undecoded ?p"
      "decoder_push capacity d chunk = Inr (d', List.map (trim_end_char carriage_return) ls)"
      by (auto simp: decoder_push_def d1(1,4))
    have "unread d = snd (split_lines (take (valid_up_to bs) bs))" using assms by (simp add: decoder_at_def)
    then have sl: "split_lines (take (valid_up_to (bs @ chunk)) (bs @ chunk)) =
      (fst (split_lines (take (valid_up_to bs) bs)) @ ls, r)"
      using sp d1(3) by (simp only: take_valid_append [of bs chunk] split_lines_append [of "take (valid_up_to bs) bs"]) simp
    have at': "decoder_at d' (bs @ chunk)"
      unfolding decoder_at_def und sl using d'(1-3) inc by (simp del: drop_append)
    have ok: "utf8_head (undecoded (bs @ chunk)) \<noteq> UhInvalid"
      unfolding und using inc by (simp del: drop_append)
    show ?thesis
      unfolding if_not_P [OF ok] by (intro exI conjI, rule d'(4), rule at', simp only: sl fst_conv)
  qed
qed

lemma decoder_pushes_at:
  assumes "decoder_at d bs"
  shows "(let all = bs @ concat (List.map snd chunks) in
    if utf8_head (undecoded all) = UhInvalid then decoder_pushes chunks d = Inl DecoderError
    else \<exists>d' ls. decoder_pushes chunks d = Inr (d', List.map (trim_end_char carriage_return) ls) \<and>
      decoder_at d' all \<and>
      fst (split_lines (take (valid_up_to all) all)) = fst (split_lines (take (valid_up_to bs) bs)) @ ls)"
  using assms
proof (induction chunks arbitrary: d bs)
  case Nil
  then show ?case by (simp add: decoder_at_def)
next
  case (Cons c chunks)
  obtain capacity chunk where c: "c = (capacity, chunk)" by fastforce
  let ?all = "(bs @ chunk) @ concat (List.map snd chunks)"
  show ?case
  proof (cases "utf8_head (undecoded (bs @ chunk)) = UhInvalid")
    case True
    then have "decoder_push capacity d chunk = Inl DecoderError"
      using decoder_push_at [OF Cons.prems, of chunk capacity] by simp
    moreover have "utf8_head (undecoded ?all) = UhInvalid" by (rule undecoded_invalid [OF True])
    ultimately show ?thesis by (simp add: c del: drop_append)
  next
    case False
    then obtain d1 ls where d1: "decoder_push capacity d chunk = Inr (d1, List.map (trim_end_char carriage_return) ls)"
      "decoder_at d1 (bs @ chunk)"
      "fst (split_lines (take (valid_up_to (bs @ chunk)) (bs @ chunk))) = fst (split_lines (take (valid_up_to bs) bs)) @ ls"
      using decoder_push_at [OF Cons.prems, of chunk capacity] by auto
    show ?thesis
    proof (cases "utf8_head (undecoded ?all) = UhInvalid")
      case True
      then show ?thesis using Cons.IH [OF d1(2)] d1(1) by (simp add: c Let_def del: drop_append)
    next
      case False
      then obtain d' ls' where "decoder_pushes chunks d1 = Inr (d', List.map (trim_end_char carriage_return) ls')"
        "decoder_at d' ?all"
        "fst (split_lines (take (valid_up_to ?all) ?all)) =
          fst (split_lines (take (valid_up_to (bs @ chunk)) (bs @ chunk))) @ ls'"
        using Cons.IH [OF d1(2)] unfolding Let_def by (metis (no_types, lifting))
      then show ?thesis
        using False d1 by (auto simp: c Let_def simp del: drop_append take_append intro!: exI [of _ "ls @ ls'"])
    qed
  qed
qed

lemma decoder_finish_at:
  assumes "decoder_at d bs"
  shows "decoder_finish d =
    (if utf8_text bs then Inr (d\<lparr>ld_text_buffer := [], ld_line_start := 0\<rparr>, if unread d = [] then None else Some (unread d))
     else Inl DecoderError)"
proof -
  have p: "ld_pending_bytes d = undecoded bs" "valid_up_to (undecoded bs) = 0"
    using assms valid_up_to_zero by (auto simp: decoder_at_def)
  have t: "utf8_text bs \<longleftrightarrow> undecoded bs = []" using valid_up_to_le [of bs] by (auto simp: utf8_text_iff)
  have b: "is_char_boundary (ld_text_buffer d) (ld_line_start d)" "ld_line_start d \<le> length (ld_text_buffer d)"
    using assms boundary_drop by (auto simp: decoder_at_def decoder_typed_def)
  show ?thesis
  proof (cases "undecoded bs = []")
    case True
    then have "decode_pending True d = Inr (d\<lparr>ld_pending_bytes := []\<rparr>)" "ld_pending_bytes d = []"
      using p by (simp_all add: decode_pending_def)
    then have "decode_pending True d = Inr d" by simp
    then show ?thesis using True t b by (auto simp: decoder_finish_def slice_from_def)
  next
    case False
    then have "decode_pending True d = Inl DecoderError"
      using p by (simp add: decode_pending_eq)
    then show ?thesis using False t by (simp add: decoder_finish_def)
  qed
qed

lemma decode_stream_whole:
  "decode_stream chunks =
     (let bytes = concat (List.map snd chunks); (lines, rest) = split_lines bytes in
      if utf8_text bytes
      then Inr (List.map (trim_end_char carriage_return) lines, if rest = [] then None else Some rest)
      else Inl DecoderError)"
proof -
  let ?all = "concat (List.map snd chunks)"
  note run = decoder_pushes_at [OF decoder_at_start, of chunks, simplified Let_def append_Nil]
  show ?thesis
  proof (cases "utf8_head (undecoded ?all) = UhInvalid")
    case True
    then have "\<not> utf8_text ?all" by (auto simp: utf8_text_iff)
    then show ?thesis using True run by (simp add: decode_stream_def Let_def case_prod_unfold)
  next
    case False
    then obtain d ls where d: "decoder_pushes chunks decoder_default = Inr (d, List.map (trim_end_char carriage_return) ls)"
      "decoder_at d ?all" "fst (split_lines (take (valid_up_to ?all) ?all)) = ls"
      using run by auto
    show ?thesis
    proof (cases "utf8_text ?all")
      case True
      then have "take (valid_up_to ?all) ?all = ?all" by (simp add: utf8_text_iff)
      then have "unread d = snd (split_lines ?all)" "ls = fst (split_lines ?all)" using d by (simp_all add: decoder_at_def)
      then show ?thesis using d(1) decoder_finish_at [OF d(2)] True
        by (simp add: decode_stream_def Let_def case_prod_unfold)
    next
      case False
      then show ?thesis using d(1) decoder_finish_at [OF d(2)]
        by (simp add: decode_stream_def Let_def case_prod_unfold)
    qed
  qed
qed

text \<open>
  C13: Decoding does not depend on how a stream is cut into chunks, nor on the buffer's capacity. The
  lines are those of the whole stream, each without its line break and the carriage returns before
  it, and the text after the last line break is what remains at the end; the stream is refused
  exactly when its bytes as a whole are not the UTF-8 encoding of a sequence of code points.\<close>

theorem decode_stream_chunks:
  "decode_stream chunks =
     (let bytes = concat (List.map snd chunks); (lines, rest) = split_lines bytes in
      if utf8_text bytes
      then Inr (List.map (trim_end_char carriage_return) lines, if rest = [] then None else Some rest)
      else Inl DecoderError)"
  by (rule decode_stream_whole)

end
