(* ===== verification/JsonCodec.thy ===== *)
theory JsonCodec
  imports Json
begin

text \<open>
  A concrete JSON library: a printer of values and a parser that reads them back, by which the
  hypotheses on the library are shown to hold. Its text is not JSON; every value starts with a letter
  for its variant, strings are written byte by byte with an ASCII letter in front, numbers in strokes.
\<close>

subsection \<open>Strings and numbers\<close>

fun demo_quote :: "string \<Rightarrow> string" where
  "demo_quote [] = ''z''"
| "demo_quote (c # s) =
     (if byte c < 0x80 then CHR ''a'' # c # demo_quote s else CHR ''b'' # char_of (byte c - 0x80) # demo_quote s)"

fun demo_unquote :: "string \<Rightarrow> string \<times> string" where
  "demo_unquote (k # c # s) =
     (if k = CHR ''z'' then ([], c # s)
      else let (t, r) = demo_unquote s in ((if k = CHR ''a'' then c else char_of (byte c + 0x80)) # t, r))"
| "demo_unquote s = ([], [])"

lemma demo_unquote_quote: "demo_unquote (demo_quote s @ r) = (s, r)"
proof (induction s)
  case Nil
  show ?case by (cases r) auto
next
  case (Cons c s)
  have "byte c < 256" by (simp add: byte_def)
  then have "\<not> byte c < 0x80 \<Longrightarrow> char_of (byte (char_of (byte c - 0x80)) + 0x80) = c"
    by (simp add: byte_char_of) (simp add: byte_def)
  then show ?case using Cons by simp
qed

lemma demo_quote_ascii: "list_all (\<lambda>c. byte c < 0x80) (demo_quote s)"
proof (induction s)
  case (Cons c s)
  have "byte c < 256" by (simp add: byte_def)
  then have "byte (char_of (byte c - 0x80)) < 0x80" by (simp add: byte_char_of)
  then show ?case using Cons by simp (simp add: byte_def)
qed (simp add: byte_def)

definition demo_nat :: "nat \<Rightarrow> string" where
  "demo_nat n = replicate n CHR ''1'' @ ''.''"

definition demo_read_nat :: "string \<Rightarrow> nat \<times> string" where
  "demo_read_nat s = (length (takeWhile (\<lambda>c. c = CHR ''1'') s), drop 1 (dropWhile (\<lambda>c. c = CHR ''1'') s))"

lemma demo_read_nat [simp]: "demo_read_nat (demo_nat n @ r) = (n, r)"
proof -
  have "takeWhile (\<lambda>c. c = CHR ''1'') (replicate n CHR ''1'' @ CHR ''.'' # r) = replicate n CHR ''1''"
    "dropWhile (\<lambda>c. c = CHR ''1'') (replicate n CHR ''1'' @ CHR ''.'' # r) = CHR ''.'' # r"
    by (induction n) auto
  then show ?thesis by (simp add: demo_read_nat_def demo_nat_def)
qed

definition demo_sign :: "int \<Rightarrow> string" where
  "demo_sign i = (if i < 0 then CHR ''-'' else CHR ''+'') # demo_nat (nat \<bar>i\<bar>)"

definition demo_read_sign :: "string \<Rightarrow> int \<times> string" where
  "demo_read_sign s = (let (n, r) = demo_read_nat (drop 1 s) in ((if hd s = CHR ''-'' then - int n else int n), r))"

lemma demo_read_sign [simp]: "demo_read_sign (demo_sign i @ r) = (i, r)"
  by (simp add: demo_read_sign_def demo_sign_def)

subsection \<open>Values\<close>

fun demo_number :: "json_number \<Rightarrow> string" where
  "demo_number (NumU64 n) = CHR ''u'' # demo_nat n"
| "demo_number (NumI64 i) = CHR ''i'' # demo_sign i"
| "demo_number (NumF64 f) =
     CHR ''d'' # (case f of Fin r \<Rightarrow> demo_sign (fst (quotient_of r)) @ demo_sign (snd (quotient_of r)) | _ \<Rightarrow> [])"

fun demo_value :: "json \<Rightarrow> string"
  and demo_members :: "(string \<times> json) list \<Rightarrow> string"
  and demo_items :: "json list \<Rightarrow> string"
where
  "demo_value JNull = ''n''"
| "demo_value (JBool b) = (if b then ''t'' else ''f'')"
| "demo_value (JNum n) = demo_number n"
| "demo_value (JStr s) = CHR ''s'' # demo_quote s"
| "demo_value (JArr items) = CHR ''['' # demo_items items"
| "demo_value (JObj members) = CHR ''{'' # demo_members members"
| "demo_members [] = ''}''"
| "demo_members ((k, v) # members) = CHR '','' # demo_quote k @ demo_value v @ demo_members members"
| "demo_items [] = '']''"
| "demo_items (v # items) = CHR '','' # demo_value v @ demo_items items"

fun demo_read :: "nat \<Rightarrow> string \<Rightarrow> json \<times> string"
  and demo_read_members :: "nat \<Rightarrow> string \<Rightarrow> (string \<times> json) list \<times> string"
  and demo_read_items :: "nat \<Rightarrow> string \<Rightarrow> json list \<times> string"
where
  "demo_read 0 s = (JNull, s)"
| "demo_read (Suc n) [] = (JNull, [])"
| "demo_read (Suc n) (c # s) =
     (if c = CHR ''t'' then (JBool True, s)
      else if c = CHR ''f'' then (JBool False, s)
      else if c = CHR ''u'' then (let (k, r) = demo_read_nat s in (JNum (NumU64 k), r))
      else if c = CHR ''i'' then (let (i, r) = demo_read_sign s in (JNum (NumI64 i), r))
      else if c = CHR ''d'' then
        (let (a, r) = demo_read_sign s; (b, r) = demo_read_sign r in (JNum (NumF64 (Fin (Fract a b))), r))
      else if c = CHR ''s'' then (let (t, r) = demo_unquote s in (JStr t, r))
      else if c = CHR ''['' then (let (items, r) = demo_read_items n s in (JArr items, r))
      else if c = CHR ''{'' then (let (members, r) = demo_read_members n s in (JObj members, r))
      else (JNull, s))"
| "demo_read_members 0 s = ([], s)"
| "demo_read_members (Suc n) s =
     (if s = [] \<or> hd s = CHR ''}'' then ([], drop 1 s)
      else let (k, r) = demo_unquote (drop 1 s); (v, r) = demo_read n r; (ms, r) = demo_read_members n r
           in ((k, v) # ms, r))"
| "demo_read_items 0 s = ([], s)"
| "demo_read_items (Suc n) s =
     (if s = [] \<or> hd s = CHR '']'' then ([], drop 1 s)
      else let (v, r) = demo_read n (drop 1 s); (vs, r) = demo_read_items n r in (v # vs, r))"

lemma demo_read_value:
  "json_wf v \<Longrightarrow> length (demo_value v) \<le> n \<Longrightarrow> demo_read n (demo_value v @ r) = (v, r)"
  "members_wf ms \<Longrightarrow> length (demo_members ms) \<le> n \<Longrightarrow> demo_read_members n (demo_members ms @ r) = (ms, r)"
  "items_wf vs \<Longrightarrow> length (demo_items vs) \<le> n \<Longrightarrow> demo_read_items n (demo_items vs @ r) = (vs, r)"
proof (induction v and ms and vs arbitrary: n r and n r and n r
    rule: demo_value_demo_members_demo_items.induct)
  case (3 x)
  have "quotient_of q = (a, b) \<Longrightarrow> Fract a b = q" for q a b
    by (metis Fract_of_int_quotient quotient_of_div)
  then show ?case
    using 3 by (cases x; cases n) (auto split: f64.splits prod.splits)
next
  case (8 k v ms)
  then obtain m where "n = Suc m" by (cases n) auto
  with 8 show ?case by (simp add: demo_unquote_quote)
next
  case (10 v vs)
  then obtain m where "n = Suc m" by (cases n) auto
  with 10 show ?case by simp
next
  case (4 s)
  then obtain m where "n = Suc m" by (cases n) auto
  with 4 show ?case by (simp add: demo_unquote_quote)
next
  case (5 items)
  then obtain m where "n = Suc m" by (cases n) auto
  with 5 show ?case by simp
next
  case (6 members)
  then obtain m where "n = Suc m" by (cases n) auto
  with 6 show ?case by simp
qed (auto simp: neq_Nil_conv gr0_conv_Suc Suc_le_eq)

definition demo_parse_json :: "string \<Rightarrow> json option" where
  "demo_parse_json t = (let v = fst (demo_read (length t) t) in if json_wf v then Some v else None)"

definition demo_lib :: json_text where
  "demo_lib = \<lparr>jt_parse = demo_parse_json, jt_print = (\<lambda>v. Some (demo_value v))\<rparr>"

lemma demo_lib_reads_back: "json_reads_back demo_lib"
  using demo_read_value(1) [where r = "[]"]
  by (auto simp: json_reads_back_def demo_lib_def demo_parse_json_def Let_def split: if_splits)

end
