(* ===== verification/UpstreamReply.thy ===== *)
theory UpstreamReply
  imports UpstreamError StreamText RouteSelection JsonCodec
begin

text \<open>
  An upstream's answer before anything reaches the client, under \<open>src/worker/runtime/ai/\<close>:
  \<open>quota_feedback.rs\<close> and \<open>quota_feedback/retry_after.rs\<close> (what an attempt tells the feedback store),
  the phases and the transient errors of \<open>request_attempts.rs\<close>, the error branch of
  \<open>forward/mod.rs\<close> and the rendering of an error for the client with
  \<open>forward/invalid_continuation.rs\<close> and \<open>openai_compat/responses_state/responses_error.rs\<close>.

  The forwarding of a successful answer is an argument: its outcome, with the phase of a failure and
  whether the attempt was recorded as a success. The relay channel, the parser of HTTP dates and the
  JSON library are arguments too.
\<close>

subsection \<open>Retry-After\<close>

text \<open>
  The header's values are \<^const>\<open>None\<close> where \<open>to_str\<close> fails; \<open>rfc2822\<close> is chrono's parser.\<close>

definition max_retry_after :: nat where "max_retry_after = secs 3600"

definition retry_after_value :: "(string \<Rightarrow> datetime option) \<Rightarrow> string \<Rightarrow> datetime \<Rightarrow> nat option" where
  "retry_after_value rfc2822 value now =
     (if value = [] then None
      else if list_all is_ascii_digit value then
        Some (secs (min (min (digits_value value) u64_max) 3600))
      else if \<not> suffix '' GMT'' value then None
      else
        (case rfc2822 value of
           None \<Rightarrow> None
         | Some deadline \<Rightarrow>
             let remaining = deadline - now in
             if remaining \<le> 0 then Some 0 else Some (min (nat remaining) max_retry_after)))"

definition parse_retry_after ::
    "(string \<Rightarrow> datetime option) \<Rightarrow> string option list \<Rightarrow> datetime \<Rightarrow> nat option" where
  "parse_retry_after rfc2822 values now =
     (case values of
        [value] \<Rightarrow> Option.bind value (\<lambda>value. retry_after_value rfc2822 (trim value) now)
      | _ \<Rightarrow> None)"

subsection \<open>The feedback of one attempt\<close>

text \<open>
  The clones of an attempt share its flag \<open>settled\<close>, and every attempt of a route the route's permit.
  The feedback store is that of the quota cache.\<close>

record attempt_feedback =
  af_scope :: quota_feedback_scope
  af_attempt_start :: nat
  af_probe :: "probe_holder option"
  af_settled :: bool

definition begin_attempt :: "route_config \<Rightarrow> probe_holder option \<Rightarrow> clock \<Rightarrow> attempt_feedback" where
  "begin_attempt route probe clk =
     \<lparr>af_scope = feedback_scope_new (rg_route_id route) (rg_endpoint_key_id route),
      af_attempt_start = clk_instant clk, af_probe = probe, af_settled = False\<rparr>"

definition on_feedback_store :: "(feedback_state \<Rightarrow> feedback_state) \<Rightarrow> shared_cache \<Rightarrow> shared_cache" where
  "on_feedback_store f cache = map_option (\<lambda>c. c\<lparr>qc_feedback := f (qc_feedback c)\<rparr>) cache"

definition release_attempt_probe ::
    "attempt_feedback \<Rightarrow> clock \<Rightarrow> shared_cache \<Rightarrow> shared_cache \<times> attempt_feedback" where
  "release_attempt_probe fb clk cache =
     (case af_probe fb of
        None \<Rightarrow> (cache, fb)
      | Some permit \<Rightarrow>
          (on_feedback_store (\<lambda>s. fst (holder_release s permit (clk_instant clk))) cache,
           fb\<lparr>af_probe := Some (permit\<lparr>ph_released := True\<rparr>)\<rparr>))"

definition settle_attempt ::
    "(feedback_state \<Rightarrow> feedback_state) \<Rightarrow> attempt_feedback \<Rightarrow> clock \<Rightarrow> shared_cache \<Rightarrow>
     shared_cache \<times> attempt_feedback" where
  "settle_attempt f fb clk cache =
     (if af_settled fb then (cache, fb)
      else release_attempt_probe (fb\<lparr>af_settled := True\<rparr>) clk (on_feedback_store f cache))"

definition attempt_record_429 ::
    "nat option \<Rightarrow> attempt_feedback \<Rightarrow> clock \<Rightarrow> shared_cache \<Rightarrow> shared_cache \<times> attempt_feedback" where
  "attempt_record_429 retry_after fb clk =
     settle_attempt (\<lambda>s. record_429 s (af_scope fb) retry_after (clk_instant clk) (af_attempt_start fb)) fb clk"

definition feedback_cause :: "upstream_failure_cause \<Rightarrow> quota_feedback_cause" where
  "feedback_cause cause =
     (case cause of UfRateLimited \<Rightarrow> RateLimited | UfUnavailable \<Rightarrow> UpstreamUnavailable | UfExhausted \<Rightarrow> CauseExhausted)"

definition attempt_record_failure ::
    "nat option \<Rightarrow> upstream_failure_cause \<Rightarrow> attempt_feedback \<Rightarrow> clock \<Rightarrow> shared_cache \<Rightarrow>
     shared_cache \<times> attempt_feedback" where
  "attempt_record_failure retry_after cause fb clk =
     settle_attempt
       (\<lambda>s. record_failure s (af_scope fb) (feedback_cause cause) retry_after (clk_instant clk) (af_attempt_start fb))
       fb clk"

definition attempt_completed_success ::
    "attempt_feedback \<Rightarrow> clock \<Rightarrow> shared_cache \<Rightarrow> shared_cache \<times> attempt_feedback" where
  "attempt_completed_success fb clk =
     settle_attempt (\<lambda>s. record_success s (af_scope fb) (af_attempt_start fb) (clk_instant clk)) fb clk"

text \<open>The refresh asked for after a quota error.\<close>

datatype quota_refresh = NotifyQuotaError uuid | RefreshInBackground uuid

definition schedule_quota_refresh :: "bool \<Rightarrow> bool \<Rightarrow> route_config \<Rightarrow> quota_refresh option" where
  "schedule_quota_refresh admin chatgpt_service route =
     (if rg_provider route = POpenAi then
        (if admin \<and> chatgpt_service then Some (NotifyQuotaError (rg_route_id route)) else None)
      else if \<not> List.member [PMinimax, PCommandCode, POpencodeGo, POpenRouter, PGlm, PDeepSeek] (rg_provider route)
      then None
      else if admin then Some (RefreshInBackground (rg_route_id route)) else None)"

subsection \<open>Transport errors\<close>

datatype failure_phase =
    BeforeResponseHeaders | BufferedResponseBody | CommittedStream | LocalProcessing | RelayBridge

definition failure_phase_as_str :: "failure_phase \<Rightarrow> string" where
  "failure_phase_as_str p =
     (case p of
        BeforeResponseHeaders \<Rightarrow> ''before_response_headers''
      | BufferedResponseBody \<Rightarrow> ''buffered_response_body''
      | CommittedStream \<Rightarrow> ''committed_stream''
      | LocalProcessing \<Rightarrow> ''local_processing''
      | RelayBridge \<Rightarrow> ''relay_bridge'')"

text \<open>
  What the code asks of a \<open>reqwest::Error\<close>: its own kinds, and for the errors of its source chain
  whether they are an incomplete hyper message, an I/O error and of which kind, or an h2 error.\<close>

datatype io_error_kind = IoConnectionReset | IoConnectionAborted | IoBrokenPipe | IoUnexpectedEof | IoOther

datatype error_source =
    HyperError bool
  | IoError io_error_kind
  | H2Error bool bool bool
  | OtherSource

record transport_error =
  te_connect :: bool
  te_timeout :: bool
  te_body :: bool
  te_decode :: bool
  te_sources :: "error_source list"

definition source_is_transient :: "error_source \<Rightarrow> bool" where
  "source_is_transient source =
     (case source of
        HyperError incomplete \<Rightarrow> incomplete
      | IoError kind \<Rightarrow>
          List.member [IoConnectionReset, IoConnectionAborted, IoBrokenPipe, IoUnexpectedEof] kind
      | H2Error io go_away reset \<Rightarrow> io \<or> go_away \<or> reset
      | OtherSource \<Rightarrow> False)"

definition is_transient_before_headers :: "transport_error \<Rightarrow> bool" where
  "is_transient_before_headers err \<longleftrightarrow>
     te_connect err \<or> te_timeout err \<or> list_ex source_is_transient (te_sources err)"

definition is_transient_buffered_body :: "transport_error \<Rightarrow> bool" where
  "is_transient_buffered_body err \<longleftrightarrow> te_body err \<or> te_decode err \<or> te_connect err \<or> te_timeout err"

definition is_transient :: "failure_phase \<Rightarrow> transport_error \<Rightarrow> bool" where
  "is_transient phase err =
     (case phase of
        BeforeResponseHeaders \<Rightarrow> is_transient_before_headers err
      | BufferedResponseBody \<Rightarrow> is_transient_buffered_body err
      | _ \<Rightarrow> False)"

record attempt_failure =
  fl_phase :: failure_phase
  fl_retryable :: bool

subsection \<open>Error bodies\<close>

text \<open>\<open>String::from_utf8_lossy\<close>: every ill-formed part becomes U+FFFD.\<close>

function from_utf8_lossy :: "string \<Rightarrow> string" where
  "from_utf8_lossy bs =
     (if bs = [] then []
      else
        (case utf8_head bs of
           UhChar n \<Rightarrow> take n bs @ from_utf8_lossy (drop n bs)
         | _ \<Rightarrow> utf8 [0xEF, 0xBF, 0xBD] @ from_utf8_lossy (drop (utf8_step bs) bs)))"
  by auto
termination
  by (relation "measure length") (use utf8_head_bounds utf8_step_bounds in \<open>fastforce+\<close>)

declare from_utf8_lossy.simps [simp del]

definition thinking_echo_fingerprint :: string where
  "thinking_echo_fingerprint = ''must be passed back''"

definition is_thinking_echo_rejection :: "nat \<Rightarrow> string \<Rightarrow> bool" where
  "is_thinking_echo_rejection status body \<longleftrightarrow> status = 400 \<and> str_contains body thinking_echo_fingerprint"

definition client_status_for_upstream_error :: "error_env \<Rightarrow> nat \<Rightarrow> string \<Rightarrow> nat" where
  "client_status_for_upstream_error env status body =
     (if \<not> (200 \<le> status \<and> status < 300) \<and> classify_upstream_failure env status body = Some UfExhausted
      then 429 else status)"

definition error_envelope :: "json \<Rightarrow> json \<Rightarrow> json \<Rightarrow> json \<Rightarrow> json" where
  "error_envelope code message param error_type =
     JObj [(''error'', JObj [(''code'', code), (''message'', message), (''param'', param), (''type'', error_type)])]"

definition normalize_response_error :: "json_text \<Rightarrow> string \<Rightarrow> json" where
  "normalize_response_error jt body_text =
     (let plain = error_envelope JNull (JStr (trim body_text)) JNull (JStr ''invalid_request_error'') in
      case jt_parse jt body_text of
        None \<Rightarrow> plain
      | Some value \<Rightarrow>
          if json_get value ''error'' \<noteq> None then value
          else
            let code = opt_or_default JNull (json_get value ''code'');
                error_type = opt_or_default (JStr ''invalid_request_error'') (json_get value ''type'');
                param = opt_or_default JNull (json_get value ''param'')
            in
              case Option.bind (json_get value ''detail'') json_as_str of
                Some detail \<Rightarrow> error_envelope code (JStr detail) param error_type
              | None \<Rightarrow>
                  (case Option.bind (json_get value ''message'') json_as_str of
                     Some message \<Rightarrow> error_envelope code (JStr message) param error_type
                   | None \<Rightarrow> plain))"

definition anthropic_error_type :: "nat \<Rightarrow> string" where
  "anthropic_error_type status =
     (if status = 401 \<or> status = 403 then ''authentication_error''
      else if status = 429 then ''rate_limit_error''
      else if 500 \<le> status \<and> status < 600 then ''api_error''
      else ''invalid_request_error'')"

definition anthropic_error_body :: "json_text \<Rightarrow> string \<Rightarrow> nat \<Rightarrow> json" where
  "anthropic_error_body jt body_text status =
     (let fresh = JObj [(''error'', JObj [(''message'',
                          JStr (if trim body_text = [] then ''upstream returned an error'' else trim body_text)),
                          (''type'', JStr (anthropic_error_type status))]),
                        (''type'', JStr ''error'')]
      in case jt_parse jt body_text of
           None \<Rightarrow> fresh
         | Some value \<Rightarrow>
             if Option.bind (json_get value ''type'') json_as_str = Some ''error'' \<and>
                Option.bind (json_get value ''error'') json_as_object \<noteq> None
             then value else fresh)"

definition apply_hint :: "mapped_invalid \<Rightarrow> json \<Rightarrow> json" where
  "apply_hint mapped envelope =
     (case Option.bind (json_get envelope ''error'') json_as_object of
        None \<Rightarrow> envelope
      | Some members \<Rightarrow>
          let message = trim (opt_or_default [] (Option.bind (map_of members ''message'') json_as_str));
              message = (if message = [] then ''retry: '' @ mi_hint mapped
                         else message @ '' | retry: '' @ mi_hint mapped)
          in json_set ''error''
               (JObj (members_insert ''code'' (JStr (mi_code mapped))
                       (members_insert ''message'' (JStr message) members))) envelope)"

text \<open>The status and the body \<open>respond_upstream_error\<close> sends.\<close>

definition upstream_error_response ::
    "json_text \<Rightarrow> error_env \<Rightarrow> string \<Rightarrow> nat \<Rightarrow> string \<Rightarrow> nat \<times> string" where
  "upstream_error_response jt env path status body =
     (let body_text = from_utf8_lossy body;
          client_status = client_status_for_upstream_error env status body_text;
          normalized = (if path = ''/v1/messages'' then anthropic_error_body jt body_text client_status
                        else normalize_response_error jt body_text);
          normalized = (case map_upstream_invalid_request body_text of
                          Some mapped \<Rightarrow> apply_hint mapped normalized
                        | None \<Rightarrow> normalized)
      in (client_status, opt_or_default body (jt_print jt normalized)))"

subsection \<open>What the client is told\<close>

lemma key_less_code:
  "key_less ''code'' ''message''" "key_less ''message'' ''param''" "key_less ''param'' ''type''"
  "key_less ''code'' ''param''" "key_less ''code'' ''type''" "key_less ''message'' ''type''"
  "key_less ''error'' ''type''"
  by (simp_all add: key_less_def byte_def)

lemma error_envelope_wf:
  "json_wf code \<Longrightarrow> json_wf message \<Longrightarrow> json_wf param \<Longrightarrow> json_wf error_type \<Longrightarrow>
     json_wf (error_envelope code message param error_type)"
  by (simp add: error_envelope_def key_less_code)

lemma json_get_wf: "json_wf v \<Longrightarrow> json_get v k = Some u \<Longrightarrow> json_wf u"
  by (cases v) (auto dest: json_wf_member simp del: json_wf.simps(6))

lemma normalize_response_error_ok:
  assumes "json_reads_back jt"
  shows "json_wf (normalize_response_error jt body) \<and> json_get (normalize_response_error jt body) ''error'' \<noteq> None"
proof -
  have env: "json_get (error_envelope c m p t) ''error'' \<noteq> None" for c m p t by (simp add: error_envelope_def)
  have wf: "json_wf v" if "jt_parse jt body = Some v" for v using assms that unfolding json_reads_back_def by blast
  have "json_wf (opt_or_default d (json_get v k))" if "json_wf v" "json_wf d" for d k v
    using that by (cases "json_get v k") (auto dest: json_get_wf)
  then show ?thesis
    using wf env by (auto simp: normalize_response_error_def Let_def intro!: error_envelope_wf split: option.splits)
qed

lemma anthropic_error_body_ok:
  assumes "json_reads_back jt"
  shows "json_wf (anthropic_error_body jt body status) \<and> json_get (anthropic_error_body jt body status) ''error'' \<noteq> None"
proof -
  have wf: "json_wf v" if "jt_parse jt body = Some v" for v using assms that unfolding json_reads_back_def by blast
  then show ?thesis
    by (auto simp: anthropic_error_body_def Let_def key_less_code bind_eq_Some_conv split: option.splits)
qed

lemma apply_hint_ok:
  assumes "json_wf v" "json_get v ''error'' = Some e"
  shows "json_wf (apply_hint mapped v) \<and>
    json_get (apply_hint mapped v) ''error'' \<noteq> None \<and>
    (\<forall>members. e = JObj members \<longrightarrow>
       Option.bind (json_get (apply_hint mapped v) ''error'') (\<lambda>e. json_get e ''code'') = Some (JStr (mi_code mapped)))"
proof (cases e)
  case (JObj members)
  obtain top where v: "v = JObj top" using assms(2) by (cases v) auto
  have "json_wf (JObj members)" using json_get_wf [OF assms] JObj by blast
  then have "json_wf (JObj (members_insert ''code'' c (members_insert ''message'' m members)))"
    if "json_wf c" "json_wf m" for c m
    using that by (intro json_set_wf)
  then show ?thesis using assms JObj json_set_wf [of top]
    by (simp add: apply_hint_def v json_as_object_def json_set_def Let_def del: json_wf.simps(6))
qed (use assms in \<open>auto simp: apply_hint_def json_as_object_def\<close>)

text \<open>A body whose error is no object went through as it came.\<close>

lemma error_envelope_object:
  "json_get (error_envelope c m p t) ''error'' = Some e \<Longrightarrow> json_as_object e \<noteq> None"
  by (auto simp: error_envelope_def json_as_object_def)

lemma normalize_response_error_passes:
  assumes "json_get (normalize_response_error jt body) ''error'' = Some e" "json_as_object e = None"
  shows "jt_parse jt body = Some (normalize_response_error jt body)"
proof (rule ccontr)
  assume c: "\<not> ?thesis"
  have "\<exists>c m p t. normalize_response_error jt body = error_envelope c m p t"
  proof (cases "jt_parse jt body")
    case None
    then show ?thesis by (auto simp: normalize_response_error_def)
  next
    case (Some v)
    then have "json_get v ''error'' = None" using c by (cases "json_get v ''error''") (simp_all add: normalize_response_error_def)
    then show ?thesis using Some by (auto simp: normalize_response_error_def Let_def split: option.split)
  qed
  then show False using assms error_envelope_object by metis
qed

lemma anthropic_error_body_object:
  assumes "json_get (anthropic_error_body jt body status) ''error'' = Some e"
  shows "json_as_object e \<noteq> None"
proof (cases "jt_parse jt body")
  case (Some v)
  then show ?thesis
    using assms by (cases "Option.bind (json_get v ''type'') json_as_str = Some ''error'' \<and>
        Option.bind (json_get v ''error'') json_as_object \<noteq> None") (auto simp: anthropic_error_body_def json_as_object_def)
qed (use assms in \<open>auto simp: anthropic_error_body_def json_as_object_def\<close>)

text \<open>
  C39: What an upstream error tells the client. Whatever the upstream sent, JSON or not, the client
  gets a JSON object with an \<open>error\<close> member. Its status is 429 when the account is spent and the
  upstream's own otherwise. An upstream that lost the referenced call or reasoning item is reported
  with the retryable code when its error is an object or the body has none; a body whose error is
  something else, such as a string, is passed on as it came, without the code.\<close>

theorem upstream_error_reported:
  assumes "json_reads_back jt"
  shows "case upstream_error_response jt env path status body of
    (client_status, client_body) \<Rightarrow>
      (let body_text = from_utf8_lossy body;
           spent = (classify_upstream_failure env status body_text = Some UfExhausted) in
       client_status = (if \<not> (200 \<le> status \<and> status < 300) \<and> spent then 429 else status) \<and>
       (\<exists>v e. jt_parse jt client_body = Some v \<and> json_get v ''error'' = Some e \<and>
          (if json_as_object e = None then jt_parse jt body_text = Some v
           else if map_upstream_invalid_request body_text = None then True
           else json_get e ''code'' = Some (JStr ''retryable_invalid_continuation''))))"
proof -
  define text' where "text' = from_utf8_lossy body"
  define plain where "plain = (if path = ''/v1/messages''
    then anthropic_error_body jt text' (client_status_for_upstream_error env status text')
    else normalize_response_error jt text')"
  define v where "v = (case map_upstream_invalid_request text' of Some mapped \<Rightarrow> apply_hint mapped plain | None \<Rightarrow> plain)"
  have plain: "json_wf plain" "json_get plain ''error'' \<noteq> None"
    using normalize_response_error_ok [OF assms] anthropic_error_body_ok [OF assms] by (simp_all add: plain_def)
  obtain e0 where e0: "json_get plain ''error'' = Some e0" using plain(2) by blast
  have passed: "jt_parse jt text' = Some plain" if "json_as_object e0 = None"
  proof (cases "path = ''/v1/messages''")
    case True
    then show ?thesis using that e0 anthropic_error_body_object unfolding plain_def if_P [OF True] by metis
  next
    case False
    then show ?thesis
      using that e0 normalize_response_error_passes unfolding plain_def if_not_P [OF False] by metis
  qed
  have code: "mi_code mapped = ''retryable_invalid_continuation''" if "map_upstream_invalid_request text' = Some mapped" for mapped
    using that by (auto simp: map_upstream_invalid_request_def Let_def split: if_splits)
  have v: "json_wf v \<and> (\<exists>e. json_get v ''error'' = Some e \<and>
      (if json_as_object e = None then jt_parse jt text' = Some v
       else if map_upstream_invalid_request text' = None then True
       else json_get e ''code'' = Some (JStr ''retryable_invalid_continuation'')))"
  proof (cases "map_upstream_invalid_request text'")
    case None
    then show ?thesis using e0 plain(1) passed by (simp add: v_def)
  next
    case (Some mapped)
    note h = apply_hint_ok [OF plain(1) e0, of mapped]
    show ?thesis
    proof (cases "json_as_object e0")
      case None
      then have "v = plain" using Some e0 by (simp add: v_def apply_hint_def)
      then show ?thesis using None e0 plain(1) passed by simp
    next
      case obj: (Some members)
      then have "e0 = JObj members" by (cases e0) (auto simp: json_as_object_def)
      moreover obtain e where e: "json_get v ''error'' = Some e" using h Some by (auto simp: v_def)
      ultimately have "json_get e ''code'' = Some (JStr ''retryable_invalid_continuation'')"
        using h Some code [OF Some] by (simp add: v_def)
      moreover from this have "json_as_object e \<noteq> None" by (cases e) (auto simp: json_as_object_def)
      ultimately show ?thesis using h e Some by (auto simp: v_def)
    qed
  qed
  from v obtain e where e: "json_get v ''error'' = Some e" and
      told: "if json_as_object e = None then jt_parse jt text' = Some v
       else if map_upstream_invalid_request text' = None then True
       else json_get e ''code'' = Some (JStr ''retryable_invalid_continuation'')" by blast
  obtain t where "jt_print jt v = Some t" "jt_parse jt t = Some v"
    using assms v unfolding json_reads_back_def by blast
  moreover have "upstream_error_response jt env path status body =
      (client_status_for_upstream_error env status text', opt_or_default body (jt_print jt v))"
    by (simp only: upstream_error_response_def Let_def text'_def v_def plain_def)
  ultimately show ?thesis
    using e told
    by (simp only: client_status_for_upstream_error_def text'_def Let_def case_prod_conv opt_or_default_simps) blast
qed

text \<open>
  A Retry-After is never longer than an hour. A number of seconds is taken as it stands up to
  that bound, a date as the time left until it; two headers, an empty or an unreadable one count as
  none.\<close>

theorem retry_after_bounded:
  "(\<forall>d. parse_retry_after rfc2822 values now = Some d \<longrightarrow> d \<le> secs 3600) \<and>
   (trim value \<noteq> [] \<longrightarrow> list_all is_ascii_digit (trim value) \<longrightarrow>
      parse_retry_after rfc2822 [Some value] now = Some (secs (min (digits_value (trim value)) 3600))) \<and>
   (length values \<noteq> 1 \<longrightarrow> parse_retry_after rfc2822 values now = None)"
  by (auto simp: parse_retry_after_def retry_after_value_def max_retry_after_def secs_def u64_max_def Let_def
      bind_eq_Some_conv split: list.splits if_splits option.splits)

theorem upstream_error_reported_witness:
  "json_reads_back demo_lib \<and>
   (\<forall>env. \<exists>v e. jt_parse demo_lib (snd (upstream_error_response demo_lib env ''/v1/responses'' 500 ''down'')) = Some v \<and>
      json_get v ''error'' = Some e)"
proof (intro conjI allI)
  fix env
  let ?r = "upstream_error_response demo_lib env ''/v1/responses'' 500 ''down''"
  have "case ?r of (client_status, client_body) \<Rightarrow>
      (\<exists>v e. jt_parse demo_lib client_body = Some v \<and> json_get v ''error'' = Some e)"
    using upstream_error_reported [OF demo_lib_reads_back, where env = env and path = "''/v1/responses''" and
        status = 500 and body = "''down''"]
    unfolding Let_def case_prod_unfold by blast
  then show "\<exists>v e. jt_parse demo_lib (snd ?r) = Some v \<and> json_get v ''error'' = Some e"
    by (simp only: case_prod_unfold)
qed (rule demo_lib_reads_back)

theorem retry_after_bounded_witness:
  "list_all is_ascii_digit (trim ''120'') \<and> parse_retry_after (\<lambda>_. None) [Some ''120''] 0 = Some (secs 120)"
proof -
  have t: "trim ''120'' = ''120''" by code_simp
  then show ?thesis
    using retry_after_bounded [of "\<lambda>_. None" "[Some ''120'']" 0 "''120''"]
    by (simp add: is_ascii_digit_def byte_def digits_value_def)
qed

end
