(* ===== verification/ChatText.thy ===== *)
theory ChatText
  imports Json
begin

text \<open>
  What the protocol adapters share: the error of \<open>src/openai_compat/mod.rs\<close> and
  \<open>src/openai_compat/response_items/text_extract.rs\<close>, the text of a chat message. A content is a
  string, a list of parts or an object whose first text member counts.
\<close>

record compat_error =
  ce_status :: nat
  ce_code :: string
  ce_message :: string

text \<open>The question mark operator: the first error ends the computation.\<close>

definition try_then :: "'e + 'a \<Rightarrow> ('a \<Rightarrow> 'e + 'b) \<Rightarrow> 'e + 'b" where
  "try_then r f = (case r of Inl e \<Rightarrow> Inl e | Inr x \<Rightarrow> f x)"

lemma try_then_simps [simp]: "try_then (Inl e) f = Inl e" "try_then (Inr x) f = f x"
  by (simp_all add: try_then_def)

lemma try_then_Inr [simp]: "try_then r f = Inr y \<longleftrightarrow> (\<exists>x. r = Inr x \<and> f x = Inr y)"
  by (cases r) simp_all

fun try_map :: "('a \<Rightarrow> 'e + 'b) \<Rightarrow> 'a list \<Rightarrow> 'e + 'b list" where
  "try_map f [] = Inr []"
| "try_map f (x # xs) = try_then (f x) (\<lambda>y. try_then (try_map f xs) (\<lambda>ys. Inr (y # ys)))"

text \<open>A loop over a state that ends at the first error.\<close>

fun try_fold :: "('a \<Rightarrow> 's \<Rightarrow> 'e + 's) \<Rightarrow> 'a list \<Rightarrow> 's \<Rightarrow> 'e + 's" where
  "try_fold f [] s = Inr s"
| "try_fold f (x # xs) s = try_then (f x s) (try_fold f xs)"

fun extract_text :: "json \<Rightarrow> string"
  and extract_member :: "string \<Rightarrow> (string \<times> json) list \<Rightarrow> string option"
  and extract_items :: "json list \<Rightarrow> string"
where
  "extract_text (JStr s) = s"
| "extract_text (JArr items) = extract_items items"
| "extract_text (JObj members) =
     opt_or_default []
       (opt_or (extract_member ''text'' members)
         (opt_or (extract_member ''content'' members) (extract_member ''output_text'' members)))"
| "extract_text JNull = []"
| "extract_text (JBool b) = []"
| "extract_text (JNum n) = []"
| "extract_member k [] = None"
| "extract_member k ((k', v) # members) = (if k = k' then Some (extract_text v) else extract_member k members)"
| "extract_items [] = []"
| "extract_items (v # items) = extract_text v @ extract_items items"

lemma extract_member_eq: "extract_member k members = map_option extract_text (map_of members k)"
  by (induction members) auto

lemma extract_items_eq: "extract_items items = concat (List.map extract_text items)"
  by (induction items) auto

definition extract_reasoning_text :: "json \<Rightarrow> string" where
  "extract_reasoning_text value =
     (case value of
        JObj members \<Rightarrow>
          opt_or_default []
            (map_option extract_text
              (opt_or (map_of members ''reasoning_content'') (map_of members ''reasoning_details'')))
      | _ \<Rightarrow> [])"

text \<open>The items of \<open>choices\<close>, none when it is not a list.\<close>

definition choices_of :: "json \<Rightarrow> json list" where
  "choices_of value = opt_or_default [] (Option.bind (json_get value ''choices'') json_as_array)"

definition extract_chat_delta_text :: "json \<Rightarrow> string" where
  "extract_chat_delta_text value =
     concat (List.map extract_text
       (List.map_filter (\<lambda>choice. Option.bind (json_get choice ''delta'') (\<lambda>delta. json_get delta ''content''))
         (choices_of value)))"

definition extract_chat_delta_reasoning_text :: "json \<Rightarrow> string" where
  "extract_chat_delta_reasoning_text value =
     concat (List.map extract_reasoning_text
       (List.map_filter (\<lambda>choice. json_get choice ''delta'') (choices_of value)))"

definition output_text_from_items :: "json list \<Rightarrow> string" where
  "output_text_from_items items =
     concat (List.map extract_text
       (List.map_filter (\<lambda>item. json_get item ''content'')
         (filter (\<lambda>item. Option.bind (json_get item ''type'') json_as_str = Some ''message'') items)))"

end
