(* ===== verification/ThinkingDowngrade.thy ===== *)
theory ThinkingDowngrade
  imports RouteTypes ChatText JsonCodec
begin

text \<open>
  \<open>src/worker/runtime/ai/thinking_downgrade.rs\<close>: when a thinking-mode upstream would reject a turn
  because there is no reasoning to pass back, thinking is switched off for that turn. The decision
  reads the outbound body; the rewrite sets two members of it.

  The environment variable, the stored artifacts of the parent turn and the JSON library are
  arguments.
\<close>

subsection \<open>The decision\<close>

datatype thinking_disposition = AsRequested | DowngradedNoReasoning

definition is_downgraded :: "thinking_disposition \<Rightarrow> bool" where
  "is_downgraded d \<longleftrightarrow> d = DowngradedNoReasoning"

definition decide_thinking :: "bool \<Rightarrow> bool \<Rightarrow> bool \<Rightarrow> bool \<Rightarrow> bool \<Rightarrow> bool \<Rightarrow> thinking_disposition" where
  "decide_thinking parent_has_reasoning echo_restorable thinking_requested has_tools
       upstream_requires_echo downgrade_enabled =
     (if downgrade_enabled \<and> thinking_requested \<and> has_tools \<and> \<not> parent_has_reasoning \<and>
         \<not> echo_restorable \<and> upstream_requires_echo
      then DowngradedNoReasoning else AsRequested)"

record thinking_signals =
  ts_thinking_requested :: bool
  ts_has_tools :: bool
  ts_reasoning_passable :: bool

definition no_signals :: thinking_signals where
  "no_signals = \<lparr>ts_thinking_requested = False, ts_has_tools = False, ts_reasoning_passable = False\<rparr>"

definition chat_requests_thinking :: "endpoint_provider \<Rightarrow> json \<Rightarrow> bool" where
  "chat_requests_thinking provider body =
     (case json_get body ''thinking'' of
        Some thinking \<Rightarrow>
          Option.bind (json_get thinking ''type'') json_as_str \<noteq> Some ''disabled''
      | None \<Rightarrow>
     (case Option.bind (json_get body ''reasoning_effort'') json_as_str of
        Some effort \<Rightarrow> trim effort \<noteq> [] \<and> \<not> eq_ignore_ascii_case (trim effort) ''none''
      | None \<Rightarrow> provider = PDeepSeek))"

definition responses_requests_thinking :: "json \<Rightarrow> bool" where
  "responses_requests_thinking body =
     is_some_and (\<lambda>effort. effort \<noteq> [] \<and> \<not> eq_ignore_ascii_case effort ''none'')
       (map_option trim
         (Option.bind (Option.bind (json_get body ''reasoning'') (\<lambda>reasoning. json_get reasoning ''effort''))
           json_as_str))"

definition body_has_tools :: "json \<Rightarrow> bool" where
  "body_has_tools body =
     is_some_and (\<lambda>tools. tools \<noteq> []) (Option.bind (json_get body ''tools'') json_as_array)"

definition chat_reasoning_passable :: "json \<Rightarrow> bool" where
  "chat_reasoning_passable body =
     is_some_and
       (list_ex (\<lambda>message.
          trim (extract_text (opt_or_default JNull (json_get message ''reasoning_content''))) \<noteq> []))
       (Option.bind (json_get body ''messages'') json_as_array)"

definition has_reasoning_text :: "json \<Rightarrow> bool" where
  "has_reasoning_text item =
     is_some_and
       (list_ex (\<lambda>part. Option.bind (json_get part ''type'') json_as_str = Some ''reasoning_text'' \<and>
          trim (extract_text part) \<noteq> []))
       (Option.bind (json_get item ''content'') json_as_array)"

definition reasoning_item_passable :: "json \<Rightarrow> bool" where
  "reasoning_item_passable item \<longleftrightarrow>
     Option.bind (json_get item ''type'') json_as_str = Some ''reasoning'' \<and>
     (has_reasoning_text item \<or>
      is_some_and (\<lambda>t. trim t \<noteq> []) (map_option extract_text (json_get item ''summary'')))"

definition responses_reasoning_passable :: "json \<Rightarrow> bool" where
  "responses_reasoning_passable body =
     is_some_and (list_ex reasoning_item_passable) (Option.bind (json_get body ''input'') json_as_array)"

definition body_thinking_signals ::
    "json_text \<Rightarrow> endpoint_provider \<Rightarrow> native_api \<Rightarrow> string \<Rightarrow> thinking_signals" where
  "body_thinking_signals jt provider api body =
     (case jt_parse jt body of
        None \<Rightarrow> no_signals
      | Some value \<Rightarrow>
          if json_as_object value = None then no_signals
          else
            (case api of
               NChat \<Rightarrow>
                 \<lparr>ts_thinking_requested = chat_requests_thinking provider value,
                  ts_has_tools = body_has_tools value,
                  ts_reasoning_passable = chat_reasoning_passable value\<rparr>
             | NResponses \<Rightarrow>
                 \<lparr>ts_thinking_requested = responses_requests_thinking value,
                  ts_has_tools = body_has_tools value,
                  ts_reasoning_passable = responses_reasoning_passable value\<rparr>
             | _ \<Rightarrow> no_signals))"

text \<open>
  \<open>parent_reasoning_present\<close>: the artifacts are the query's rows \<open>(event_id, has_reasoning_content)\<close>,
  \<^const>\<open>None\<close> when it failed; without an admin state or a parent event nothing is looked up.\<close>

definition parent_reasoning_present ::
    "(int \<Rightarrow> (int \<times> bool) list option) option \<Rightarrow> int option \<Rightarrow> bool" where
  "parent_reasoning_present artifacts parent_event_id =
     (case (artifacts, parent_event_id) of
        (Some query, Some event_id) \<Rightarrow>
          (case query event_id of
             Some rows \<Rightarrow> opt_or_default True (map_option snd (find (\<lambda>row. fst row = event_id) rows))
           | None \<Rightarrow> True)
      | _ \<Rightarrow> True)"

definition resolve_thinking_disposition ::
    "json_text \<Rightarrow> bool \<Rightarrow> (int \<Rightarrow> (int \<times> bool) list option) option \<Rightarrow> int option \<Rightarrow> route_config \<Rightarrow> string \<Rightarrow>
     thinking_disposition" where
  "resolve_thinking_disposition jt bypassed artifacts parent_event_id route body =
     (if bypassed then AsRequested
      else
        let downgrade_enabled = rg_thinking_downgrade_enabled route;
            upstream_requires_echo = (downgrade_enabled \<and> requires_reasoning_echo (rg_provider route));
            signals = body_thinking_signals jt (rg_provider route) (rg_native_api route) body;
            parent_has_reasoning =
              (if upstream_requires_echo \<and> ts_thinking_requested signals \<and> ts_has_tools signals \<and>
                  \<not> ts_reasoning_passable signals
               then parent_reasoning_present artifacts parent_event_id else True)
        in decide_thinking parent_has_reasoning (ts_reasoning_passable signals)
             (ts_thinking_requested signals) (ts_has_tools signals) upstream_requires_echo downgrade_enabled)"

subsection \<open>The rewrite\<close>

definition chat_already_off :: "(string \<times> json) list \<Rightarrow> bool" where
  "chat_already_off members \<longleftrightarrow>
     Option.bind (Option.bind (map_of members ''thinking'') (\<lambda>thinking. json_get thinking ''type'')) json_as_str =
       Some ''disabled'' \<and>
     map_of members ''reasoning_effort'' = None"

definition chat_thinking_off :: "(string \<times> json) list \<Rightarrow> (string \<times> json) list" where
  "chat_thinking_off members =
     members_insert ''thinking'' (JObj [(''type'', JStr ''disabled'')])
       (members_remove ''reasoning_effort'' members)"

definition responses_thinking_off :: "(string \<times> json) list \<Rightarrow> (string \<times> json) list" where
  "responses_thinking_off members =
     (let members = (if map_of members ''reasoning'' = None
                     then members_insert ''reasoning'' (JObj []) members else members)
      in case map_of members ''reasoning'' of
           Some (JObj reasoning) \<Rightarrow>
             members_insert ''reasoning'' (JObj (members_insert ''effort'' (JStr ''none'') reasoning)) members
         | _ \<Rightarrow> members)"

definition apply_thinking_off :: "json_text \<Rightarrow> native_api \<Rightarrow> string \<Rightarrow> string" where
  "apply_thinking_off jt api body =
     (if api \<noteq> NChat \<and> api \<noteq> NResponses then body
      else
        (case jt_parse jt body of
           Some (JObj members) \<Rightarrow>
             if api = NChat \<and> chat_already_off members then body
             else
               opt_or_default body
                 (jt_print jt
                   (JObj (if api = NChat then chat_thinking_off members else responses_thinking_off members)))
         | _ \<Rightarrow> body))"

subsection \<open>What the rewrite keeps\<close>

definition thinking_member :: "native_api \<Rightarrow> string \<Rightarrow> bool" where
  "thinking_member api k \<longleftrightarrow>
     (if api = NChat then k = ''thinking'' \<or> k = ''reasoning_effort'' else k = ''reasoning'')"

lemma chat_thinking_off_get:
  "map_of (chat_thinking_off members) k =
     (if k = ''thinking'' then Some (JObj [(''type'', JStr ''disabled'')])
      else if k = ''reasoning_effort'' then None else map_of members k)"
  by (simp add: chat_thinking_off_def)

lemma responses_thinking_off_get:
  "k \<noteq> ''reasoning'' \<Longrightarrow> map_of (responses_thinking_off members) k = map_of members k"
  by (auto simp: responses_thinking_off_def Let_def split: option.splits json.splits)

lemma responses_thinking_off_quiet: "\<not> responses_requests_thinking (JObj (responses_thinking_off members))"
  by (auto simp: responses_thinking_off_def Let_def responses_requests_thinking_def is_some_and_iff trim_def
      trim_start_def trim_end_def ws1_def ws2_def ws3_def byte_def
      split: option.splits json.splits)

lemma members_insert_again:
  "members_insert k v (members_insert k v members) = members_insert k v members"
  by (induction members) auto

lemma members_insert_same: "map_of members k = Some v \<Longrightarrow> sorted_wrt key_less (List.map fst members) \<Longrightarrow>
  members_insert k v members = members"
proof (induction members)
  case (Cons m members)
  obtain k' v' where m: "m = (k', v')" by (cases m)
  show ?case
  proof (cases "k = k'")
    case False
    then have "k \<in> set (List.map fst members)" using Cons.prems(1) m by (force dest!: map_of_SomeD)
    then have "key_less k' k" using Cons.prems(2) m by auto
    then have "\<not> key_less k k'" by (metis key_less_def order_less_asym)
    then show ?thesis using False Cons m by (auto simp: key_less_def)
  qed (use Cons.prems m in auto)
qed simp

lemma responses_thinking_off_again:
  "sorted_wrt key_less (List.map fst members) \<Longrightarrow>
   responses_thinking_off (responses_thinking_off members) = responses_thinking_off members"
  by (auto simp: responses_thinking_off_def Let_def members_insert_sorted members_insert_again
      members_insert_same split: option.splits json.splits)

lemma chat_thinking_off_already: "chat_already_off (chat_thinking_off members)"
  by (simp add: chat_already_off_def chat_thinking_off_def)

lemma thinking_off_wf:
  assumes "json_wf (JObj members)"
  shows "json_wf (JObj (chat_thinking_off members))" "json_wf (JObj (responses_thinking_off members))"
proof -
  show "json_wf (JObj (chat_thinking_off members))"
    unfolding chat_thinking_off_def using assms by (intro json_set_wf members_remove_wf) auto
  have ins: "json_wf (JObj (members_insert ''reasoning'' v ms))" if "json_wf (JObj ms)" "json_wf v" for v ms
    using that by (rule json_set_wf)
  have eff: "json_wf (JObj (members_insert ''effort'' (JStr ''none'') ms))" if "json_wf (JObj ms)" for ms
    using that by (rule json_set_wf) simp
  have w: "json_wf (JObj [])" "json_wf (JObj [(''effort'', JStr ''none'')])" by simp_all
  show "json_wf (JObj (responses_thinking_off members))"
    using assms ins eff ins [OF ins [OF assms w(1)] w(2)] json_wf_member [OF assms, of "''reasoning''"]
    by (auto simp: responses_thinking_off_def Let_def simp del: json_wf.simps(6) split: option.splits json.splits)
qed

text \<open>One rewrite of a parsed body, printed and read back.\<close>

lemma apply_thinking_off_cases:
  assumes "json_reads_back jt" "api = NChat \<or> api = NResponses" "jt_parse jt body = Some (JObj members)"
  obtains "api = NChat" "chat_already_off members" "apply_thinking_off jt api body = body"
  | members' where "members' = (if api = NChat then chat_thinking_off members else responses_thinking_off members)"
      "\<not> (api = NChat \<and> chat_already_off members)"
      "jt_print jt (JObj members') = Some (apply_thinking_off jt api body)"
      "jt_parse jt (apply_thinking_off jt api body) = Some (JObj members')"
      "json_wf (JObj members)"
proof (cases "api = NChat \<and> chat_already_off members")
  case True
  then show ?thesis using that(1) assms(3) by (simp add: apply_thinking_off_def)
next
  case False
  let ?m = "if api = NChat then chat_thinking_off members else responses_thinking_off members"
  have wf: "json_wf (JObj members)" using assms(1,3) unfolding json_reads_back_def by blast
  then have "json_wf (JObj ?m)" using thinking_off_wf by simp
  then obtain t where "jt_print jt (JObj ?m) = Some t" "jt_parse jt t = Some (JObj ?m)"
    using assms(1) unfolding json_reads_back_def by blast
  moreover have "apply_thinking_off jt api body = opt_or_default body (jt_print jt (JObj ?m))"
    using False assms(2,3) by (auto simp: apply_thinking_off_def)
  ultimately show ?thesis using that(2) [OF refl] False wf by simp
qed

text \<open>
  C21: Switching thinking off. On the Chat and the Responses protocol the rewritten body no longer
  asks for thinking, on any provider; a body that asked for it is changed; everything else it says
  is kept: its tools, the reasoning it passes back and every member but the ones that ask for
  thinking. A second rewrite changes nothing. Bodies of other protocols are sent as they are.\<close>

theorem thinking_off_correct:
  assumes "json_reads_back jt"
  shows "(api \<noteq> NChat \<and> api \<noteq> NResponses \<longrightarrow> apply_thinking_off jt api body = body) \<and>
    (api = NChat \<or> api = NResponses \<longrightarrow>
      (let body' = apply_thinking_off jt api body;
           signals = body_thinking_signals jt provider api body;
           signals' = body_thinking_signals jt provider api body' in
       \<not> ts_thinking_requested signals' \<and> (ts_thinking_requested signals \<longrightarrow> body' \<noteq> body) \<and>
       ts_has_tools signals' = ts_has_tools signals \<and>
       ts_reasoning_passable signals' = ts_reasoning_passable signals \<and>
       (\<forall>v k. jt_parse jt body = Some v \<longrightarrow> \<not> thinking_member api k \<longrightarrow>
          (\<exists>v'. jt_parse jt body' = Some v' \<and> json_get v' k = json_get v k)) \<and>
       apply_thinking_off jt api body' = body'))"
proof (cases "(api = NChat \<or> api = NResponses) \<and> (\<exists>members. jt_parse jt body = Some (JObj members))")
  case False
  then have "apply_thinking_off jt api body = body"
    by (auto simp: apply_thinking_off_def split: option.splits json.splits)
  moreover have "body_thinking_signals jt provider api body = no_signals"
    using False by (auto simp: body_thinking_signals_def json_as_object_def split: option.splits json.splits native_api.splits)
  ultimately show ?thesis by (simp add: Let_def no_signals_def)
next
  case True
  then obtain members where api: "api = NChat \<or> api = NResponses" and p: "jt_parse jt body = Some (JObj members)" by blast
  show ?thesis
  proof (cases rule: apply_thinking_off_cases [OF assms api p])
    case 1
    then show ?thesis using p
      by (auto simp: Let_def body_thinking_signals_def chat_requests_thinking_def chat_already_off_def
          json_as_object_def bind_eq_Some_conv)
  next
    case (2 members')
    have again: "apply_thinking_off jt api (apply_thinking_off jt api body) = apply_thinking_off jt api body"
      using 2 api responses_thinking_off_again [of members] chat_thinking_off_already [of members]
      by (subst apply_thinking_off_def) auto
    note defs = body_thinking_signals_def chat_requests_thinking_def body_has_tools_def
      chat_reasoning_passable_def responses_reasoning_passable_def thinking_member_def
      chat_thinking_off_get responses_thinking_off_get json_as_object_def
    have quiet: "\<not> ts_thinking_requested (body_thinking_signals jt provider api (apply_thinking_off jt api body))"
      using 2(1,4) api responses_thinking_off_quiet [of members] by (auto simp: defs)
    have "ts_has_tools (body_thinking_signals jt provider api (apply_thinking_off jt api body)) =
          ts_has_tools (body_thinking_signals jt provider api body) \<and>
        ts_reasoning_passable (body_thinking_signals jt provider api (apply_thinking_off jt api body)) =
          ts_reasoning_passable (body_thinking_signals jt provider api body) \<and>
        (\<forall>v k. jt_parse jt body = Some v \<longrightarrow> \<not> thinking_member api k \<longrightarrow>
          (\<exists>v'. jt_parse jt (apply_thinking_off jt api body) = Some v' \<and> json_get v' k = json_get v k))"
      using 2(1,4) api p by (auto simp: defs)
    then show ?thesis using quiet again api unfolding Let_def by auto
  qed
qed

theorem thinking_off_correct_witness:
  "json_reads_back demo_lib \<and>
   \<not> ts_thinking_requested (body_thinking_signals demo_lib PDeepSeek NChat
        (apply_thinking_off demo_lib NChat (demo_value (JObj [(''model'', JStr ''m'')]))))"
  using demo_lib_reads_back
    thinking_off_correct [OF demo_lib_reads_back, of NChat "demo_value (JObj [(''model'', JStr ''m'')])" PDeepSeek]
  by (simp add: Let_def)

text \<open>
  When thinking is switched off before the first attempt: exactly when the environment does not
  forbid it, the target opted in, its provider rejects a missing reasoning echo, the body asks for
  thinking, carries tools and no reasoning that can be passed back, and the stored artifact of the
  parent turn says that it had none. An unknown parent never changes the request.\<close>

theorem thinking_disposition_exact:
  "is_downgraded (resolve_thinking_disposition jt bypassed artifacts parent_event_id route body) \<longleftrightarrow>
     \<not> bypassed \<and> rg_thinking_downgrade_enabled route \<and> rg_provider route = PDeepSeek \<and>
     (let signals = body_thinking_signals jt (rg_provider route) (rg_native_api route) body in
      ts_thinking_requested signals \<and> ts_has_tools signals \<and> \<not> ts_reasoning_passable signals) \<and>
     (\<exists>query event_id rows. artifacts = Some query \<and> parent_event_id = Some event_id \<and>
        query event_id = Some rows \<and> find (\<lambda>row. fst row = event_id) rows = Some (event_id, False))"
  by (auto simp: resolve_thinking_disposition_def decide_thinking_def is_downgraded_def Let_def
      requires_reasoning_echo_def parent_reasoning_present_def opt_or_default_def
      split: option.splits dest: find_SomeD)

end
