(* ===== verification/Compaction.thy ===== *)
theory Compaction
  imports UpstreamReply ChatText
begin

text \<open>
  The history a self-summarising target condenses, \<open>src/worker/runtime/compaction/\<close> (\<open>prune.rs\<close>,
  \<open>summarize.rs\<close>) with \<open>strip_encrypted_content_for_compact\<close> of
  \<open>src/openai_compat/responses_reasoning_echo.rs\<close>: what of the history is kept, the request that asks
  the target for a summary, the summary in its answer, and the compaction sent to the client. The
  call itself is in AttemptLoop.

  The lemmas show that no encrypted content and no item that cannot be replayed survives the pruning,
  that what is kept keeps its order and the last rounds whole, and that the rest fits the budget; the
  user messages carried forward are the longest run of latest ones within it.
\<close>

subsection \<open>Pruning\<close>

definition reasoning_summary_text_limit_chars :: nat where "reasoning_summary_text_limit_chars = 2000"
definition compact_tail_tokens :: nat where "compact_tail_tokens = 15000"

text \<open>\<open>text.len().div_ceil(4).max(1)\<close>, of a text and of the JSON text of an item.\<close>

definition estimated_tokens :: "string \<Rightarrow> nat" where
  "estimated_tokens s = max ((length s + 3) div 4) 1"

definition item_tokens :: "json_text \<Rightarrow> json \<Rightarrow> nat" where
  "item_tokens jt item = estimated_tokens (opt_or_default [] (jt_print jt item))"

definition is_present_encrypted_content :: "json option \<Rightarrow> bool" where
  "is_present_encrypted_content v =
     (case v of
        Some (JStr s) \<Rightarrow> trim s \<noteq> []
      | Some JNull \<Rightarrow> False
      | None \<Rightarrow> False
      | Some _ \<Rightarrow> True)"

definition strip_encrypted_content_for_compact :: "json \<Rightarrow> json" where
  "strip_encrypted_content_for_compact item =
     (case item of
        JObj members \<Rightarrow>
          if is_present_encrypted_content (map_of members ''encrypted_content'')
          then JObj (members_remove ''encrypted_content'' members) else item
      | _ \<Rightarrow> item)"

definition item_type :: "json \<Rightarrow> string" where
  "item_type item = opt_or_default ''message'' (Option.bind (json_get item ''type'') json_as_str)"

definition item_role :: "json \<Rightarrow> string option" where
  "item_role item = Option.bind (json_get item ''role'') json_as_str"

text \<open>\<open>chars().take(n)\<close> of a string.\<close>

fun take_chars :: "nat \<Rightarrow> string \<Rightarrow> string" where
  "take_chars n bs =
     (if n = 0 then []
      else (case utf8_head bs of UhChar k \<Rightarrow> take k bs @ take_chars (n - 1) (drop k bs) | _ \<Rightarrow> []))"

declare take_chars.simps [simp del]

definition sanitize_reasoning_item :: "json \<Rightarrow> json" where
  "sanitize_reasoning_item item =
     (let summary_text = opt_or_default [] (map_option extract_text (json_get item ''summary''));
          truncated = take_chars reasoning_summary_text_limit_chars summary_text;
          out = json_obj
                  [(''type'', JStr ''reasoning''),
                   (''summary'', JArr [json_obj [(''type'', JStr ''summary_text''), (''text'', JStr truncated)]])]
      in case Option.bind (json_get item ''id'') json_as_str of
           Some i \<Rightarrow> json_set ''id'' (JStr i) out
         | None \<Rightarrow> out)"

definition sanitize_item :: "json \<Rightarrow> json option" where
  "sanitize_item item =
     (if item_type item = ''compaction'' \<or> item_type item = ''item_reference'' then None
      else if item_type item = ''reasoning'' then Some (sanitize_reasoning_item item)
      else Some (strip_encrypted_content_for_compact item))"

definition is_user_message :: "json \<Rightarrow> bool" where
  "is_user_message item \<longleftrightarrow> item_type item = ''message'' \<and> item_role item = Some ''user''"

definition is_instruction_item :: "json \<Rightarrow> bool" where
  "is_instruction_item item \<longleftrightarrow>
     item_type item = ''message'' \<and> (item_role item = Some ''system'' \<or> item_role item = Some ''developer'')"

text \<open>The index of the last user message but one, 0 when there are fewer than two.\<close>

definition protected_from :: "json list \<Rightarrow> nat" where
  "protected_from items =
     (case rev (List.map fst (filter (\<lambda>(index, item). is_user_message item) (enumerate 0 items))) of
        _ # p # _ \<Rightarrow> p
      | _ \<Rightarrow> 0)"

text \<open>
  The loop over the items from the last to the first. \<open>kept\<close> is in the order of the history: the
  code pushes to the back and reverses at the end.\<close>

fun prune_loop ::
    "(json \<Rightarrow> nat) \<Rightarrow> nat \<Rightarrow> (nat \<times> json) list \<Rightarrow> nat \<Rightarrow> json list \<Rightarrow> nat \<Rightarrow> json list \<times> nat" where
  "prune_loop cost protected [] budget kept dropped = (kept, dropped)"
| "prune_loop cost protected ((index, item) # items) budget kept dropped =
     (if protected \<le> index then
        prune_loop cost protected items (budget - min (cost item) budget) (item # kept) dropped
      else if cost item \<le> budget then
        prune_loop cost protected items (budget - cost item) (item # kept) dropped
      else prune_loop cost protected items budget kept (dropped + 1))"

definition omitted_message :: "nat \<Rightarrow> json" where
  "omitted_message dropped =
     json_obj
       [(''type'', JStr ''message''), (''role'', JStr ''user''),
        (''content'', JStr (''[compaction: '' @ dec_nat dropped @
           '' older history item(s) omitted to fit the compaction window]''))]"

definition prune_for_compact :: "json_text \<Rightarrow> json list \<Rightarrow> nat \<Rightarrow> json list \<times> json list" where
  "prune_for_compact jt items keep_tail_tokens =
     (let sanitized = List.map_filter sanitize_item items;
          head = takeWhile is_instruction_item sanitized;
          sanitized = dropWhile is_instruction_item sanitized
      in
        if sanitized = [] then (head, [])
        else
          let (kept, dropped) =
                prune_loop (item_tokens jt) (protected_from sanitized) (rev (enumerate 0 sanitized))
                  (max keep_tail_tokens 1) [] 0
          in (head, (if 0 < dropped then [omitted_message dropped] else []) @ kept))"

subsection \<open>The summary asked for\<close>

definition summarize_prompt :: string where
  "summarize_prompt = ''You are performing a CONTEXT CHECKPOINT COMPACTION. Create a handoff summary for another LLM that will resume the task. Include: 1) Current progress and key decisions 2) Important constraints and user preferences 3) Remaining TODOs with next steps 4) Critical data (file paths, APIs, error strings, versions). Be concise, quote exact values, do not invent.''"

definition summarize_max_output_tokens :: json where "summarize_max_output_tokens = json_i64 1024"

definition build_summarize_input :: "json list \<Rightarrow> json list \<Rightarrow> json list" where
  "build_summarize_input head history =
     head @ history @
       [json_obj [(''type'', JStr ''message''), (''role'', JStr ''user''), (''content'', JStr summarize_prompt)]]"

definition summarize_responses_body :: "json list \<Rightarrow> string \<Rightarrow> json" where
  "summarize_responses_body input model =
     json_obj [(''model'', JStr model), (''input'', JArr input), (''store'', JBool False),
               (''max_output_tokens'', summarize_max_output_tokens)]"

abbreviation blank_line :: string where "blank_line \<equiv> [newline, newline]"

definition history_to_chat_text :: "json list \<Rightarrow> string" where
  "history_to_chat_text history =
     join_with blank_line
       (List.map
         (\<lambda>item. ''['' @ opt_or_default ''message''
             (opt_or (item_role item) (Option.bind (json_get item ''type'') json_as_str)) @ ''] '' @ extract_text item)
         history)"

text \<open>The body of the summary request in the protocol of the target.\<close>

definition summarize_body :: "native_api \<Rightarrow> json list \<Rightarrow> json list \<Rightarrow> string \<Rightarrow> json" where
  "summarize_body native head history model =
     (let input = build_summarize_input head history;
          messages = JArr [json_obj [(''role'', JStr ''user''),
            (''content'', JStr (history_to_chat_text input @ blank_line @ summarize_prompt))]]
      in case native of
           NChat \<Rightarrow>
             json_obj [(''model'', JStr model), (''messages'', messages), (''store'', JBool False),
                       (''max_tokens'', summarize_max_output_tokens)]
         | NAnthropicMessages \<Rightarrow>
             json_obj [(''model'', JStr model), (''messages'', messages), (''max_tokens'', summarize_max_output_tokens)]
         | _ \<Rightarrow> summarize_responses_body input model)"

subsection \<open>The summary received\<close>

text \<open>
  Why there is no summary. The first is a body that is no JSON, the second an input that is neither a
  list nor a string; an answer without text names what it lacks.\<close>

datatype summarize_failure =
    SfRequestNotJson
  | SfInputShape
  | SfSend transport_error
  | SfBody transport_error
  | SfStatus nat
  | SfReplyNotJson
  | SfNoText string

text \<open>The message of a failure; the library's own part of it is an argument.\<close>

definition summarize_failure_text :: "(summarize_failure \<Rightarrow> string) \<Rightarrow> summarize_failure \<Rightarrow> string" where
  "summarize_failure_text lib failure =
     (case failure of
        SfRequestNotJson \<Rightarrow> ''compact body must be JSON object: '' @ lib failure
      | SfInputShape \<Rightarrow> ''compact.input must be array or string''
      | SfSend err \<Rightarrow> ''summarize upstream request failed: '' @ lib failure
      | SfBody err \<Rightarrow> ''summarize upstream body failed: '' @ lib failure
      | SfStatus status \<Rightarrow> ''summarize upstream returned '' @ dec_nat status
      | SfReplyNotJson \<Rightarrow> ''summarize response is not JSON: '' @ lib failure
      | SfNoText what \<Rightarrow> ''summarize response carried no '' @ what @ '' text'')"

definition summary_text :: "string \<Rightarrow> string option \<Rightarrow> summarize_failure + string" where
  "summary_text what text' =
     (let s = trim (opt_or_default [] text') in if s = [] then Inl (SfNoText what) else Inr s)"

definition extract_summary_text_from_responses_body :: "json_text \<Rightarrow> string \<Rightarrow> summarize_failure + string" where
  "extract_summary_text_from_responses_body jt body =
     (case jt_parse jt body of
        None \<Rightarrow> Inl SfReplyNotJson
      | Some v \<Rightarrow>
          summary_text ''output''
            (map_option (\<lambda>output. extract_text (JArr output)) (Option.bind (json_get v ''output'') json_as_array)))"

definition extract_summary_text_from_chat_body :: "json_text \<Rightarrow> string \<Rightarrow> summarize_failure + string" where
  "extract_summary_text_from_chat_body jt body =
     (case jt_parse jt body of
        None \<Rightarrow> Inl SfReplyNotJson
      | Some v \<Rightarrow>
          summary_text ''choice''
            (case Option.bind (json_get v ''choices'') json_as_array of
               Some (choice # _) \<Rightarrow>
                 map_option extract_text (Option.bind (json_get choice ''message'') (\<lambda>m. json_get m ''content''))
             | _ \<Rightarrow> None))"

definition extract_anthropic_summary_text :: "json_text \<Rightarrow> string \<Rightarrow> summarize_failure + string" where
  "extract_anthropic_summary_text jt body =
     (case jt_parse jt body of
        None \<Rightarrow> Inl SfReplyNotJson
      | Some v \<Rightarrow>
          summary_text ''content''
            (map_option
              (\<lambda>blocks. concat
                 (List.map (\<lambda>block. opt_or_default [] (Option.bind (json_get block ''text'') json_as_str))
                   (filter (\<lambda>block. Option.bind (json_get block ''type'') json_as_str = Some ''text'') blocks)))
              (Option.bind (json_get v ''content'') json_as_array)))"

definition extract_summary :: "json_text \<Rightarrow> native_api \<Rightarrow> string \<Rightarrow> summarize_failure + string" where
  "extract_summary jt native body =
     (if native = NChat then extract_summary_text_from_chat_body jt body
      else if native = NAnthropicMessages then extract_anthropic_summary_text jt body
      else extract_summary_text_from_responses_body jt body)"

subsection \<open>The compaction\<close>

text \<open>The user messages from the latest back that fit the budget, in the order of the history.\<close>

fun tail_loop :: "(json \<Rightarrow> nat) \<Rightarrow> json list \<Rightarrow> nat \<Rightarrow> json list \<Rightarrow> json list" where
  "tail_loop cost [] budget tail = tail"
| "tail_loop cost (item # items) budget tail =
     (if \<not> is_user_message item then tail_loop cost items budget tail
      else if budget < cost item then tail
      else tail_loop cost items (budget - cost item) (item # tail))"

definition tail_user_messages :: "json_text \<Rightarrow> json list \<Rightarrow> nat \<Rightarrow> json list" where
  "tail_user_messages jt history keep_tail_tokens =
     tail_loop (item_tokens jt) (rev history) (max keep_tail_tokens 1) []"

definition assemble_compaction_response :: "string \<Rightarrow> int \<Rightarrow> json list \<Rightarrow> string \<Rightarrow> string \<Rightarrow> json" where
  "assemble_compaction_response simple_uuid created_at tail summary model =
     json_obj
       [(''id'', JStr (''resp_compact_'' @ simple_uuid)), (''object'', JStr ''response.compaction''),
        (''created_at'', json_i64 created_at), (''model'', JStr model),
        (''output'', JArr (tail @
           [json_obj [(''type'', JStr ''message''), (''role'', JStr ''assistant''), (''content'', JStr summary)]]))]"

text \<open>The model and the items of a compact request; the body's own model comes first.\<close>

definition non_empty_model :: "string option \<Rightarrow> string option" where
  "non_empty_model m = opt_filter (\<lambda>m. m \<noteq> []) (map_option trim m)"

definition compact_model :: "json \<Rightarrow> string option \<Rightarrow> string" where
  "compact_model value fallback =
     opt_or_default ''unknown''
       (opt_or (non_empty_model (Option.bind (json_get value ''model'') json_as_str)) (non_empty_model fallback))"

definition compact_items :: "json \<Rightarrow> json list option" where
  "compact_items value =
     (case json_get value ''input'' of
        Some (JArr items) \<Rightarrow> Some items
      | Some (JStr s) \<Rightarrow>
          Some [json_obj [(''type'', JStr ''message''), (''role'', JStr ''user''), (''content'', JStr s)]]
      | _ \<Rightarrow> None)"

subsection \<open>What survives the pruning\<close>

definition replayable :: "json \<Rightarrow> bool" where
  "replayable item \<longleftrightarrow>
     \<not> is_present_encrypted_content (json_get item ''encrypted_content'') \<and>
     item_type item \<noteq> ''compaction'' \<and> item_type item \<noteq> ''item_reference''"

lemma replayable_strip:
  assumes "item_type item \<noteq> ''compaction''" "item_type item \<noteq> ''item_reference''"
  shows "replayable (strip_encrypted_content_for_compact item)"
  using assms
  by (cases item)
    (auto simp: replayable_def strip_encrypted_content_for_compact_def is_present_encrypted_content_def item_type_def)

lemma replayable_reasoning: "replayable (sanitize_reasoning_item item)"
  by (cases "Option.bind (json_get item ''id'') json_as_str")
    (simp_all add: sanitize_reasoning_item_def Let_def replayable_def is_present_encrypted_content_def
      item_type_def json_get_obj, simp_all add: json_obj_def)

lemma sanitize_item_replayable: "sanitize_item item = Some v \<Longrightarrow> replayable v"
  using replayable_strip replayable_reasoning by (auto simp: sanitize_item_def split: if_splits)

lemma omitted_message_replayable: "replayable (omitted_message n)"
  by (simp add: replayable_def omitted_message_def is_present_encrypted_content_def item_type_def json_get_obj)

lemma prune_loop_protected:
  assumes "\<forall>(i, item) \<in> set xs. p \<le> i"
  shows "prune_loop cost p (xs @ ys) budget kept dropped =
    prune_loop cost p ys (budget - sum_list (List.map (cost \<circ> snd) xs)) (rev (List.map snd xs) @ kept) dropped"
  using assms
proof (induction xs arbitrary: budget kept)
  case (Cons x xs)
  then show ?case by (cases x) (simp add: diff_diff_left min_def)
qed simp

lemma prune_loop_older:
  assumes "\<forall>(i, item) \<in> set xs. i < p" "prune_loop cost p xs budget kept dropped = (kept', dropped')"
  shows "\<exists>older. kept' = older @ kept \<and> subseq older (rev (List.map snd xs)) \<and>
    sum_list (List.map cost older) \<le> budget \<and> dropped' + length older = dropped + length xs"
  using assms
proof (induction xs arbitrary: budget kept dropped)
  case (Cons x xs)
  obtain i item where x: "x = (i, item)" by (cases x)
  then have i: "\<not> p \<le> i" "\<forall>(i, item) \<in> set xs. i < p" using Cons.prems(1) by auto
  show ?case
  proof (cases "cost item \<le> budget")
    case True
    then have "prune_loop cost p xs (budget - cost item) (item # kept) dropped = (kept', dropped')"
      using Cons.prems(2) i x by simp
    from Cons.IH [OF i(2) this] obtain older where "kept' = older @ item # kept" "subseq older (rev (List.map snd xs))"
      "sum_list (List.map cost older) \<le> budget - cost item" "dropped' + length older = dropped + length xs" by blast
    then show ?thesis
      using True by (intro exI [of _ "older @ [item]"]) (auto simp: x intro: list_emb_append_mono)
  next
    case False
    then have "prune_loop cost p xs budget kept (dropped + 1) = (kept', dropped')" using Cons.prems(2) i x by simp
    from Cons.IH [OF i(2) this] show ?thesis by (auto simp: x)
  qed
qed simp

text \<open>The last two rounds stay whole, and what is kept of the items before them fits what is left of the budget.\<close>

lemma prune_loop_keeps:
  assumes "prune_loop cost p (rev (enumerate 0 items)) budget [] 0 = (kept, dropped)" "p \<le> length items"
  shows "\<exists>older. kept = older @ drop p items \<and> subseq older (take p items) \<and>
    sum_list (List.map cost older) \<le> budget - sum_list (List.map cost (drop p items)) \<and> dropped = p - length older"
proof -
  let ?old = "enumerate 0 (take p items)" and ?new = "enumerate p (drop p items)"
  have split: "rev (enumerate 0 items) = rev ?new @ rev ?old"
    using enumerate_append_eq [of 0 "take p items" "drop p items"] assms(2) by simp
  have "\<forall>(i, item) \<in> set (rev ?new). p \<le> i" by (auto simp: in_set_enumerate_eq)
  from prune_loop_protected [OF this, of cost "rev ?old" budget "[]" 0]
  have l: "prune_loop cost p (rev ?old) (budget - sum_list (List.map cost (drop p items))) (drop p items) 0 = (kept, dropped)"
    using assms(1) unfolding split
    by (simp add: rev_map [symmetric] sum_list_rev map_map [symmetric] del: map_map)
  have "\<forall>(i, item) \<in> set (rev ?old). i < p" using assms(2) by (auto simp: in_set_enumerate_eq)
  from prune_loop_older [OF this l] show ?thesis
    using assms(2) by (auto simp: rev_map [symmetric] min_def split: if_splits)
qed

lemma protected_from_le: "protected_from items \<le> length items"
proof -
  have "\<forall>i \<in> set (List.map fst (filter (\<lambda>(index, item). is_user_message item) (enumerate 0 items))). i \<le> length items"
    by (auto simp: in_set_enumerate_eq)
  then have "list_all (\<lambda>i. i \<le> length items)
      (rev (List.map fst (filter (\<lambda>(index, item). is_user_message item) (enumerate 0 items))))"
    by (simp add: list_all_iff)
  then show ?thesis unfolding protected_from_def by (auto split: list.split)
qed

text \<open>
  The history of a compact request: at most one message for what was left out, then the older items
  that still fit in their order, then everything from the last user message but one. Nothing in it,
  nor in the leading instructions, carries encrypted content.\<close>

lemma prune_for_compact_keeps:
  assumes "prune_for_compact jt items n = (head, history)"
    and sane: "sane = List.map_filter sanitize_item items" and rest: "rest = dropWhile is_instruction_item sane"
  shows "head = takeWhile is_instruction_item sane \<and>
    (\<exists>older. history =
         (if length older < protected_from rest then [omitted_message (protected_from rest - length older)] else []) @
         older @ drop (protected_from rest) rest \<and>
       subseq older (take (protected_from rest) rest) \<and>
       sum_list (List.map (item_tokens jt) older) \<le>
         max n 1 - sum_list (List.map (item_tokens jt) (drop (protected_from rest) rest)))"
proof (cases "rest = []")
  case True
  note code = assms(1) [unfolded prune_for_compact_def Let_def, folded sane, folded rest]
  have "protected_from rest = 0" using True protected_from_le [of rest] by simp
  moreover have "head = takeWhile is_instruction_item sane" "history = []"
    using code True by simp_all
  ultimately show ?thesis using True by (intro conjI exI [of _ "[]"]) simp_all
next
  case False
  obtain kept dropped where l: "prune_loop (item_tokens jt) (protected_from rest) (rev (enumerate 0 rest)) (max n 1) [] 0 = (kept, dropped)"
    by fastforce
  then have "head = takeWhile is_instruction_item sane"
      "history = (if 0 < dropped then [omitted_message dropped] else []) @ kept"
    using assms(1) [unfolded prune_for_compact_def Let_def, folded sane, folded rest] False by simp_all
  moreover obtain older where "kept = older @ drop (protected_from rest) rest"
      "subseq older (take (protected_from rest) rest)" "dropped = protected_from rest - length older"
      "sum_list (List.map (item_tokens jt) older) \<le>
         max n 1 - sum_list (List.map (item_tokens jt) (drop (protected_from rest) rest))"
    using prune_loop_keeps [OF l protected_from_le] by blast
  ultimately show ?thesis by (intro conjI exI [of _ older]) (simp_all only: append_assoc zero_less_diff)
qed

lemma prune_for_compact_replayable:
  assumes "prune_for_compact jt items n = (head, history)"
  shows "\<forall>item \<in> set (head @ history). replayable item"
proof -
  let ?sane = "List.map_filter sanitize_item items"
  let ?rest = "dropWhile is_instruction_item ?sane"
  have sane: "replayable item" if "item \<in> set ?sane" for item
    using that sanitize_item_replayable by (auto simp: List.map_filter_def)
  obtain older where head: "head = takeWhile is_instruction_item ?sane"
    and history: "history =
         (if length older < protected_from ?rest then [omitted_message (protected_from ?rest - length older)] else []) @
         older @ drop (protected_from ?rest) ?rest"
    and older: "subseq older (take (protected_from ?rest) ?rest)"
    using prune_for_compact_keeps [OF assms refl refl] by blast
  have rest: "set ?rest \<subseteq> set ?sane" using set_dropWhileD by fast
  have "set head \<subseteq> set ?sane" unfolding head using set_takeWhileD by fast
  moreover have "set older \<subseteq> set ?rest" using older unfolding subseq_conv_nths
    using set_nths_subset set_take_subset by fast
  ultimately have "set (head @ older @ drop (protected_from ?rest) ?rest) \<subseteq> set ?sane"
    using rest set_drop_subset [of "protected_from ?rest" ?rest] by simp blast
  then show ?thesis using sane omitted_message_replayable unfolding history by auto
qed

text \<open>The user messages carried forward: the longest run of the latest ones within the budget.\<close>

lemma tail_loop_eq:
  "\<exists>n. tail_loop cost items budget tail = rev (take n (filter is_user_message items)) @ tail \<and>
     sum_list (List.map cost (take n (filter is_user_message items))) \<le> budget \<and>
     (n < length (filter is_user_message items) \<longrightarrow>
        budget < sum_list (List.map cost (take (Suc n) (filter is_user_message items))))"
proof (induction items arbitrary: budget tail)
  case (Cons item items)
  show ?case
  proof (cases "is_user_message item \<and> cost item \<le> budget")
    case True
    from Cons.IH [of "budget - cost item" "item # tail"] obtain n where
      "tail_loop cost items (budget - cost item) (item # tail) = rev (take n (filter is_user_message items)) @ item # tail"
      "sum_list (List.map cost (take n (filter is_user_message items))) \<le> budget - cost item"
      "n < length (filter is_user_message items) \<longrightarrow>
         budget - cost item < sum_list (List.map cost (take (Suc n) (filter is_user_message items)))" by blast
    then show ?thesis using True by (intro exI [of _ "Suc n"]) auto
  next
    case False
    then show ?thesis using Cons.IH [of budget tail] by (auto intro!: exI [of _ 0])
  qed
qed simp

lemma tail_user_messages_suffix:
  "\<exists>older. filter is_user_message history = older @ tail_user_messages jt history n \<and>
     sum_list (List.map (item_tokens jt) (tail_user_messages jt history n)) \<le> max n 1 \<and>
     (older \<noteq> [] \<longrightarrow> max n 1 < sum_list (List.map (item_tokens jt) (last older # tail_user_messages jt history n)))"
proof -
  let ?us = "filter is_user_message history" and ?c = "item_tokens jt"
  from tail_loop_eq [of ?c "rev history" "max n 1" "[]"] obtain k where
    k: "tail_user_messages jt history n = rev (take k (rev ?us))"
    "sum_list (List.map ?c (take k (rev ?us))) \<le> max n 1"
    "k < length ?us \<longrightarrow> max n 1 < sum_list (List.map ?c (take (Suc k) (rev ?us)))"
    by (auto simp: tail_user_messages_def rev_filter [symmetric])
  have "?us = rev (drop k (rev ?us)) @ rev (take k (rev ?us))" by (simp flip: rev_append)
  moreover have "last (rev (drop k (rev ?us))) = rev ?us ! k" "k < length ?us" if "rev (drop k (rev ?us)) \<noteq> []"
    using that by (auto simp: last_rev hd_drop_conv_nth)
  ultimately show ?thesis
    using k by (intro exI [of _ "rev (drop k (rev ?us))"])
      (auto simp: rev_map [symmetric] sum_list_rev take_Suc_conv_app_nth)
qed

end
