(* ===== verification/AttemptLoop.thy ===== *)
theory AttemptLoop
  imports UpstreamReply ThinkingDowngrade Compaction
begin

text \<open>
  The attempts of one forwarded request: the loop of \<open>forward_route_request_with_probe\<close> in
  \<open>src/worker/runtime/ai/request_attempts.rs\<close> with the error branch of \<open>forward/mod.rs\<close>. A request is
  sent again after a transient transport error, with another key of the endpoint after an exhausted
  quota, with a refreshed ChatGPT token after a 401, and with thinking switched off after a
  reasoning-echo rejection.

  The upstream's answers, the token refreshes, the cancellation and the relay channel are arguments,
  indexed by the number of the attempt. A step is one pass of the loop; it returns the events other
  parties see. The other requests run between the synchronous sections as in SessionRouting. Permits
  are released where Rust drops them: the old one when a failover replaces it, the last one when the
  loop ends.

  A compact request of a self-summarising target has no attempts: \<open>handle_self_summarize_compact\<close> with
  \<open>compaction/mod.rs\<close> and \<open>summarize.rs\<close> asks the target for one summary instead.
\<close>

subsection \<open>What is sent and what comes back\<close>

datatype prepared_body = PassthroughStream string | BufferedBytes string

fun prepared_body_bytes :: "prepared_body \<Rightarrow> string" where
  "prepared_body_bytes (PassthroughStream bytes) = bytes"
| "prepared_body_bytes (BufferedBytes bytes) = bytes"

fun downgrade_prepared_body :: "json_text \<Rightarrow> route_config \<Rightarrow> prepared_body \<Rightarrow> prepared_body option" where
  "downgrade_prepared_body jt route (PassthroughStream bytes) =
     (let rewritten = apply_thinking_off jt (rg_native_api route) bytes in
      if rewritten \<noteq> bytes then Some (PassthroughStream rewritten) else None)"
| "downgrade_prepared_body jt route (BufferedBytes bytes) =
     (let rewritten = apply_thinking_off jt (rg_native_api route) bytes in
      if rewritten \<noteq> bytes then Some (BufferedBytes rewritten) else None)"

definition attempt_body :: "prepared_body \<Rightarrow> prepared_body option \<Rightarrow> bool \<Rightarrow> prepared_body" where
  "attempt_body prepared downgraded thinking_off =
     (if thinking_off then opt_or_default prepared downgraded else prepared)"

record codex_auth =
  cx_access_token :: string
  cx_refreshed :: bool

record upstream_request =
  uq_route :: route_config
  uq_body :: prepared_body
  uq_auth :: "codex_auth option"

text \<open>
  The summary request of a self-summarising target: its path, the protocol, which decides the header
  of the key, the key and the body.\<close>

record summarize_request =
  zq_route :: route_config
  zq_path :: string
  zq_native_api :: native_api
  zq_api_key :: string
  zq_body :: json

text \<open>The answer to it; reading its body may fail.\<close>

record summarize_reply =
  zr_status :: nat
  zr_retry_after :: "string option list"
  zr_body :: "transport_error + string"

text \<open>
  How the forwarding of a successful answer ended: done, with or without a recorded success; a read
  error of a body that was still buffered or of a stream the client already receives; any other
  error, of the bridge or local, such as a stream grown too large after the client received its start.\<close>

datatype forwarded =
    FwHandled bool
  | FwBufferedFailure transport_error
  | FwCommittedFailure transport_error
  | FwError bool

record upstream_reply =
  ur_status :: nat
  ur_retry_after :: "string option list"
  ur_headers :: "(string \<times> string) list"
  ur_body :: string
  ur_forwarded :: forwarded

record error_signal =
  es_status :: nat
  es_body :: string
  es_headers :: "(string \<times> string) list"

datatype attempt_outcome =
    AoHandled
  | AoFailure attempt_failure
  | AoQuotaFailover error_signal
  | AoThinkingEchoRetry error_signal

text \<open>A transport error carries the failure, or the message of an unusable proxy or a closed channel.\<close>

datatype forward_outcome =
    FoHandled
  | FoCompatError compat_error
  | FoTransportError "string + attempt_failure" bool

datatype refresh_error = InvalidGrant string | OtherRefreshError

datatype attempt_event =
    EvNotifySelected uuid
  | EvSend upstream_request
  | EvSummarize summarize_request
  | EvRefreshToken uuid
  | EvQuotaRefresh quota_refresh
  | EvForwarded forwarded
  | EvAnswer nat string "(string \<times> string) list"
  | EvBackoff nat

record attempt_call =
  ac_env :: route_env
  ac_errors :: error_env
  ac_json :: json_text
  ac_rfc2822 :: "string \<Rightarrow> datetime option"
  ac_services :: quota_services
  ac_repository :: bool
  ac_quota_service :: bool
  ac_proxy :: "string \<Rightarrow> string \<Rightarrow> string option"
  ac_reply :: "nat \<Rightarrow> upstream_request \<Rightarrow> transport_error + upstream_reply"
  ac_refresh :: "nat \<Rightarrow> uuid \<Rightarrow> refresh_error + string"
  ac_channel :: "nat \<Rightarrow> bool"
  ac_cancelled :: "nat \<Rightarrow> bool"
  ac_cancelled_asleep :: "nat \<Rightarrow> bool"
  ac_request :: bridge_request
  ac_log :: prompt_log
  ac_prepared :: prepared_body
  ac_downgrade_enabled :: bool

record attempt_state =
  as_route :: route_config
  as_probe :: "probe_holder option"
  as_auth :: "codex_auth option"
  as_downgraded :: "prepared_body option"
  as_thinking_off :: bool
  as_thinking_retried :: bool
  as_pending_echo :: "error_signal option"
  as_attempt :: nat
  as_quota_failovers :: nat

definition max_upstream_attempts :: nat where "max_upstream_attempts = 3"
definition retry_backoff_ms :: "nat list" where "retry_backoff_ms = [250, 1000]"
definition max_quota_failovers :: nat where "max_quota_failovers = 2"

subsection \<open>The answer\<close>

text \<open>\<open>respond_upstream_error\<close>: the events and whether the relay channel took the answer.\<close>

definition respond_upstream_error :: "attempt_call \<Rightarrow> nat \<Rightarrow> error_signal \<Rightarrow> attempt_event list \<times> bool" where
  "respond_upstream_error call n signal =
     (let (status, body) = upstream_error_response (ac_json call) (ac_errors call)
            (br_path (ac_request call)) (es_status signal) (es_body signal)
      in ([EvAnswer status body (es_headers signal)], ac_channel call n))"

definition bridge_failure :: attempt_failure where
  "bridge_failure = \<lparr>fl_phase = RelayBridge, fl_retryable = False\<rparr>"

text \<open>The branch of \<open>forward_upstream_response\<close> for a status that is not a success.\<close>

definition forward_error ::
    "attempt_call \<Rightarrow> 's others \<Rightarrow> nat \<Rightarrow> route_config \<Rightarrow> upstream_reply \<Rightarrow> attempt_feedback \<Rightarrow> 's world \<Rightarrow>
     's world \<times> attempt_event list \<times> attempt_feedback \<times> attempt_outcome" where
  "forward_error call oth n route reply fb w =
     (let (w, clk) = turn oth w;
          status = ur_status reply;
          status_is_429 = (status = 429);
          retry_after = parse_retry_after (ac_rfc2822 call) (ur_retry_after reply) (clk_utc clk);
          body_text = from_utf8_lossy (ur_body reply);
          cause = classify_upstream_failure (ac_errors call) status body_text;
          quota_exhausted = (cause = Some UfExhausted);
          (w, fb) =
            (if status_is_429 \<or> quota_exhausted then
               on_cache oth (\<lambda>clk. attempt_record_failure (if status_is_429 then retry_after else None)
                                     (opt_or_default UfRateLimited cause) fb clk) w
             else (w, fb));
          w = (if quota_exhausted
               then update_cache oth (\<lambda>clk. map_option (\<lambda>c. invalidate clk c (rg_route_id route))) w
               else w);
          events =
            (if status_is_429 \<or> quota_exhausted then
               (case schedule_quota_refresh (wo_cache w \<noteq> None) (ac_quota_service call) route of
                  Some refresh \<Rightarrow> [EvQuotaRefresh refresh] | None \<Rightarrow> [])
             else []);
          signal = \<lparr>es_status = status, es_body = ur_body reply, es_headers = ur_headers reply\<rparr>
      in
        if quota_exhausted \<and> rg_api_keys route \<noteq> [] then (w, events, fb, AoQuotaFailover signal)
        else if is_thinking_echo_rejection status body_text \<and> rg_thinking_downgrade_enabled route
        then (w, events, fb, AoThinkingEchoRetry signal)
        else
          (case respond_upstream_error call n signal of
             (answer, True) \<Rightarrow> (w, events @ answer, fb, AoHandled)
           | (answer, False) \<Rightarrow> (w, events @ answer, fb, AoFailure bridge_failure)))"

definition forward_success ::
    "'s others \<Rightarrow> upstream_reply \<Rightarrow> attempt_feedback \<Rightarrow> 's world \<Rightarrow>
     's world \<times> attempt_event list \<times> attempt_feedback \<times> attempt_outcome" where
  "forward_success oth reply fb w =
     (let fw = ur_forwarded reply in
      case fw of
        FwHandled completed \<Rightarrow>
          (let (w, fb) = (if completed then on_cache oth (\<lambda>clk. attempt_completed_success fb clk) w else (w, fb))
           in (w, [EvForwarded fw], fb, AoHandled))
      | FwBufferedFailure err \<Rightarrow>
          (w, [EvForwarded fw], fb,
           AoFailure \<lparr>fl_phase = BufferedResponseBody, fl_retryable = is_transient BufferedResponseBody err\<rparr>)
      | FwCommittedFailure err \<Rightarrow>
          (w, [EvForwarded fw], fb, AoFailure \<lparr>fl_phase = CommittedStream, fl_retryable = False\<rparr>)
      | FwError bridge \<Rightarrow>
          (w, [EvForwarded fw], fb,
           AoFailure \<lparr>fl_phase = (if bridge then RelayBridge else LocalProcessing), fl_retryable = False\<rparr>))"

definition forward_upstream_response ::
    "attempt_call \<Rightarrow> 's others \<Rightarrow> nat \<Rightarrow> route_config \<Rightarrow> upstream_reply \<Rightarrow> attempt_feedback \<Rightarrow> 's world \<Rightarrow>
     's world \<times> attempt_event list \<times> attempt_feedback \<times> attempt_outcome" where
  "forward_upstream_response call oth n route reply fb w =
     (if 200 \<le> ur_status reply \<and> ur_status reply < 300 then forward_success oth reply fb w
      else forward_error call oth n route reply fb w)"

subsection \<open>The next key\<close>

definition remaining_keys :: "route_config \<Rightarrow> endpoint_api_key list" where
  "remaining_keys route =
     filter
       (\<lambda>key. ak_endpoint_id key \<noteq> rg_route_id route \<or>
          Some (ak_key_id key) \<noteq> rg_endpoint_key_id route \<and> ak_api_key key \<noteq> rg_api_key route)
       (rg_api_keys route)"

definition next_quota_failover_route ::
    "attempt_call \<Rightarrow> 's others \<Rightarrow> route_config \<Rightarrow> nat \<Rightarrow> 's world \<Rightarrow>
     's world \<times> (route_config \<times> probe_holder option) option" where
  "next_quota_failover_route call oth route quota_failovers w =
     (if max_quota_failovers \<le> quota_failovers then (w, None)
      else
        let keys = remaining_keys route;
            candidate = route\<lparr>rg_api_keys := keys\<rparr>
        in
          if keys = [] then (w, None)
          else
            let w = (if wo_cache w = None then w
                     else update_cache oth
                       (\<lambda>clk. map_option (\<lambda>c. hydrate_chatgpt_subscription clk c
                          (qv_subscription (ac_services call) clk (rg_route_id route))
                          (rg_route_id route) (rg_provider route))) w)
            in
              case materialize (ac_env call) oth candidate (ac_request call) (ac_log call) w of
                (w, Inl _) \<Rightarrow> (w, None)
              | (w, Inr res) \<Rightarrow>
                  let selection = kr_selection res in
                  if sel_secret selection = rg_api_key route
                  then (update_cache oth (drop_permit (kr_probe res)) w, None)
                  else (w, Some (candidate\<lparr>rg_api_key := sel_secret selection,
                                           rg_endpoint_key_id := sel_key_id selection,
                                           rg_endpoint_key_label := sel_key_label selection,
                                           rg_route_selection_reason := RrQuotaFailover\<rparr>,
                                 kr_probe res)))"

text \<open>\<open>retry_after_backoff\<close>: the wait, and whether the request is still wanted after it.\<close>

definition retry_after_backoff :: "attempt_call \<Rightarrow> nat \<Rightarrow> attempt_event list \<times> bool" where
  "retry_after_backoff call n =
     (if ac_cancelled call n then ([], False)
      else ([EvBackoff (retry_backoff_ms ! min n (length retry_backoff_ms - 1))], \<not> ac_cancelled_asleep call n))"

subsection \<open>One pass\<close>

text \<open>A pass ends the loop, leaving the permit it holds, or goes on.\<close>

datatype attempt_step_result =
    Stop "string + forward_outcome" "probe_holder option"
  | Again attempt_state

definition after_failure ::
    "attempt_call \<Rightarrow> attempt_state \<Rightarrow> attempt_failure \<Rightarrow> attempt_event list \<times> attempt_step_result" where
  "after_failure call st failure =
     (if fl_retryable failure \<and> as_attempt st + 1 < max_upstream_attempts then
        (case retry_after_backoff call (as_attempt st) of
           (events, True) \<Rightarrow> (events, Again (st\<lparr>as_attempt := as_attempt st + 1\<rparr>))
         | (events, False) \<Rightarrow> (events, Stop (Inr (FoTransportError (Inr failure) False)) (as_probe st)))
      else
        ([], Stop (Inr (FoTransportError (Inr failure) (fl_phase failure = CommittedStream))) (as_probe st)))"

definition after_quota_exhaustion ::
    "attempt_call \<Rightarrow> 's others \<Rightarrow> attempt_state \<Rightarrow> error_signal \<Rightarrow> 's world \<Rightarrow>
     's world \<times> attempt_event list \<times> attempt_step_result" where
  "after_quota_exhaustion call oth st signal w =
     (case next_quota_failover_route call oth (as_route st) (as_quota_failovers st) w of
        (w, Some (route, probe)) \<Rightarrow>
          (update_cache oth (drop_permit (as_probe st)) w, [],
           Again (st\<lparr>as_route := route, as_probe := probe,
                     as_quota_failovers := as_quota_failovers st + 1, as_attempt := as_attempt st + 1\<rparr>))
      | (w, None) \<Rightarrow>
          (case respond_upstream_error call (as_attempt st) signal of
             (answer, True) \<Rightarrow> (w, answer, Stop (Inr FoHandled) (as_probe st))
           | (answer, False) \<Rightarrow> (w, answer, Stop (Inl ''relay response channel closed'') (as_probe st))))"

definition after_thinking_echo ::
    "attempt_call \<Rightarrow> attempt_state \<Rightarrow> error_signal \<Rightarrow> attempt_event list \<times> attempt_step_result" where
  "after_thinking_echo call st signal =
     (let may_retry = (\<not> as_thinking_retried st \<and> \<not> as_thinking_off st \<and> ac_downgrade_enabled call);
          downgraded = (if may_retry \<and> as_downgraded st = None
                        then downgrade_prepared_body (ac_json call) (as_route st) (ac_prepared call)
                        else as_downgraded st)
      in
        if may_retry \<and> downgraded \<noteq> None then
          ([], Again (st\<lparr>as_downgraded := downgraded, as_thinking_retried := True, as_thinking_off := True,
                         as_pending_echo := Some signal, as_attempt := as_attempt st + 1\<rparr>))
        else
          (case respond_upstream_error call (as_attempt st) (opt_or_default signal (as_pending_echo st)) of
             (answer, True) \<Rightarrow> (answer, Stop (Inr FoHandled) (as_probe st))
           | (answer, False) \<Rightarrow> (answer, Stop (Inl ''relay response channel closed'') (as_probe st))))"

definition after_outcome ::
    "attempt_call \<Rightarrow> 's others \<Rightarrow> attempt_state \<Rightarrow> attempt_outcome \<Rightarrow> 's world \<Rightarrow>
     's world \<times> attempt_event list \<times> attempt_step_result" where
  "after_outcome call oth st out w =
     (case out of
        AoHandled \<Rightarrow> (w, [], Stop (Inr FoHandled) (as_probe st))
      | AoThinkingEchoRetry signal \<Rightarrow> (w, after_thinking_echo call st signal)
      | AoQuotaFailover signal \<Rightarrow> after_quota_exhaustion call oth st signal w
      | AoFailure failure \<Rightarrow> (w, after_failure call st failure))"

definition login_invalid :: "string \<Rightarrow> compat_error" where
  "login_invalid message =
     \<lparr>ce_status = 401, ce_code = ''chatgpt_login_invalid'',
      ce_message = ''ChatGPT subscription login is no longer valid; complete the OAuth login again ('' @
        message @ '')''\<rparr>"

text \<open>The refresh after a 401: \<^const>\<open>None\<close> goes on with the answer.\<close>

definition token_refresh ::
    "attempt_call \<Rightarrow> attempt_state \<Rightarrow> upstream_reply \<Rightarrow> attempt_event list \<times> attempt_step_result option" where
  "token_refresh call st reply =
     (if ur_status reply = 401 \<and> is_some_and (\<lambda>auth. \<not> cx_refreshed auth) (as_auth st) \<and> ac_repository call then
        ([EvRefreshToken (rg_route_id (as_route st))],
         (case ac_refresh call (as_attempt st) (rg_route_id (as_route st)) of
            Inr token \<Rightarrow>
              Some (Again (st\<lparr>as_auth := Some \<lparr>cx_access_token = token, cx_refreshed = True\<rparr>,
                              as_attempt := as_attempt st + 1\<rparr>))
          | Inl (InvalidGrant message) \<Rightarrow> Some (Stop (Inr (FoCompatError (login_invalid message))) (as_probe st))
          | Inl OtherRefreshError \<Rightarrow> None))
      else ([], None))"

text \<open>
  \<open>client_for_route\<close>: the message when there is no client. A route without a proxy shares the direct
  one; \<open>ac_proxy\<close> is the pool's answer to a proxy and a base URL.\<close>

definition client_error :: "attempt_call \<Rightarrow> route_config \<Rightarrow> string option" where
  "client_error call route =
     Option.bind (non_blank (rg_proxy_url route)) (\<lambda>proxy_url. ac_proxy call proxy_url (rg_base_url route))"

definition request_of :: "attempt_call \<Rightarrow> attempt_state \<Rightarrow> upstream_request" where
  "request_of call st =
     \<lparr>uq_route = as_route st, uq_body = attempt_body (ac_prepared call) (as_downgraded st) (as_thinking_off st),
      uq_auth = as_auth st\<rparr>"

definition notify_selected :: "attempt_call \<Rightarrow> attempt_state \<Rightarrow> 's world \<Rightarrow> attempt_event list" where
  "notify_selected call st w =
     (if rg_provider (as_route st) = POpenAi \<and> as_auth st \<noteq> None \<and> wo_cache w \<noteq> None \<and> ac_quota_service call
      then [EvNotifySelected (rg_route_id (as_route st))] else [])"

definition attempt_step ::
    "attempt_call \<Rightarrow> 's others \<Rightarrow> attempt_state \<Rightarrow> 's world \<Rightarrow>
     's world \<times> attempt_event list \<times> attempt_step_result" where
  "attempt_step call oth st w =
     (case client_error call (as_route st) of
        Some message \<Rightarrow> (w, [], Stop (Inr (FoTransportError (Inl message) False)) (as_probe st))
      | None \<Rightarrow>
          let events = notify_selected call st w @ [EvSend (request_of call st)];
              (w, clk) = turn oth w;
              fb = begin_attempt (as_route st) (as_probe st) clk
          in
            case ac_reply call (as_attempt st) (request_of call st) of
              Inl err \<Rightarrow>
                (let (ending, result) = after_failure call st
                       \<lparr>fl_phase = BeforeResponseHeaders, fl_retryable = is_transient BeforeResponseHeaders err\<rparr>
                 in (w, events @ ending, result))
            | Inr reply \<Rightarrow>
                (case token_refresh call st reply of
                   (refresh, Some result) \<Rightarrow> (w, events @ refresh, result)
                 | (refresh, None) \<Rightarrow>
                     (let (w, answer, fb, out) =
                            forward_upstream_response call oth (as_attempt st) (as_route st) reply fb w;
                          (w, ending, result) = after_outcome call oth (st\<lparr>as_probe := af_probe fb\<rparr>) out w
                      in (w, events @ refresh @ answer @ ending, result))))"

subsection \<open>The loop\<close>

text \<open>What a request may still spend: transient retries, failovers, a refresh, a thinking retry.\<close>

definition attempts_left :: "attempt_state \<Rightarrow> nat" where
  "attempts_left st =
     (max_upstream_attempts - 1 - as_attempt st) + (max_quota_failovers - as_quota_failovers st) +
     (if is_some_and (\<lambda>auth. \<not> cx_refreshed auth) (as_auth st) then 1 else 0) +
     (if as_thinking_retried st then 0 else 1)"

lemma next_quota_failover_Some:
  "next_quota_failover_route call oth route n w = (w', Some r) \<Longrightarrow> n < max_quota_failovers"
  by (auto simp: next_quota_failover_route_def split: if_splits)

lemma after_failure_Again:
  "after_failure call st failure = (events, Again st') \<Longrightarrow>
     st' = st\<lparr>as_attempt := as_attempt st + 1\<rparr> \<and> fl_retryable failure \<and> as_attempt st + 1 < max_upstream_attempts"
  by (auto simp: after_failure_def split: if_splits prod.splits bool.splits)

lemma token_refresh_Again:
  "token_refresh call st reply = (events, Some (Again st')) \<Longrightarrow>
     \<exists>auth token. as_auth st = Some auth \<and> \<not> cx_refreshed auth \<and>
       st' = st\<lparr>as_auth := Some \<lparr>cx_access_token = token, cx_refreshed = True\<rparr>, as_attempt := as_attempt st + 1\<rparr>"
  by (auto simp: token_refresh_def is_some_and_iff split: if_splits sum.splits refresh_error.splits)

lemma after_thinking_echo_Again:
  "after_thinking_echo call st signal = (events, Again st') \<Longrightarrow>
     \<not> as_thinking_retried st \<and> \<not> as_thinking_off st \<and> events = [] \<and>
     (\<exists>body. opt_or (as_downgraded st) (downgrade_prepared_body (ac_json call) (as_route st) (ac_prepared call)) = Some body \<and>
        st' = st\<lparr>as_downgraded := Some body, as_thinking_retried := True, as_thinking_off := True,
                 as_pending_echo := Some signal, as_attempt := as_attempt st + 1\<rparr>)"
  by (auto simp: after_thinking_echo_def Let_def split: if_splits prod.splits bool.splits)

lemma after_quota_exhaustion_Again:
  "after_quota_exhaustion call oth st signal w = (w', events, Again st') \<Longrightarrow>
     events = [] \<and>
     (\<exists>w1 route probe. next_quota_failover_route call oth (as_route st) (as_quota_failovers st) w = (w1, Some (route, probe)) \<and>
        st' = st\<lparr>as_route := route, as_probe := probe,
                 as_quota_failovers := as_quota_failovers st + 1, as_attempt := as_attempt st + 1\<rparr>)"
  by (auto simp: after_quota_exhaustion_def split: prod.splits option.splits bool.splits)

text \<open>The four ways on: every pass that goes on spends something.\<close>

lemma attempt_step_Again:
  assumes "attempt_step call oth st w = (w', events, Again st')"
  obtains (transient) failure e0 probe where
      "after_failure call (st\<lparr>as_probe := probe\<rparr>) failure = (e0, Again st')"
  | (refresh) reply e0 where "token_refresh call st reply = (e0, Some (Again st'))"
  | (echo) signal e0 probe where "after_thinking_echo call (st\<lparr>as_probe := probe\<rparr>) signal = (e0, Again st')"
  | (quota) signal w0 e0 probe where
      "after_quota_exhaustion call oth (st\<lparr>as_probe := probe\<rparr>) signal w0 = (w', e0, Again st')"
proof -
  have st: "st\<lparr>as_probe := as_probe st\<rparr> = st" by simp
  show thesis
    using assms transient [of "as_probe st"] transient refresh echo quota
    by (auto simp: attempt_step_def after_outcome_def Let_def st
        split: option.splits prod.splits sum.splits attempt_outcome.splits)
qed

lemma attempt_step_left:
  assumes "attempt_step call oth st w = (w', events, Again st')"
  shows "attempts_left st' < attempts_left st"
  using assms
proof (cases rule: attempt_step_Again)
  case transient
  from after_failure_Again [OF transient] show ?thesis
    by (auto simp: attempts_left_def max_upstream_attempts_def)
next
  case refresh
  from token_refresh_Again [OF refresh] show ?thesis by (auto simp: attempts_left_def)
next
  case echo
  from after_thinking_echo_Again [OF echo] show ?thesis by (auto simp: attempts_left_def)
next
  case quota
  from after_quota_exhaustion_Again [OF quota] show ?thesis
    using next_quota_failover_Some by (fastforce simp: attempts_left_def)
qed

function attempt_loop ::
    "attempt_call \<Rightarrow> 's others \<Rightarrow> attempt_state \<Rightarrow> 's world \<Rightarrow>
     's world \<times> attempt_event list \<times> (string + forward_outcome)" where
  "attempt_loop call oth st w =
     (case attempt_step call oth st w of
        (w, events, Stop out probe) \<Rightarrow> (update_cache oth (drop_permit probe) w, events, out)
      | (w, events, Again st) \<Rightarrow>
          (case attempt_loop call oth st w of
             (w, later, out) \<Rightarrow> (w, events @ later, out)))"
  by auto
termination
  by (relation "measure (\<lambda>(call, oth, st, w). attempts_left st)") (auto dest: attempt_step_left [OF sym])

declare attempt_loop.simps [simp del]

subsection \<open>The start\<close>

text \<open>The local variables before the loop; \<open>disposition\<close> is the one of ThinkingDowngrade.\<close>

definition attempt_start ::
    "attempt_call \<Rightarrow> route_config \<Rightarrow> probe_holder option \<Rightarrow> codex_auth option \<Rightarrow> thinking_disposition \<Rightarrow>
     attempt_state" where
  "attempt_start call route probe auth disposition =
     (let downgraded = (if ac_downgrade_enabled call \<and> is_downgraded disposition
                        then downgrade_prepared_body (ac_json call) route (ac_prepared call) else None)
      in \<lparr>as_route = route, as_probe = probe, as_auth = auth, as_downgraded = downgraded,
          as_thinking_off = (downgraded \<noteq> None), as_thinking_retried = False, as_pending_echo = None,
          as_attempt = 0, as_quota_failovers = 0\<rparr>)"

subsection \<open>The request\<close>

text \<open>The stored ChatGPT login of an endpoint: an access token and its expiry, none, or unreadable.\<close>

datatype stored_login = LoginStored string "datetime option" | LoginMissing | LoginUnreadable

definition login_required :: "string \<Rightarrow> compat_error" where
  "login_required message =
     \<lparr>ce_status = 401, ce_code = ''chatgpt_login_required'',
      ce_message = message @ ''; complete the ChatGPT login for this endpoint again''\<rparr>"

text \<open>\<open>resolve_chatgpt_auth\<close>; \<open>refresh\<close> is the refresh of an expired token.\<close>

definition resolve_chatgpt_auth ::
    "attempt_call \<Rightarrow> (uuid \<Rightarrow> stored_login) \<Rightarrow> (uuid \<Rightarrow> refresh_error + string) \<Rightarrow> clock \<Rightarrow> route_config \<Rightarrow>
     compat_error + codex_auth option" where
  "resolve_chatgpt_auth call login refresh clk route =
     (if rg_provider route \<noteq> POpenAi then Inr None
      else if \<not> ac_repository call then Inr None
      else
        (case login (rg_route_id route) of
           LoginMissing \<Rightarrow>
             if rg_has_oauth_token route then
               Inl (login_required ''the ChatGPT subscription login for this endpoint is no longer stored'')
             else Inr None
         | LoginUnreadable \<Rightarrow>
             if rg_has_oauth_token route then
               Inl (login_required ''the ChatGPT subscription credential for this endpoint could not be read'')
             else Inr None
         | LoginStored token expires_at \<Rightarrow>
             let stale = Some \<lparr>cx_access_token = token, cx_refreshed = False\<rparr> in
             if \<not> is_some_and (\<lambda>e. e \<le> clk_utc clk) expires_at then Inr stale
             else if client_error call route \<noteq> None then Inr stale
             else
               (case refresh (rg_route_id route) of
                  Inr token \<Rightarrow> Inr (Some \<lparr>cx_access_token = token, cx_refreshed = True\<rparr>)
                | Inl (InvalidGrant message) \<Rightarrow> Inl (login_invalid message)
                | Inl OtherRefreshError \<Rightarrow> Inr stale)))"

definition chatgpt_codex_path_ok :: "string \<Rightarrow> bool" where
  "chatgpt_codex_path_ok path \<longleftrightarrow> path = ''/v1/responses'' \<or> path = ''/v1/responses/compact''"

text \<open>
  The request before its attempts. The preparation of the body, the environment variable and the
  parent's artifacts are arguments; for a self-summarising target also the answer to the summary
  request, the model the client named, the random id of the compaction and the library's error texts.\<close>

record prepared_request =
  pq_path :: string
  pq_body :: prepared_body
  pq_self_summarize :: bool

record forward_setup =
  fw_prepare :: "compat_error + prepared_request"
  fw_login :: "uuid \<Rightarrow> stored_login"
  fw_first_refresh :: "uuid \<Rightarrow> refresh_error + string"
  fw_summary_reply :: "summarize_request \<Rightarrow> transport_error + summarize_reply"
  fw_request_model :: "string option"
  fw_compact_id :: string
  fw_failure_text :: "summarize_failure \<Rightarrow> string"
  fw_bypassed :: bool
  fw_artifacts :: "(int \<Rightarrow> (int \<times> bool) list option) option"
  fw_parent_event :: "int option"

subsection \<open>The summary of a self-summarising target\<close>

text \<open>
  \<open>self_compact_via_upstream\<close>: one request with the key of the route. The protocol is resolved by
  then, so it has a path.\<close>

definition summarize_request_of ::
    "attempt_call \<Rightarrow> route_config \<Rightarrow> json list \<Rightarrow> json list \<Rightarrow> string \<Rightarrow> summarize_request" where
  "summarize_request_of call route head history model =
     \<lparr>zq_route = route, zq_path = opt_or_default [] (native_api_path (rg_native_api route)),
      zq_native_api = rg_native_api route, zq_api_key = rg_api_key route,
      zq_body = summarize_body (rg_native_api route) head history model\<rparr>"

definition self_compact_via_upstream ::
    "forward_setup \<Rightarrow> attempt_call \<Rightarrow> 's others \<Rightarrow> route_config \<Rightarrow> probe_holder option \<Rightarrow> json list \<Rightarrow> json list \<Rightarrow>
     string \<Rightarrow> 's world \<Rightarrow>
     's world \<times> attempt_event list \<times> attempt_feedback \<times> (summarize_failure + string)" where
  "self_compact_via_upstream setup call oth route probe head history model w =
     (let request = summarize_request_of call route head history model;
          (w, clk) = turn oth w;
          fb = begin_attempt route probe clk;
          refresh = (\<lambda>w. case schedule_quota_refresh (wo_cache w \<noteq> None) (ac_quota_service call) route of
                            Some refresh \<Rightarrow> [EvQuotaRefresh refresh] | None \<Rightarrow> [])
      in
        case fw_summary_reply setup request of
          Inl err \<Rightarrow>
            (let (w, fb) = on_cache oth (release_attempt_probe fb) w
             in (w, [EvSummarize request], fb, Inl (SfSend err)))
        | Inr reply \<Rightarrow>
            let (w, clk) = turn oth w;
                status = zr_status reply;
                status_is_429 = (status = 429);
                retry_after = parse_retry_after (ac_rfc2822 call) (zr_retry_after reply) (clk_utc clk)
            in
              case zr_body reply of
                Inl err \<Rightarrow>
                  (let events = EvSummarize request # (if status_is_429 then refresh w else []);
                       (w, fb) = on_cache oth
                         (if status_is_429 then attempt_record_429 retry_after fb else release_attempt_probe fb) w
                   in (w, events, fb, Inl (SfBody err)))
              | Inr bytes \<Rightarrow>
                  let cause = classify_upstream_failure (ac_errors call) status (from_utf8_lossy bytes);
                      quota_exhausted = (cause = Some UfExhausted);
                      (w, fb) =
                        (if status_is_429 \<or> quota_exhausted then
                           on_cache oth (\<lambda>clk. attempt_record_failure (if status_is_429 then retry_after else None)
                                                 (opt_or_default UfRateLimited cause) fb clk) w
                         else (w, fb));
                      w = (if quota_exhausted
                           then update_cache oth (\<lambda>clk. map_option (\<lambda>c. invalidate clk c (rg_route_id route))) w
                           else w);
                      events = EvSummarize request # (if status_is_429 \<or> quota_exhausted then refresh w else []);
                      summary =
                        (if \<not> (200 \<le> status \<and> status < 300) then Inl (SfStatus status)
                         else extract_summary (ac_json call) (rg_native_api route) bytes)
                  in
                    case summary of
                      Inr s \<Rightarrow> (w, events, fb, Inr s)
                    | Inl failure \<Rightarrow>
                        (let (w, fb) = on_cache oth (release_attempt_probe fb) w in (w, events, fb, Inl failure)))"

text \<open>
  \<open>run_self_summarize_compact\<close>: the permit the request holds after it, and the failure or the
  compaction with the feedback of the call. A body that cannot be condensed sends nothing.\<close>

definition run_self_summarize_compact ::
    "forward_setup \<Rightarrow> attempt_call \<Rightarrow> 's others \<Rightarrow> route_config \<Rightarrow> probe_holder option \<Rightarrow> string \<Rightarrow> 's world \<Rightarrow>
     's world \<times> attempt_event list \<times> probe_holder option \<times> (summarize_failure + string \<times> attempt_feedback)" where
  "run_self_summarize_compact setup call oth route probe request_body w =
     (case jt_parse (ac_json call) request_body of
        None \<Rightarrow> (w, [], probe, Inl SfRequestNotJson)
      | Some value \<Rightarrow>
          (case compact_items value of
             None \<Rightarrow> (w, [], probe, Inl SfInputShape)
           | Some items \<Rightarrow>
               let model = compact_model value (opt_or (rg_upstream_model route) (fw_request_model setup));
                   (head, history) = prune_for_compact (ac_json call) items compact_tail_tokens
               in
                 case self_compact_via_upstream setup call oth route probe head history model w of
                   (w, events, fb, Inl failure) \<Rightarrow> (w, events, af_probe fb, Inl failure)
                 | (w, events, fb, Inr summary) \<Rightarrow>
                     let tail = tail_user_messages (ac_json call) history compact_tail_tokens;
                         (w, clk) = turn oth w;
                         response = assemble_compaction_response (fw_compact_id setup)
                           (clk_utc clk div 1000000000) tail summary model
                     in (w, events, af_probe fb, Inr (opt_or_default [] (jt_print (ac_json call) response), fb))))"

definition summarize_fail :: "string \<Rightarrow> string \<Rightarrow> forward_outcome" where
  "summarize_fail code message = FoCompatError \<lparr>ce_status = 502, ce_code = code, ce_message = message\<rparr>"

text \<open>
  \<open>handle_self_summarize_compact\<close> with \<open>send_compact_json\<close>; the usage record is left out. The permit
  is released where Rust drops it.\<close>

definition handle_self_summarize_compact ::
    "forward_setup \<Rightarrow> attempt_call \<Rightarrow> 's others \<Rightarrow> route_config \<Rightarrow> probe_holder option \<Rightarrow> prepared_request \<Rightarrow> 's world \<Rightarrow>
     's world \<times> attempt_event list \<times> forward_outcome" where
  "handle_self_summarize_compact setup call oth route probe prepared w =
     (case client_error call route of
        Some message \<Rightarrow> (update_cache oth (drop_permit probe) w, [], summarize_fail ''invalid_proxy_url'' message)
      | None \<Rightarrow>
          (case run_self_summarize_compact setup call oth route probe (prepared_body_bytes (pq_body prepared)) w of
             (w, events, probe, Inl failure) \<Rightarrow>
               (update_cache oth (drop_permit probe) w, events,
                summarize_fail ''compact_summarize_failed''
                  (''self-summarize compact failed: '' @ summarize_failure_text (fw_failure_text setup) failure))
           | (w, events, _, Inr (body, fb)) \<Rightarrow>
               let sent = ac_channel call 0;
                   (w, fb) = on_cache oth
                     (if sent then attempt_completed_success fb else release_attempt_probe fb) w
               in (update_cache oth (drop_permit (af_probe fb)) w, events @ [EvAnswer 200 body []],
                   if sent then FoHandled
                   else FoTransportError (Inl ''relay response channel closed'') False)))"

definition protocol_unsupported :: compat_error where
  "protocol_unsupported =
     \<lparr>ce_status = 400, ce_code = ''chatgpt_subscription_requires_responses'',
      ce_message = ''chatgpt_subscription endpoints only support the responses protocol; set the endpoint native_api to responses''\<rparr>"

definition forward_route_request ::
    "forward_setup \<Rightarrow> attempt_call \<Rightarrow> 's others \<Rightarrow> route_config \<Rightarrow> probe_holder option \<Rightarrow> 's world \<Rightarrow>
     's world \<times> attempt_event list \<times> (string + forward_outcome)" where
  "forward_route_request setup call oth route probe w =
     (let refuse = (\<lambda>e w. (update_cache oth (drop_permit probe) w, [], Inr (FoCompatError e))) in
      case fw_prepare setup of
        Inl e \<Rightarrow> refuse e w
      | Inr prepared \<Rightarrow>
          (let (w, clk) = turn oth w in
           case resolve_chatgpt_auth call (fw_login setup) (fw_first_refresh setup) clk route of
             Inl e \<Rightarrow> refuse e w
           | Inr auth \<Rightarrow>
               if auth \<noteq> None \<and> \<not> chatgpt_codex_path_ok (pq_path prepared) then refuse protocol_unsupported w
               else if pq_self_summarize prepared then
                 (case handle_self_summarize_compact setup call oth route probe prepared w of
                    (w, events, out) \<Rightarrow> (w, events, Inr out))
               else
                 let disposition = resolve_thinking_disposition (ac_json call) (fw_bypassed setup)
                       (fw_artifacts setup) (fw_parent_event setup) route (prepared_body_bytes (pq_body prepared));
                     call = call\<lparr>ac_prepared := pq_body prepared,
                                 ac_downgrade_enabled := \<not> fw_bypassed setup \<and> rg_thinking_downgrade_enabled route\<rparr>
                 in attempt_loop call oth (attempt_start call route probe auth disposition) w))"

end
