(* ===== verification/AttemptSafety.thy ===== *)
theory AttemptSafety
  imports AttemptLoop
begin

text \<open>
  What the attempts of one request keep: they are few, nothing is sent once the client has seen
  something, credentials are not used again after they failed, and what is sent for a subscription is known. The
  theorems hold for every upstream, every other request and every cancellation.
\<close>

subsection \<open>The events of a pass\<close>

definition sends :: "attempt_event list \<Rightarrow> upstream_request list" where
  "sends events = List.map_filter (\<lambda>e. case e of EvSend r \<Rightarrow> Some r | _ \<Rightarrow> None) events"

text \<open>The requests for a summary, which a self-summarising target makes instead.\<close>

definition summaries :: "attempt_event list \<Rightarrow> summarize_request list" where
  "summaries events = List.map_filter (\<lambda>e. case e of EvSummarize z \<Rightarrow> Some z | _ \<Rightarrow> None) events"

text \<open>The events after which the client has seen something, or may have.\<close>

definition commits :: "attempt_event \<Rightarrow> bool" where
  "commits e =
     (case e of
        EvAnswer _ _ _ \<Rightarrow> True
      | EvForwarded fw \<Rightarrow> (case fw of FwBufferedFailure _ \<Rightarrow> False | _ \<Rightarrow> True)
      | _ \<Rightarrow> False)"

lemma sends_simps [simp]:
  "sends [] = []" "sends (xs @ ys) = sends xs @ sends ys"
  "sends (EvSend r # es) = r # sends es" "sends (EvNotifySelected u # es) = sends es"
  "sends (EvRefreshToken u # es) = sends es" "sends (EvQuotaRefresh q # es) = sends es"
  "sends (EvForwarded f # es) = sends es" "sends (EvAnswer n b h # es) = sends es"
  "sends (EvBackoff n # es) = sends es" "sends (EvSummarize z # es) = sends es"
  by (simp_all add: sends_def map_filter_def)

lemma summaries_simps [simp]:
  "summaries [] = []" "summaries (xs @ ys) = summaries xs @ summaries ys"
  "summaries (EvSummarize z # es) = z # summaries es" "summaries (EvSend r # es) = summaries es"
  "summaries (EvNotifySelected u # es) = summaries es" "summaries (EvRefreshToken u # es) = summaries es"
  "summaries (EvQuotaRefresh q # es) = summaries es" "summaries (EvForwarded f # es) = summaries es"
  "summaries (EvAnswer n b h # es) = summaries es" "summaries (EvBackoff n # es) = summaries es"
  by (simp_all add: summaries_def map_filter_def)

lemma commits_simps [simp]:
  "\<not> commits (EvSend r)" "\<not> commits (EvNotifySelected u)" "\<not> commits (EvRefreshToken u)"
  "\<not> commits (EvQuotaRefresh q)" "\<not> commits (EvBackoff n)" "\<not> commits (EvSummarize z)"
  "commits (EvAnswer s b h)"
  by (simp_all add: commits_def)

text \<open>What one pass tells the client, by the way it ends.\<close>

definition answered :: "attempt_event list \<Rightarrow> string + forward_outcome \<Rightarrow> bool" where
  "answered events out =
     (let seen = filter commits events in
      case out of
        Inr FoHandled \<Rightarrow> (\<exists>s b h c. seen = [EvAnswer s b h] \<or> seen = [EvForwarded (FwHandled c)])
      | Inr (FoCompatError _) \<Rightarrow> seen = []
      | Inr (FoTransportError (Inl _) terminal) \<Rightarrow> seen = [] \<and> \<not> terminal
      | Inr (FoTransportError (Inr failure) terminal) \<Rightarrow>
          (terminal \<longleftrightarrow> (\<exists>err. seen = [EvForwarded (FwCommittedFailure err)])) \<and>
          (fl_phase failure \<in> {BeforeResponseHeaders, BufferedResponseBody} \<longrightarrow> seen = [])
      | Inl _ \<Rightarrow> (\<exists>s b h. seen = [EvAnswer s b h]))"

lemma respond_upstream_error_events:
  "\<exists>s b h. respond_upstream_error call n signal = ([EvAnswer s b h], ac_channel call n)"
  by (auto simp: respond_upstream_error_def split: prod.splits)

lemma after_failure_events:
  assumes "after_failure call st failure = (events, result)"
  shows "sends events = [] \<and> filter commits events = [] \<and>
    (\<forall>out probe. result = Stop out probe \<longrightarrow>
       (\<exists>terminal. out = Inr (FoTransportError (Inr failure) terminal) \<and>
          (terminal \<longrightarrow> fl_phase failure = CommittedStream) \<and>
          (\<not> fl_retryable failure \<longrightarrow> terminal = (fl_phase failure = CommittedStream)))) \<and>
    (\<forall>st'. result = Again st' \<longrightarrow> fl_retryable failure)"
  using assms by (auto simp: after_failure_def retry_after_backoff_def split: if_splits prod.splits bool.splits)

lemma forward_upstream_response_events:
  assumes "forward_upstream_response call oth n route reply fb w = (w', events, fb', out)"
  shows "sends events = [] \<and>
    (case out of
       AoHandled \<Rightarrow> \<exists>s b h c. filter commits events = [EvAnswer s b h] \<or> filter commits events = [EvForwarded (FwHandled c)]
     | AoFailure failure \<Rightarrow>
         (fl_retryable failure \<longrightarrow> fl_phase failure = BufferedResponseBody) \<and>
         (fl_phase failure = CommittedStream \<longleftrightarrow> (\<exists>err. filter commits events = [EvForwarded (FwCommittedFailure err)])) \<and>
         (fl_phase failure \<in> {BeforeResponseHeaders, BufferedResponseBody} \<longrightarrow> filter commits events = [])
     | _ \<Rightarrow> filter commits events = [])"
proof (cases "200 \<le> ur_status reply \<and> ur_status reply < 300")
  case True
  then show ?thesis
    using assms
    by (auto simp: forward_upstream_response_def forward_success_def Let_def commits_def
        split: forwarded.splits prod.splits if_splits)
next
  case False
  obtain w1 clk where t: "turn oth w = (w1, clk)" by fastforce
  obtain s b h where r: "respond_upstream_error call n
      \<lparr>es_status = ur_status reply, es_body = ur_body reply, es_headers = ur_headers reply\<rparr> =
      ([EvAnswer s b h], ac_channel call n)"
    using respond_upstream_error_events by blast
  have f: "forward_error call oth n route reply fb w = (w', events, fb', out)"
    using assms unfolding forward_upstream_response_def if_not_P [OF False] .
  show ?thesis
    using f unfolding forward_error_def Let_def t prod.case r
    by (auto simp: bridge_failure_def split: if_splits prod.splits option.splits bool.splits)
qed

lemma token_refresh_events:
  assumes "token_refresh call st reply = (events, result)"
  shows "sends events = [] \<and> filter commits events = [] \<and>
    (\<forall>out probe. result = Some (Stop out probe) \<longrightarrow> (\<exists>e. out = Inr (FoCompatError e)))"
  using assms by (auto simp: token_refresh_def split: if_splits sum.splits refresh_error.splits)

lemma after_thinking_echo_events:
  assumes "after_thinking_echo call st signal = (events, result)"
  shows "sends events = [] \<and>
    (case result of
       Again st' \<Rightarrow> filter commits events = []
     | Stop out probe \<Rightarrow> \<exists>s b h e. filter commits events = [EvAnswer s b h] \<and> (out = Inr FoHandled \<or> out = Inl e))"
proof -
  obtain s b h where "respond_upstream_error call (as_attempt st) (opt_or_default signal (as_pending_echo st)) =
      ([EvAnswer s b h], ac_channel call (as_attempt st))"
    using respond_upstream_error_events by blast
  then show ?thesis using assms
    by (auto simp: after_thinking_echo_def Let_def split: if_splits prod.splits bool.splits)
qed

lemma after_quota_exhaustion_events:
  assumes "after_quota_exhaustion call oth st signal w = (w', events, result)"
  shows "sends events = [] \<and>
    (case result of
       Again st' \<Rightarrow> filter commits events = []
     | Stop out probe \<Rightarrow> \<exists>s b h e. filter commits events = [EvAnswer s b h] \<and> (out = Inr FoHandled \<or> out = Inl e))"
proof -
  obtain s b h where "respond_upstream_error call (as_attempt st) signal = ([EvAnswer s b h], ac_channel call (as_attempt st))"
    using respond_upstream_error_events by blast
  then show ?thesis using assms
    by (auto simp: after_quota_exhaustion_def split: prod.splits option.splits bool.splits)
qed

lemma after_outcome_events:
  assumes "after_outcome call oth st out w = (w', events, result)"
    and "forward_upstream_response call oth n route reply fb w0 = (w1, answer, fb', out)"
  shows "sends answer = [] \<and> sends events = [] \<and>
    (case result of
       Again st' \<Rightarrow> filter commits (answer @ events) = []
     | Stop ending probe \<Rightarrow> answered (answer @ events) ending)"
proof (cases out)
  case AoHandled
  then show ?thesis
    using assms(1) forward_upstream_response_events [OF assms(2)] by (auto simp: after_outcome_def answered_def)
next
  case (AoFailure failure)
  then have f: "after_failure call st failure = (events, result)" using assms(1) by (simp add: after_outcome_def)
  note r = forward_upstream_response_events [OF assms(2), unfolded AoFailure attempt_outcome.case]
  note a = after_failure_events [OF f]
  show ?thesis
  proof (cases result)
    case (Again st')
    then have "fl_phase failure = BufferedResponseBody" using a r by blast
    then show ?thesis using a r Again by simp
  next
    case (Stop ending probe)
    then obtain terminal where t: "ending = Inr (FoTransportError (Inr failure) terminal)"
      "terminal \<longrightarrow> fl_phase failure = CommittedStream"
      "\<not> fl_retryable failure \<longrightarrow> terminal = (fl_phase failure = CommittedStream)"
      using a by blast
    have "terminal = (fl_phase failure = CommittedStream)"
      using t(2,3) r by (metis failure_phase.distinct(9))
    then show ?thesis using a r Stop t(1) by (simp add: answered_def Let_def)
  qed
next
  case (AoQuotaFailover signal)
  then show ?thesis
    using assms(1) forward_upstream_response_events [OF assms(2)]
      after_quota_exhaustion_events [of call oth st signal w w' events result]
    by (cases result) (auto simp: after_outcome_def answered_def)
next
  case (AoThinkingEchoRetry signal)
  then show ?thesis
    using assms(1) forward_upstream_response_events [OF assms(2)]
      after_thinking_echo_events [of call st signal events result]
    by (cases result) (auto simp: after_outcome_def answered_def)
qed

text \<open>A pass sends at most once, before the client sees anything; it goes on only if the client saw nothing.\<close>

lemma attempt_step_events:
  assumes "attempt_step call oth st w = (w', events, result)"
  shows "\<exists>pre post. events = pre @ post \<and> filter commits pre = [] \<and> sends post = [] \<and>
      sends pre = (if client_error call (as_route st) = None then [request_of call st] else []) \<and>
    (case result of
       Again st' \<Rightarrow> filter commits post = [] \<and> client_error call (as_route st) = None
     | Stop out probe \<Rightarrow> answered post out)"
proof (cases "client_error call (as_route st)")
  case (Some message)
  then show ?thesis using assms by (auto simp: attempt_step_def answered_def intro!: exI [of _ "[]"])
next
  case None
  let ?pre = "notify_selected call st w @ [EvSend (request_of call st)]"
  obtain w1 clk where t: "turn oth w = (w1, clk)" by fastforce
  have pre: "filter commits ?pre = []" "sends ?pre = [request_of call st]"
    by (simp_all add: notify_selected_def)
  have "\<exists>post. events = ?pre @ post \<and> sends post = [] \<and>
      (case result of Again st' \<Rightarrow> filter commits post = [] | Stop out probe \<Rightarrow> answered post out)"
  proof (cases "ac_reply call (as_attempt st) (request_of call st)")
    case (Inl err)
    then obtain post where "events = ?pre @ post"
      "after_failure call st \<lparr>fl_phase = BeforeResponseHeaders, fl_retryable = is_transient BeforeResponseHeaders err\<rparr> = (post, result)"
      using assms None t by (auto simp: attempt_step_def Let_def split: prod.splits)
    with after_failure_events [OF this(2)] show ?thesis
      by (cases result) (fastforce simp: answered_def)+
  next
    case (Inr reply)
    obtain refresh r where tr: "token_refresh call st reply = (refresh, r)" by fastforce
    note te = token_refresh_events [OF tr]
    show ?thesis
    proof (cases r)
      case (Some res)
      then have "events = ?pre @ refresh" "res = result" using assms None t Inr tr by (auto simp: attempt_step_def)
      then show ?thesis using te Some
        by (intro exI [of _ refresh]) (cases result; auto simp: answered_def)
    next
      case None': None
      obtain w2 answer fb out where f: "forward_upstream_response call oth (as_attempt st) (as_route st) reply
          (begin_attempt (as_route st) (as_probe st) clk) w1 = (w2, answer, fb, out)"
        by (metis prod.collapse)
      obtain w3 ending res where a: "after_outcome call oth (st\<lparr>as_probe := af_probe fb\<rparr>) out w2 = (w3, ending, res)"
        by (metis prod.collapse)
      have "events = ?pre @ (refresh @ answer @ ending)" "res = result"
        using assms None t Inr tr None' f a by (simp_all add: attempt_step_def)
      then show ?thesis using te after_outcome_events [OF a f]
        by (intro exI [of _ "refresh @ answer @ ending"]) (cases result; auto simp: answered_def)
    qed
  qed
  then obtain post where "events = ?pre @ post" "sends post = []"
    "case result of Again st' \<Rightarrow> filter commits post = [] | Stop out probe \<Rightarrow> answered post out" by blast
  then show ?thesis using pre None by (intro exI [of _ ?pre] exI [of _ post]) (auto split: attempt_step_result.split)
qed

subsection \<open>Induction over the passes\<close>

lemma attempt_loop_Stop:
  "attempt_step call oth st w = (w', events, Stop out probe) \<Longrightarrow>
     attempt_loop call oth st w = (update_cache oth (drop_permit probe) w', events, out)"
  by (subst attempt_loop.simps) simp

lemma attempt_loop_Again:
  "attempt_step call oth st w = (w1, e1, Again st') \<Longrightarrow> attempt_loop call oth st' w1 = (w2, e2, out) \<Longrightarrow>
     attempt_loop call oth st w = (w2, e1 @ e2, out)"
  by (subst attempt_loop.simps) simp

lemma attempt_loop_induct [consumes 1, case_names Stop Again]:
  assumes "attempt_loop call oth st w = (w', events, out)"
    and stop: "\<And>st w w1 events out probe. attempt_step call oth st w = (w1, events, Stop out probe) \<Longrightarrow> P st events out"
    and again: "\<And>st w w1 e1 st' w2 e2 out. attempt_step call oth st w = (w1, e1, Again st') \<Longrightarrow>
      attempt_loop call oth st' w1 = (w2, e2, out) \<Longrightarrow> P st' e2 out \<Longrightarrow> P st (e1 @ e2) out"
  shows "P st events out"
  using assms(1)
proof (induction "attempts_left st" arbitrary: st w w' events rule: less_induct)
  case less
  obtain w1 e1 res where s: "attempt_step call oth st w = (w1, e1, res)" by (metis prod.collapse)
  show ?case
  proof (cases res)
    case (Stop o' probe)
    have "events = e1" "out = o'"
      using less.prems attempt_loop_Stop [OF s [unfolded Stop]] by simp_all
    then show ?thesis using stop [OF s [unfolded Stop]] by simp
  next
    case (Again st')
    obtain w2 e2 o2 where l: "attempt_loop call oth st' w1 = (w2, e2, o2)" by (metis prod.collapse)
    have "events = e1 @ e2" "o2 = out"
      using less.prems attempt_loop_Again [OF s [unfolded Again] l] by simp_all
    moreover have "P st' e2 out"
      using less.hyps [OF attempt_step_left [OF s [unfolded Again]]] l calculation(2) by blast
    ultimately show ?thesis using again [OF s [unfolded Again] l] by simp
  qed
qed

lemma attempt_step_sends:
  assumes "attempt_step call oth st w = (w', events, result)"
  shows "sends events = (if client_error call (as_route st) = None then [request_of call st] else [])"
  using attempt_step_events [OF assms] by auto

lemma loop_sends_left:
  assumes "attempt_loop call oth st w = (w', events, out)"
  shows "length (sends events) \<le> Suc (attempts_left st)"
  using assms
proof (induction rule: attempt_loop_induct)
  case (Stop st w w1 events out probe)
  then show ?case using attempt_step_sends [OF Stop] by auto
next
  case (Again st w w1 e1 st' w2 e2 out)
  then show ?case using attempt_step_left [OF Again(1)] attempt_step_sends [OF Again(1)] by auto
qed

text \<open>
  C18: One request is bounded. Whatever the upstream answers and whatever the other requests do, the
  loop ends and sends the request at most seven times, six when it carries no token that could be
  refreshed: three attempts, two quota failovers, one resend after a token refresh and one after a
  reasoning-echo rejection.\<close>

theorem attempts_bounded:
  "case attempt_loop call oth (attempt_start call route probe auth disposition) w of
     (w', events, out) \<Rightarrow>
       length (sends events) \<le> 5 +
         (if is_some_and (\<lambda>a. \<not> cx_refreshed a) auth then 1 else 0) + 1"
proof -
  obtain w' events out where l: "attempt_loop call oth (attempt_start call route probe auth disposition) w = (w', events, out)"
    by (metis prod.collapse)
  have "attempts_left (attempt_start call route probe auth disposition) =
      5 + (if is_some_and (\<lambda>a. \<not> cx_refreshed a) auth then 1 else 0)"
    by (simp add: attempts_left_def attempt_start_def Let_def max_upstream_attempts_def max_quota_failovers_def)
  then show ?thesis using loop_sends_left [OF l] by (simp add: l)
qed

text \<open>
  C10: The client is answered once. All sends of a request come before anything the client may have
  seen: nothing is sent again after an answer, a forwarded response, a committed stream or an
  unexplained failure of the forwarding. A handled request was answered exactly once, by an error
  or by a forwarded response; a client error of the login and an unusable proxy leave the client
  unanswered. A transport error that broke off a stream is reported as recorded exactly when the
  stream was committed, and one before the response's headers or in a buffered body left the client
  unanswered. A local failure or one of the relay is reported as unrecorded whatever the client has
  seen of the stream by then.\<close>

theorem attempts_answer_once:
  "case attempt_loop call oth st w of
     (w', events, out) \<Rightarrow>
       \<exists>before after. events = before @ after \<and> filter commits before = [] \<and> sends after = [] \<and> answered after out"
proof -
  obtain w' events out where l: "attempt_loop call oth st w = (w', events, out)" by (metis prod.collapse)
  then have "\<exists>before after. events = before @ after \<and> filter commits before = [] \<and> sends after = [] \<and> answered after out"
  proof (induction rule: attempt_loop_induct)
    case (Stop st w w1 events out probe)
    then show ?case using attempt_step_events [OF Stop] by auto
  next
    case (Again st w w1 e1 st' w2 e2 out)
    obtain before after where "e2 = before @ after" "filter commits before = []" "sends after = []" "answered after out"
      using Again.IH by blast
    moreover have "filter commits e1 = []" using attempt_step_events [OF Again(1)] by auto
    ultimately show ?case by (intro exI [of _ "e1 @ before"] exI [of _ after]) simp
  qed
  then show ?thesis by (simp add: l)
qed

subsection \<open>Failover\<close>

text \<open>A route without its credentials; two routes that differ in their credentials only.\<close>

definition bare_route :: "route_config \<Rightarrow> route_config" where
  "bare_route r =
     r\<lparr>rg_api_key := [], rg_endpoint_key_id := None, rg_endpoint_key_label := None, rg_api_keys := [],
       rg_route_selection_reason := RrDefault\<rparr>"

definition same_target :: "route_config \<Rightarrow> route_config \<Rightarrow> bool" where
  "same_target r r' \<longleftrightarrow> bare_route r' = bare_route r"

text \<open>The credential of a route is the one it started with, its subscription or one of its usable keys.\<close>

definition own_credential :: "route_config \<Rightarrow> route_config \<Rightarrow> bool" where
  "own_credential r r' \<longleftrightarrow>
     rg_api_key r' = rg_api_key r \<and> rg_endpoint_key_id r' = rg_endpoint_key_id r \<or>
     rg_has_oauth_token r \<and> rg_api_key r' = [] \<and> rg_endpoint_key_id r' = None \<or>
     (\<exists>key \<in> set (rg_api_keys r). usable_key (rg_route_id r) key \<and> rg_api_key r' = ak_api_key key \<and>
        rg_endpoint_key_id r' = sel_key_id (selection_from_key key))"

lemma same_target_refl [simp]: "same_target r r"
  by (simp add: same_target_def)

lemma same_target_trans: "same_target r r' \<Longrightarrow> same_target r' r'' \<Longrightarrow> same_target r r''"
  by (simp add: same_target_def)

lemma bare_route_sel [simp]:
  "rg_route_id (bare_route r) = rg_route_id r" "rg_has_oauth_token (bare_route r) = rg_has_oauth_token r"
  "rg_native_api (bare_route r) = rg_native_api r"
  by (simp_all add: bare_route_def)

lemma same_target_fields:
  assumes "same_target r r'"
  shows "rg_route_id r' = rg_route_id r" "rg_has_oauth_token r' = rg_has_oauth_token r"
    "rg_native_api r' = rg_native_api r"
  using assms unfolding same_target_def by (metis bare_route_sel)+

lemma materialize_credential:
  "materialize env oth route request plog w = (w', Inr res) \<Longrightarrow> route_credential route (kr_selection res)"
  by (auto simp: materialize_def Let_def dest: route_claims_credential split: prod.splits sum.splits)

definition failed_out :: "string set \<Rightarrow> route_config \<Rightarrow> bool" where
  "failed_out X r \<longleftrightarrow>
     rg_api_key r \<notin> X \<and>
     (\<forall>key \<in> set (rg_api_keys r). ak_endpoint_id key = rg_route_id r \<longrightarrow> ak_api_key key \<notin> X) \<and>
     (rg_has_oauth_token r \<longrightarrow> rg_api_key r = [] \<or> [] \<notin> X)"

lemma next_quota_failover_fresh:
  assumes "next_quota_failover_route call oth r n w = (w', Some (r', probe))" "failed_out X r"
  shows "failed_out (insert (rg_api_key r) X) r' \<and> same_target r r' \<and> own_credential r r' \<and>
    rg_api_key r' \<noteq> rg_api_key r \<and> set (rg_api_keys r') \<subseteq> set (rg_api_keys r)"
proof -
  define keys where "keys = remaining_keys r"
  obtain w0 w1 res where m: "materialize (ac_env call) oth (r\<lparr>rg_api_keys := keys\<rparr>) (ac_request call) (ac_log call) w0 = (w1, Inr res)"
    and ne: "sel_secret (kr_selection res) \<noteq> rg_api_key r"
    and r': "r' = r\<lparr>rg_api_keys := keys, rg_api_key := sel_secret (kr_selection res),
        rg_endpoint_key_id := sel_key_id (kr_selection res),
        rg_endpoint_key_label := sel_key_label (kr_selection res), rg_route_selection_reason := RrQuotaFailover\<rparr>"
    using assms(1)
    by (auto simp: next_quota_failover_route_def Let_def keys_def [symmetric]
        split: if_splits prod.splits sum.splits)
  have c: "route_credential (r\<lparr>rg_api_keys := keys\<rparr>) (kr_selection res)" using materialize_credential [OF m] .
  have keys: "\<forall>key \<in> set keys. ak_endpoint_id key = rg_route_id r \<longrightarrow> ak_api_key key \<notin> insert (rg_api_key r) X"
    "set keys \<subseteq> set (rg_api_keys r)"
    using assms(2) by (auto simp: keys_def remaining_keys_def failed_out_def)
  consider (oauth) "rg_has_oauth_token r" "kr_selection res = subscription_selection"
    | (key) key where "\<not> rg_has_oauth_token r" "key \<in> set keys" "usable_key (rg_route_id r) key"
        "kr_selection res = selection_from_key key"
    using c ne by (auto simp: route_credential_def eligible_route_keys_def split: if_splits)
  then show ?thesis
  proof cases
    case oauth
    then show ?thesis using assms(2) keys ne
      by (auto simp: r' failed_out_def same_target_def bare_route_def own_credential_def)
  next
    case key
    then show ?thesis using assms(2) keys ne
      by (auto simp: r' failed_out_def same_target_def bare_route_def own_credential_def usable_key_def)
  qed
qed

definition state_ok :: "attempt_call \<Rightarrow> attempt_state \<Rightarrow> bool" where
  "state_ok call st \<longleftrightarrow>
     (as_thinking_off st \<longrightarrow> as_downgraded st \<noteq> None) \<and>
     (\<forall>body. as_downgraded st = Some body \<longrightarrow>
        downgrade_prepared_body (ac_json call) (as_route st) (ac_prepared call) = Some body)"

lemma downgrade_same_target:
  "same_target r r' \<Longrightarrow> downgrade_prepared_body jt r' body = downgrade_prepared_body jt r body"
  by (cases body) (simp_all add: same_target_fields)

text \<open>How a pass that goes on changes the state.\<close>

lemma attempt_step_state:
  assumes "attempt_step call oth st w = (w', events, Again st')" "failed_out X (as_route st)" "state_ok call st"
  shows "same_target (as_route st) (as_route st') \<and> state_ok call st' \<and>
    (as_thinking_off st \<longrightarrow> as_thinking_off st') \<and>
    (as_route st' = as_route st \<and> as_quota_failovers st' = as_quota_failovers st \<or>
     as_quota_failovers st' = Suc (as_quota_failovers st) \<and> as_quota_failovers st < max_quota_failovers \<and>
     failed_out (insert (rg_api_key (as_route st)) X) (as_route st') \<and> own_credential (as_route st) (as_route st') \<and>
     rg_api_key (as_route st') \<noteq> rg_api_key (as_route st) \<and>
     set (rg_api_keys (as_route st')) \<subseteq> set (rg_api_keys (as_route st)))"
  using assms(1)
proof (cases rule: attempt_step_Again)
  case transient
  from after_failure_Again [OF transient] show ?thesis using assms(3) by (simp add: state_ok_def)
next
  case refresh
  from token_refresh_Again [OF refresh] show ?thesis using assms(3) by (auto simp: state_ok_def)
next
  case echo
  from after_thinking_echo_Again [OF echo] show ?thesis
    using assms(3) by (auto simp: state_ok_def opt_or_eq_Some)
next
  case (quota signal w0 e0 probe)
  from after_quota_exhaustion_Again [OF quota] obtain w1 route permit where
    n: "next_quota_failover_route call oth (as_route st) (as_quota_failovers st) w0 = (w1, Some (route, permit))"
    and st': "st' = st\<lparr>as_route := route, as_probe := permit,
                 as_quota_failovers := as_quota_failovers st + 1, as_attempt := as_attempt st + 1\<rparr>"
    by auto
  show ?thesis
    using next_quota_failover_fresh [OF n assms(2)] next_quota_failover_Some [OF n] assms(3)
    by (auto simp: st' state_ok_def downgrade_same_target)
qed

lemma own_credential_trans:
  assumes "own_credential r r'" "own_credential r' r''" "same_target r r'" "set (rg_api_keys r') \<subseteq> set (rg_api_keys r)"
  shows "own_credential r r''"
  using assms same_target_fields [OF assms(3)] by (auto simp: own_credential_def)

abbreviation secrets :: "attempt_event list \<Rightarrow> string list" where
  "secrets events \<equiv> List.map (\<lambda>r. rg_api_key (uq_route r)) (sends events)"

lemma loop_first_send:
  assumes "attempt_loop call oth st w = (w', events, out)"
  shows "sends events = [] \<or> hd (sends events) = request_of call st"
  using assms
proof (induction rule: attempt_loop_induct)
  case (Stop st w w1 events out probe)
  then show ?case using attempt_step_sends [OF Stop] by auto
next
  case (Again st w w1 e1 st' w2 e2 out)
  then show ?case using attempt_step_sends [OF Again(1)] attempt_step_events [OF Again(1)] by auto
qed

lemma request_of_sel [simp]: "uq_route (request_of call st) = as_route st"
  by (simp add: request_of_def)

lemma loop_secrets:
  assumes "attempt_loop call oth st w = (w', events, out)" "failed_out X (as_route st)" "state_ok call st"
  shows "(\<forall>r \<in> set (sends events). same_target (as_route st) (uq_route r) \<and> own_credential (as_route st) (uq_route r)) \<and>
    set (secrets events) \<inter> X = {} \<and> distinct (remdups_adj (secrets events)) \<and>
    length (remdups_adj (secrets events)) \<le> Suc (max_quota_failovers - as_quota_failovers st)"
  using assms
proof (induction arbitrary: X rule: attempt_loop_induct)
  case (Stop st w w1 events out probe)
  then show ?case using attempt_step_sends [OF Stop(1)] by (auto simp: failed_out_def own_credential_def)
next
  case (Again st w w1 e1 st' w2 e2 out)
  note st' = attempt_step_state [OF Again(1) Again.prems]
  have send: "sends e1 = [request_of call st]"
    using attempt_step_sends [OF Again(1)] attempt_step_events [OF Again(1)] by auto
  have cur: "rg_api_key (as_route st) \<notin> X" "own_credential (as_route st) (as_route st)"
    using Again.prems(1) by (simp_all add: failed_out_def own_credential_def)
  show ?case
  proof (cases "as_route st' = as_route st \<and> as_quota_failovers st' = as_quota_failovers st")
    case True
    then have "failed_out X (as_route st')" using Again.prems(1) by simp
    note ih = Again.IH [OF this] st'
    have "secrets e2 = [] \<or> hd (secrets e2) = rg_api_key (as_route st)"
      using loop_first_send [OF Again(2)] True by (cases "sends e2") auto
    then have "remdups_adj (rg_api_key (as_route st) # secrets e2) =
        (if secrets e2 = [] then [rg_api_key (as_route st)] else remdups_adj (secrets e2))"
      by (cases "secrets e2") auto
    then show ?thesis using ih True cur send by auto
  next
    case False
    then have f: "failed_out (insert (rg_api_key (as_route st)) X) (as_route st')"
      "own_credential (as_route st) (as_route st')" "as_quota_failovers st' = Suc (as_quota_failovers st)"
      "as_quota_failovers st < max_quota_failovers"
      "set (rg_api_keys (as_route st')) \<subseteq> set (rg_api_keys (as_route st))"
      using st' by auto
    note ih = Again.IH [OF f(1)] st'
    then have fresh: "rg_api_key (as_route st) \<notin> set (secrets e2)" by auto
    then have "remdups_adj (rg_api_key (as_route st) # secrets e2) = rg_api_key (as_route st) # remdups_adj (secrets e2)"
      by (cases "secrets e2") auto
    moreover have "\<forall>r \<in> set (sends e2). same_target (as_route st) (uq_route r) \<and> own_credential (as_route st) (uq_route r)"
      using ih own_credential_trans [OF f(2) _ _ f(5)] same_target_trans by blast
    ultimately show ?thesis using ih f cur send fresh by auto
  qed
qed

lemma replicate_prefix: "x # replicate a x @ ys = replicate (Suc a) x @ ys"
  by simp

lemma loop_bodies:
  assumes "attempt_loop call oth st w = (w', events, out)" "state_ok call st"
  shows "\<exists>a b. List.map uq_body (sends events) = replicate a (ac_prepared call) @
      replicate b (opt_or_default (ac_prepared call)
        (downgrade_prepared_body (ac_json call) (as_route st) (ac_prepared call))) \<and>
      (as_thinking_off st \<longrightarrow> a = 0)"
  using assms
proof (induction rule: attempt_loop_induct)
  case (Stop st w w1 events out probe)
  have "uq_body (request_of call st) = (if as_thinking_off st
      then opt_or_default (ac_prepared call) (downgrade_prepared_body (ac_json call) (as_route st) (ac_prepared call))
      else ac_prepared call)"
    using Stop(2) by (auto simp: request_of_def attempt_body_def state_ok_def)
  then show ?case using attempt_step_sends [OF Stop(1)]
    by (cases "as_thinking_off st") (auto intro: exI [of _ 0] exI [of _ "Suc 0"])
next
  case (Again st w w1 e1 st' w2 e2 out)
  have f: "failed_out {} (as_route st)" by (simp add: failed_out_def)
  note st' = attempt_step_state [OF Again(1) f Again.prems]
  have send: "sends e1 = [request_of call st]"
    using attempt_step_sends [OF Again(1)] attempt_step_events [OF Again(1)] by auto
  have body: "uq_body (request_of call st) = (if as_thinking_off st
      then opt_or_default (ac_prepared call) (downgrade_prepared_body (ac_json call) (as_route st) (ac_prepared call))
      else ac_prepared call)"
    using Again.prems by (auto simp: request_of_def attempt_body_def state_ok_def)
  obtain a b where ab: "List.map uq_body (sends e2) = replicate a (ac_prepared call) @
      replicate b (opt_or_default (ac_prepared call)
        (downgrade_prepared_body (ac_json call) (as_route st) (ac_prepared call)))"
    "as_thinking_off st' \<longrightarrow> a = 0"
    using Again.IH st' downgrade_same_target by fastforce
  show ?case
  proof (cases "as_thinking_off st")
    case True
    then show ?thesis using st' ab body send by (intro exI [of _ 0] exI [of _ "Suc b"]) simp
  next
    case False
    then show ?thesis using ab(1) body send by (intro exI [of _ "Suc a"] exI [of _ b]) simp
  qed
qed

text \<open>
  C11: What the attempts of one request send. All go to the endpoint, address and model the router
  chose. A credential the request has left after an exhausted quota is never used again, at most
  three are used, and each is the router's, the endpoint's subscription or one of its enabled keys.
  The body is the prepared one until thinking is switched off, at most once, and the rewritten one
  from then on.\<close>

theorem attempt_credentials:
  "case attempt_loop call oth (attempt_start call route probe auth disposition) w of
     (w', events, out) \<Rightarrow>
       list_all (\<lambda>r. same_target route (uq_route r) \<and> own_credential route (uq_route r)) (sends events) \<and>
       distinct (remdups_adj (secrets events)) \<and> length (remdups_adj (secrets events)) \<le> 3 \<and>
       (\<exists>a b. List.map uq_body (sends events) = replicate a (ac_prepared call) @
          replicate b (opt_or_default (ac_prepared call)
            (downgrade_prepared_body (ac_json call) route (ac_prepared call))))"
proof -
  let ?st = "attempt_start call route probe auth disposition"
  obtain w' events out where l: "attempt_loop call oth ?st w = (w', events, out)" by (metis prod.collapse)
  have st: "as_route ?st = route" "as_quota_failovers ?st = 0" by (simp_all add: attempt_start_def Let_def)
  have ok: "state_ok call ?st" by (auto simp: state_ok_def attempt_start_def Let_def)
  have f: "failed_out {} (as_route ?st)" by (simp add: failed_out_def)
  show ?thesis
    using loop_secrets [OF l f ok] loop_bodies [OF l ok] by (auto simp: l st max_quota_failovers_def list_all_iff)
qed

subsection \<open>Subscriptions\<close>

lemma loop_auth:
  assumes "attempt_loop call oth st w = (w', events, out)" "as_auth st \<noteq> None"
  shows "\<forall>r \<in> set (sends events). uq_auth r \<noteq> None"
  using assms
proof (induction rule: attempt_loop_induct)
  case (Stop st w w1 events out probe)
  then show ?case using attempt_step_sends [OF Stop(1)] by (auto simp: request_of_def)
next
  case (Again st w w1 e1 st' w2 e2 out)
  have "as_auth st' \<noteq> None"
    using Again(1)
  proof (cases rule: attempt_step_Again)
    case transient
    from after_failure_Again [OF transient] show ?thesis using Again.prems by simp
  next
    case refresh
    from token_refresh_Again [OF refresh] show ?thesis by auto
  next
    case echo
    from after_thinking_echo_Again [OF echo] show ?thesis using Again.prems by auto
  next
    case quota
    from after_quota_exhaustion_Again [OF quota] show ?thesis using Again.prems by auto
  qed
  then show ?case using Again attempt_step_sends [OF Again(1)] by (auto simp: request_of_def)
qed

lemma after_summaries:
  "after_failure call st failure = (events, result) \<Longrightarrow> summaries events = []"
  "token_refresh call st reply = (events, res) \<Longrightarrow> summaries events = []"
  "after_thinking_echo call st signal = (events, result) \<Longrightarrow> summaries events = []"
  "after_quota_exhaustion call oth st signal w = (w', events, result) \<Longrightarrow> summaries events = []"
  by (auto simp: after_failure_def retry_after_backoff_def token_refresh_def after_thinking_echo_def
      after_quota_exhaustion_def respond_upstream_error_def Let_def split: if_splits prod.splits option.splits bool.splits)

lemma forward_summaries:
  "forward_upstream_response call oth n route reply fb w = (w', events, fb', out) \<Longrightarrow> summaries events = []"
  by (auto simp: forward_upstream_response_def forward_success_def forward_error_def respond_upstream_error_def Let_def
      split: if_splits prod.splits option.splits bool.splits forwarded.splits)

lemma after_outcome_summaries:
  "after_outcome call oth st out w = (w', events, result) \<Longrightarrow> summaries events = []"
  by (cases out) (auto simp: after_outcome_def dest: after_summaries)

lemma attempt_step_summaries:
  assumes "attempt_step call oth st w = (w', events, result)" shows "summaries events = []"
  using assms
  by (auto simp: attempt_step_def notify_selected_def Let_def
      dest: after_summaries forward_summaries after_outcome_summaries split: option.splits prod.splits sum.splits if_splits)

lemma loop_summaries:
  "attempt_loop call oth st w = (w', events, out) \<Longrightarrow> summaries events = []"
  by (induction rule: attempt_loop_induct) (auto dest: attempt_step_summaries)

text \<open>A body that can be condensed, and the request for its summary.\<close>

definition self_summary :: "forward_setup \<Rightarrow> attempt_call \<Rightarrow> route_config \<Rightarrow> summarize_request option" where
  "self_summary setup call route =
     (case fw_prepare setup of
        Inl e \<Rightarrow> None
      | Inr prepared \<Rightarrow>
          if \<not> pq_self_summarize prepared \<or> \<not> chatgpt_codex_path_ok (pq_path prepared) \<or> client_error call route \<noteq> None
          then None
          else
            Option.bind (jt_parse (ac_json call) (prepared_body_bytes (pq_body prepared))) (\<lambda>value.
              map_option
                (\<lambda>items. case prune_for_compact (ac_json call) items compact_tail_tokens of
                   (head, history) \<Rightarrow> summarize_request_of call route head history
                     (compact_model value (opt_or (rg_upstream_model route) (fw_request_model setup))))
                (compact_items value)))"

lemma self_compact_events:
  assumes "self_compact_via_upstream setup call oth route probe head history model w = (w', events, fb, result)"
  shows "sends events = [] \<and> summaries events = [summarize_request_of call route head history model]"
  using assms
  by (auto simp: self_compact_via_upstream_def Let_def split: sum.splits prod.splits if_splits option.splits)

lemma handle_self_summarize_events:
  assumes "handle_self_summarize_compact setup call oth route probe prepared w = (w', events, out)"
    and "fw_prepare setup = Inr prepared" "pq_self_summarize prepared" "chatgpt_codex_path_ok (pq_path prepared)"
  shows "sends events = [] \<and> summaries events = (case self_summary setup call route of Some z \<Rightarrow> [z] | None \<Rightarrow> [])"
  using assms
  by (auto simp: handle_self_summarize_compact_def run_self_summarize_compact_def self_summary_def Let_def
      dest: self_compact_events split: option.splits sum.splits prod.splits if_splits)

text \<open>
  C19: What is sent for a subscription. When the router chose an OpenAI endpoint for its ChatGPT
  login, a login that is gone, unreadable or refused ends the request before anything is sent.
  Otherwise every attempt, first and after every retry, carries the login's token. The one request
  without it is the summary of a self-summarising target, made once in place of the attempts: it
  goes to the platform path of the target's protocol with the key of the route.\<close>

theorem subscription_sends:
  assumes "rg_has_oauth_token route" "rg_provider route = POpenAi" "ac_repository call"
  shows "case forward_route_request setup call oth route probe w of
    (w', events, out) \<Rightarrow>
      (\<forall>r \<in> set (sends events). uq_auth r \<noteq> None) \<and>
      (fw_login setup (rg_route_id route) \<in> {LoginMissing, LoginUnreadable} \<longrightarrow>
         events = [] \<and> (\<exists>e. out = Inr (FoCompatError e))) \<and>
      (case resolve_chatgpt_auth call (fw_login setup) (fw_first_refresh setup) (snd (turn oth w)) route of
         Inl e \<Rightarrow> events = [] \<and> (\<exists>e. out = Inr (FoCompatError e))
       | Inr _ \<Rightarrow>
           (case self_summary setup call route of
              Some z \<Rightarrow>
                sends events = [] \<and> summaries events = [z] \<and> zq_api_key z = rg_api_key route \<and>
                zq_path z = opt_or_default [] (native_api_path (rg_native_api route))
            | None \<Rightarrow> summaries events = []))"
proof -
  obtain w0 clk where turn: "turn oth w = (w0, clk)" by fastforce
  have auth: "auth \<noteq> None \<and> fw_login setup (rg_route_id route) \<notin> {LoginMissing, LoginUnreadable}"
    if "resolve_chatgpt_auth call (fw_login setup) (fw_first_refresh setup) clk route = Inr auth" for clk auth
    using that assms
    by (auto simp: resolve_chatgpt_auth_def Let_def split: stored_login.splits if_splits sum.splits refresh_error.splits)
  have start: "as_auth (attempt_start c route probe auth d) = auth" for c auth d
    by (simp add: attempt_start_def Let_def)
  have loop: "(\<forall>r \<in> set (sends events). uq_auth r \<noteq> None) \<and> summaries events = []"
    if "attempt_loop c oth (attempt_start c route probe auth d) w1 = (w2, events, out)" "auth \<noteq> None" for c auth d w1 w2 events out
    using loop_auth [OF that(1)] loop_summaries [OF that(1)] that(2) by (simp add: start)
  have key: "zq_api_key z = rg_api_key route \<and> zq_path z = opt_or_default [] (native_api_path (rg_native_api route))"
    if "self_summary setup call route = Some z" for z
    using that by (auto simp: self_summary_def summarize_request_of_def bind_eq_Some_conv case_prod_beta split: sum.splits if_splits)
  show ?thesis
  proof (cases "fw_prepare setup")
    case (Inl e)
    then show ?thesis by (auto simp: forward_route_request_def self_summary_def split: sum.splits)
  next
    case (Inr prepared)
    show ?thesis
    proof (cases "resolve_chatgpt_auth call (fw_login setup) (fw_first_refresh setup) clk route")
      case (Inl e)
      then show ?thesis using Inr by (simp add: forward_route_request_def turn)
    next
      case res: (Inr auth)
      note a = auth [OF res]
      show ?thesis
      proof (cases "chatgpt_codex_path_ok (pq_path prepared)")
        case False
        then show ?thesis using a res Inr by (simp add: forward_route_request_def turn self_summary_def)
      next
        case path: True
        show ?thesis
        proof (cases "pq_self_summarize prepared")
          case True
          obtain w2 events out where h: "handle_self_summarize_compact setup call oth route probe prepared w0 = (w2, events, out)"
            by (metis prod.collapse)
          show ?thesis
            using handle_self_summarize_events [OF h Inr True path] a res Inr True path key
            by (auto simp: forward_route_request_def turn h split: option.splits)
        next
          case False
          then show ?thesis
            using a res Inr path loop
            by (auto simp: forward_route_request_def turn self_summary_def Let_def split: prod.splits)
        qed
      qed
    qed
  qed
qed

definition demo_call :: attempt_call where
  "demo_call =
     \<lparr>ac_env = demo_env,
      ac_errors = \<lparr>ee_lower = (\<lambda>s. s), ee_json = (\<lambda>_. None), ee_float_text = (\<lambda>_. [])\<rparr>,
      ac_json = demo_lib, ac_rfc2822 = (\<lambda>_. None), ac_services = demo_services, ac_repository = True,
      ac_quota_service = False, ac_proxy = (\<lambda>_ _. None),
      ac_reply = (\<lambda>_ _. Inr \<lparr>ur_status = 200, ur_retry_after = [], ur_headers = [], ur_body = [],
                            ur_forwarded = FwHandled True\<rparr>),
      ac_refresh = (\<lambda>_ _. Inl OtherRefreshError), ac_channel = (\<lambda>_. True), ac_cancelled = (\<lambda>_. False),
      ac_cancelled_asleep = (\<lambda>_. False), ac_request = demo_request, ac_log = demo_log None,
      ac_prepared = BufferedBytes [], ac_downgrade_enabled = False\<rparr>"

definition demo_setup :: forward_setup where
  "demo_setup =
     \<lparr>fw_prepare = Inr \<lparr>pq_path = ''/v1/responses'', pq_body = BufferedBytes ''{}'', pq_self_summarize = False\<rparr>,
      fw_login = (\<lambda>_. LoginUnreadable), fw_first_refresh = (\<lambda>_. Inl OtherRefreshError),
      fw_summary_reply = (\<lambda>_. Inr \<lparr>zr_status = 500, zr_retry_after = [], zr_body = Inr []\<rparr>),
      fw_request_model = None, fw_compact_id = ''0'', fw_failure_text = (\<lambda>_. []), fw_bypassed = False, fw_artifacts = None, fw_parent_event = None\<rparr>"

definition demo_subscription_route :: route_config where
  "demo_subscription_route =
     (route_from_target demo_target 1 5 subscription_selection RrDefault)
       \<lparr>rg_provider := POpenAi, rg_has_oauth_token := True\<rparr>"

text \<open>A login that is stored, and a compact request of a target that summarises itself.\<close>

definition demo_compact_setup :: forward_setup where
  "demo_compact_setup = demo_setup
     \<lparr>fw_prepare := Inr \<lparr>pq_path = ''/v1/responses/compact'', pq_body = BufferedBytes ''x'', pq_self_summarize = True\<rparr>,
      fw_login := (\<lambda>_. LoginStored ''token'' None)\<rparr>"

definition demo_compact_call :: attempt_call where
  "demo_compact_call = demo_call
     \<lparr>ac_json := \<lparr>jt_parse = (\<lambda>_. Some (JObj [(''input'', JStr ''hi'')])), jt_print = (\<lambda>_. Some [])\<rparr>\<rparr>"

theorem subscription_sends_witness:
  "(\<forall>(oth :: unit others) w. fst (snd (forward_route_request demo_setup demo_call oth demo_subscription_route None w)) = []) \<and>
   (\<forall>(oth :: unit others) w. case forward_route_request demo_compact_setup demo_compact_call oth
         (demo_subscription_route\<lparr>rg_native_api := NChat\<rparr>) None w of
      (w', events, out) \<Rightarrow> sends events = [] \<and>
        List.map (\<lambda>z. (zq_path z, zq_api_key z)) (summaries events) = [(''/v1/chat/completions'', [])])"
proof (intro conjI allI)
  fix oth :: "unit others" and w
  have h: "rg_has_oauth_token demo_subscription_route" "rg_provider demo_subscription_route = POpenAi"
    "ac_repository demo_call"
    by (simp_all add: demo_subscription_route_def demo_call_def)
  have "fw_login demo_setup (rg_route_id demo_subscription_route) \<in> {LoginMissing, LoginUnreadable}"
    by (simp add: demo_setup_def)
  then show "fst (snd (forward_route_request demo_setup demo_call oth demo_subscription_route None w)) = []"
    using subscription_sends [OF h, of demo_setup oth w None] by (auto split: prod.splits)
next
  fix oth :: "unit others" and w
  let ?route = "demo_subscription_route\<lparr>rg_native_api := NChat\<rparr>"
  have h: "rg_has_oauth_token ?route" "rg_provider ?route = POpenAi" "ac_repository demo_compact_call"
    by (simp_all add: demo_subscription_route_def demo_compact_call_def demo_call_def)
  have "resolve_chatgpt_auth demo_compact_call (fw_login demo_compact_setup) (fw_first_refresh demo_compact_setup) clk ?route =
      Inr (Some \<lparr>cx_access_token = ''token'', cx_refreshed = False\<rparr>)" for clk
    using h by (simp add: resolve_chatgpt_auth_def demo_compact_setup_def is_some_and_iff)
  moreover have "client_error demo_compact_call ?route = None"
    by (simp add: client_error_def demo_compact_call_def demo_call_def)
  then have "\<exists>z. self_summary demo_compact_setup demo_compact_call ?route = Some z"
    by (simp add: self_summary_def demo_compact_setup_def demo_compact_call_def compact_items_def
        chatgpt_codex_path_ok_def)
  moreover have "native_api_path (rg_native_api ?route) = Some ''/v1/chat/completions''" "rg_api_key ?route = []"
    by (simp_all add: native_api_path_def demo_subscription_route_def route_from_target_def subscription_selection_def)
  ultimately show "case forward_route_request demo_compact_setup demo_compact_call oth ?route None w of
      (w', events, out) \<Rightarrow> sends events = [] \<and>
        List.map (\<lambda>z. (zq_path z, zq_api_key z)) (summaries events) = [(''/v1/chat/completions'', [])]"
    using subscription_sends [OF h, of demo_compact_setup oth w None] by (auto split: prod.splits)
qed

end
