(* ===== verification/ResponseKind.thy ===== *)
theory ResponseKind
  imports StreamText "HOL-Library.Sublist"
begin

text \<open>
  \<open>src/worker/runtime/ai/forward/response_kind.rs\<close>: whether an upstream body without a telling
  content type is an event stream or a JSON document, read off a bounded prefix of its chunks, which
  is then replayed in front of the rest.
\<close>

datatype response_kind = EventStream | JsonBody

definition is_event_stream :: "response_kind \<Rightarrow> bool" where
  "is_event_stream kind \<longleftrightarrow> kind = EventStream"

definition sniff_limit :: nat where "sniff_limit = 1024"

definition sse_fields :: "string list" where
  "sse_fields = [''data:'', ''event:'', ''id:'', ''retry:'']"

definition byte_order_mark :: string where
  "byte_order_mark = [CHR 0xEF, CHR 0xBB, CHR 0xBF]"

text \<open>The loop of \<open>classify_prefix\<close> on the bytes from its offset on.\<close>

function classify_lines :: "string \<Rightarrow> response_kind option" where
  "classify_lines rest =
     (case rest of
        [] \<Rightarrow> None
      | c # cs \<Rightarrow>
          if c = carriage_return \<or> c = newline then classify_lines cs
          else if c = CHR '':'' then
            (case find_char newline rest of
               None \<Rightarrow> None
             | Some relative \<Rightarrow> classify_lines (drop (relative + 1) rest))
          else if prefix ''{'' rest \<or> prefix ''['' rest then Some JsonBody
          else if list_ex (\<lambda>field. prefix field rest) sse_fields then Some EventStream
          else if list_ex (\<lambda>field. prefix rest field) sse_fields then None
          else Some JsonBody)"
  by auto
termination
  by (relation "measure length") auto

declare classify_lines.simps [simp del]

definition classify_prefix :: "string \<Rightarrow> response_kind option" where
  "classify_prefix p = classify_lines (if prefix byte_order_mark p then drop 3 p else p)"

text \<open>
  A body is a list of chunks and read errors. The loop returns the prefix, the error that ended it
  and what it left.\<close>

fun sniff_loop :: "string \<Rightarrow> ('e + string) list \<Rightarrow> string \<times> 'e option \<times> ('e + string) list" where
  "sniff_loop p [] = (p, None, [])"
| "sniff_loop p (chunk # chunks) =
     (if sniff_limit \<le> length p then (p, None, chunk # chunks)
      else
        (case chunk of
           Inl err \<Rightarrow> (p, Some err, chunks)
         | Inr bytes \<Rightarrow>
             if classify_prefix (p @ bytes) \<noteq> None then (p @ bytes, None, chunks)
             else sniff_loop (p @ bytes) chunks))"

definition sniff_response :: "('e + string) list \<Rightarrow> response_kind \<times> ('e + string) list" where
  "sniff_response chunks =
     (case sniff_loop [] chunks of
        (p, pending_error, rest) \<Rightarrow>
          (opt_or_default JsonBody (classify_prefix p),
           Inr p # (case pending_error of Some err \<Rightarrow> [Inl err] | None \<Rightarrow> []) @ rest))"

subsection \<open>The replayed body\<close>

text \<open>What a reader of a body sees: its bytes and errors in order.\<close>

definition body_bytes :: "('e + string) list \<Rightarrow> ('e + char) list" where
  "body_bytes chunks = concat (List.map (\<lambda>c. case c of Inl e \<Rightarrow> [Inl e] | Inr bs \<Rightarrow> List.map Inr bs) chunks)"

lemma body_bytes_simps [simp]:
  "body_bytes [] = []" "body_bytes (Inl e # cs) = Inl e # body_bytes cs"
  "body_bytes (Inr bs # cs) = List.map Inr bs @ body_bytes cs"
  "body_bytes (xs @ ys) = body_bytes xs @ body_bytes ys"
  by (simp_all add: body_bytes_def)

lemma sniff_loop_bytes:
  "sniff_loop p chunks = (p', err, rest) \<Longrightarrow>
     List.map Inr p' @ (case err of Some e \<Rightarrow> [Inl e] | None \<Rightarrow> []) @ body_bytes rest =
       List.map Inr p @ body_bytes chunks"
proof (induction p chunks rule: sniff_loop.induct)
  case (2 p chunk chunks)
  then show ?case by (fastforce split: if_splits sum.splits)
qed auto

subsection \<open>Decisive prefixes\<close>

text \<open>Undecided: a byte order mark may still be cut off at the end of the prefix.\<close>

definition cut_mark :: "string \<Rightarrow> bool" where
  "cut_mark p \<longleftrightarrow> p = take 1 byte_order_mark \<or> p = take 2 byte_order_mark"

lemma find_char_append: "find_char c s = Some i \<Longrightarrow> find_char c (s @ q) = Some i"
  by (induction s arbitrary: i) (auto split: if_splits)

lemma sse_field_append:
  assumes "\<not> list_ex (\<lambda>field. prefix field rest) sse_fields" "\<not> list_ex (\<lambda>field. prefix rest field) sse_fields"
  shows "\<not> list_ex (\<lambda>field. prefix field (rest @ q)) sse_fields" "\<not> list_ex (\<lambda>field. prefix (rest @ q) field) sse_fields"
proof -
  show "\<not> list_ex (\<lambda>field. prefix field (rest @ q)) sse_fields"
    using assms by (auto simp: list_ex_iff prefix_append)
  show "\<not> list_ex (\<lambda>field. prefix (rest @ q) field) sse_fields"
    using assms(2) by (auto simp: list_ex_iff dest: append_prefixD)
qed

lemma classify_lines_Nil [simp]: "classify_lines [] = None"
  by (simp add: classify_lines.simps)

lemma classify_lines_Cons:
  "classify_lines (c # cs) =
     (if c = carriage_return \<or> c = newline then classify_lines cs
      else if c = CHR '':'' then
        (case find_char newline (c # cs) of
           None \<Rightarrow> None
         | Some relative \<Rightarrow> classify_lines (drop (relative + 1) (c # cs)))
      else if c = CHR ''{'' \<or> c = CHR ''['' then Some JsonBody
      else if list_ex (\<lambda>field. prefix field (c # cs)) sse_fields then Some EventStream
      else if list_ex (\<lambda>field. prefix (c # cs) field) sse_fields then None
      else Some JsonBody)"
  by (subst classify_lines.simps) auto

lemma classify_lines_append: "classify_lines rest = Some k \<Longrightarrow> classify_lines (rest @ q) = Some k"
proof (induction "length rest" arbitrary: rest rule: less_induct)
  case less
  then obtain c cs where r: "rest = c # cs" by (cases rest) auto
  show ?case
  proof (cases "c = CHR '':'' \<and> c \<noteq> carriage_return \<and> c \<noteq> newline")
    case True
    then obtain i where i: "find_char newline rest = Some i" "classify_lines (drop (i + 1) rest) = Some k"
      using less.prems True unfolding r classify_lines_Cons [of c cs]
      by (simp del: find_char.simps split: option.splits)
    have "i < length rest" using find_char_Some [OF i(1)] by simp
    then have "classify_lines (drop (i + 1) rest @ q) = Some k" using less.hyps [OF _ i(2)] by simp
    moreover have "drop (i + 1) (rest @ q) = drop (i + 1) rest @ q" using \<open>i < length rest\<close> by simp
    ultimately show ?thesis
      using True find_char_append [OF i(1), of q] unfolding r append_Cons classify_lines_Cons [of c "cs @ q"]
      by (simp del: find_char.simps drop_append)
  next
    case False
    have stays: "list_ex (\<lambda>field. prefix field (rest @ q)) sse_fields" if "list_ex (\<lambda>field. prefix field rest) sse_fields"
      using that prefix_prefix [of _ rest q] unfolding list_ex_iff by blast
    show ?thesis
      using False less.prems less.hyps [of cs] stays sse_field_append [of rest q]
      unfolding r append_Cons classify_lines_Cons [of c cs] classify_lines_Cons [of c "cs @ q"]
      by (auto split: if_splits)
  qed
qed

lemma classify_prefix_append:
  assumes "classify_prefix p = Some k" "\<not> cut_mark p"
  shows "classify_prefix (p @ q) = Some k"
proof (cases "prefix byte_order_mark p")
  case True
  then obtain r where "p = byte_order_mark @ r" by (auto simp: prefix_def)
  then show ?thesis using assms(1) classify_lines_append [of r k q]
    by (simp add: classify_prefix_def byte_order_mark_def)
next
  case False
  then have "p \<noteq> []" using assms(1) by (auto simp: classify_prefix_def)
  have "\<not> prefix byte_order_mark (p @ q)"
  proof
    assume "prefix byte_order_mark (p @ q)"
    then have "prefix p byte_order_mark" using False prefixI unfolding prefix_append by metis
    then show False using False assms(2) \<open>p \<noteq> []\<close>
      by (auto simp: cut_mark_def byte_order_mark_def prefix_Cons)
  qed
  then show ?thesis using False assms(1) classify_lines_append by (simp add: classify_prefix_def)
qed

text \<open>The kind of a body is settled by its first bytes, however they arrive.\<close>

lemma sniff_loop_kind:
  assumes "sniff_loop p (List.map Inr chunks) = (p', err, rest)" "classify_prefix p = None"
    and "classify_prefix (take sniff_limit (p @ concat chunks)) = Some k"
    and "\<forall>n. \<not> cut_mark (p @ concat (take n chunks))" "\<not> cut_mark (take sniff_limit (p @ concat chunks))"
  shows "classify_prefix p' = Some k"
  using assms
proof (induction chunks arbitrary: p)
  case Nil
  then have "classify_prefix (take sniff_limit p @ drop sniff_limit p) = Some k"
    using classify_prefix_append [of "take sniff_limit p" k "drop sniff_limit p"] by simp
  then show ?case using Nil by simp
next
  case (Cons chunk chunks)
  have all: "classify_prefix (p @ concat (chunk # chunks)) = Some k"
    using classify_prefix_append [OF Cons.prems(3,5), of "drop sniff_limit (p @ concat (chunk # chunks))"]
    by (simp del: take_append drop_append)
  show ?case
  proof (cases "sniff_limit \<le> length p")
    case True
    then have "take sniff_limit (p @ concat (chunk # chunks)) = take sniff_limit p" by simp
    then have "classify_prefix (take sniff_limit p @ drop sniff_limit p) = Some k"
      using classify_prefix_append [of "take sniff_limit p" k "drop sniff_limit p"] Cons.prems(3,5) by metis
    then show ?thesis using Cons.prems(2) by simp
  next
    case False
    show ?thesis
    proof (cases "classify_prefix (p @ chunk)")
      case None
      have "\<forall>n. \<not> cut_mark ((p @ chunk) @ concat (take n chunks))"
        using Cons.prems(4) by (metis append_assoc concat.simps(2) take_Suc_Cons)
      then show ?thesis using Cons.IH [of "p @ chunk"] Cons.prems None False by simp
    next
      case (Some k')
      have "\<not> cut_mark (p @ chunk)" using Cons.prems(4) [rule_format, of 1] by simp
      from classify_prefix_append [OF Some this, of "concat chunks"] have "k' = k" using all by simp
      then show ?thesis using Cons.prems(1) Some False by simp
    qed
  qed
qed

lemma cut_mark_json: "cut_mark p \<Longrightarrow> classify_prefix p = Some JsonBody"
  by (auto simp: cut_mark_def byte_order_mark_def classify_prefix_def classify_lines_Cons sse_fields_def)

text \<open>
  C40: The framing of a body. Sniffing loses nothing: whoever reads the rebuilt body sees the same
  bytes and read errors in the same order. When the first 1024 bytes decide, the kind is theirs for
  every cut into chunks that leaves a byte order mark whole; a body whose first chunk ends inside a
  mark is taken for JSON whatever follows.\<close>

theorem sniff_response_framing:
  "body_bytes (snd (sniff_response (chunks :: ('e + string) list))) = body_bytes chunks \<and>
   (classify_prefix (take sniff_limit (concat pieces)) = Some k \<and>
    (\<forall>n \<le> length pieces. \<not> cut_mark (concat (take n pieces))) \<longrightarrow>
      fst (sniff_response (List.map Inr pieces :: ('e + string) list)) = k) \<and>
   (cut_mark piece \<longrightarrow> fst (sniff_response (Inr piece # chunks)) = JsonBody)"
proof (intro conjI impI)
  obtain p err rest where "sniff_loop [] chunks = (p, err, rest)" by (metis prod.collapse)
  then show "body_bytes (snd (sniff_response chunks)) = body_bytes chunks"
    using sniff_loop_bytes [of "[]" chunks p err rest] by (auto simp: sniff_response_def split: option.splits)
next
  assume a: "classify_prefix (take sniff_limit (concat pieces)) = Some k \<and>
    (\<forall>n \<le> length pieces. \<not> cut_mark (concat (take n pieces)))"
  have cut: "\<not> cut_mark ([] @ concat (take n pieces))" for n
    using a by (cases "n \<le> length pieces") (auto simp: not_le dest: spec [of _ "length pieces"])
  have "\<not> cut_mark (take sniff_limit (concat pieces))"
    using cut [of "length pieces"]
    by (cases "length (concat pieces) \<le> sniff_limit") (auto simp: cut_mark_def byte_order_mark_def sniff_limit_def dest: arg_cong [of _ _ length])
  moreover obtain p err rest where l: "sniff_loop [] (List.map Inr pieces :: ('e + string) list) = (p, err, rest)" by (metis prod.collapse)
  moreover have "classify_prefix [] = None" by (simp add: classify_prefix_def byte_order_mark_def)
  ultimately have "classify_prefix p = Some k" using sniff_loop_kind [of "[]" pieces p err rest k] a cut by simp
  then show "fst (sniff_response (List.map Inr pieces :: ('e + string) list)) = k" by (simp add: sniff_response_def l)
next
  assume "cut_mark piece"
  then show "fst (sniff_response (Inr piece # chunks)) = JsonBody"
    by (simp add: sniff_response_def sniff_limit_def cut_mark_json)
qed

theorem sniff_response_framing_witness:
  "fst (sniff_response [Inr ''ev'', Inr ''ent: x'' :: unit + string]) = EventStream"
proof -
  have "classify_prefix (take sniff_limit (concat [''ev'', ''ent: x''])) = Some EventStream" by code_simp
  moreover have "\<forall>n \<le> length [''ev'', ''ent: x'']. \<not> cut_mark (concat (take n [''ev'', ''ent: x'']))"
    by (auto simp: cut_mark_def byte_order_mark_def take_Cons split: nat.splits)
  ultimately show ?thesis using sniff_response_framing [of "[] :: (unit + string) list" "[''ev'', ''ent: x'']" EventStream] by simp
qed

end
