(* ===== verification/StreamDelta.thy ===== *)
theory StreamDelta
  imports StreamText JsonCodec "HOL-Library.Sublist"
begin

text \<open>
  \<open>src/worker/stream_delta_batcher.rs\<close>: small text deltas of an event stream are held back and sent
  on as one event. Event chunks that are not text deltas pass through and first push out what is
  held. The JSON parser and printer are parameters; an \<open>Err\<close> is \<open>Inl\<close> of its message.

  The theorem compares what goes in with what comes out after merging runs of deltas that belong
  together, and says that nothing is held back once a limit is reached.
\<close>

subsection \<open>Events\<close>

record batching_settings =
  bt_enabled :: bool
  bt_flush_window_ms :: nat
  bt_max_buffer_chars :: nat
  bt_max_buffer_bytes :: nat
  bt_flush_on_line_break :: bool
  bt_flush_on_sentence_end :: bool

definition batching_default :: batching_settings where
  "batching_default =
     \<lparr>bt_enabled = False, bt_flush_window_ms = 50, bt_max_buffer_chars = 160, bt_max_buffer_bytes = 1024,
      bt_flush_on_line_break = True, bt_flush_on_sentence_end = False\<rparr>"

record batching_key =
  bk_event_type :: string
  bk_item_id :: string
  bk_output_index :: int
  bk_content_index :: int

definition sse_event :: "json_text \<Rightarrow> json \<Rightarrow> string + string" where
  "sse_event jt value =
     (case jt_print jt value of
        None \<Rightarrow> Inl ''failed to encode translated streaming event''
      | Some json \<Rightarrow> Inr (''data: '' @ json @ [newline, newline]))"

definition parse_sse_json_event :: "json_text \<Rightarrow> string \<Rightarrow> string + json option" where
  "parse_sse_json_event jt chunk =
     (case from_utf8 chunk of
        Inl _ \<Rightarrow> Inl ''stream chunk is not valid utf-8''
      | Inr content \<Rightarrow>
          let trimmed = trim content in
          if \<not> prefix ''data: '' trimmed \<or> trimmed = ''data: [DONE]'' then Inr None
          else
            (case jt_parse jt (drop 6 trimmed) of
               None \<Rightarrow> Inl ''invalid responses sse json event''
             | Some event \<Rightarrow> Inr (Some event)))"

definition extract_mergeable_text_delta :: "json \<Rightarrow> (batching_key \<times> string \<times> int option) option" where
  "extract_mergeable_text_delta event =
     Option.bind (Option.bind (json_get event ''type'') json_as_str) (\<lambda>event_type.
     if event_type \<noteq> ''response.output_text.delta'' \<and> event_type \<noteq> ''response.reasoning_text.delta'' then None
     else
       Option.bind (Option.bind (json_get event ''item_id'') json_as_str) (\<lambda>item_id.
       Option.bind (Option.bind (json_get event ''output_index'') json_as_i64) (\<lambda>output_index.
       Option.bind (Option.bind (json_get event ''content_index'') json_as_i64) (\<lambda>content_index.
       Option.bind (Option.bind (json_get event ''delta'') json_as_str) (\<lambda>delta.
       Some (\<lparr>bk_event_type = event_type, bk_item_id = item_id, bk_output_index = output_index,
              bk_content_index = content_index\<rparr>,
             delta, Option.bind (json_get event ''sequence_number'') json_as_i64))))))"

subsection \<open>Flush conditions\<close>

text \<open>\<open>chars().count()\<close> of well-formed text: every character starts with a non-continuation byte.\<close>

definition char_count :: "string \<Rightarrow> nat" where
  "char_count s = length (filter (\<lambda>c. \<not> cont_byte c) s)"

definition sentence_ends :: "string list" where
  "sentence_ends =
     [''.'', ''!'', ''?'', [CHR 0xE3, CHR 0x80, CHR 0x82], [CHR 0xEF, CHR 0xBC, CHR 0x81],
      [CHR 0xEF, CHR 0xBC, CHR 0x9F]]"

definition ends_with_sentence_boundary :: "string \<Rightarrow> bool" where
  "ends_with_sentence_boundary s = list_ex (\<lambda>e. suffix e s) sentence_ends"

definition should_flush_pending :: "batching_settings \<Rightarrow> string \<Rightarrow> bool" where
  "should_flush_pending settings delta =
     (if bt_max_buffer_chars settings \<le> char_count delta then True
      else if bt_max_buffer_bytes settings \<le> length delta then True
      else if bt_flush_on_line_break settings \<and> List.member delta newline then True
      else bt_flush_on_sentence_end settings \<and> ends_with_sentence_boundary delta)"

subsection \<open>The batcher\<close>

record pending_event =
  pe_key :: batching_key
  pe_payload :: json
  pe_delta :: string
  pe_last_sequence_number :: "int option"
  pe_started_at :: nat

record delta_batcher =
  db_settings :: batching_settings
  db_pending :: "pending_event option"

definition batcher_new :: "batching_settings \<Rightarrow> delta_batcher" where
  "batcher_new settings = \<lparr>db_settings = settings, db_pending = None\<rparr>"

definition flush_pending :: "json_text \<Rightarrow> delta_batcher \<Rightarrow> delta_batcher \<times> (string + string list)" where
  "flush_pending jt b =
     (case db_pending b of
        None \<Rightarrow> (b, Inr [])
      | Some pending \<Rightarrow>
          let payload =
                (case pe_last_sequence_number pending of
                   Some seq \<Rightarrow> json_set ''sequence_number'' (json_i64 seq) (pe_payload pending)
                 | None \<Rightarrow> pe_payload pending)
          in (b\<lparr>db_pending := None\<rparr>,
              (case sse_event jt payload of Inl e \<Rightarrow> Inl e | Inr event \<Rightarrow> Inr [event])))"

definition flush_due :: "json_text \<Rightarrow> nat \<Rightarrow> delta_batcher \<Rightarrow> delta_batcher \<times> (string + string list)" where
  "flush_due jt now b =
     (if \<not> bt_enabled (db_settings b) then (b, Inr [])
      else if is_some_and
                (\<lambda>pending. bt_flush_window_ms (db_settings b) * 1000000 \<le> now - pe_started_at pending)
                (db_pending b)
      then flush_pending jt b
      else (b, Inr []))"

text \<open>Flushing before something else is appended to the output.\<close>

definition flush_then ::
    "json_text \<Rightarrow> string list \<Rightarrow> delta_batcher \<Rightarrow> (delta_batcher \<Rightarrow> string list \<Rightarrow> delta_batcher \<times> (string + string list)) \<Rightarrow>
     delta_batcher \<times> (string + string list)" where
  "flush_then jt output b continue =
     (case flush_pending jt b of
        (b, Inl e) \<Rightarrow> (b, Inl e)
      | (b, Inr flushed) \<Rightarrow> continue b (output @ flushed))"

definition flush_if_full ::
    "json_text \<Rightarrow> string list \<Rightarrow> delta_batcher \<Rightarrow> delta_batcher \<times> (string + string list)" where
  "flush_if_full jt output b =
     (if is_some_and (\<lambda>pending. should_flush_pending (db_settings b) (pe_delta pending)) (db_pending b)
      then flush_then jt output b (\<lambda>b output. (b, Inr output))
      else (b, Inr output))"

definition merge_delta :: "pending_event \<Rightarrow> string \<Rightarrow> int option \<Rightarrow> pending_event" where
  "merge_delta pending delta sequence_number =
     (let text = pe_delta pending @ delta;
          pending = pending\<lparr>pe_delta := text\<rparr>;
          pending =
            (case sequence_number of
               Some seq \<Rightarrow>
                 pending\<lparr>pe_last_sequence_number := Some seq,
                         pe_payload := json_set ''sequence_number'' (json_i64 seq) (pe_payload pending)\<rparr>
             | None \<Rightarrow> pending)
      in pending\<lparr>pe_payload := json_set ''delta'' (JStr text) (pe_payload pending)\<rparr>)"

text \<open>\<open>push_chunk\<close>; the clock is read for the due test and again for a new pending event.\<close>

definition push_chunk ::
    "json_text \<Rightarrow> nat \<Rightarrow> nat \<Rightarrow> string \<Rightarrow> delta_batcher \<Rightarrow> delta_batcher \<times> (string + string list)" where
  "push_chunk jt now started chunk b =
     (if \<not> bt_enabled (db_settings b) then (b, Inr [chunk])
      else
        (case flush_due jt now b of
           (b, Inl e) \<Rightarrow> (b, Inl e)
         | (b, Inr output) \<Rightarrow>
             (case parse_sse_json_event jt chunk of
                Inl e \<Rightarrow> (b, Inl e)
              | Inr None \<Rightarrow> flush_then jt output b (\<lambda>b output. (b, Inr (output @ [chunk])))
              | Inr (Some event) \<Rightarrow>
                  (case extract_mergeable_text_delta event of
                     None \<Rightarrow> flush_then jt output b (\<lambda>b output. (b, Inr (output @ [chunk])))
                   | Some (key, delta, sequence_number) \<Rightarrow>
                       let fresh = \<lparr>pe_key = key, pe_payload = event, pe_delta = delta,
                                    pe_last_sequence_number = sequence_number, pe_started_at = started\<rparr> in
                       (case db_pending b of
                          Some pending \<Rightarrow>
                            if pe_key pending = key then
                              flush_if_full jt output
                                (b\<lparr>db_pending := Some (merge_delta pending delta sequence_number)\<rparr>)
                            else
                              flush_then jt output b
                                (\<lambda>b output. flush_if_full jt output (b\<lparr>db_pending := Some fresh\<rparr>))
                        | None \<Rightarrow> flush_if_full jt output (b\<lparr>db_pending := Some fresh\<rparr>))))))"

text \<open>
  What the forwarder does to a batcher: it pushes chunks, each with its two clock readings, and asks
  for a due flush when its timer fires.\<close>

datatype batch_input = StreamChunk nat nat string | TimerTick nat

fun batch_step :: "json_text \<Rightarrow> batch_input \<Rightarrow> delta_batcher \<Rightarrow> delta_batcher \<times> (string + string list)" where
  "batch_step jt (StreamChunk now started chunk) b = push_chunk jt now started chunk b"
| "batch_step jt (TimerTick now) b = flush_due jt now b"

fun stream_chunks :: "batch_input list \<Rightarrow> string list" where
  "stream_chunks [] = []"
| "stream_chunks (StreamChunk now started chunk # inputs) = chunk # stream_chunks inputs"
| "stream_chunks (TimerTick now # inputs) = stream_chunks inputs"

fun push_chunks ::
    "json_text \<Rightarrow> batch_input list \<Rightarrow> delta_batcher \<Rightarrow> delta_batcher \<times> (string + string list)" where
  "push_chunks jt [] b = (b, Inr [])"
| "push_chunks jt (input # inputs) b =
     (case batch_step jt input b of
        (b, Inl e) \<Rightarrow> (b, Inl e)
      | (b, Inr output) \<Rightarrow>
          (case push_chunks jt inputs b of
             (b, Inl e) \<Rightarrow> (b, Inl e)
           | (b, Inr output') \<Rightarrow> (b, Inr (output @ output'))))"

definition batch_stream ::
    "json_text \<Rightarrow> batch_input list \<Rightarrow> batching_settings \<Rightarrow> string + string list" where
  "batch_stream jt inputs settings =
     (case push_chunks jt inputs (batcher_new settings) of
        (b, Inl e) \<Rightarrow> Inl e
      | (b, Inr output) \<Rightarrow> map_sum id (\<lambda>flushed. output @ flushed) (snd (flush_pending jt b)))"

subsection \<open>What a stream says\<close>

text \<open>A chunk is a text delta or anything else; adjacent deltas of one key are one run of text with
  the last sequence number.\<close>

datatype stream_item = Text batching_key string "int option" | Raw string

definition item_of :: "json_text \<Rightarrow> string \<Rightarrow> stream_item" where
  "item_of jt chunk =
     (case parse_sse_json_event jt chunk of
        Inr (Some event) \<Rightarrow>
          (case extract_mergeable_text_delta event of
             Some (key, delta, seq) \<Rightarrow> Text key delta seq
           | None \<Rightarrow> Raw chunk)
      | _ \<Rightarrow> Raw chunk)"

fun add_item :: "stream_item list \<Rightarrow> stream_item \<Rightarrow> stream_item list" where
  "add_item items (Raw chunk) = items @ [Raw chunk]"
| "add_item items (Text key delta seq) =
     (case rev items of
        Text key' delta' seq' # rest \<Rightarrow>
          if key' = key then rev rest @ [Text key (delta' @ delta) (opt_or seq seq')]
          else items @ [Text key delta seq]
      | _ \<Rightarrow> items @ [Text key delta seq])"

definition runs :: "stream_item list \<Rightarrow> stream_item list" where
  "runs items = foldl add_item [] items"

lemma add_text_text:
  "add_item (add_item items (Text key d s)) (Text key d' s') = add_item items (Text key (d @ d') (opt_or s' s))"
  by (cases "rev items" rule: list.exhaust; cases "hd (rev items)") (auto simp: opt_or_def split: option.splits)

text \<open>
  What the batcher relies on in the JSON library: an integer read as \<open>i64\<close> is one, printing does not
  fail, and the text of a printed event is trimmed ASCII-safe UTF-8 that reads back with the same
  delta.\<close>

definition sequence_ok :: "json \<Rightarrow> bool" where
  "sequence_ok v \<longleftrightarrow>
     (case extract_mergeable_text_delta v of
        Some (key, delta, Some i) \<Rightarrow> i \<le> i64_max
      | _ \<Rightarrow> True)"

definition json_text_ok :: "json_text \<Rightarrow> bool" where
  "json_text_ok jt \<longleftrightarrow>
     (\<forall>v. sequence_ok v \<longrightarrow> (\<exists>t v'. jt_print jt v = Some t \<and> utf8_text t \<and>
        trim (''data: '' @ t @ [newline, newline]) = ''data: '' @ t \<and> t \<noteq> ''[DONE]'' \<and>
        jt_parse jt t = Some v' \<and> extract_mergeable_text_delta v' = extract_mergeable_text_delta v)) \<and>
     (\<forall>t v. jt_parse jt t = Some v \<longrightarrow> sequence_ok v)"

lemma ascii_utf8_text: "list_all (\<lambda>c. byte c < 0x80) s \<Longrightarrow> utf8_text s"
proof (induction s)
  case (Cons c s)
  then have "scalar_value (byte c)" "utf8_encode (byte c) = [c]"
    by (simp_all add: scalar_value_def utf8_encode_def byte_def)
  then show ?case using Cons utf8_text_append [OF utf8_text_encode, of "byte c" s] by simp
qed simp

lemma sse_event_item:
  assumes "json_text_ok jt" "extract_mergeable_text_delta v = Some (key, delta, seq)"
    and "\<forall>i. seq = Some i \<longrightarrow> i \<le> i64_max"
  shows "\<exists>chunk. sse_event jt v = Inr chunk \<and> item_of jt chunk = Text key delta seq"
proof -
  have "sequence_ok v" using assms(2,3) by (auto simp: sequence_ok_def split: option.splits)
  with assms(1) obtain t v' where t: "jt_print jt v = Some t" "utf8_text t"
    "trim (''data: '' @ t @ [newline, newline]) = ''data: '' @ t" "t \<noteq> ''[DONE]''"
    "jt_parse jt t = Some v'" "extract_mergeable_text_delta v' = extract_mergeable_text_delta v"
    unfolding json_text_ok_def by blast
  have "utf8_text (''data: '' @ t @ [newline, newline])"
    by (intro utf8_text_append t(2) ascii_utf8_text) (simp_all add: byte_def)
  then have "from_utf8 (''data: '' @ t @ [newline, newline]) = Inr (''data: '' @ t @ [newline, newline])"
    by (simp add: from_utf8_def utf8_text_iff Let_def)
  then have "parse_sse_json_event jt (''data: '' @ t @ [newline, newline]) = Inr (Some v')"
    using t(3,4,5) by (simp add: parse_sse_json_event_def Let_def)
  then show ?thesis using t(1,6) assms(2) by (simp add: sse_event_def item_of_def)
qed

subsection \<open>The pending event\<close>

definition pending_ok :: "delta_batcher \<Rightarrow> bool" where
  "pending_ok b \<longleftrightarrow>
     (\<forall>p. db_pending b = Some p \<longrightarrow>
        (\<exists>members. pe_payload p = JObj members) \<and>
        extract_mergeable_text_delta (pe_payload p) = Some (pe_key p, pe_delta p, pe_last_sequence_number p) \<and>
        (\<forall>i. pe_last_sequence_number p = Some i \<longrightarrow> i \<le> i64_max))"

definition pending_items :: "delta_batcher \<Rightarrow> stream_item list" where
  "pending_items b =
     (case db_pending b of
        None \<Rightarrow> []
      | Some p \<Rightarrow> [Text (pe_key p) (pe_delta p) (pe_last_sequence_number p)])"

lemma extract_Some:
  "extract_mergeable_text_delta event = Some (key, delta, seq) \<longleftrightarrow>
     (\<exists>oi ci. json_get event ''type'' = Some (JStr (bk_event_type key)) \<and>
        bk_event_type key \<in> {''response.output_text.delta'', ''response.reasoning_text.delta''} \<and>
        json_get event ''item_id'' = Some (JStr (bk_item_id key)) \<and>
        json_get event ''output_index'' = Some oi \<and> json_as_i64 oi = Some (bk_output_index key) \<and>
        json_get event ''content_index'' = Some ci \<and> json_as_i64 ci = Some (bk_content_index key) \<and>
        json_get event ''delta'' = Some (JStr delta) \<and>
        seq = Option.bind (json_get event ''sequence_number'') json_as_i64)"
  by (cases key) (auto simp: extract_mergeable_text_delta_def bind_eq_Some_conv json_as_str_Some split: if_splits)

lemma extract_obj: "extract_mergeable_text_delta event = Some x \<Longrightarrow> \<exists>members. event = JObj members"
  by (cases x; cases event) (auto simp: extract_Some)

lemma extract_set_seq:
  "extract_mergeable_text_delta (JObj members) = Some (key, delta, seq) \<Longrightarrow> i \<le> i64_max \<Longrightarrow>
     extract_mergeable_text_delta (json_set ''sequence_number'' (json_i64 i) (JObj members)) = Some (key, delta, Some i)"
  by (simp only: extract_Some json_get_set) (auto simp del: json_get_simps)

lemma extract_set_delta:
  "extract_mergeable_text_delta (JObj members) = Some (key, delta, seq) \<Longrightarrow>
     extract_mergeable_text_delta (json_set ''delta'' (JStr d) (JObj members)) = Some (key, d, seq)"
  by (simp only: extract_Some json_get_set) (auto simp del: json_get_simps)

lemma json_set_obj: "\<exists>members'. json_set k v (JObj members) = JObj members'"
  by (simp add: json_set_def)

lemma flush_pending_items:
  assumes "json_text_ok jt" "pending_ok b"
  shows "\<exists>out. flush_pending jt b = (b\<lparr>db_pending := None\<rparr>, Inr out) \<and> List.map (item_of jt) out = pending_items b"
proof (cases "db_pending b")
  case None
  then have "b\<lparr>db_pending := None\<rparr> = b" by simp
  then show ?thesis using None by (simp add: flush_pending_def pending_items_def)
next
  case (Some p)
  obtain members where p: "pe_payload p = JObj members"
    "extract_mergeable_text_delta (JObj members) = Some (pe_key p, pe_delta p, pe_last_sequence_number p)"
    "\<forall>i. pe_last_sequence_number p = Some i \<longrightarrow> i \<le> i64_max"
    using assms(2) Some by (auto simp: pending_ok_def)
  let ?payload = "case pe_last_sequence_number p of
    Some seq \<Rightarrow> json_set ''sequence_number'' (json_i64 seq) (pe_payload p) | None \<Rightarrow> pe_payload p"
  have "extract_mergeable_text_delta ?payload = Some (pe_key p, pe_delta p, pe_last_sequence_number p)"
    using p extract_set_seq [OF p(2)] by (auto split: option.splits)
  from sse_event_item [OF assms(1) this p(3)] show ?thesis
    by (auto simp: flush_pending_def Some Let_def pending_items_def)
qed

lemma flush_if_full_items:
  assumes "json_text_ok jt" "pending_ok b"
  shows "\<exists>b' out. flush_if_full jt output b = (b', Inr (output @ out)) \<and> pending_ok b' \<and>
    db_settings b' = db_settings b \<and> List.map (item_of jt) out @ pending_items b' = pending_items b \<and>
    (\<forall>p. db_pending b' = Some p \<longrightarrow> \<not> should_flush_pending (db_settings b) (pe_delta p))"
  using flush_pending_items [OF assms] assms(2)
  by (auto simp: flush_if_full_def flush_then_def is_some_and_iff pending_ok_def pending_items_def
      intro!: exI [of _ "[]"])

lemma merge_delta_ok:
  assumes "pending_ok b" "db_pending b = Some p" "\<forall>i. seq = Some i \<longrightarrow> i \<le> i64_max"
  shows "pending_ok (b\<lparr>db_pending := Some (merge_delta p delta seq)\<rparr>) \<and>
    pending_items (b\<lparr>db_pending := Some (merge_delta p delta seq)\<rparr>) =
      [Text (pe_key p) (pe_delta p @ delta) (opt_or seq (pe_last_sequence_number p))]"
proof -
  obtain members where p: "pe_payload p = JObj members"
    "extract_mergeable_text_delta (JObj members) = Some (pe_key p, pe_delta p, pe_last_sequence_number p)"
    "\<forall>i. pe_last_sequence_number p = Some i \<longrightarrow> i \<le> i64_max"
    using assms(1,2) by (auto simp: pending_ok_def)
  show ?thesis
  proof (cases seq)
    case None
    obtain members' where "json_set ''delta'' (JStr (pe_delta p @ delta)) (JObj members) = JObj members'"
      using json_set_obj by blast
    then show ?thesis using p None extract_set_delta [OF p(2), of "pe_delta p @ delta"]
      by (auto simp: merge_delta_def Let_def pending_ok_def pending_items_def)
  next
    case (Some i)
    obtain m1 where m1: "json_set ''sequence_number'' (json_i64 i) (JObj members) = JObj m1"
      using json_set_obj by blast
    then have "extract_mergeable_text_delta (JObj m1) = Some (pe_key p, pe_delta p, Some i)"
      using extract_set_seq [OF p(2), of i] assms(3) Some by simp
    moreover obtain m2 where "json_set ''delta'' (JStr (pe_delta p @ delta)) (JObj m1) = JObj m2"
      using json_set_obj by blast
    ultimately show ?thesis using p Some m1 extract_set_delta [of m1 _ _ _ "pe_delta p @ delta"] assms(3)
      by (fastforce simp: merge_delta_def Let_def pending_ok_def pending_items_def)
  qed
qed

lemma runs_append: "runs (xs @ ys) = foldl add_item (runs xs) ys"
  by (simp add: runs_def)

lemma flush_due_items:
  assumes "json_text_ok jt" "pending_ok b"
  shows "\<exists>b' out. flush_due jt now b = (b', Inr out) \<and> pending_ok b' \<and> db_settings b' = db_settings b \<and>
    List.map (item_of jt) out @ pending_items b' = pending_items b \<and>
    (db_pending b' = None \<or> b' = b)"
  using flush_pending_items [OF assms] assms(2)
  by (auto simp: flush_due_def pending_ok_def pending_items_def)

definition held_back :: "delta_batcher \<Rightarrow> bool" where
  "held_back b \<longleftrightarrow> (\<forall>p. db_pending b = Some p \<longrightarrow> \<not> should_flush_pending (db_settings b) (pe_delta p))"

lemma fresh_ok:
  assumes "json_text_ok jt" "parse_sse_json_event jt chunk = Inr (Some event)"
    "extract_mergeable_text_delta event = Some (key, delta, seq)"
  shows "pending_ok (b\<lparr>db_pending := Some \<lparr>pe_key = key, pe_payload = event, pe_delta = delta,
      pe_last_sequence_number = seq, pe_started_at = started\<rparr>\<rparr>) \<and> (\<forall>i. seq = Some i \<longrightarrow> i \<le> i64_max)"
proof -
  obtain t where "jt_parse jt t = Some event"
    using assms(2) by (auto simp: parse_sse_json_event_def Let_def split: sum.splits if_splits option.splits)
  then have "sequence_ok event" using assms(1) by (auto simp: json_text_ok_def)
  then show ?thesis using assms(3) extract_obj [OF assms(3)] by (auto simp: pending_ok_def sequence_ok_def)
qed

lemma foldl_parts: "xs @ ys = zs \<Longrightarrow> foldl f (foldl f a xs) ys = foldl f a zs"
  by auto

lemma push_chunk_items:
  assumes "json_text_ok jt" "pending_ok b" "bt_enabled (db_settings b)"
  shows "case push_chunk jt now started chunk b of
      (b', Inl e) \<Rightarrow> \<exists>e. parse_sse_json_event jt chunk = Inl e
    | (b', Inr out) \<Rightarrow> (\<exists>event. parse_sse_json_event jt chunk = Inr event) \<and>
        pending_ok b' \<and> db_settings b' = db_settings b \<and> held_back b' \<and>
        (\<forall>items. foldl add_item items (List.map (item_of jt) out @ pending_items b') =
           foldl add_item items (pending_items b @ [item_of jt chunk]))"
proof -
  obtain b1 out1 where due: "flush_due jt now b = (b1, Inr out1)" "pending_ok b1" "db_settings b1 = db_settings b"
    "List.map (item_of jt) out1 @ pending_items b1 = pending_items b"
    using flush_due_items [OF assms(1,2)] by blast
  obtain out2 where flush: "flush_pending jt b1 = (b1\<lparr>db_pending := None\<rparr>, Inr out2)"
    "List.map (item_of jt) out2 = pending_items b1"
    using flush_pending_items [OF assms(1) due(2)] by blast
  have cleared: "pending_ok (b1\<lparr>db_pending := None\<rparr>)" "pending_items (b1\<lparr>db_pending := None\<rparr>) = []"
    by (simp_all add: pending_ok_def pending_items_def)
  show ?thesis
  proof (cases "parse_sse_json_event jt chunk")
    case (Inl e)
    then show ?thesis using assms(3) due(1) by (simp add: push_chunk_def)
  next
    case (Inr event)
    show ?thesis
    proof (cases "Option.bind event extract_mergeable_text_delta")
      case None
      then have "item_of jt chunk = Raw chunk"
        and "push_chunk jt now started chunk b = (b1\<lparr>db_pending := None\<rparr>, Inr (out1 @ out2 @ [chunk]))"
        using Inr assms(3) due(1) flush(1)
        by (auto simp: item_of_def push_chunk_def flush_then_def split: option.splits)
      then show ?thesis
        using Inr due flush(2) cleared by (simp add: held_back_def flip: due(4))
    next
      case (Some x)
      then obtain v key delta seq where e: "event = Some v" "extract_mergeable_text_delta v = Some (key, delta, seq)"
        by (cases event; cases x) auto
      have item: "item_of jt chunk = Text key delta seq" using Inr e by (simp add: item_of_def)
      let ?fresh = "\<lparr>pe_key = key, pe_payload = v, pe_delta = delta, pe_last_sequence_number = seq,
        pe_started_at = started\<rparr>"
      note fresh = fresh_ok [OF assms(1) Inr [unfolded e(1)] e(2)]
      have unfold_push: "push_chunk jt now started chunk b =
        (case db_pending b1 of
           Some p \<Rightarrow>
             if pe_key p = key then flush_if_full jt out1 (b1\<lparr>db_pending := Some (merge_delta p delta seq)\<rparr>)
             else flush_if_full jt (out1 @ out2) (b1\<lparr>db_pending := Some ?fresh\<rparr>)
         | None \<Rightarrow> flush_if_full jt out1 (b1\<lparr>db_pending := Some ?fresh\<rparr>))"
        using Inr e assms(3) due(1,3) flush(1)
        by (auto simp: push_chunk_def flush_then_def split: option.splits)
      have fresh_items: "pending_items (b1\<lparr>db_pending := Some ?fresh\<rparr>) = [Text key delta seq]"
        by (simp add: pending_items_def)
      show ?thesis
      proof (cases "\<exists>p. db_pending b1 = Some p \<and> pe_key p = key")
        case True
        then obtain p where p: "db_pending b1 = Some p" "pe_key p = key" by blast
        note merged = merge_delta_ok [OF due(2) p(1), of seq delta]
        from flush_if_full_items [OF assms(1), of "b1\<lparr>db_pending := Some (merge_delta p delta seq)\<rparr>" out1]
        obtain b' out where "push_chunk jt now started chunk b = (b', Inr (out1 @ out))" "pending_ok b'"
          "db_settings b' = db_settings b" "held_back b'"
          "List.map (item_of jt) out @ pending_items b' =
            [Text key (pe_delta p @ delta) (opt_or seq (pe_last_sequence_number p))]"
          using merged fresh p unfold_push due(3) by (auto simp: held_back_def)
        moreover have "pending_items b1 = [Text key (pe_delta p) (pe_last_sequence_number p)]"
          using p by (simp add: pending_items_def)
        moreover note foldl_parts [OF calculation(5), of add_item]
        ultimately show ?thesis
          using Inr by (simp add: item add_text_text flip: due(4) del: add_item.simps)
      next
        case False
        then obtain o' where o': "push_chunk jt now started chunk b =
            flush_if_full jt (out1 @ o') (b1\<lparr>db_pending := Some ?fresh\<rparr>)"
          "List.map (item_of jt) o' = pending_items b1"
          using unfold_push flush(2) by (cases "db_pending b1") (auto simp: pending_items_def)
        from flush_if_full_items [OF assms(1), of "b1\<lparr>db_pending := Some ?fresh\<rparr>" "out1 @ o'"]
        obtain b' out where "push_chunk jt now started chunk b = (b', Inr ((out1 @ o') @ out))" "pending_ok b'"
          "db_settings b' = db_settings b" "held_back b'"
          "List.map (item_of jt) out @ pending_items b' = [Text key delta seq]"
          using fresh fresh_items o'(1) due(3) by (auto simp: held_back_def)
        moreover note foldl_parts [OF calculation(5), of add_item]
        ultimately show ?thesis using Inr o'(2) by (simp add: item flip: due(4) del: add_item.simps)
      qed
    qed
  qed
qed

lemma batch_step_items:
  assumes "json_text_ok jt" "pending_ok b" "bt_enabled (db_settings b)" "held_back b"
  shows "case batch_step jt input b of
      (b', Inl e) \<Rightarrow> \<exists>chunk \<in> set (stream_chunks [input]). \<exists>e. parse_sse_json_event jt chunk = Inl e
    | (b', Inr out) \<Rightarrow> (\<forall>chunk \<in> set (stream_chunks [input]). \<exists>event. parse_sse_json_event jt chunk = Inr event) \<and>
        pending_ok b' \<and> db_settings b' = db_settings b \<and> held_back b' \<and>
        (\<forall>items. foldl add_item items (List.map (item_of jt) out @ pending_items b') =
           foldl add_item items (pending_items b @ List.map (item_of jt) (stream_chunks [input])))"
proof (cases input)
  case (StreamChunk now started chunk)
  then show ?thesis using push_chunk_items [OF assms(1-3), where now = now and started = started and chunk = chunk] by (simp split: prod.splits sum.splits)
next
  case (TimerTick now)
  obtain b' out where "flush_due jt now b = (b', Inr out)" "pending_ok b'" "db_settings b' = db_settings b"
    "List.map (item_of jt) out @ pending_items b' = pending_items b" "db_pending b' = None \<or> b' = b"
    using flush_due_items [OF assms(1,2)] by blast
  moreover note foldl_parts [OF calculation(4), of add_item]
  ultimately show ?thesis using assms(4) TimerTick by (auto simp: held_back_def)
qed

lemma push_chunks_items:
  assumes "json_text_ok jt" "pending_ok b" "bt_enabled (db_settings b)" "held_back b"
  shows "case push_chunks jt inputs b of
      (b', Inl e) \<Rightarrow> \<exists>chunk \<in> set (stream_chunks inputs). \<exists>e. parse_sse_json_event jt chunk = Inl e
    | (b', Inr out) \<Rightarrow> (\<forall>chunk \<in> set (stream_chunks inputs). \<exists>event. parse_sse_json_event jt chunk = Inr event) \<and>
        pending_ok b' \<and> db_settings b' = db_settings b \<and> held_back b' \<and>
        (\<forall>items. foldl add_item items (List.map (item_of jt) out @ pending_items b') =
           foldl add_item items (pending_items b @ List.map (item_of jt) (stream_chunks inputs)))"
  using assms(2-)
proof (induction inputs arbitrary: b)
  case Nil
  then show ?case by simp
next
  case (Cons input inputs)
  note step = batch_step_items [OF assms(1) Cons.prems, of input]
  have split_input: "stream_chunks (input # inputs) = stream_chunks [input] @ stream_chunks inputs" by (cases input) simp_all
  show ?case
  proof (cases "batch_step jt input b")
    case (Pair b1 r)
    show ?thesis
    proof (cases r)
      case (Inl e)
      then show ?thesis using step Pair unfolding split_input by auto
    next
      case (Inr out1)
      then have "pending_ok b1" "db_settings b1 = db_settings b" "held_back b1"
        "\<forall>chunk \<in> set (stream_chunks [input]). \<exists>event. parse_sse_json_event jt chunk = Inr event"
        "\<And>items. foldl add_item items (List.map (item_of jt) out1 @ pending_items b1) =
           foldl add_item items (pending_items b @ List.map (item_of jt) (stream_chunks [input]))"
        using step Pair by auto
      moreover note Cons.IH [of b1]
      ultimately show ?thesis
        using Pair Inr Cons.prems(2) unfolding split_input
        by (auto split: prod.splits sum.splits)
    qed
  qed
qed

lemma runs_of_enabled:
  assumes "json_text_ok jt" "bt_enabled settings"
  shows "case batch_stream jt inputs settings of
      Inl e \<Rightarrow> \<exists>chunk \<in> set (stream_chunks inputs). \<exists>e. parse_sse_json_event jt chunk = Inl e
    | Inr out \<Rightarrow> (\<forall>chunk \<in> set (stream_chunks inputs). \<exists>event. parse_sse_json_event jt chunk = Inr event) \<and>
        runs (List.map (item_of jt) out) = runs (List.map (item_of jt) (stream_chunks inputs))"
proof -
  have start: "pending_ok (batcher_new settings)" "held_back (batcher_new settings)"
    "db_settings (batcher_new settings) = settings" "pending_items (batcher_new settings) = []"
    by (simp_all add: batcher_new_def pending_ok_def held_back_def pending_items_def)
  note run = push_chunks_items [OF assms(1) start(1) _ start(2), of inputs, unfolded start(3,4), OF assms(2)]
  obtain b r where p: "push_chunks jt inputs (batcher_new settings) = (b, r)" by fastforce
  show ?thesis
  proof (cases r)
    case (Inl e)
    then show ?thesis using run p by (simp add: batch_stream_def)
  next
    case (Inr out)
    then have "pending_ok b" using run p by simp
    then obtain out' where "flush_pending jt b = (b\<lparr>db_pending := None\<rparr>, Inr out')"
      "List.map (item_of jt) out' = pending_items b"
      using flush_pending_items [OF assms(1)] by blast
    then show ?thesis using run p Inr by (simp add: batch_stream_def runs_def)
  qed
qed

text \<open>The limits on what is held back: its size, its last character, its age at a clock reading.\<close>

definition within_limits :: "batching_settings \<Rightarrow> string \<Rightarrow> bool" where
  "within_limits settings delta \<longleftrightarrow>
     char_count delta < bt_max_buffer_chars settings \<and> length delta < bt_max_buffer_bytes settings \<and>
     (if bt_flush_on_line_break settings then newline \<notin> set delta else True) \<and>
     (if bt_flush_on_sentence_end settings then \<not> (\<exists>e \<in> set sentence_ends. suffix e delta) else True)"

definition young :: "batching_settings \<Rightarrow> nat \<Rightarrow> pending_event \<Rightarrow> bool" where
  "young settings now p \<longleftrightarrow> now - pe_started_at p < bt_flush_window_ms settings * 1000000"

lemma within_limits_iff: "within_limits settings delta \<longleftrightarrow> \<not> should_flush_pending settings delta"
  by (auto simp: within_limits_def should_flush_pending_def ends_with_sentence_boundary_def list_ex_iff)

lemma flush_due_young:
  assumes "flush_due jt now b = (b', Inr out)" "bt_enabled (db_settings b)" "db_pending b' = Some p"
  shows "b' = b \<and> young (db_settings b) now p"
  using assms by (auto simp: flush_due_def flush_pending_def young_def Let_def is_some_and_iff split: if_splits option.splits)

lemma flush_if_full_pending: "flush_if_full jt out b = (b', r) \<Longrightarrow> db_pending b' = Some p \<Longrightarrow> db_pending b = Some p"
  by (auto simp: flush_if_full_def flush_then_def flush_pending_def Let_def split: if_splits option.splits sum.splits prod.splits)

lemma push_chunk_young:
  assumes "push_chunk jt now started chunk b = (b', Inr out)" "bt_enabled (db_settings b)" "db_pending b' = Some p"
  shows "pe_started_at p = started \<or> young (db_settings b) now p"
proof -
  obtain b1 out1 where d: "flush_due jt now b = (b1, Inr out1)" using assms(1,2) by (auto simp: push_chunk_def split: prod.splits sum.splits)
  have y: "young (db_settings b) now q" if "db_pending b1 = Some q" for q using flush_due_young [OF d assms(2) that] by simp
  have m: "pe_started_at (merge_delta q delta seq) = pe_started_at q" for q delta seq
    by (simp add: merge_delta_def Let_def split: option.split)
  have cleared: "flush_pending jt c = (c', r) \<Longrightarrow> db_pending c' = None" for c c' r
    by (auto simp: flush_pending_def Let_def split: option.splits)
  show ?thesis
    using assms y
    by (auto simp: push_chunk_def d flush_then_def Let_def m young_def
        dest!: flush_if_full_pending cleared split: sum.splits option.splits prod.splits if_splits)
qed

text \<open>
  C16: Batching changes no text. A disabled batcher passes every chunk on as it came. An enabled one
  fails exactly when some chunk is not UTF-8 or announces data that is not JSON; otherwise the
  stream that comes out, after joining adjacent deltas of one item, says the same as the stream that
  went in: every other chunk unchanged and in place, the same text for every run of deltas, with the
  last sequence number of the run, wherever the timer fires between chunks. Nothing is held back past a
  limit: at any time the pending text is below the limits on characters and bytes and, where the settings
  ask for it, holds no line break and ends no sentence; after the timer, and after a chunk that did not
  start a new pending text, it is younger than the flush window.\<close>

theorem batching_preserves_stream:
  assumes "json_text_ok jt"
  shows "(\<not> bt_enabled settings \<longrightarrow> batch_stream jt inputs settings = Inr (stream_chunks inputs)) \<and>
    (bt_enabled settings \<longrightarrow>
      (case batch_stream jt inputs settings of
         Inl e \<Rightarrow> \<exists>chunk \<in> set (stream_chunks inputs). \<exists>e. parse_sse_json_event jt chunk = Inl e
       | Inr out \<Rightarrow> (\<forall>chunk \<in> set (stream_chunks inputs). \<exists>event. parse_sse_json_event jt chunk = Inr event) \<and>
           runs (List.map (item_of jt) out) = runs (List.map (item_of jt) (stream_chunks inputs))) \<and>
      (\<forall>b out p. push_chunks jt inputs (batcher_new settings) = (b, Inr out) \<longrightarrow> db_pending b = Some p \<longrightarrow>
         within_limits settings (pe_delta p)) \<and>
      (\<forall>b input b' out p. batch_step jt input b = (b', Inr out) \<longrightarrow> db_settings b = settings \<longrightarrow> db_pending b' = Some p \<longrightarrow>
         (case input of
            TimerTick now \<Rightarrow> young settings now p
          | StreamChunk now started chunk \<Rightarrow> pe_started_at p = started \<or> young settings now p)))"
proof -
  have start: "pending_ok (batcher_new settings)" "held_back (batcher_new settings)"
    "db_settings (batcher_new settings) = settings"
    by (simp_all add: batcher_new_def pending_ok_def held_back_def)
  have "push_chunks jt inputs b = (b, Inr (stream_chunks inputs))" if "\<not> bt_enabled (db_settings b)" for b
    using that by (induction inputs rule: stream_chunks.induct) (auto simp: push_chunk_def flush_due_def)
  then have "batch_stream jt inputs settings = Inr (stream_chunks inputs)" if "\<not> bt_enabled settings"
    using that start(3) by (simp add: batch_stream_def) (simp add: flush_pending_def batcher_new_def)
  moreover have "within_limits settings (pe_delta p)"
    if "bt_enabled settings" "push_chunks jt inputs (batcher_new settings) = (b, Inr out)" "db_pending b = Some p" for b out p
    using push_chunks_items [OF assms start(1) _ start(2), of inputs, unfolded start(3), OF that(1)] that(2,3)
    by (auto simp: held_back_def within_limits_iff)
  moreover have "case input of TimerTick now \<Rightarrow> young settings now p
      | StreamChunk now started chunk \<Rightarrow> pe_started_at p = started \<or> young settings now p"
    if "bt_enabled settings" "batch_step jt input b = (b', Inr out)" "db_settings b = settings" "db_pending b' = Some p"
    for b input b' out p
    using that flush_due_young push_chunk_young by (cases input) (simp, blast, simp, blast)
  ultimately show ?thesis using runs_of_enabled [OF assms, of settings inputs] by blast
qed

subsection \<open>A concrete JSON library\<close>

text \<open>
  A printer of deltas and a parser that reads them back, to show that the hypothesis can hold:
  strings are written byte by byte with an ASCII letter in front, integers as a sign and strokes.\<close>

definition demo_int :: "int \<Rightarrow> string" where
  "demo_int i = (if i < 0 then CHR ''-'' else CHR ''+'') # replicate (nat \<bar>i\<bar>) CHR ''1''"

definition demo_read_int :: "string \<Rightarrow> int" where
  "demo_read_int s = (case s of c # r \<Rightarrow> if c = CHR ''-'' then - int (length r) else int (length r) | [] \<Rightarrow> 0)"

lemma demo_read_int [simp]: "demo_read_int (demo_int i) = i"
  by (simp add: demo_read_int_def demo_int_def)

definition demo_fields :: "batching_key \<Rightarrow> string \<Rightarrow> int option \<Rightarrow> string list" where
  "demo_fields key delta seq =
     [bk_event_type key, bk_item_id key, demo_int (bk_output_index key), demo_int (bk_content_index key), delta] @
     (case seq of None \<Rightarrow> [] | Some i \<Rightarrow> [demo_int i])"

definition demo_print :: "json \<Rightarrow> string option" where
  "demo_print v =
     (case extract_mergeable_text_delta v of
        None \<Rightarrow> Some ''null''
      | Some (key, delta, seq) \<Rightarrow> Some (concat (List.map demo_quote (demo_fields key delta seq)) @ ''e''))"

definition demo_event :: "string \<Rightarrow> string \<Rightarrow> int \<Rightarrow> int \<Rightarrow> string \<Rightarrow> int option \<Rightarrow> json" where
  "demo_event ty item oi ci delta seq =
     JObj ([(''type'', JStr ty), (''item_id'', JStr item), (''output_index'', JNum (NumI64 oi)),
            (''content_index'', JNum (NumI64 ci)), (''delta'', JStr delta)] @
           (case seq of None \<Rightarrow> [] | Some i \<Rightarrow> [(''sequence_number'', JNum (NumI64 i))]))"

definition demo_parse :: "string \<Rightarrow> json option" where
  "demo_parse t =
     (if t = ''null'' then Some JNull
      else
        let (ty, t) = demo_unquote t; (item, t) = demo_unquote t; (oi, t) = demo_unquote t;
            (ci, t) = demo_unquote t; (delta, t) = demo_unquote t;
            seq = (if t = ''e'' then None else Some (demo_read_int (fst (demo_unquote t))))
        in if (case seq of Some i \<Rightarrow> i \<le> i64_max | None \<Rightarrow> True)
           then Some (demo_event ty item (demo_read_int oi) (demo_read_int ci) delta seq) else None)"

definition demo_json_text :: json_text where
  "demo_json_text = \<lparr>jt_parse = demo_parse, jt_print = demo_print\<rparr>"

lemma extract_demo_event:
  "extract_mergeable_text_delta (demo_event ty item oi ci delta seq) =
     (if ty \<in> {''response.output_text.delta'', ''response.reasoning_text.delta''}
      then Some (\<lparr>bk_event_type = ty, bk_item_id = item, bk_output_index = oi, bk_content_index = ci\<rparr>, delta, seq)
      else None)"
  by (simp add: extract_mergeable_text_delta_def demo_event_def json_as_i64_def split: option.split)

lemma trim_event:
  assumes "t = u @ [c]" "byte c < 0x80" "\<not> ws1 c"
  shows "trim (''data: '' @ t @ [newline, newline]) = ''data: '' @ t"
proof -
  have nl: "trim_end (x @ [newline]) = trim_end x" for x
    by (cases "rev x"; cases "tl (rev x)") (auto simp: trim_end_def ws1_def byte_def)
  have c: "trim_end (x @ [c]) = x @ [c]" for x
    using assms(2,3) by (cases "rev x"; cases "tl (rev x)") (auto simp: trim_end_def ws2_def ws3_def)
  have "trim_start (''data: '' @ x) = ''data: '' @ x" for x
    by (simp add: trim_start_def ws1_def ws2_def ws3_def byte_def)
  then show ?thesis
    using nl [of "''data: '' @ u @ [c, newline]"] nl [of "''data: '' @ u @ [c]"] c [of "''data: '' @ u"]
    by (simp add: trim_def assms(1))
qed

lemma demo_parse_fields:
  assumes "t = concat (List.map demo_quote (demo_fields key delta seq)) @ ''e''" "t \<noteq> ''null''"
    and "\<forall>i. seq = Some i \<longrightarrow> i \<le> i64_max"
  shows "demo_parse t =
    Some (demo_event (bk_event_type key) (bk_item_id key) (bk_output_index key) (bk_content_index key) delta seq)"
proof -
  have ne: "demo_quote s \<noteq> []" for s by (cases s) auto
  have u: "demo_unquote (demo_quote s @ r) = (s, r)" for s r by (rule demo_unquote_quote)
  have "demo_parse t =
     (let (ty, t) = demo_unquote t; (item, t) = demo_unquote t; (oi, t) = demo_unquote t;
          (ci, t) = demo_unquote t; (delta, t) = demo_unquote t;
          seq = (if t = ''e'' then None else Some (demo_read_int (fst (demo_unquote t))))
      in if (case seq of Some i \<Rightarrow> i \<le> i64_max | None \<Rightarrow> True)
         then Some (demo_event ty item (demo_read_int oi) (demo_read_int ci) delta seq) else None)"
    using assms(2) by (simp only: demo_parse_def if_False)
  then show ?thesis
    using assms(3) by (cases seq) (simp_all add: assms(1) demo_fields_def u ne)
qed

lemma demo_json_text_ok: "json_text_ok demo_json_text"
proof -
  have "\<exists>t v'. demo_print v = Some t \<and> utf8_text t \<and>
      trim (''data: '' @ t @ [newline, newline]) = ''data: '' @ t \<and> t \<noteq> ''[DONE]'' \<and>
      demo_parse t = Some v' \<and> extract_mergeable_text_delta v' = extract_mergeable_text_delta v"
    if ok: "sequence_ok v" for v
  proof (cases "extract_mergeable_text_delta v")
    case None
    moreover have "extract_mergeable_text_delta JNull = None" by (simp add: extract_mergeable_text_delta_def)
    moreover have "utf8_text ''null''" by (rule ascii_utf8_text) (simp add: byte_def)
    moreover have "trim (''data: '' @ ''null'' @ [newline, newline]) = ''data: '' @ ''null''"
      by (rule trim_event [of "''null''" "''nul''" "CHR ''l''"]) (simp_all add: ws1_def byte_def)
    ultimately show ?thesis by (simp add: demo_print_def demo_parse_def)
  next
    case (Some x)
    then obtain key delta seq where e: "extract_mergeable_text_delta v = Some (key, delta, seq)" by (cases x) auto
    let ?t = "concat (List.map demo_quote (demo_fields key delta seq)) @ ''e''"
    have seq: "\<forall>i. seq = Some i \<longrightarrow> i \<le> i64_max" using ok e by (auto simp: sequence_ok_def split: option.splits)
    have ty: "bk_event_type key \<in> {''response.output_text.delta'', ''response.reasoning_text.delta''}"
      using e by (auto simp: extract_Some)
    then have "hd (demo_quote (bk_event_type key)) = CHR ''a''" "demo_quote (bk_event_type key) \<noteq> []"
      by (auto simp: byte_def)
    then have ne: "?t \<noteq> ''null''" "?t \<noteq> ''[DONE]''" by (auto simp: demo_fields_def dest: arg_cong [of _ _ hd])
    have "\<exists>v'. demo_parse ?t = Some v' \<and> extract_mergeable_text_delta v' = Some (key, delta, seq)"
      using ty by (simp add: demo_parse_fields [OF refl ne(1) seq] extract_demo_event)
    moreover have "list_all (\<lambda>c. byte c < 0x80) ?t"
      using demo_quote_ascii by (auto simp: list_all_iff byte_def)
    then have "utf8_text ?t" by (rule ascii_utf8_text)
    moreover have "trim (''data: '' @ ?t @ [newline, newline]) = ''data: '' @ ?t"
      by (rule trim_event [OF refl]) (simp_all add: ws1_def byte_def)
    ultimately show ?thesis using e ne(2) by (auto simp: demo_print_def)
  qed
  moreover have "sequence_ok v" if "demo_parse t = Some v" for t v
    using that by (auto simp: demo_parse_def sequence_ok_def Let_def extract_demo_event
        extract_mergeable_text_delta_def [of JNull] split: prod.splits if_splits option.splits)
  ultimately show ?thesis by (simp add: json_text_ok_def demo_json_text_def)
qed

definition demo_delta :: "string \<Rightarrow> int \<Rightarrow> string" where
  "demo_delta delta seq =
     ''data: '' @ concat (List.map demo_quote
        (demo_fields \<lparr>bk_event_type = ''response.output_text.delta'', bk_item_id = ''m'', bk_output_index = 0,
           bk_content_index = 0\<rparr> delta (Some seq))) @ ''e'' @ [newline, newline]"

definition demo_inputs :: "batch_input list" where
  "demo_inputs =
     [StreamChunk 0 0 (demo_delta ''hel'' 3), TimerTick 1, StreamChunk 1 1 (demo_delta ''lo'' 4), StreamChunk 2 2 ''data: [DONE]'']"

lemma demo_items:
  "List.map (item_of demo_json_text) (stream_chunks demo_inputs) =
     [Text \<lparr>bk_event_type = ''response.output_text.delta'', bk_item_id = ''m'', bk_output_index = 0, bk_content_index = 0\<rparr>
        ''hel'' (Some 3),
      Text \<lparr>bk_event_type = ''response.output_text.delta'', bk_item_id = ''m'', bk_output_index = 0, bk_content_index = 0\<rparr>
        ''lo'' (Some 4),
      Raw ''data: [DONE]'']"
  by code_simp

lemma demo_no_error: "\<forall>chunk \<in> set (stream_chunks demo_inputs). isl (parse_sse_json_event demo_json_text chunk) = False"
  by code_simp

theorem batching_preserves_stream_witness:
  "json_text_ok demo_json_text \<and>
   (case batch_stream demo_json_text demo_inputs (batching_default\<lparr>bt_enabled := True\<rparr>) of
      Inl e \<Rightarrow> False
    | Inr out \<Rightarrow> runs (List.map (item_of demo_json_text) out) =
        [Text \<lparr>bk_event_type = ''response.output_text.delta'', bk_item_id = ''m'', bk_output_index = 0,
               bk_content_index = 0\<rparr> ''hello'' (Some 4),
         Raw ''data: [DONE]''])"
  using batching_preserves_stream [OF demo_json_text_ok, of "batching_default\<lparr>bt_enabled := True\<rparr>" demo_inputs]
    demo_no_error demo_json_text_ok
  by (auto simp: demo_items runs_def batching_default_def split: sum.splits)

end
