(* ===== verification/ToolCallRepair.thy ===== *)
theory ToolCallRepair
  imports ChatText StreamText ActiveWindows JsonCodec "HOL-Library.Sublist"
begin

text \<open>
  \<open>src/openai_compat/response_items/tool_call_repair.rs\<close>: tool call arguments that are not JSON are
  read again from the markup some models write into their text. The standard library's parsers of
  numbers are spelled out; the JSON library is a parameter. The two zeros of a float are one value.
\<close>

subsection \<open>Texts and numbers of the standard library\<close>

text \<open>\<open>find\<close> of a nonempty pattern: what comes before and after its first occurrence.\<close>

fun split_str :: "string \<Rightarrow> string \<Rightarrow> (string \<times> string) option" where
  "split_str pat [] = None"
| "split_str pat (c # s) =
     (if prefix pat (c # s) then Some ([], drop (length pat) (c # s))
      else map_option (\<lambda>(before, after). (c # before, after)) (split_str pat s))"

lemma split_str_Some: "split_str pat s = Some (a, b) \<Longrightarrow> s = a @ pat @ b"
  by (induction s arbitrary: a) (auto split: if_splits elim!: prefixE)

lemma split_str_length: "split_str pat s = Some (a, b) \<Longrightarrow> length s = length a + length pat + length b"
  using split_str_Some [of pat s a b] by simp

text \<open>\<open>str::parse\<close> for \<open>i64\<close>, \<open>u64\<close> and \<open>f64\<close>.\<close>

definition parse_digits :: "string \<Rightarrow> nat option" where
  "parse_digits s = (if s \<noteq> [] \<and> list_all is_ascii_digit s then Some (digits_value s) else None)"

definition parse_i64 :: "string \<Rightarrow> int option" where
  "parse_i64 s =
     Option.bind
       (case s of
          [] \<Rightarrow> None
        | c # t \<Rightarrow>
            if c = CHR ''-'' then map_option (\<lambda>n. - int n) (parse_digits t)
            else map_option int (parse_digits (if c = CHR ''+'' then t else s)))
       (\<lambda>i. if i64_min \<le> i \<and> i \<le> i64_max then Some i else None)"

definition parse_u64 :: "string \<Rightarrow> nat option" where
  "parse_u64 s =
     Option.bind (parse_digits (case s of c # t \<Rightarrow> if c = CHR ''+'' then t else s | [] \<Rightarrow> s))
       (\<lambda>n. if n \<le> u64_max then Some n else None)"

definition strip_sign :: "string \<Rightarrow> bool \<times> string" where
  "strip_sign s =
     (case s of
        c # t \<Rightarrow> if c = CHR ''-'' then (True, t) else if c = CHR ''+'' then (False, t) else (False, s)
      | [] \<Rightarrow> (False, s))"

definition parse_exponent :: "string \<Rightarrow> int option" where
  "parse_exponent s =
     (case s of
        [] \<Rightarrow> Some 0
      | c # t \<Rightarrow>
          if c = CHR ''e'' \<or> c = CHR ''E''
          then (let (neg, digits) = strip_sign t in
                map_option (\<lambda>n. if neg then - int n else int n) (parse_digits digits))
          else None)"

definition parse_f64 :: "string \<Rightarrow> f64 option" where
  "parse_f64 s =
     (let (neg, t) = strip_sign s;
          whole = takeWhile is_ascii_digit t;
          rest = dropWhile is_ascii_digit t;
          pointed = (rest \<noteq> [] \<and> hd rest = CHR ''.'');
          fraction = (if pointed then takeWhile is_ascii_digit (tl rest) else []);
          tail = (if pointed then dropWhile is_ascii_digit (tl rest) else rest)
      in
        if list_ex (\<lambda>word. eq_ignore_ascii_case t word) [''inf'', ''infinity''] then Some (Inf neg)
        else if eq_ignore_ascii_case t ''nan'' then Some NaN
        else if whole @ fraction = [] then None
        else
          map_option
            (\<lambda>e. fround ((if neg then - 1 else 1) * of_nat (digits_value (whole @ fraction)) *
                   10 powi (e - int (length fraction))))
            (parse_exponent tail))"

subsection \<open>The markup\<close>

definition parse_parameter_value :: "json_text \<Rightarrow> string \<Rightarrow> json" where
  "parse_parameter_value jt raw =
     (let trimmed = trim raw in
      if trimmed = [] then JStr []
      else if eq_ignore_ascii_case trimmed ''true'' then JBool True
      else if eq_ignore_ascii_case trimmed ''false'' then JBool False
      else if eq_ignore_ascii_case trimmed ''null'' then JNull
      else
        (case parse_i64 trimmed of
           Some i \<Rightarrow> json_i64 i
         | None \<Rightarrow>
        (case parse_u64 trimmed of
           Some n \<Rightarrow> JNum (NumU64 n)
         | None \<Rightarrow>
        (case opt_filter is_finite (parse_f64 trimmed) of
           Some f \<Rightarrow> JNum (NumF64 f)
         | None \<Rightarrow> opt_or_default (JStr trimmed) (jt_parse jt trimmed)))))"

text \<open>The loop of \<open>parse_parameters\<close> on the rest of the body.\<close>

function parse_parameters :: "json_text \<Rightarrow> (string \<times> json) list \<Rightarrow> string \<Rightarrow> (string \<times> json) list" where
  "parse_parameters jt params body =
     (case split_str ''<parameter='' body of
        None \<Rightarrow> params
      | Some (_, after) \<Rightarrow>
     (case split_str ''>'' after of
        None \<Rightarrow> params
      | Some (key, value) \<Rightarrow>
     (case split_str ''</parameter>'' value of
        None \<Rightarrow> params
      | Some (raw, rest) \<Rightarrow>
          parse_parameters jt
            (if trim key = [] then params
             else members_insert (trim key) (parse_parameter_value jt raw) params) rest)))"
  by auto
termination
  by (relation "measure (\<lambda>(jt, params, body). length body)") (auto dest!: split_str_length)

declare parse_parameters.simps [simp del]

definition parse_function_block :: "string \<Rightarrow> (string \<times> string) option" where
  "parse_function_block block =
     Option.bind (split_str ''<function='' block) (\<lambda>(_, after).
     Option.bind (split_str ''>'' after) (\<lambda>(name, body).
       if trim name = [] then None
       else map_option (\<lambda>(inner, _). (trim name, inner)) (split_str ''</function>'' body)))"

function extract_tool_call_parameters :: "json_text \<Rightarrow> string \<Rightarrow> string \<Rightarrow> (string \<times> json) list option" where
  "extract_tool_call_parameters jt tool_name text' =
     (case split_str ''<tool_call>'' text' of
        None \<Rightarrow> None
      | Some (_, after) \<Rightarrow>
     (case split_str ''</tool_call>'' after of
        None \<Rightarrow> None
      | Some (block, rest) \<Rightarrow>
     (case opt_filter (\<lambda>(name, body). name = tool_name \<and> parse_parameters jt [] body \<noteq> [])
             (parse_function_block block) of
        Some (name, body) \<Rightarrow> Some (parse_parameters jt [] body)
      | None \<Rightarrow> extract_tool_call_parameters jt tool_name rest)))"
  by auto
termination
  by (relation "measure (\<lambda>(jt, name, text'). length text')") (auto dest!: split_str_length)

declare extract_tool_call_parameters.simps [simp del]

datatype repair_status = ArgsUnchanged | ArgsRepaired

definition invalid_upstream :: "string \<Rightarrow> compat_error" where
  "invalid_upstream message =
     \<lparr>ce_status = 502, ce_code = ''invalid_upstream_response'', ce_message = message\<rparr>"

definition adapter_fault :: "string \<Rightarrow> compat_error" where
  "adapter_fault message = \<lparr>ce_status = 500, ce_code = ''adapter_error'', ce_message = message\<rparr>"

definition normalize_tool_call_arguments ::
    "json_text \<Rightarrow> string \<Rightarrow> string \<Rightarrow> string \<Rightarrow> compat_error + string \<times> repair_status" where
  "normalize_tool_call_arguments jt tool_name arguments assistant_text =
     (if jt_parse jt arguments \<noteq> None then Inr (arguments, ArgsUnchanged)
      else
        (case extract_tool_call_parameters jt tool_name assistant_text of
           None \<Rightarrow>
             Inl (invalid_upstream
               (''upstream returned invalid tool call arguments for `'' @ tool_name @ ''`''))
         | Some params \<Rightarrow>
             (case jt_print jt (JObj params) of
                None \<Rightarrow> Inl (adapter_fault ''failed to encode repaired tool call arguments'')
              | Some repaired \<Rightarrow> Inr (repaired, ArgsRepaired))))"

subsection \<open>What a repair yields\<close>

lemma parse_parameter_value_wf:
  assumes "json_reads_back jt"
  shows "json_wf (parse_parameter_value jt raw)"
proof -
  have "json_wf v" if "jt_parse jt t = Some v" for t v using assms that by (auto simp: json_reads_back_def)
  then show ?thesis
    by (auto simp: parse_parameter_value_def Let_def json_i64_def opt_or_default_def split: option.splits)
qed

lemma parse_parameters_wf:
  "json_reads_back jt \<Longrightarrow> json_wf (JObj params) \<Longrightarrow> json_wf (JObj (parse_parameters jt params body))"
proof (induction jt params body rule: parse_parameters.induct)
  case (1 jt params body)
  have ins: "json_wf (JObj (if k = [] then params else members_insert k (parse_parameter_value jt raw) params))" for k raw
    using json_set_wf [OF "1.prems"(2) parse_parameter_value_wf [OF "1.prems"(1)]] "1.prems"(2) by simp
  show ?case
    using "1.IH" [OF _ _ _ _ _ _ "1.prems"(1) ins] "1.prems"(2)
    by (subst parse_parameters.simps) (simp del: json_wf.simps(6) split: option.splits prod.splits)
qed

lemma extracted_parameters_wf:
  "json_reads_back jt \<Longrightarrow> extract_tool_call_parameters jt tname text' = Some params \<Longrightarrow> json_wf (JObj params)"
proof (induction jt tname text' rule: extract_tool_call_parameters.induct)
  case (1 jt tname text')
  have wf: "json_wf (JObj (parse_parameters jt [] body))" for body
    using parse_parameters_wf [OF "1.prems"(1), of "[]"] by simp
  show ?case
    using "1.prems"(2) "1.IH" [OF _ _ _ _ _ "1.prems"(1)] wf unfolding extract_tool_call_parameters.simps [of jt tname text']
    by (auto simp del: json_wf.simps(6) split: option.splits)
qed

subsection \<open>Reading the markup back\<close>

definition behind :: "string \<Rightarrow> (string \<times> string) option \<Rightarrow> (string \<times> string) option" where
  "behind w found = map_option (\<lambda>(before, after). (w @ before, after)) found"

lemma behind_simps [simp]:
  "behind [] found = found" "behind u (behind w found) = behind (u @ w) found"
  "behind w (Some (x, y)) = Some (w @ x, y)" "behind w None = None"
  by (cases found; simp add: behind_def case_prod_beta)+

lemma split_str_step: "\<not> prefix pat (c # s) \<Longrightarrow> split_str pat (c # s) = behind [c] (split_str pat s)"
  by (simp add: behind_def)

lemma split_str_plain: "c \<notin> set w \<Longrightarrow> split_str (c # p) (w @ s) = behind w (split_str (c # p) s)"
  by (induction w) (simp_all add: split_str_step del: split_str.simps)

text \<open>A tag is found behind text that does not hold it, when what follows starts a tag.\<close>

lemma split_str_skip:
  assumes "c \<notin> set p" "split_str (c # p) a = None"
  shows "split_str (c # p) (a @ c # t) = behind a (split_str (c # p) (c # t))"
  using assms(2)
proof (induction a)
  case Nil
  show ?case by simp
next
  case (Cons x a)
  have no: "\<not> prefix (c # p) (x # a)" using Cons.prems by (auto split: if_splits)
  have "\<not> prefix (c # p) ((x # a) @ c # t)"
  proof
    assume pre: "prefix (c # p) ((x # a) @ c # t)"
    then have "prefix (x # a) (c # p)" using no prefix_same_cases [OF pre prefixI [OF refl]] by blast
    then obtain z where z: "c # p = (x # a) @ z" by (auto simp: prefix_def)
    then have "prefix z (c # t)" using pre by simp
    then show False using z assms(1) no by (cases z) auto
  qed
  then have "split_str (c # p) ((x # a) @ c # t) = behind [x] (split_str (c # p) (a @ c # t))"
    using split_str_step [of "c # p" x "a @ c # t"] by (simp del: split_str.simps)
  moreover have "split_str (c # p) a = None" using Cons.prems no by (simp add: split_str_step del: split_str.simps) (simp add: behind_def)
  ultimately show ?case using Cons.IH by simp
qed

lemma split_str_here: "pat \<noteq> [] \<Longrightarrow> split_str pat (pat @ s) = Some ([], s)"
  by (cases pat) auto

lemma split_str_first:
  assumes "c \<notin> set p" "split_str (c # p) a = None"
  shows "split_str (c # p) (a @ c # p @ s) = Some (a, s)"
  using split_str_skip [OF assms, of "p @ s"] split_str_here [of "c # p" s] by simp

lemma split_str_char: "c \<notin> set a \<Longrightarrow> split_str [c] (a @ c # s) = Some (a, s)"
  by (induction a) auto

lemma split_str_no_char: "c \<notin> set a \<Longrightarrow> split_str (c # p) a = None"
  by (induction a) auto

text \<open>How the markup is written: a gap before each tag, the raw values between the tags.\<close>

definition parameter_markup :: "string \<Rightarrow> string \<times> string \<Rightarrow> string" where
  "parameter_markup gap param =
     gap @ ''<parameter='' @ fst param @ ''>'' @ snd param @ ''</parameter>''"

definition tool_markup :: "string \<Rightarrow> string \<Rightarrow> (string \<times> string) list \<Rightarrow> string" where
  "tool_markup gap tname params =
     ''<tool_call>'' @ gap @ ''<function='' @ tname @ ''>'' @ concat (List.map (parameter_markup gap) params) @ gap @
     ''</function>'' @ gap @ ''</tool_call>''"

text \<open>A key without angle brackets and surrounding blanks, a value without the closing tags.\<close>

definition plain_name :: "string \<Rightarrow> bool" where
  "plain_name s \<longleftrightarrow> s \<noteq> [] \<and> trim s = s \<and> CHR ''<'' \<notin> set s \<and> CHR ''>'' \<notin> set s"

definition plain_param :: "string \<times> string \<Rightarrow> bool" where
  "plain_param param \<longleftrightarrow>
     plain_name (fst param) \<and>
     list_all (\<lambda>tag. split_str tag (snd param) = None) [''</parameter>'', ''</function>'', ''</tool_call>'']"

abbreviation markup_body :: "string \<Rightarrow> (string \<times> string) list \<Rightarrow> string" where
  "markup_body gap params \<equiv> concat (List.map (parameter_markup gap) params) @ gap"

lemma parameters_read:
  assumes "CHR ''<'' \<notin> set gap"
  shows "list_all plain_param params \<Longrightarrow>
    parse_parameters jt acc (markup_body gap params) =
      fold (\<lambda>(k, raw). members_insert k (parse_parameter_value jt raw)) params acc"
proof (induction params arbitrary: acc)
  case Nil
  show ?case using split_str_no_char [OF assms, of "''parameter=''"] by (simp add: parse_parameters.simps)
next
  case (Cons param params)
  obtain k raw where p: "param = (k, raw)" by (cases param)
  have k: "trim k = k" "k \<noteq> []" "CHR ''>'' \<notin> set k" and raw: "split_str ''</parameter>'' raw = None"
    using Cons.prems by (auto simp: p plain_param_def plain_name_def)
  have 1: "split_str ''<parameter='' (markup_body gap (param # params)) =
      Some (gap, k @ ''>'' @ raw @ ''</parameter>'' @ markup_body gap params)"
    using split_str_first [of "CHR ''<''" "''parameter=''" gap] split_str_no_char [OF assms, of "''parameter=''"]
    by (simp add: p parameter_markup_def)
  have 2: "split_str ''>'' (k @ ''>'' @ raw @ ''</parameter>'' @ markup_body gap params) =
      Some (k, raw @ ''</parameter>'' @ markup_body gap params)"
    using split_str_char [OF k(3)] by simp
  have 3: "split_str ''</parameter>'' (raw @ ''</parameter>'' @ markup_body gap params) = Some (raw, markup_body gap params)"
    using split_str_first [of "CHR ''<''" "''/parameter>''" raw] raw by simp
  show ?case
    using Cons by (simp only: parse_parameters.simps [of jt acc "markup_body gap (param # params)"] 1 2 3 option.case prod.case k
        if_False) (simp add: p)
qed

lemma tag_behind_body:
  assumes gap: "CHR ''<'' \<notin> set gap" and tag: "tag = ''/function>'' \<or> tag = ''/tool_call>''"
  shows "list_all plain_param params \<Longrightarrow>
    split_str (CHR ''<'' # tag) (markup_body gap params @ CHR ''<'' # t) =
      behind (markup_body gap params) (split_str (CHR ''<'' # tag) (CHR ''<'' # t))"
proof (induction params)
  case Nil
  show ?case using split_str_plain [OF gap] by simp
next
  case (Cons param params)
  obtain k raw where p: "param = (k, raw)" by (cases param)
  let ?rest = "markup_body gap params @ CHR ''<'' # t" and ?S = "split_str (CHR ''<'' # tag)"
  have k: "CHR ''<'' \<notin> set (''parameter='' @ k @ ''>'')" and raw: "?S raw = None"
    using Cons.prems tag by (auto simp: p plain_param_def plain_name_def)
  have lt: "CHR ''<'' \<notin> set tag" using tag by auto
  have nt: "\<not> prefix (CHR ''<'' # tag) (CHR ''<'' # ''/parameter>'' @ s)"
      "\<not> prefix (CHR ''<'' # tag) (CHR ''<'' # (''parameter='' @ k @ ''>'') @ s)" for s
    using tag by auto
  have 1: "?S (CHR ''<'' # ''/parameter>'' @ ?rest) = behind ''</parameter>'' (?S ?rest)"
    using split_str_step [OF nt(1)] split_str_plain [of "CHR ''<''" "''/parameter>''" tag ?rest]
    by (simp del: split_str.simps)
  have 2: "?S (raw @ CHR ''<'' # ''/parameter>'' @ ?rest) = behind (raw @ ''</parameter>'') (?S ?rest)"
    using split_str_skip [OF lt raw, of "''/parameter>'' @ ?rest"] 1 by (simp del: split_str.simps)
  have 3: "?S (CHR ''<'' # (''parameter='' @ k @ ''>'') @ raw @ CHR ''<'' # ''/parameter>'' @ ?rest) =
      behind (''<parameter='' @ k @ ''>'' @ raw @ ''</parameter>'') (?S ?rest)"
    using split_str_step [OF nt(2)] split_str_plain [OF k, of tag] 2 by (simp del: split_str.simps)
  have 4: "markup_body gap (param # params) @ CHR ''<'' # t =
      gap @ CHR ''<'' # (''parameter='' @ k @ ''>'') @ raw @ CHR ''<'' # ''/parameter>'' @ ?rest"
    by (simp add: p parameter_markup_def)
  have 5: "markup_body gap (param # params) =
      gap @ (''<parameter='' @ k @ ''>'' @ raw @ ''</parameter>'') @ markup_body gap params"
    by (simp add: p parameter_markup_def)
  have params: "list_all plain_param params" using Cons.prems by simp
  show ?case
    unfolding 4 split_str_plain [OF gap, of tag] 3 Cons.IH [OF params] using 5 by simp
qed

lemma markup_read:
  assumes "CHR ''<'' \<notin> set gap" "plain_name tname" "list_all plain_param params"
  shows "parse_function_block (gap @ ''<function='' @ tname @ ''>'' @ markup_body gap params @ ''</function>'' @ gap) =
      Some (tname, markup_body gap params)"
proof -
  have 1: "split_str ''<function='' (gap @ ''<function='' @ tname @ ''>'' @ markup_body gap params @ ''</function>'' @ gap) =
      Some (gap, tname @ ''>'' @ markup_body gap params @ ''</function>'' @ gap)"
    using split_str_first [of "CHR ''<''" "''function=''" gap] split_str_no_char [OF assms(1), of "''function=''"] by simp
  have 2: "split_str ''>'' (tname @ ''>'' @ markup_body gap params @ ''</function>'' @ gap) =
      Some (tname, markup_body gap params @ ''</function>'' @ gap)"
    using split_str_char [of "CHR ''>''" tname] assms(2) by (simp add: plain_name_def)
  have 3: "split_str ''</function>'' (markup_body gap params @ ''</function>'' @ gap) = Some (markup_body gap params, gap)"
    using tag_behind_body [OF assms(1) _ assms(3), of "''/function>''" "''/function>'' @ gap"]
      split_str_here [of "''</function>''" gap] by (simp del: split_str.simps)
  show ?thesis
    using assms(2) by (simp only: parse_function_block_def 1 2 3 bind.bind_lunit prod.case plain_name_def) simp
qed

lemma markup_block:
  assumes "CHR ''<'' \<notin> set gap" "plain_name tname" "list_all plain_param params"
  shows "split_str ''</tool_call>''
      (gap @ ''<function='' @ tname @ ''>'' @ markup_body gap params @ ''</function>'' @ gap @ ''</tool_call>'' @ after) =
    Some (gap @ ''<function='' @ tname @ ''>'' @ markup_body gap params @ ''</function>'' @ gap, after)"
proof -
  let ?S = "split_str ''</tool_call>''"
  have name: "CHR ''<'' \<notin> set (''function='' @ tname @ ''>'')" using assms(2) by (auto simp: plain_name_def)
  have fin: "?S (CHR ''<'' # ''/function>'' @ gap @ ''</tool_call>'' @ after) = Some (''</function>'' @ gap, after)"
    using split_str_plain [of "CHR ''<''" "''/function>'' @ gap" "''/tool_call>''" "''</tool_call>'' @ after"]
      split_str_here [of "''</tool_call>''" after] assms(1) by simp
  have body: "?S (markup_body gap params @ CHR ''<'' # ''/function>'' @ gap @ ''</tool_call>'' @ after) =
      Some (markup_body gap params @ ''</function>'' @ gap, after)"
    using tag_behind_body [OF assms(1) _ assms(3), of "''/tool_call>''" "''/function>'' @ gap @ ''</tool_call>'' @ after"] fin
    by (simp del: split_str.simps)
  have "?S (CHR ''<'' # (''function='' @ tname @ ''>'') @ markup_body gap params @ CHR ''<'' # ''/function>'' @ gap @ ''</tool_call>'' @ after) =
      Some (''<function='' @ tname @ ''>'' @ markup_body gap params @ ''</function>'' @ gap, after)"
    using split_str_step [of "''</tool_call>''" "CHR ''<''" "(''function='' @ tname @ ''>'') @ markup_body gap params @ CHR ''<'' # ''/function>'' @ gap @ ''</tool_call>'' @ after"]
      split_str_plain [OF name, of "''/tool_call>''" "markup_body gap params @ CHR ''<'' # ''/function>'' @ gap @ ''</tool_call>'' @ after"] body
    by (simp del: split_str.simps)
  then show ?thesis
    using split_str_plain [OF assms(1), of "''/tool_call>''"] by (simp del: split_str.simps)
qed

text \<open>The parameters of the markup as the adapter stores them.\<close>

definition markup_members :: "json_text \<Rightarrow> (string \<times> string) list \<Rightarrow> (string \<times> json) list" where
  "markup_members jt params =
     fold (\<lambda>(k, raw). members_insert k (parse_parameter_value jt raw)) params []"

lemma members_insert_nonempty: "members_insert k v members \<noteq> []"
  by (cases members) (auto split: if_splits)

lemma markup_members_nonempty: "params \<noteq> [] \<Longrightarrow> markup_members jt params \<noteq> []"
  using members_insert_nonempty by (induction params rule: rev_induct) (auto simp: markup_members_def case_prod_beta)

lemma extract_markup:
  assumes "CHR ''<'' \<notin> set gap" "plain_name tname" "list_all plain_param params" "params \<noteq> []"
    "split_str ''<tool_call>'' before = None"
  shows "extract_tool_call_parameters jt tname (before @ tool_markup gap tname params @ after) =
    Some (markup_members jt params)"
proof -
  let ?block = "gap @ ''<function='' @ tname @ ''>'' @ markup_body gap params @ ''</function>'' @ gap"
  have 1: "split_str ''<tool_call>'' (before @ tool_markup gap tname params @ after) =
      Some (before, ?block @ ''</tool_call>'' @ after)"
    using split_str_first [of "CHR ''<''" "''tool_call>''" before "?block @ ''</tool_call>'' @ after"] assms(5)
    by (simp add: tool_markup_def)
  have 2: "split_str ''</tool_call>'' (?block @ ''</tool_call>'' @ after) = Some (?block, after)"
    using markup_block [OF assms(1,2,3), of after] by simp
  have 3: "parse_parameters jt [] (markup_body gap params) = markup_members jt params"
    using parameters_read [OF assms(1,3)] by (simp add: markup_members_def)
  show ?thesis
    using markup_members_nonempty [OF assms(4), of jt]
    by (simp only: extract_tool_call_parameters.simps [of jt tname "before @ _"] 1 2 markup_read [OF assms(1,2,3)]
        option.case prod.case opt_filter_simps 3) (simp add: 3)
qed

text \<open>
  C20: The arguments of a tool call. Arguments that are JSON pass unchanged. Others are replaced by
  an object read from the model's text, which prints to JSON, or refused as an upstream fault; in
  particular the markup of a call with this name, wherever it stands behind text without one, gives
  back its parameters with their values.\<close>

theorem tool_call_repair_correct:
  assumes "json_reads_back jt"
  shows "(case normalize_tool_call_arguments jt tname args text' of
      Inr (t, ArgsUnchanged) \<Rightarrow> t = args \<and> jt_parse jt args \<noteq> None
    | Inr (t, ArgsRepaired) \<Rightarrow>
        jt_parse jt args = None \<and>
        (\<exists>members. extract_tool_call_parameters jt tname text' = Some members \<and> jt_parse jt t = Some (JObj members))
    | Inl e \<Rightarrow>
        ce_status e = 502 \<and> jt_parse jt args = None \<and> extract_tool_call_parameters jt tname text' = None) \<and>
    (jt_parse jt args = None \<and> CHR ''<'' \<notin> set gap \<and> plain_name tname \<and> list_all plain_param params \<and>
      params \<noteq> [] \<and> split_str ''<tool_call>'' before = None \<longrightarrow>
      (\<exists>t. normalize_tool_call_arguments jt tname args (before @ tool_markup gap tname params @ after) = Inr (t, ArgsRepaired) \<and>
        jt_parse jt t = Some (JObj (markup_members jt params))))"
proof (intro conjI impI)
  have print: "\<exists>t. jt_print jt (JObj members) = Some t \<and> jt_parse jt t = Some (JObj members)"
    if "extract_tool_call_parameters jt tname s = Some members" for s members
    using assms extracted_parameters_wf [OF assms that] unfolding json_reads_back_def by blast
  show "case normalize_tool_call_arguments jt tname args text' of
      Inr (t, ArgsUnchanged) \<Rightarrow> t = args \<and> jt_parse jt args \<noteq> None
    | Inr (t, ArgsRepaired) \<Rightarrow>
        jt_parse jt args = None \<and>
        (\<exists>members. extract_tool_call_parameters jt tname text' = Some members \<and> jt_parse jt t = Some (JObj members))
    | Inl e \<Rightarrow>
        ce_status e = 502 \<and> jt_parse jt args = None \<and> extract_tool_call_parameters jt tname text' = None"
    using print [of text'] by (auto simp: normalize_tool_call_arguments_def invalid_upstream_def split: option.splits)
  assume a: "jt_parse jt args = None \<and> CHR ''<'' \<notin> set gap \<and> plain_name tname \<and> list_all plain_param params \<and>
      params \<noteq> [] \<and> split_str ''<tool_call>'' before = None"
  then have e: "extract_tool_call_parameters jt tname (before @ tool_markup gap tname params @ after) = Some (markup_members jt params)"
    by (intro extract_markup) simp_all
  show "\<exists>t. normalize_tool_call_arguments jt tname args (before @ tool_markup gap tname params @ after) = Inr (t, ArgsRepaired) \<and>
        jt_parse jt t = Some (JObj (markup_members jt params))"
    using print [OF e] a e by (auto simp: normalize_tool_call_arguments_def)
qed

theorem tool_call_repair_correct_witness:
  "\<exists>t. normalize_tool_call_arguments demo_lib ''find'' ''{,zn,zn}'' (''so '' @ tool_markup ''-'' ''find'' [(''n'', ''5'')] @ []) = Inr (t, ArgsRepaired) \<and>
     jt_parse demo_lib t = Some (JObj [(''n'', JNum (NumU64 5))])"
proof -
  have "jt_parse demo_lib ''{,zn,zn}'' = None" by code_simp
  moreover have "CHR ''<'' \<notin> set ''-''" "plain_name ''find''" "list_all plain_param [(''n'', ''5'')]"
    "[(''n'', ''5'')] \<noteq> []" "split_str ''<tool_call>'' ''so '' = None" by code_simp+
  moreover have "markup_members demo_lib [(''n'', ''5'')] = [(''n'', JNum (NumU64 5))]" by code_simp
  ultimately show ?thesis
    using tool_call_repair_correct [OF demo_lib_reads_back, where args = "''{,zn,zn}''" and gap = "''-''" and tname = "''find''" and
        params = "[(''n'', ''5'')]" and before = "''so ''" and after = "[]"] by simp
qed

end
