(* ===== verification/ChatItems.thy ===== *)
theory ChatItems
  imports ToolCallRepair
begin

text \<open>
  The items of a Responses answer built from a chat answer, \<open>src/openai_compat/response_items/\<close>:
  \<open>ids.rs\<close>, \<open>messages.rs\<close>, \<open>tool_calls.rs\<close> and \<open>usage_json.rs\<close>, with the translation of a whole
  chat answer, \<open>src/openai_compat/response.rs\<close>. Random ids and clock readings come from a source;
  a counter of what was drawn from it is threaded through the code that draws.
\<close>

subsection \<open>Ids and times\<close>

record id_source =
  su_uuid :: "nat \<Rightarrow> string"
  su_now :: "nat \<Rightarrow> int"

definition generate_call_id :: "id_source \<Rightarrow> nat \<Rightarrow> string \<times> nat" where
  "generate_call_id su n = (''call_'' @ su_uuid su n, n + 1)"

definition generate_message_id :: "id_source \<Rightarrow> nat \<Rightarrow> string \<times> nat" where
  "generate_message_id su n = (''msg_'' @ su_uuid su n, n + 1)"

definition generate_reasoning_id :: "id_source \<Rightarrow> nat \<Rightarrow> string \<times> nat" where
  "generate_reasoning_id su n = (''rs_'' @ su_uuid su n, n + 1)"

definition generate_response_id :: "id_source \<Rightarrow> nat \<Rightarrow> string \<times> nat" where
  "generate_response_id su n = (''resp_'' @ su_uuid su n, n + 1)"

definition current_timestamp :: "id_source \<Rightarrow> nat \<Rightarrow> int \<times> nat" where
  "current_timestamp su n = (su_now su n, n + 1)"

text \<open>A fallible map that draws from the source.\<close>

fun try_draws :: "('a \<Rightarrow> nat \<Rightarrow> 'e + 'b \<times> nat) \<Rightarrow> 'a list \<Rightarrow> nat \<Rightarrow> 'e + 'b list \<times> nat" where
  "try_draws f [] n = Inr ([], n)"
| "try_draws f (x # xs) n =
     try_then (f x n) (\<lambda>(y, n). try_then (try_draws f xs n) (\<lambda>(ys, n). Inr (y # ys, n)))"

subsection \<open>The answer and its items\<close>

definition json_opt :: "json option \<Rightarrow> json" where
  "json_opt v = opt_or_default JNull v"

definition response_shell ::
    "id_source \<Rightarrow> string \<Rightarrow> string option \<Rightarrow> int option \<Rightarrow> string \<Rightarrow> nat \<Rightarrow> json \<times> nat" where
  "response_shell su response_id model created_at status n =
     (let (response_id, n) = (if response_id = [] then generate_response_id su n else (response_id, n));
          (created, n) = (case created_at of Some t \<Rightarrow> (t, n) | None \<Rightarrow> current_timestamp su n)
      in (json_obj
            [(''id'', JStr response_id), (''object'', JStr ''response''), (''created_at'', json_i64 created),
             (''completed_at'', JNull), (''error'', JNull), (''incomplete_details'', JNull),
             (''metadata'', json_obj []), (''status'', JStr status),
             (''model'', JStr (opt_or_default ''unknown'' model)), (''output'', JArr []), (''output_text'', JStr []),
             (''parallel_tool_calls'', JBool False), (''store'', JBool False),
             (''text'', json_obj [(''format'', json_obj [(''type'', JStr ''text'')])]),
             (''tool_choice'', JStr ''auto''), (''truncation'', JStr ''disabled''), (''usage'', JNull)], n))"

definition build_response_object ::
    "id_source \<Rightarrow> string \<Rightarrow> string option \<Rightarrow> int option \<Rightarrow> json list \<Rightarrow> json option \<Rightarrow> string \<Rightarrow> nat \<Rightarrow> json \<times> nat" where
  "build_response_object su response_id model created_at output_items usage status n =
     (let (response, n) = response_shell su response_id model created_at status n;
          (completed_at, n) =
            (if status = ''completed'' then (let (t, n) = current_timestamp su n in (json_i64 t, n)) else (JNull, n))
      in (json_set ''usage'' (json_opt usage)
            (json_set ''completed_at'' completed_at
              (json_set ''output_text'' (JStr (output_text_from_items output_items))
                (json_set ''output'' (JArr output_items) response))), n))"

definition message_item_with_status :: "string \<Rightarrow> string \<Rightarrow> string \<Rightarrow> json" where
  "message_item_with_status message_id txt status =
     json_obj
       [(''id'', JStr message_id), (''type'', JStr ''message''), (''status'', JStr status), (''role'', JStr ''assistant''),
        (''content'', JArr [json_obj [(''type'', JStr ''output_text''), (''text'', JStr txt),
                                      (''annotations'', JArr []), (''logprobs'', JArr [])]])]"

definition reasoning_item_with_status :: "string \<Rightarrow> string \<Rightarrow> string \<Rightarrow> json" where
  "reasoning_item_with_status reasoning_id txt status =
     json_obj
       [(''id'', JStr reasoning_id), (''type'', JStr ''reasoning''), (''status'', JStr status),
        (''summary'', JArr (if txt = [] then [] else [json_obj [(''type'', JStr ''summary_text''), (''text'', JStr txt)]])),
        (''content'', JArr [json_obj [(''type'', JStr ''reasoning_text''), (''text'', JStr txt)]])]"

definition function_call_item :: "string \<Rightarrow> string \<Rightarrow> string \<Rightarrow> string \<Rightarrow> json" where
  "function_call_item call_id fname arguments status =
     json_obj
       [(''id'', JStr call_id), (''type'', JStr ''function_call''), (''status'', JStr status),
        (''call_id'', JStr call_id), (''name'', JStr fname), (''arguments'', JStr arguments)]"

subsection \<open>Tool calls\<close>

record tool_call_delta =
  td_index :: nat
  td_call_id :: "string option"
  td_name :: "string option"
  td_arguments :: string

record function_tool_call =
  fc_call_id :: string
  fc_name :: string
  fc_arguments :: string

definition member_str :: "json \<Rightarrow> string \<Rightarrow> string option" where
  "member_str value key = Option.bind (json_get value key) json_as_str"

definition member_text :: "json \<Rightarrow> string \<Rightarrow> string option" where
  "member_text value key = opt_filter (\<lambda>s. s \<noteq> []) (member_str value key)"

text \<open>A value without an object has no members.\<close>

definition member_object :: "json \<Rightarrow> string \<Rightarrow> json option" where
  "member_object value key = opt_filter (\<lambda>v. json_as_object v \<noteq> None) (json_get value key)"

definition parse_chat_tool_call_delta :: "json \<Rightarrow> nat \<Rightarrow> compat_error + tool_call_delta" where
  "parse_chat_tool_call_delta value fallback_index =
     (if json_as_object value = None
      then Inl (invalid_upstream ''chat-native endpoint returned an invalid streaming tool call object'')
      else
        let tool_type = opt_or_default ''function'' (member_str value ''type'') in
        if tool_type \<noteq> ''function''
        then Inl (invalid_upstream
               (''chat-native endpoint returned unsupported streaming tool call type `'' @ tool_type @ ''`''))
        else
          let fn = opt_or_default JNull (member_object value ''function'') in
          Inr \<lparr>td_index = opt_or_default fallback_index (Option.bind (json_get value ''index'') json_as_u64),
               td_call_id = member_text value ''id'',
               td_name = member_text fn ''name'',
               td_arguments = opt_or_default [] (member_str fn ''arguments'')\<rparr>)"

definition parse_legacy_function_call_delta :: "json \<Rightarrow> compat_error + tool_call_delta" where
  "parse_legacy_function_call_delta value =
     (if json_as_object value = None
      then Inl (invalid_upstream ''chat-native endpoint returned an invalid legacy function-call delta'')
      else Inr \<lparr>td_index = 0, td_call_id = None, td_name = member_text value ''name'',
                td_arguments = opt_or_default [] (member_str value ''arguments'')\<rparr>)"

definition choice_tool_calls :: "json \<Rightarrow> compat_error + tool_call_delta list" where
  "choice_tool_calls choice =
     (case json_get choice ''delta'' of
        None \<Rightarrow> Inr []
      | Some delta \<Rightarrow>
          (case Option.bind (json_get delta ''tool_calls'') json_as_array of
             Some tool_calls \<Rightarrow>
               try_map (\<lambda>(position, tool_call). parse_chat_tool_call_delta tool_call position) (enumerate 0 tool_calls)
           | None \<Rightarrow>
               (case json_get delta ''function_call'' of
                  Some function_call \<Rightarrow> try_then (parse_legacy_function_call_delta function_call) (\<lambda>d. Inr [d])
                | None \<Rightarrow> Inr [])))"

definition extract_chat_delta_tool_calls :: "json \<Rightarrow> compat_error + tool_call_delta list" where
  "extract_chat_delta_tool_calls value =
     try_then (try_map choice_tool_calls (choices_of value)) (\<lambda>calls. Inr (concat calls))"

definition parse_chat_tool_call :: "id_source \<Rightarrow> json \<Rightarrow> nat \<Rightarrow> compat_error + function_tool_call \<times> nat" where
  "parse_chat_tool_call su value n =
     (if json_as_object value = None
      then Inl (invalid_upstream ''chat-native endpoint returned an invalid tool call object'')
      else
        let tool_type = opt_or_default ''function'' (member_str value ''type'') in
        if tool_type \<noteq> ''function''
        then Inl (invalid_upstream
               (''chat-native endpoint returned unsupported tool call type `'' @ tool_type @ ''`''))
        else
          (case member_object value ''function'' of
             None \<Rightarrow> Inl (invalid_upstream ''chat-native endpoint returned a tool call without function details'')
           | Some fn \<Rightarrow>
               let (call_id, n) =
                 (case member_text value ''id'' of Some call_id \<Rightarrow> (call_id, n) | None \<Rightarrow> generate_call_id su n) in
               Inr (\<lparr>fc_call_id = call_id, fc_name = opt_or_default [] (member_str fn ''name''),
                     fc_arguments = opt_or_default [] (member_str fn ''arguments'')\<rparr>, n)))"

definition parse_legacy_function_call :: "id_source \<Rightarrow> json \<Rightarrow> nat \<Rightarrow> compat_error + function_tool_call \<times> nat" where
  "parse_legacy_function_call su value n =
     (if json_as_object value = None
      then Inl (invalid_upstream ''chat-native endpoint returned an invalid legacy function call object'')
      else
        let (call_id, n) = generate_call_id su n in
        Inr (\<lparr>fc_call_id = call_id, fc_name = opt_or_default [] (member_str value ''name''),
              fc_arguments = opt_or_default [] (member_str value ''arguments'')\<rparr>, n))"

definition chat_tool_calls_from_message ::
    "id_source \<Rightarrow> json \<Rightarrow> nat \<Rightarrow> compat_error + function_tool_call list \<times> nat" where
  "chat_tool_calls_from_message su message n =
     (case Option.bind (json_get message ''tool_calls'') json_as_array of
        Some tool_calls \<Rightarrow> try_draws (parse_chat_tool_call su) tool_calls n
      | None \<Rightarrow>
          (case json_get message ''function_call'' of
             Some function_call \<Rightarrow> try_then (parse_legacy_function_call su function_call n) (\<lambda>(c, n). Inr ([c], n))
           | None \<Rightarrow> Inr ([], n)))"

subsection \<open>Usage\<close>

text \<open>An overflowing sum of token counts wraps around, as in a release build.\<close>

definition i64_wrap :: "int \<Rightarrow> int" where
  "i64_wrap i = (i + 2 ^ 63) mod 2 ^ 64 - 2 ^ 63"

definition member_i64 :: "json option \<Rightarrow> string \<Rightarrow> int option" where
  "member_i64 value key = Option.bind (Option.bind value (\<lambda>v. json_get v key)) json_as_i64"

definition usage_from_chat_value :: "json \<Rightarrow> json option" where
  "usage_from_chat_value value =
     map_option
       (\<lambda>usage.
          let prompt_tokens = member_i64 (Some usage) ''prompt_tokens'';
              completion_tokens = member_i64 (Some usage) ''completion_tokens'';
              total_tokens = member_i64 (Some usage) ''total_tokens'';
              cached_tokens = member_i64 (json_get usage ''prompt_tokens_details'') ''cached_tokens'' in
          json_obj
            [(''input_tokens'', json_opt (map_option json_i64 prompt_tokens)),
             (''output_tokens'', json_opt (map_option json_i64 completion_tokens)),
             (''total_tokens'',
                json_i64 (opt_or_default
                  (i64_wrap (opt_or_default 0 prompt_tokens + opt_or_default 0 completion_tokens)) total_tokens)),
             (''input_tokens_details'',
                json_obj [(''cached_tokens'', json_i64 (opt_or_default 0 cached_tokens))]),
             (''output_tokens_details'',
                json_obj [(''reasoning_tokens'',
                  json_i64 (opt_or_default 0
                    (member_i64 (json_get usage ''completion_tokens_details'') ''reasoning_tokens'')))])])
       (json_get value ''usage'')"

subsection \<open>A whole answer\<close>

definition repaired_call_item :: "json_text \<Rightarrow> string \<Rightarrow> function_tool_call \<Rightarrow> compat_error + json" where
  "repaired_call_item jt assistant_text call =
     try_then (normalize_tool_call_arguments jt (fc_name call) (fc_arguments call) assistant_text)
       (\<lambda>(arguments, _). Inr (function_call_item (fc_call_id call) (fc_name call) arguments ''completed''))"

definition chat_output_items_from_message ::
    "json_text \<Rightarrow> id_source \<Rightarrow> json \<Rightarrow> nat \<Rightarrow> compat_error + json list \<times> nat" where
  "chat_output_items_from_message jt su message n =
     (let assistant_text = opt_or_default [] (map_option extract_text (json_get message ''content''));
          reasoning = extract_reasoning_text message;
          (reasoning_items, n) =
            (if reasoning = [] then ([], n)
             else let (rid, n) = generate_reasoning_id su n in ([reasoning_item_with_status rid reasoning ''completed''], n));
          (message_items, n) =
            (if assistant_text = [] then ([], n)
             else let (mid, n) = generate_message_id su n in ([message_item_with_status mid assistant_text ''completed''], n))
      in
        try_then (chat_tool_calls_from_message su message n) (\<lambda>(calls, n).
        try_then (try_map (repaired_call_item jt assistant_text) calls) (\<lambda>call_items.
          Inr (reasoning_items @ message_items @ call_items, n))))"

definition chat_output_items_from_response ::
    "json_text \<Rightarrow> id_source \<Rightarrow> json \<Rightarrow> nat \<Rightarrow> compat_error + json list \<times> nat" where
  "chat_output_items_from_response jt su value n =
     try_then
       (try_draws (chat_output_items_from_message jt su)
         (List.map_filter (\<lambda>choice. json_get choice ''message'') (choices_of value)) n)
       (\<lambda>(items, n). Inr (concat items, n))"

definition chat_response_to_responses :: "json_text \<Rightarrow> id_source \<Rightarrow> string \<Rightarrow> nat \<Rightarrow> compat_error + string \<times> nat" where
  "chat_response_to_responses jt su body n =
     (case jt_parse jt body of
        None \<Rightarrow> Inl (invalid_upstream ''chat-native endpoint returned invalid JSON'')
      | Some value \<Rightarrow>
          try_then (chat_output_items_from_response jt su value n) (\<lambda>(items, n).
            let (response, n) =
              build_response_object su (opt_or_default [] (member_str value ''id'')) (member_str value ''model'')
                (Option.bind (json_get value ''created'') json_as_i64) items (usage_from_chat_value value) ''completed'' n
            in
              (case jt_print jt response of
                 None \<Rightarrow> Inl (adapter_fault ''failed to encode translated responses payload'')
               | Some bytes \<Rightarrow> Inr (bytes, n))))"

end
