(* ===== verification/ChatStream.thy ===== *)
theory ChatStream
  imports ChatItems StreamDelta
begin

text \<open>
  \<open>src/openai_compat/response_stream/stream_adapter.rs\<close> and \<open>stream_tool_calls.rs\<close>: the adapter that
  turns the event stream of a chat answer into the event stream of a Responses answer. The adapter is
  a record; an operation that emits takes the adapter with the frames so far and returns both or the
  error, after which the adapter is dropped. \<open>ca_drawn\<close> counts what was drawn from the source of ids
  and times.
\<close>

record tool_state =
  tc_call_id :: string
  tc_name :: "string option"
  tc_arguments :: string
  tc_output_index :: nat
  tc_added_emitted :: bool
  tc_done_emitted :: bool

definition tool_state_new :: "string \<Rightarrow> nat \<Rightarrow> tool_state" where
  "tool_state_new call_id output_index =
     \<lparr>tc_call_id = call_id, tc_name = None, tc_arguments = [], tc_output_index = output_index,
      tc_added_emitted = False, tc_done_emitted = False\<rparr>"

record chat_stream =
  ca_decoder :: line_decoder
  ca_response_id :: "string option"
  ca_model :: "string option"
  ca_created_at :: "int option"
  ca_reasoning_id :: string
  ca_reasoning_output_index :: "nat option"
  ca_message_id :: string
  ca_message_output_index :: "nat option"
  ca_full_reasoning_text :: string
  ca_full_text :: string
  ca_usage :: "json option"
  ca_created_emitted :: bool
  ca_reasoning_started :: bool
  ca_content_started :: bool
  ca_completed :: bool
  ca_next_output_index :: nat
  ca_next_sequence_number :: nat
  ca_tool_calls :: "tool_state list"
  ca_active_positions :: "nat \<rightharpoonup> nat"
  ca_drawn :: nat

definition chat_stream_new :: "id_source \<Rightarrow> nat \<Rightarrow> chat_stream" where
  "chat_stream_new su n =
     (let (reasoning_id, n) = generate_reasoning_id su n; (message_id, n) = generate_message_id su n in
      \<lparr>ca_decoder = decoder_default, ca_response_id = None, ca_model = None, ca_created_at = None,
       ca_reasoning_id = reasoning_id, ca_reasoning_output_index = None,
       ca_message_id = message_id, ca_message_output_index = None,
       ca_full_reasoning_text = [], ca_full_text = [], ca_usage = None, ca_created_emitted = False,
       ca_reasoning_started = False, ca_content_started = False, ca_completed = False,
       ca_next_output_index = 0, ca_next_sequence_number = 0, ca_tool_calls = [],
       ca_active_positions = Map.empty, ca_drawn = n\<rparr>)"

type_synonym emission = "chat_stream \<times> string list"

subsection \<open>Events\<close>

definition json_nat :: "nat \<Rightarrow> json" where
  "json_nat n = JNum (NumU64 n)"

definition push_event :: "json_text \<Rightarrow> json \<Rightarrow> emission \<Rightarrow> compat_error + emission" where
  "push_event jt event = (\<lambda>(s, out).
     case sse_event jt (json_set ''sequence_number'' (json_nat (ca_next_sequence_number s)) event) of
       Inl message \<Rightarrow> Inl (adapter_fault message)
     | Inr frame \<Rightarrow> Inr (s\<lparr>ca_next_sequence_number := ca_next_sequence_number s + 1\<rparr>, out @ [frame]))"

text \<open>Events pushed one after another.\<close>

definition push_events :: "json_text \<Rightarrow> json list \<Rightarrow> emission \<Rightarrow> compat_error + emission" where
  "push_events jt events = try_fold (push_event jt) events"

definition allocate_output_index :: "chat_stream \<Rightarrow> nat \<times> chat_stream" where
  "allocate_output_index s = (ca_next_output_index s, s\<lparr>ca_next_output_index := ca_next_output_index s + 1\<rparr>)"

definition current_response_id :: "id_source \<Rightarrow> chat_stream \<Rightarrow> string \<times> chat_stream" where
  "current_response_id su s =
     (case ca_response_id s of
        Some response_id \<Rightarrow> (response_id, s)
      | None \<Rightarrow> let (response_id, n) = generate_response_id su (ca_drawn s) in (response_id, s\<lparr>ca_drawn := n\<rparr>))"

definition text_event :: "string \<Rightarrow> nat \<Rightarrow> string \<Rightarrow> (string \<times> json) list \<Rightarrow> json" where
  "text_event event_type output_index item_id members =
     json_obj ([(''type'', JStr event_type), (''output_index'', json_nat output_index), (''item_id'', JStr item_id)] @ members)"

definition item_event :: "string \<Rightarrow> nat \<Rightarrow> json \<Rightarrow> json" where
  "item_event event_type output_index item =
     json_obj [(''type'', JStr event_type), (''output_index'', json_nat output_index), (''item'', item)]"

definition response_event :: "string \<Rightarrow> json \<Rightarrow> json" where
  "response_event event_type response = json_obj [(''type'', JStr event_type), (''response'', response)]"

definition summary_part :: "string \<Rightarrow> json" where
  "summary_part txt = json_obj [(''type'', JStr ''summary_text''), (''text'', JStr txt)]"

definition text_part :: "string \<Rightarrow> json" where
  "text_part txt =
     json_obj [(''type'', JStr ''output_text''), (''text'', JStr txt), (''annotations'', JArr []), (''logprobs'', JArr [])]"

subsection \<open>Opening the answer and its items\<close>

definition ensure_response_created :: "json_text \<Rightarrow> id_source \<Rightarrow> emission \<Rightarrow> compat_error + emission" where
  "ensure_response_created jt su = (\<lambda>(s, out).
     if ca_created_emitted s then Inr (s, out)
     else
       let (response_id, s) = current_response_id su s;
           (shell, n) = response_shell su response_id (ca_model s) (ca_created_at s) ''in_progress'' (ca_drawn s)
       in try_then (push_event jt (response_event ''response.created'' shell) (s\<lparr>ca_drawn := n\<rparr>, out))
            (\<lambda>(s, out). Inr (s\<lparr>ca_created_emitted := True\<rparr>, out)))"

definition ensure_reasoning_stream_started :: "json_text \<Rightarrow> id_source \<Rightarrow> emission \<Rightarrow> compat_error + emission" where
  "ensure_reasoning_stream_started jt su e =
     try_then (ensure_response_created jt su e) (\<lambda>(s, out).
       if ca_reasoning_started s then Inr (s, out)
       else
         let (output_index, s) =
           (case ca_reasoning_output_index s of
              Some output_index \<Rightarrow> (output_index, s)
            | None \<Rightarrow> let (i, s) = allocate_output_index s in (i, s\<lparr>ca_reasoning_output_index := Some i\<rparr>))
         in try_then
              (push_events jt
                [item_event ''response.output_item.added'' output_index
                   (reasoning_item_with_status (ca_reasoning_id s) [] ''in_progress''),
                 text_event ''response.reasoning_summary_part.added'' output_index (ca_reasoning_id s)
                   [(''summary_index'', json_nat 0), (''part'', summary_part [])]] (s, out))
              (\<lambda>(s, out). Inr (s\<lparr>ca_reasoning_started := True\<rparr>, out)))"

definition ensure_text_stream_started :: "json_text \<Rightarrow> id_source \<Rightarrow> emission \<Rightarrow> compat_error + emission" where
  "ensure_text_stream_started jt su e =
     try_then (ensure_response_created jt su e) (\<lambda>(s, out).
       if ca_content_started s then Inr (s, out)
       else
         let (output_index, s) =
           (case ca_message_output_index s of
              Some output_index \<Rightarrow> (output_index, s)
            | None \<Rightarrow> let (i, s) = allocate_output_index s in (i, s\<lparr>ca_message_output_index := Some i\<rparr>))
         in try_then
              (push_events jt
                [item_event ''response.output_item.added'' output_index
                   (message_item_with_status (ca_message_id s) [] ''in_progress''),
                 text_event ''response.content_part.added'' output_index (ca_message_id s)
                   [(''content_index'', json_nat 0), (''part'', text_part [])]] (s, out))
              (\<lambda>(s, out). Inr (s\<lparr>ca_content_started := True\<rparr>, out)))"

subsection \<open>Tool calls\<close>

fun position_of :: "('a \<Rightarrow> bool) \<Rightarrow> 'a list \<Rightarrow> nat option" where
  "position_of p [] = None"
| "position_of p (x # xs) = (if p x then Some 0 else map_option Suc (position_of p xs))"

text \<open>The index of an active position is in range (\<open>chat_ok\<close> of theory ChatSafety).\<close>

definition resolve_tool_call_position ::
    "id_source \<Rightarrow> nat \<Rightarrow> string option \<Rightarrow> chat_stream \<Rightarrow> nat \<times> chat_stream" where
  "resolve_tool_call_position su index call_id s =
     (case Option.bind call_id (\<lambda>c. position_of (\<lambda>t. tc_call_id t = c) (ca_tool_calls s)) of
        Some position \<Rightarrow> (position, s\<lparr>ca_active_positions := (ca_active_positions s)(index \<mapsto> position)\<rparr>)
      | None \<Rightarrow>
          (case opt_filter
                  (\<lambda>p. call_id = None \<or> tc_call_id (ca_tool_calls s ! p) = opt_or_default [] call_id)
                  (ca_active_positions s index) of
             Some position \<Rightarrow> (position, s)
           | None \<Rightarrow>
               let position = length (ca_tool_calls s);
                   (new_id, n) =
                     (case opt_filter (\<lambda>c. c \<noteq> []) call_id of
                        Some c \<Rightarrow> (c, ca_drawn s)
                      | None \<Rightarrow> generate_call_id su (ca_drawn s));
                   (output_index, s) = allocate_output_index (s\<lparr>ca_drawn := n\<rparr>)
               in (position,
                   s\<lparr>ca_tool_calls := ca_tool_calls s @ [tool_state_new new_id output_index],
                     ca_active_positions := (ca_active_positions s)(index \<mapsto> position)\<rparr>)))"

text \<open>The state of a call after a delta.\<close>

definition apply_tool_delta :: "tool_call_delta \<Rightarrow> tool_state \<Rightarrow> tool_state" where
  "apply_tool_delta delta t =
     (let t = (case opt_filter (\<lambda>c. c \<noteq> []) (td_call_id delta) of Some c \<Rightarrow> t\<lparr>tc_call_id := c\<rparr> | None \<Rightarrow> t);
          t = (case opt_filter (\<lambda>c. c \<noteq> []) (td_name delta) of Some c \<Rightarrow> t\<lparr>tc_name := Some c\<rparr> | None \<Rightarrow> t)
      in t\<lparr>tc_added_emitted := True, tc_arguments := tc_arguments t @ td_arguments delta\<rparr>)"

definition observe_tool_call_delta ::
    "json_text \<Rightarrow> id_source \<Rightarrow> tool_call_delta \<Rightarrow> emission \<Rightarrow> compat_error + emission" where
  "observe_tool_call_delta jt su delta e =
     try_then (ensure_response_created jt su e) (\<lambda>(s, out).
       let (position, s) = resolve_tool_call_position su (td_index delta) (td_call_id delta) s;
           old = ca_tool_calls s ! position;
           t = apply_tool_delta delta old;
           s = s\<lparr>ca_tool_calls := (ca_tool_calls s)[position := t]\<rparr>
       in try_then
            (if tc_added_emitted old then Inr (s, out)
             else push_event jt
               (item_event ''response.output_item.added'' (tc_output_index t)
                  (function_call_item (tc_call_id t) (opt_or_default [] (tc_name t)) [] ''in_progress'')) (s, out))
            (\<lambda>(s, out).
               if td_arguments delta = [] then Inr (s, out)
               else
                 let (response_id, s) = current_response_id su s in
                 push_event jt
                   (text_event ''response.function_call_arguments.delta'' (tc_output_index t) (tc_call_id t)
                      [(''response_id'', JStr response_id), (''call_id'', JStr (tc_call_id t)),
                       (''delta'', JStr (td_arguments delta))]) (s, out)))"

definition complete_call :: "json_text \<Rightarrow> string \<Rightarrow> tool_state \<Rightarrow> compat_error + tool_state" where
  "complete_call jt full_text t =
     (if tc_done_emitted t then Inr t
      else
        try_then (normalize_tool_call_arguments jt (opt_or_default [] (tc_name t)) (tc_arguments t) full_text)
          (\<lambda>(arguments, _). Inr (t\<lparr>tc_arguments := arguments, tc_done_emitted := True\<rparr>)))"

definition call_done_events :: "string \<Rightarrow> tool_state \<Rightarrow> json list" where
  "call_done_events response_id t =
     [text_event ''response.function_call_arguments.done'' (tc_output_index t) (tc_call_id t)
        [(''response_id'', JStr response_id), (''call_id'', JStr (tc_call_id t)),
         (''name'', JStr (opt_or_default [] (tc_name t))), (''arguments'', JStr (tc_arguments t))],
      item_event ''response.output_item.done'' (tc_output_index t)
        (function_call_item (tc_call_id t) (opt_or_default [] (tc_name t)) (tc_arguments t) ''completed'')]"

definition emit_pending_tool_completions ::
    "json_text \<Rightarrow> id_source \<Rightarrow> emission \<Rightarrow> compat_error + emission" where
  "emit_pending_tool_completions jt su = (\<lambda>(s, out).
     let (response_id, s) = current_response_id su s in
     try_then (try_map (complete_call jt (ca_full_text s)) (ca_tool_calls s)) (\<lambda>calls.
       let pending = List.map snd (filter (\<lambda>(old, new). \<not> tc_done_emitted old) (zip (ca_tool_calls s) calls)) in
       push_events jt (concat (List.map (call_done_events response_id) (sort_key tc_output_index pending)))
         (s\<lparr>ca_tool_calls := calls\<rparr>, out)))"

definition call_item :: "tool_state \<Rightarrow> json" where
  "call_item t =
     function_call_item (tc_call_id t) (opt_or_default [] (tc_name t)) (tc_arguments t) ''completed''"

definition opt_list :: "'a option \<Rightarrow> 'a list" where
  "opt_list v = (case v of Some x \<Rightarrow> [x] | None \<Rightarrow> [])"

definition current_output_items :: "chat_stream \<Rightarrow> json list" where
  "current_output_items s =
     List.map snd (sort_key fst
       (List.map (\<lambda>i. (i, reasoning_item_with_status (ca_reasoning_id s) (ca_full_reasoning_text s) ''completed''))
          (opt_list (opt_filter (\<lambda>_. ca_reasoning_started s) (ca_reasoning_output_index s))) @
        List.map (\<lambda>i. (i, message_item_with_status (ca_message_id s) (ca_full_text s) ''completed''))
          (opt_list (opt_filter (\<lambda>_. ca_content_started s) (ca_message_output_index s))) @
        List.map (\<lambda>t. (tc_output_index t, call_item t)) (ca_tool_calls s)))"

subsection \<open>Completion\<close>

definition reasoning_done_events :: "chat_stream \<Rightarrow> json list" where
  "reasoning_done_events s =
     (let i = opt_or_default 0 (ca_reasoning_output_index s); txt = ca_full_reasoning_text s in
      [text_event ''response.reasoning_text.done'' i (ca_reasoning_id s)
         [(''content_index'', json_nat 0), (''text'', JStr txt)],
       text_event ''response.reasoning_summary_part.done'' i (ca_reasoning_id s)
         [(''summary_index'', json_nat 0), (''part'', summary_part txt)],
       item_event ''response.output_item.done'' i (reasoning_item_with_status (ca_reasoning_id s) txt ''completed'')])"

definition message_done_events :: "chat_stream \<Rightarrow> json list" where
  "message_done_events s =
     (let i = opt_or_default 0 (ca_message_output_index s); txt = ca_full_text s in
      [text_event ''response.output_text.done'' i (ca_message_id s)
         [(''content_index'', json_nat 0), (''text'', JStr txt), (''logprobs'', JArr [])],
       text_event ''response.content_part.done'' i (ca_message_id s)
         [(''content_index'', json_nat 0), (''part'', text_part txt)],
       item_event ''response.output_item.done'' i (message_item_with_status (ca_message_id s) txt ''completed'')])"

definition emit_completion :: "json_text \<Rightarrow> id_source \<Rightarrow> emission \<Rightarrow> compat_error + emission" where
  "emit_completion jt su = (\<lambda>(s, out).
     if ca_completed s then Inr (s, out)
     else
       try_then (ensure_response_created jt su (s, out)) (\<lambda>(s, out).
       try_then (if ca_reasoning_started s then push_events jt (reasoning_done_events s) (s, out) else Inr (s, out)) (\<lambda>(s, out).
       try_then (if ca_content_started s then push_events jt (message_done_events s) (s, out) else Inr (s, out)) (\<lambda>(s, out).
       try_then (emit_pending_tool_completions jt su (s, out)) (\<lambda>(s, out).
         let (response_id, s) = current_response_id su s;
             (response, n) =
               build_response_object su response_id (ca_model s) (ca_created_at s) (current_output_items s) (ca_usage s)
                 ''completed'' (ca_drawn s)
         in try_then (push_event jt (response_event ''response.completed'' response) (s\<lparr>ca_drawn := n\<rparr>, out))
              (\<lambda>(s, out). Inr (s\<lparr>ca_completed := True\<rparr>, out)))))))"

subsection \<open>Lines and chunks\<close>

definition observe_metadata :: "json \<Rightarrow> chat_stream \<Rightarrow> chat_stream" where
  "observe_metadata value s =
     s\<lparr>ca_response_id := opt_or (ca_response_id s) (member_text value ''id''),
       ca_model := opt_or (ca_model s) (member_text value ''model''),
       ca_created_at := opt_or (ca_created_at s) (Option.bind (json_get value ''created'') json_as_i64)\<rparr>"

definition push_reasoning :: "json_text \<Rightarrow> id_source \<Rightarrow> string \<Rightarrow> emission \<Rightarrow> compat_error + emission" where
  "push_reasoning jt su delta e =
     (if delta = [] then Inr e
      else
        try_then (ensure_reasoning_stream_started jt su e) (\<lambda>(s, out).
          let s = s\<lparr>ca_full_reasoning_text := ca_full_reasoning_text s @ delta\<rparr>;
              i = opt_or_default 0 (ca_reasoning_output_index s) in
          push_events jt
            [text_event ''response.reasoning_text.delta'' i (ca_reasoning_id s)
               [(''content_index'', json_nat 0), (''delta'', JStr delta)],
             text_event ''response.reasoning_summary_text.delta'' i (ca_reasoning_id s)
               [(''summary_index'', json_nat 0), (''delta'', JStr delta)]] (s, out)))"

definition push_text :: "json_text \<Rightarrow> id_source \<Rightarrow> string \<Rightarrow> emission \<Rightarrow> compat_error + emission" where
  "push_text jt su delta e =
     (if delta = [] then Inr e
      else
        try_then (ensure_text_stream_started jt su e) (\<lambda>(s, out).
          let s = s\<lparr>ca_full_text := ca_full_text s @ delta\<rparr> in
          push_event jt
            (text_event ''response.output_text.delta'' (opt_or_default 0 (ca_message_output_index s)) (ca_message_id s)
               [(''content_index'', json_nat 0), (''delta'', JStr delta), (''logprobs'', JArr [])]) (s, out)))"

definition process_line :: "json_text \<Rightarrow> id_source \<Rightarrow> string \<Rightarrow> emission \<Rightarrow> compat_error + emission" where
  "process_line jt su line = (\<lambda>(s, out).
     if \<not> prefix ''data:'' line then Inr (s, out)
     else
       let data = trim (drop 5 line) in
       if data = [] then Inr (s, out)
       else if data = ''[DONE]'' then emit_completion jt su (s, out)
       else
         (case jt_parse jt data of
            None \<Rightarrow> Inl (invalid_upstream ''chat-native endpoint returned invalid streaming JSON'')
          | Some value \<Rightarrow>
              let s = observe_metadata value s;
                  s = s\<lparr>ca_usage := opt_or (usage_from_chat_value value) (ca_usage s)\<rparr>
              in
                try_then (extract_chat_delta_tool_calls value) (\<lambda>calls.
                try_then (try_fold (observe_tool_call_delta jt su) calls (s, out)) (\<lambda>e.
                try_then (push_reasoning jt su (extract_chat_delta_reasoning_text value) e) (\<lambda>e.
                  push_text jt su (extract_chat_delta_text value) e)))))"

definition chat_push_chunk ::
    "json_text \<Rightarrow> id_source \<Rightarrow> nat \<Rightarrow> string \<Rightarrow> chat_stream \<Rightarrow> compat_error + emission" where
  "chat_push_chunk jt su capacity chunk s =
     (case decoder_push capacity (ca_decoder s) chunk of
        Inl _ \<Rightarrow> Inl (invalid_upstream ''upstream SSE stream is not valid UTF-8'')
      | Inr (d, lines) \<Rightarrow> try_fold (process_line jt su) lines (s\<lparr>ca_decoder := d\<rparr>, []))"

definition trim_line_end :: "string \<Rightarrow> string" where
  "trim_line_end line = rev (dropWhile (\<lambda>c. c = carriage_return \<or> c = newline) (rev line))"

definition chat_finish :: "json_text \<Rightarrow> id_source \<Rightarrow> chat_stream \<Rightarrow> compat_error + emission" where
  "chat_finish jt su s =
     (case decoder_finish (ca_decoder s) of
        Inl _ \<Rightarrow> Inl (invalid_upstream ''upstream SSE stream ended with incomplete UTF-8'')
      | Inr (d, rest) \<Rightarrow>
          try_then
            (case opt_filter (\<lambda>line. trim line \<noteq> []) rest of
               Some line \<Rightarrow> process_line jt su (trim_line_end line) (s\<lparr>ca_decoder := d\<rparr>, [])
             | None \<Rightarrow> Inr (s\<lparr>ca_decoder := d\<rparr>, []))
            (\<lambda>(s, out). if ca_completed s then Inr (s, out) else emit_completion jt su (s, out)))"

text \<open>
  A stream as the forwarder drives it: every chunk, then the end. The frames of a call reach the
  client when the call succeeds; the first error ends the stream.\<close>

fun chat_stream_run ::
    "json_text \<Rightarrow> id_source \<Rightarrow> (nat \<times> string) list \<Rightarrow> chat_stream \<Rightarrow> string list \<times> compat_error option" where
  "chat_stream_run jt su [] s =
     (case chat_finish jt su s of Inl err \<Rightarrow> ([], Some err) | Inr (s, out) \<Rightarrow> (out, None))"
| "chat_stream_run jt su ((capacity, chunk) # chunks) s =
     (case chat_push_chunk jt su capacity chunk s of
        Inl err \<Rightarrow> ([], Some err)
      | Inr (s, out) \<Rightarrow> let (frames, err) = chat_stream_run jt su chunks s in (out @ frames, err))"

end
