(* ===== verification/ChatProtocol.thy ===== *)
theory ChatProtocol
  imports ChatStream
begin

text \<open>
  What a client may rely on in the event stream of a Responses answer, as an automaton that reads the
  frames: events are numbered from zero, the answer is announced first, items are announced in the
  order of their indices, carry deltas while they are open, and are closed with the text their deltas
  add up to; the completed answer lists the closed items. The adapter is shown to keep to it.
\<close>

subsection \<open>Reading frames\<close>

datatype item_kind = ReasoningKind | MessageKind | CallKind

datatype protocol_event =
    PeCreated
  | PeItemAdded nat item_kind string
  | PePartAdded nat string
  | PeTextDelta nat item_kind string string
  | PeSummaryDelta nat string string
  | PeTextDone nat item_kind string string
  | PePartDone nat string string
  | PeItemDone nat json
  | PeCompleted "json list"

definition kind_of_item :: "json \<Rightarrow> item_kind option" where
  "kind_of_item item =
     Option.bind (member_str item ''type'') (\<lambda>t.
       if t = ''reasoning'' then Some ReasoningKind
       else if t = ''message'' then Some MessageKind
       else if t = ''function_call'' then Some CallKind
       else None)"

definition part_text :: "json \<Rightarrow> string option" where
  "part_text event = Option.bind (json_get event ''part'') (\<lambda>part. member_str part ''text'')"

definition read_item_text_event :: "string \<Rightarrow> nat \<Rightarrow> string \<Rightarrow> json \<Rightarrow> protocol_event option" where
  "read_item_text_event t i item_id event =
     (if t = ''response.reasoning_summary_part.added'' \<or> t = ''response.content_part.added''
      then Some (PePartAdded i item_id)
      else if t = ''response.reasoning_text.delta''
      then map_option (PeTextDelta i ReasoningKind item_id) (member_str event ''delta'')
      else if t = ''response.output_text.delta''
      then map_option (PeTextDelta i MessageKind item_id) (member_str event ''delta'')
      else if t = ''response.function_call_arguments.delta''
      then map_option (PeTextDelta i CallKind item_id) (member_str event ''delta'')
      else if t = ''response.reasoning_summary_text.delta''
      then map_option (PeSummaryDelta i item_id) (member_str event ''delta'')
      else if t = ''response.reasoning_text.done''
      then map_option (PeTextDone i ReasoningKind item_id) (member_str event ''text'')
      else if t = ''response.output_text.done''
      then map_option (PeTextDone i MessageKind item_id) (member_str event ''text'')
      else if t = ''response.function_call_arguments.done''
      then map_option (PeTextDone i CallKind item_id) (member_str event ''arguments'')
      else if t = ''response.reasoning_summary_part.done'' \<or> t = ''response.content_part.done''
      then map_option (PePartDone i item_id) (part_text event)
      else None)"

definition read_event_of_type :: "string \<Rightarrow> json \<Rightarrow> protocol_event option" where
  "read_event_of_type t event =
     (if t = ''response.created'' then Some PeCreated
      else if t = ''response.completed''
      then map_option PeCompleted
             (Option.bind (Option.bind (json_get event ''response'') (\<lambda>r. json_get r ''output'')) json_as_array)
      else
        Option.bind (Option.bind (json_get event ''output_index'') json_as_u64) (\<lambda>i.
          if t = ''response.output_item.added''
          then Option.bind (json_get event ''item'') (\<lambda>item.
                 Option.bind (kind_of_item item) (\<lambda>k. map_option (PeItemAdded i k) (member_str item ''id'')))
          else if t = ''response.output_item.done'' then map_option (PeItemDone i) (json_get event ''item'')
          else Option.bind (member_str event ''item_id'') (\<lambda>item_id. read_item_text_event t i item_id event)))"

definition read_protocol_event :: "json \<Rightarrow> (nat \<times> protocol_event) option" where
  "read_protocol_event event =
     Option.bind (Option.bind (json_get event ''sequence_number'') json_as_u64) (\<lambda>seq.
     Option.bind (member_str event ''type'') (\<lambda>t. map_option (Pair seq) (read_event_of_type t event)))"

text \<open>A frame is \<open>data: \<close>, the event and an empty line.\<close>

definition frame_event :: "json_text \<Rightarrow> string \<Rightarrow> (nat \<times> protocol_event) option" where
  "frame_event jt frame = Option.bind (jt_parse jt (butlast (butlast (drop 6 frame)))) read_protocol_event"

subsection \<open>The automaton\<close>

datatype item_stage = Announced | Streaming | TextDone | PartDone | ItemDone json

record protocol_item =
  pi_kind :: item_kind
  pi_id :: string
  pi_text :: string
  pi_summary :: string
  pi_stage :: item_stage

text \<open>The text a client reads in a closed item.\<close>

definition closed_item_text :: "item_kind \<Rightarrow> json \<Rightarrow> string option" where
  "closed_item_text k item =
     (if k = CallKind then member_str item ''arguments'' else map_option extract_text (json_get item ''content''))"

definition new_item :: "item_kind \<Rightarrow> string \<Rightarrow> protocol_item" where
  "new_item k item_id =
     \<lparr>pi_kind = k, pi_id = item_id, pi_text = [], pi_summary = [],
      pi_stage = (if k = CallKind then Streaming else Announced)\<rparr>"

text \<open>
  One event of an item. The final arguments of a call are those streamed, unless these are not JSON
  and were repaired.\<close>

fun item_step :: "json_text \<Rightarrow> protocol_event \<Rightarrow> protocol_item \<Rightarrow> protocol_item option" where
  "item_step jt (PePartAdded i item_id) it =
     (if pi_stage it = Announced \<and> item_id = pi_id it then Some (it\<lparr>pi_stage := Streaming\<rparr>) else None)"
| "item_step jt (PeTextDelta i k item_id delta) it =
     (if pi_stage it = Streaming \<and> k = pi_kind it \<and> item_id = pi_id it
      then Some (it\<lparr>pi_text := pi_text it @ delta\<rparr>) else None)"
| "item_step jt (PeSummaryDelta i item_id delta) it =
     (if pi_stage it = Streaming \<and> pi_kind it = ReasoningKind \<and> item_id = pi_id it
      then Some (it\<lparr>pi_summary := pi_summary it @ delta\<rparr>) else None)"
| "item_step jt (PeTextDone i k item_id txt) it =
     (if pi_stage it = Streaming \<and> k = pi_kind it \<and> item_id = pi_id it \<and>
         (txt = pi_text it \<or> k = CallKind \<and> jt_parse jt (pi_text it) = None \<and> jt_parse jt txt \<noteq> None)
      then Some (it\<lparr>pi_text := txt, pi_stage := TextDone\<rparr>) else None)"
| "item_step jt (PePartDone i item_id txt) it =
     (if pi_stage it = TextDone \<and> pi_kind it \<noteq> CallKind \<and> item_id = pi_id it \<and>
         txt = (if pi_kind it = ReasoningKind then pi_summary it else pi_text it)
      then Some (it\<lparr>pi_stage := PartDone\<rparr>) else None)"
| "item_step jt (PeItemDone i item) it =
     (if pi_stage it = (if pi_kind it = CallKind then TextDone else PartDone) \<and>
         member_str item ''id'' = Some (pi_id it) \<and> kind_of_item item = Some (pi_kind it) \<and>
         closed_item_text (pi_kind it) item = Some (pi_text it)
      then Some (it\<lparr>pi_stage := ItemDone item\<rparr>) else None)"
| "item_step jt _ it = None"

fun event_index :: "protocol_event \<Rightarrow> nat" where
  "event_index (PePartAdded i _) = i"
| "event_index (PeTextDelta i _ _ _) = i"
| "event_index (PeSummaryDelta i _ _) = i"
| "event_index (PeTextDone i _ _ _) = i"
| "event_index (PePartDone i _ _) = i"
| "event_index (PeItemDone i _) = i"
| "event_index _ = 0"

text \<open>The state: the next number, whether the answer was announced, its items; or completed.\<close>

datatype protocol = Running nat bool "protocol_item list" | Finished

fun protocol_step :: "json_text \<Rightarrow> protocol \<Rightarrow> nat \<times> protocol_event \<Rightarrow> protocol option" where
  "protocol_step jt Finished e = Some Finished"
| "protocol_step jt (Running next created items) (seq, e) =
     (if seq \<noteq> next then None
      else
        (case e of
           PeCreated \<Rightarrow> if created then None else Some (Running (next + 1) True items)
         | PeItemAdded i k item_id \<Rightarrow>
             if created \<and> i = length items then Some (Running (next + 1) True (items @ [new_item k item_id])) else None
         | PeCompleted output \<Rightarrow>
             if created \<and> List.map pi_stage items = List.map ItemDone output then Some Finished else None
         | _ \<Rightarrow>
             let i = event_index e in
             if created \<and> i < length items
             then map_option (\<lambda>it. Running (next + 1) True (items[i := it])) (item_step jt e (items ! i))
             else None))"

fun protocol_run :: "json_text \<Rightarrow> protocol \<Rightarrow> string list \<Rightarrow> protocol option" where
  "protocol_run jt m [] = Some m"
| "protocol_run jt m (frame # frames) =
     (if m = Finished then Some Finished
      else Option.bind (frame_event jt frame) (\<lambda>e. Option.bind (protocol_step jt m e) (\<lambda>m. protocol_run jt m frames)))"

lemma protocol_run_finished [simp]: "protocol_run jt Finished frames = Some Finished"
  by (cases frames) auto

lemma protocol_run_append:
  "protocol_run jt m (xs @ ys) = Option.bind (protocol_run jt m xs) (\<lambda>m. protocol_run jt m ys)"
  by (induction xs arbitrary: m) (auto simp: bind_assoc)

subsection \<open>Pushed events\<close>

definition numbered :: "nat \<Rightarrow> json \<Rightarrow> json" where
  "numbered seq event = json_set ''sequence_number'' (json_nat seq) event"

fun events_run :: "json_text \<Rightarrow> protocol \<Rightarrow> nat \<Rightarrow> json list \<Rightarrow> protocol option" where
  "events_run jt m seq [] = Some m"
| "events_run jt m seq (event # events) =
     (if m = Finished then Some Finished
      else
        Option.bind (read_protocol_event (numbered seq event)) (\<lambda>e.
        Option.bind (protocol_step jt m e) (\<lambda>m. events_run jt m (seq + 1) events)))"

lemma events_run_finished [simp]: "events_run jt Finished seq events = Some Finished"
  by (cases events) auto

lemma events_run_append:
  "events_run jt m seq (xs @ ys) =
     Option.bind (events_run jt m seq xs) (\<lambda>m. events_run jt m (seq + length xs) ys)"
  by (induction xs arbitrary: m seq) (auto simp: bind_assoc)

definition event_ok :: "json \<Rightarrow> bool" where
  "event_ok event \<longleftrightarrow> json_wf event \<and> (\<exists>members. event = JObj members)"

lemma push_event_ok:
  assumes "json_reads_back jt" "event_ok event"
  shows "\<exists>frame. push_event jt event (s, out) =
      Inr (s\<lparr>ca_next_sequence_number := ca_next_sequence_number s + 1\<rparr>, out @ [frame]) \<and>
    frame_event jt frame = read_protocol_event (numbered (ca_next_sequence_number s) event)"
proof -
  let ?e = "numbered (ca_next_sequence_number s) event"
  have "json_wf ?e"
    using assms(2) json_set_wf by (auto simp: event_ok_def numbered_def json_set_def json_nat_def simp del: json_wf.simps(6))
  then obtain t where t: "jt_print jt ?e = Some t" "jt_parse jt t = Some ?e"
    using assms(1) by (auto simp: json_reads_back_def)
  then show ?thesis by (simp add: push_event_def sse_event_def numbered_def frame_event_def butlast_append)
qed

lemma push_events_ok:
  assumes "json_reads_back jt"
  shows "list_all event_ok events \<Longrightarrow> \<exists>frames. push_events jt events (s, out) =
      Inr (s\<lparr>ca_next_sequence_number := ca_next_sequence_number s + length events\<rparr>, out @ frames) \<and>
    (\<forall>m. protocol_run jt m frames = events_run jt m (ca_next_sequence_number s) events)"
proof (induction events arbitrary: s out)
  case Nil
  show ?case by (simp add: push_events_def)
next
  case (Cons event events)
  let ?s = "s\<lparr>ca_next_sequence_number := ca_next_sequence_number s + 1\<rparr>"
  obtain frame where f: "push_event jt event (s, out) = Inr (?s, out @ [frame])"
    "frame_event jt frame = read_protocol_event (numbered (ca_next_sequence_number s) event)"
    using push_event_ok [OF assms] Cons.prems by fastforce
  obtain frames where g: "push_events jt events (?s, out @ [frame]) =
      Inr (?s\<lparr>ca_next_sequence_number := ca_next_sequence_number ?s + length events\<rparr>, (out @ [frame]) @ frames)"
    "\<forall>m. protocol_run jt m frames = events_run jt m (ca_next_sequence_number ?s) events"
    using Cons.IH [of ?s "out @ [frame]"] Cons.prems by auto
  show ?case
    using f g by (intro exI [of _ "frame # frames"]) (simp add: push_events_def)
qed

subsection \<open>What the adapter's events say\<close>

lemma obj_eq: "\<exists>members. json_obj xs = JObj members"
  by (simp add: json_obj_def)

lemma get_set_obj: "json_get (json_set k v (json_obj xs)) k' = (if k' = k then Some v else json_get (json_obj xs) k')"
  by (simp add: json_obj_def)

lemmas event_defs = numbered_def text_event_def item_event_def response_event_def get_set_obj json_get_obj member_str_def
  json_nat_def json_as_u64_def read_protocol_event_def read_event_of_type_def read_item_text_event_def part_text_def
  summary_part_def text_part_def

lemma read_text_events [simp]:
  "read_protocol_event (numbered q (text_event ''response.reasoning_summary_part.added'' i d
      [(''summary_index'', x), (''part'', y)])) = Some (q, PePartAdded i d)"
  "read_protocol_event (numbered q (text_event ''response.content_part.added'' i d
      [(''content_index'', x), (''part'', y)])) = Some (q, PePartAdded i d)"
  "read_protocol_event (numbered q (text_event ''response.reasoning_text.delta'' i d
      [(''content_index'', x), (''delta'', JStr t)])) = Some (q, PeTextDelta i ReasoningKind d t)"
  "read_protocol_event (numbered q (text_event ''response.reasoning_summary_text.delta'' i d
      [(''summary_index'', x), (''delta'', JStr t)])) = Some (q, PeSummaryDelta i d t)"
  "read_protocol_event (numbered q (text_event ''response.output_text.delta'' i d
      [(''content_index'', x), (''delta'', JStr t), (''logprobs'', y)])) = Some (q, PeTextDelta i MessageKind d t)"
  "read_protocol_event (numbered q (text_event ''response.function_call_arguments.delta'' i d
      [(''response_id'', x), (''call_id'', y), (''delta'', JStr t)])) = Some (q, PeTextDelta i CallKind d t)"
  "read_protocol_event (numbered q (text_event ''response.reasoning_text.done'' i d
      [(''content_index'', x), (''text'', JStr t)])) = Some (q, PeTextDone i ReasoningKind d t)"
  "read_protocol_event (numbered q (text_event ''response.output_text.done'' i d
      [(''content_index'', x), (''text'', JStr t), (''logprobs'', y)])) = Some (q, PeTextDone i MessageKind d t)"
  "read_protocol_event (numbered q (text_event ''response.function_call_arguments.done'' i d
      [(''response_id'', x), (''call_id'', y), (''name'', z), (''arguments'', JStr t)])) = Some (q, PeTextDone i CallKind d t)"
  "read_protocol_event (numbered q (text_event ''response.reasoning_summary_part.done'' i d
      [(''summary_index'', x), (''part'', summary_part t)])) = Some (q, PePartDone i d t)"
  "read_protocol_event (numbered q (text_event ''response.content_part.done'' i d
      [(''content_index'', x), (''part'', text_part t)])) = Some (q, PePartDone i d t)"
  by (simp_all add: event_defs)

lemma read_created [simp]: "read_protocol_event (numbered q (response_event ''response.created'' r)) = Some (q, PeCreated)"
  by (simp add: event_defs)

lemma read_item_done [simp]:
  "read_protocol_event (numbered q (item_event ''response.output_item.done'' i item)) = Some (q, PeItemDone i item)"
  by (simp add: event_defs)

lemma item_of_kind [simp]:
  "kind_of_item (reasoning_item_with_status d t st) = Some ReasoningKind"
  "kind_of_item (message_item_with_status d t st) = Some MessageKind"
  "kind_of_item (function_call_item d nm t st) = Some CallKind"
  by (simp_all add: kind_of_item_def member_str_def json_get_obj reasoning_item_with_status_def
      message_item_with_status_def function_call_item_def)

lemma item_id [simp]:
  "member_str (reasoning_item_with_status d t st) ''id'' = Some d"
  "member_str (message_item_with_status d t st) ''id'' = Some d"
  "member_str (function_call_item d nm t st) ''id'' = Some d"
  by (simp_all add: member_str_def json_get_obj reasoning_item_with_status_def message_item_with_status_def
      function_call_item_def)

lemma extract_text_obj: "extract_text (json_obj xs) =
   opt_or_default []
     (opt_or (map_option extract_text (json_get (json_obj xs) ''text''))
       (opt_or (map_option extract_text (json_get (json_obj xs) ''content''))
         (map_option extract_text (json_get (json_obj xs) ''output_text''))))"
  by (simp add: json_obj_def extract_member_eq)

lemma item_text [simp]:
  "closed_item_text ReasoningKind (reasoning_item_with_status d t st) = Some t"
  "closed_item_text MessageKind (message_item_with_status d t st) = Some t"
  "closed_item_text CallKind (function_call_item d nm t st) = Some t"
  by (simp_all add: closed_item_text_def member_str_def json_get_obj extract_text_obj extract_items_eq
      reasoning_item_with_status_def message_item_with_status_def function_call_item_def)

lemma read_item_added [simp]:
  "kind_of_item item = Some k \<Longrightarrow> member_str item ''id'' = Some d \<Longrightarrow>
   read_protocol_event (numbered q (item_event ''response.output_item.added'' i item)) = Some (q, PeItemAdded i k d)"
  by (simp add: event_defs)

end
