(* ===== verification/ChatSafety.thy ===== *)
theory ChatSafety
  imports ChatProtocol
begin

text \<open>
  The adapter of theory ChatStream keeps to the automaton of theory ChatProtocol: every operation
  moves the automaton from the state the adapter stands for to that of the adapter it returns.
\<close>

subsection \<open>Well-formed events\<close>

lemma json_nat_wf [simp]: "json_wf (json_nat n)"
  by (simp add: json_nat_def)

lemma json_i64_wf [simp]: "json_wf (json_i64 i)"
  by (simp add: json_i64_def)

lemma json_opt_wf [simp]:
  "(\<And>v. u = Some v \<Longrightarrow> json_wf v) \<Longrightarrow> json_wf (json_opt u)" "json_wf (json_opt (map_option json_i64 i))"
  by (cases u; simp add: json_opt_def) (cases i; simp add: json_opt_def)

lemma part_wf [simp]: "json_wf (summary_part t)" "json_wf (text_part t)"
  by (auto simp: summary_part_def text_part_def intro!: json_obj_wf)

lemma item_wf [simp]:
  "json_wf (reasoning_item_with_status d t st)" "json_wf (message_item_with_status d t st)"
  "json_wf (function_call_item d nm t st)" "json_wf (call_item c)"
  by (auto simp: reasoning_item_with_status_def message_item_with_status_def function_call_item_def call_item_def
      intro!: json_obj_wf)

lemma event_ok_text [simp]: "list_all (\<lambda>(k, v). json_wf v) members \<Longrightarrow> event_ok (text_event t i d members)"
  by (auto simp: event_ok_def text_event_def obj_eq intro!: json_obj_wf)

lemma event_ok_item [simp]: "json_wf item \<Longrightarrow> event_ok (item_event t i item)"
  by (auto simp: event_ok_def item_event_def obj_eq intro!: json_obj_wf)

lemma event_ok_response [simp]: "json_wf r \<Longrightarrow> event_ok (response_event t r)"
  by (auto simp: event_ok_def response_event_def obj_eq intro!: json_obj_wf)

lemma shell_obj: "\<exists>xs. fst (response_shell su rid model created status n) = json_obj xs \<and> list_all (\<lambda>(k, v). json_wf v) xs"
  by (auto simp: response_shell_def Let_def case_prod_beta intro!: exI [of _ "_ # _"] json_obj_wf)

lemma json_set_wf_obj: "json_wf (JObj ms) \<Longrightarrow> json_wf v \<Longrightarrow> json_wf (json_set k v (JObj ms))"
  using json_set_wf by (simp add: json_set_def del: json_wf.simps)

lemma json_set_JObj: "json_set k v (JObj ms) = JObj (members_insert k v ms)"
  by (simp add: json_set_def)

lemma response_object:
  assumes "\<And>u. usage = Some u \<Longrightarrow> json_wf u" "list_all json_wf items"
  shows "json_wf (fst (response_shell su rid model created status n))"
    "json_wf (fst (build_response_object su rid model created items usage status n))"
    "json_get (fst (build_response_object su rid model created items usage status n)) ''output'' = Some (JArr items)"
proof -
  obtain shell m where s: "response_shell su rid model created status n = (shell, m)" by fastforce
  obtain xs where xs: "shell = json_obj xs" "list_all (\<lambda>(k, v). json_wf v) xs"
    using shell_obj [of su rid model created status n] s by auto
  obtain ms where ms: "shell = JObj ms" using obj_eq xs(1) by blast
  have wf: "json_wf (JObj ms)" using json_obj_wf [OF xs(2)] xs(1) ms by simp
  then show "json_wf (fst (response_shell su rid model created status n))" using s ms by simp
  have items: "json_wf (JArr items)" using assms(2) by (simp add: items_wf_iff list_all_iff)
  show "json_wf (fst (build_response_object su rid model created items usage status n))"
    using wf items assms(1)
    by (auto simp: build_response_object_def s Let_def case_prod_beta ms json_set_JObj current_timestamp_def
        simp del: json_wf.simps(6) intro!: json_set_wf)
  show "json_get (fst (build_response_object su rid model created items usage status n)) ''output'' = Some (JArr items)"
    by (simp add: build_response_object_def s Let_def case_prod_beta ms json_set_JObj)
qed

lemma read_completed:
  assumes "json_get r ''output'' = Some (JArr items)"
  shows "read_protocol_event (numbered q (response_event ''response.completed'' r)) = Some (q, PeCompleted items)"
  using assms by (simp add: event_defs json_as_array_def)

lemma usage_wf: "usage_from_chat_value v = Some u \<Longrightarrow> json_wf u"
  by (auto simp: usage_from_chat_value_def Let_def intro!: json_obj_wf)

subsection \<open>The automaton over items by index\<close>

lemma upt_items_update: "i < n \<Longrightarrow> (List.map f [0..<n])[i := x] = List.map (f(i := x)) [0..<n]"
  by (rule nth_equalityI) (auto simp: nth_list_update)

lemma step_indexed:
  assumes "i < n" "event_index e = i" "e \<noteq> PeCreated" "\<nexists>j k d. e = PeItemAdded j k d" "\<nexists>out. e = PeCompleted out"
  shows "protocol_step jt (Running q True (List.map f [0..<n])) (q, e) =
    map_option (\<lambda>it. Running (q + 1) True (List.map (f(i := it)) [0..<n])) (item_step jt e (f i))"
  using assms by (cases e) (simp_all add: upt_items_update Let_def)

lemma step_added:
  "protocol_step jt (Running q True (List.map f [0..<n])) (q, PeItemAdded n k d) =
     Some (Running (q + 1) True (List.map (f(n := new_item k d)) [0..<Suc n]))"
  by simp

subsection \<open>The state the adapter stands for\<close>

definition item_at :: "chat_stream \<Rightarrow> nat \<Rightarrow> protocol_item" where
  "item_at s i =
     (if ca_reasoning_output_index s = Some i
      then \<lparr>pi_kind = ReasoningKind, pi_id = ca_reasoning_id s, pi_text = ca_full_reasoning_text s,
            pi_summary = ca_full_reasoning_text s, pi_stage = Streaming\<rparr>
      else if ca_message_output_index s = Some i
      then \<lparr>pi_kind = MessageKind, pi_id = ca_message_id s, pi_text = ca_full_text s, pi_summary = [],
            pi_stage = Streaming\<rparr>
      else
        (case List.find (\<lambda>t. tc_output_index t = i) (ca_tool_calls s) of
           Some t \<Rightarrow> \<lparr>pi_kind = CallKind, pi_id = tc_call_id t, pi_text = tc_arguments t, pi_summary = [],
                      pi_stage = Streaming\<rparr>
         | None \<Rightarrow> new_item CallKind []))"

definition protocol_of :: "chat_stream \<Rightarrow> protocol" where
  "protocol_of s =
     (if ca_completed s then Finished
      else Running (ca_next_sequence_number s) (ca_created_emitted s)
             (List.map (item_at s) [0..<ca_next_output_index s]))"

definition item_indices :: "chat_stream \<Rightarrow> nat list" where
  "item_indices s =
     opt_list (ca_reasoning_output_index s) @ opt_list (ca_message_output_index s) @
     List.map tc_output_index (ca_tool_calls s)"

text \<open>
  The adapter between two operations: active positions are in range; before the completion every
  index below the next one belongs to one announced item.\<close>

definition items_open :: "chat_stream \<Rightarrow> bool" where
  "items_open s \<longleftrightarrow>
     distinct (item_indices s) \<and> set (item_indices s) = {..<ca_next_output_index s} \<and>
     (ca_reasoning_started s \<longleftrightarrow> ca_reasoning_output_index s \<noteq> None) \<and>
     (ca_content_started s \<longleftrightarrow> ca_message_output_index s \<noteq> None) \<and>
     (\<not> ca_reasoning_started s \<longrightarrow> ca_full_reasoning_text s = []) \<and>
     (\<not> ca_content_started s \<longrightarrow> ca_full_text s = []) \<and>
     list_all (\<lambda>t. tc_added_emitted t \<and> \<not> tc_done_emitted t) (ca_tool_calls s) \<and>
     (\<not> ca_created_emitted s \<longrightarrow> ca_next_output_index s = 0)"

definition chat_ok :: "chat_stream \<Rightarrow> bool" where
  "chat_ok s \<longleftrightarrow>
     (\<forall>p \<in> ran (ca_active_positions s). p < length (ca_tool_calls s)) \<and>
     (\<forall>u. ca_usage s = Some u \<longrightarrow> json_wf u) \<and> (\<not> ca_completed s \<longrightarrow> items_open s)"

text \<open>One operation: what it emitted moves the automaton to the adapter's new state.\<close>

definition follows :: "json_text \<Rightarrow> emission \<Rightarrow> emission \<Rightarrow> bool" where
  "follows jt e e' \<longleftrightarrow>
     (\<exists>frames. snd e' = snd e @ frames \<and> protocol_run jt (protocol_of (fst e)) frames = Some (protocol_of (fst e')))"

lemma follows_refl [simp]: "follows jt e e"
  by (auto simp: follows_def)

lemma follows_trans: "follows jt a b \<Longrightarrow> follows jt b c \<Longrightarrow> follows jt a c"
  by (force simp: follows_def protocol_run_append)

lemma chat_new: "chat_ok (chat_stream_new su n)" "protocol_of (chat_stream_new su n) = Running 0 False []"
  by (auto simp: chat_ok_def items_open_def item_indices_def opt_list_def chat_stream_new_def protocol_of_def
      Let_def case_prod_beta)

text \<open>What draws from the source or notes metadata is not seen by the automaton.\<close>

lemma item_at_drawn [simp]:
  "item_at (s\<lparr>ca_drawn := n\<rparr>) = item_at s" "item_at (s\<lparr>ca_created_emitted := b\<rparr>) = item_at s"
  "item_at (s\<lparr>ca_next_sequence_number := q\<rparr>) = item_at s" "item_at (s\<lparr>ca_decoder := d\<rparr>) = item_at s"
  "item_at (s\<lparr>ca_usage := u\<rparr>) = item_at s" "item_at (s\<lparr>ca_response_id := r\<rparr>) = item_at s"
  "item_at (s\<lparr>ca_model := md\<rparr>) = item_at s" "item_at (s\<lparr>ca_created_at := c\<rparr>) = item_at s"
  "item_at (s\<lparr>ca_reasoning_started := b\<rparr>) = item_at s" "item_at (s\<lparr>ca_content_started := b\<rparr>) = item_at s"
  "item_at (s\<lparr>ca_next_output_index := k\<rparr>) = item_at s" "item_at (s\<lparr>ca_active_positions := a\<rparr>) = item_at s"
  by (simp_all add: item_at_def fun_eq_iff)

lemma current_response_id_state:
  "\<exists>r n. current_response_id su s = (r, s\<lparr>ca_drawn := n\<rparr>)"
proof (cases "ca_response_id s")
  case None
  then show ?thesis by (auto simp: current_response_id_def Let_def case_prod_beta)
next
  case (Some r)
  then have "current_response_id su s = (r, s\<lparr>ca_drawn := ca_drawn s\<rparr>)" by (simp add: current_response_id_def)
  then show ?thesis by blast
qed

text \<open>The adapter once the answer is announced.\<close>

abbreviation announced :: "chat_stream \<Rightarrow> nat \<Rightarrow> nat \<Rightarrow> chat_stream" where
  "announced s n q \<equiv> s\<lparr>ca_drawn := n, ca_created_emitted := True, ca_next_sequence_number := q\<rparr>"

lemma ensure_created:
  assumes "json_reads_back jt" "chat_ok s"
  obtains n q frames where
    "ensure_response_created jt su (s, out) =
       Inr (announced s n q, out @ frames)"
    "chat_ok (announced s n q)"
    "follows jt (s, out) (announced s n q, out @ frames)"
proof (cases "ca_created_emitted s")
  case True
  have eq: "s\<lparr>ca_drawn := ca_drawn s, ca_created_emitted := True, ca_next_sequence_number := ca_next_sequence_number s\<rparr> = s"
    using True by simp
  show ?thesis
    by (rule that [where n = "ca_drawn s" and q = "ca_next_sequence_number s" and frames = "[]", unfolded eq])
      (use True assms(2) in \<open>simp_all add: ensure_response_created_def\<close>)
next
  case False
  obtain r n where r: "current_response_id su s = (r, s\<lparr>ca_drawn := n\<rparr>)" using current_response_id_state by blast
  obtain shell m where sh: "response_shell su r (ca_model s) (ca_created_at s) ''in_progress'' n = (shell, m)" by fastforce
  have "json_wf shell"
    using response_object(1) [of None "[]" su r "ca_model s" "ca_created_at s" "''in_progress''" n] sh by simp
  then obtain frame where f: "push_event jt (response_event ''response.created'' shell) (s\<lparr>ca_drawn := m\<rparr>, out) =
      Inr (s\<lparr>ca_drawn := m, ca_next_sequence_number := ca_next_sequence_number s + 1\<rparr>, out @ [frame])"
    "frame_event jt frame = Some (ca_next_sequence_number s, PeCreated)"
    using push_event_ok [OF assms(1), of "response_event ''response.created'' shell" "s\<lparr>ca_drawn := m\<rparr>" out] by auto
  let ?s = "s\<lparr>ca_drawn := m, ca_created_emitted := True, ca_next_sequence_number := ca_next_sequence_number s + 1\<rparr>"
  have 1: "ensure_response_created jt su (s, out) = Inr (?s, out @ [frame])"
    using False by (simp add: ensure_response_created_def r sh f)
  have 2: "chat_ok ?s" using assms(2) False by (auto simp: chat_ok_def items_open_def item_indices_def)
  have "\<not> ca_completed s \<Longrightarrow> ca_next_output_index s = 0" using assms(2) False by (simp add: chat_ok_def items_open_def)
  then have 3: "follows jt (s, out) (?s, out @ [frame])"
    using False f(2) by (auto simp: follows_def protocol_of_def)
  show ?thesis using that [OF 1 2 3] .
qed

text \<open>Opening an item: the next index is announced with its kind and id, then its part.\<close>

lemma open_item_run:
  assumes "\<not> ca_completed s" "ca_created_emitted s"
    and "read_protocol_event (numbered (ca_next_sequence_number s) e1) = Some (ca_next_sequence_number s, PeItemAdded (ca_next_output_index s) k d)"
    and "read_protocol_event (numbered (Suc (ca_next_sequence_number s)) e2) = Some (Suc (ca_next_sequence_number s), PePartAdded (ca_next_output_index s) d)"
    and "k \<noteq> CallKind"
  shows "events_run jt (protocol_of s) (ca_next_sequence_number s) [e1, e2] =
    Some (Running (Suc (Suc (ca_next_sequence_number s))) True
      (List.map ((item_at s)(ca_next_output_index s := (new_item k d)\<lparr>pi_stage := Streaming\<rparr>)) [0..<Suc (ca_next_output_index s)]))"
proof -
  let ?n = "ca_next_output_index s" and ?q = "ca_next_sequence_number s"
  let ?f = "(item_at s)(?n := new_item k d)"
  have 1: "protocol_step jt (protocol_of s) (?q, PeItemAdded ?n k d) = Some (Running (Suc ?q) True (List.map ?f [0..<Suc ?n]))"
    using assms(1,2) step_added [of jt ?q "item_at s" ?n k d] by (simp add: protocol_of_def del: upt.simps)
  have "item_step jt (PePartAdded ?n d) (?f ?n) = Some ((new_item k d)\<lparr>pi_stage := Streaming\<rparr>)"
    using assms(5) by (simp add: new_item_def)
  then have 2: "protocol_step jt (Running (Suc ?q) True (List.map ?f [0..<Suc ?n])) (Suc ?q, PePartAdded ?n d) =
      Some (Running (Suc (Suc ?q)) True (List.map ((item_at s)(?n := (new_item k d)\<lparr>pi_stage := Streaming\<rparr>)) [0..<Suc ?n]))"
    using step_indexed [of ?n "Suc ?n" "PePartAdded ?n d" jt "Suc ?q" ?f] by (simp del: upt.simps)
  have "protocol_of s \<noteq> Finished" using assms(1) by (simp add: protocol_of_def)
  then show ?thesis by (simp add: assms(3,4) 1 2 del: upt.simps protocol_step.simps)
qed

lemma items_open_fresh:
  "items_open s \<Longrightarrow> ca_next_output_index s \<notin> set (item_indices s)"
  by (auto simp: items_open_def)

lemma open_item:
  assumes "json_reads_back jt" "event_ok e1" "event_ok e2" "k \<noteq> CallKind"
    and "ca_next_sequence_number s2 = q" "ca_next_sequence_number s = q"
      "ca_next_sequence_number t = Suc (Suc q)" "ca_completed t = ca_completed s" "ca_created_emitted s" "ca_created_emitted t"
    and "\<And>q. read_protocol_event (numbered q e1) = Some (q, PeItemAdded i k d)"
      "\<And>q. read_protocol_event (numbered q e2) = Some (q, PePartAdded i d)"
    and "\<not> ca_completed s \<Longrightarrow> i = ca_next_output_index s \<and> ca_next_output_index t = Suc i \<and>
      (\<forall>j < Suc i. item_at t j = ((item_at s)(i := (new_item k d)\<lparr>pi_stage := Streaming\<rparr>)) j)"
  obtains frames where
    "push_events jt [e1, e2] (s2, out) = Inr (s2\<lparr>ca_next_sequence_number := Suc (Suc q)\<rparr>, out @ frames)"
    "follows jt (s, out) (t, out @ frames)"
proof -
  obtain frames where p: "push_events jt [e1, e2] (s2, out) =
      Inr (s2\<lparr>ca_next_sequence_number := Suc (Suc q)\<rparr>, out @ frames)"
    "\<And>m. protocol_run jt m frames = events_run jt m q [e1, e2]"
    using push_events_ok [OF assms(1), of "[e1, e2]" s2 out] assms(2,3,5) by auto
  have "follows jt (s, out) (t, out @ frames)"
  proof (cases "ca_completed s")
    case True
    then show ?thesis using assms(8) by (auto simp: follows_def protocol_of_def)
  next
    case False
    note at' = assms(13) [OF False]
    have "events_run jt (protocol_of s) q [e1, e2] =
        Some (Running (Suc (Suc q)) True (List.map ((item_at s)(i := (new_item k d)\<lparr>pi_stage := Streaming\<rparr>)) [0..<Suc i]))"
      using open_item_run [of s e1 k d e2 jt] assms(4,6,9,11,12) False at' by (simp del: upt.simps)
    also have "\<dots> = Some (protocol_of t)"
      using assms(7,8,10) False at' by (simp add: protocol_of_def del: upt.simps fun_upd_apply) 
    finally show ?thesis by (auto simp: follows_def p(2))
  qed
  then show ?thesis using that p(1) by blast
qed

lemma ensure_reasoning:
  assumes "json_reads_back jt" "chat_ok s"
  obtains s' frames where
    "ensure_reasoning_stream_started jt su (s, out) = Inr (s', out @ frames)"
    "chat_ok s'" "follows jt (s, out) (s', out @ frames)" "ca_reasoning_started s'" "ca_completed s' = ca_completed s"
    "ca_created_emitted s'"
proof -
  obtain n q frames where c: "ensure_response_created jt su (s, out) = Inr (announced s n q, out @ frames)"
    "chat_ok (announced s n q)" "follows jt (s, out) (announced s n q, out @ frames)"
    using ensure_created [OF assms] .
  let ?s = "announced s n q"
  show ?thesis
  proof (cases "ca_reasoning_started s")
    case True
    then show ?thesis using c by (intro that [of ?s frames]) (simp_all add: ensure_reasoning_stream_started_def)
  next
    case False
    define i where "i = opt_or_default (ca_next_output_index s) (ca_reasoning_output_index s)"
    define s2 where "s2 = (if ca_reasoning_output_index s = None
      then ?s\<lparr>ca_next_output_index := ca_next_output_index s + 1, ca_reasoning_output_index := Some i\<rparr> else ?s)"
    let ?t = "s2\<lparr>ca_next_sequence_number := Suc (Suc q), ca_reasoning_started := True\<rparr>"
    have new: "ca_reasoning_output_index s = None \<and> items_open ?s \<and> ca_full_reasoning_text s = []" if "\<not> ca_completed s"
      using False c(2) that by (auto simp: chat_ok_def items_open_def)
    obtain frames2 where p: "push_events jt
        [item_event ''response.output_item.added'' i (reasoning_item_with_status (ca_reasoning_id s) [] ''in_progress''),
         text_event ''response.reasoning_summary_part.added'' i (ca_reasoning_id s)
           [(''summary_index'', json_nat 0), (''part'', summary_part [])]] (s2, out @ frames) =
        Inr (s2\<lparr>ca_next_sequence_number := Suc (Suc q)\<rparr>, (out @ frames) @ frames2)"
      "follows jt (?s, out @ frames) (?t, (out @ frames) @ frames2)"
      by (rule open_item [OF assms(1), where k = ReasoningKind and d = "ca_reasoning_id s" and i = i and q = q and s = ?s and
            ?s2.0 = s2 and t = ?t and out = "out @ frames"])
        (use new in \<open>auto simp: s2_def i_def item_at_def new_item_def\<close>)
    have run: "ensure_reasoning_stream_started jt su (s, out) = Inr (?t, out @ frames @ frames2)"
      using False p(1)
      by (cases "ca_reasoning_output_index s")
        (simp_all add: ensure_reasoning_stream_started_def c(1) allocate_output_index_def i_def s2_def)
    have "items_open ?t" if "\<not> ca_completed s"
      using new [OF that] items_open_fresh [of ?s]
      by (auto simp: items_open_def item_indices_def opt_list_def s2_def i_def lessThan_Suc)
    then have "chat_ok ?t" using c(2) by (auto simp: chat_ok_def s2_def)
    then show ?thesis
      using that [OF run _ follows_trans [OF c(3)]] p(2) by (simp add: s2_def)
  qed
qed

lemma ensure_text:
  assumes "json_reads_back jt" "chat_ok s"
  obtains s' frames where
    "ensure_text_stream_started jt su (s, out) = Inr (s', out @ frames)"
    "chat_ok s'" "follows jt (s, out) (s', out @ frames)" "ca_content_started s'" "ca_completed s' = ca_completed s"
    "ca_created_emitted s'"
proof -
  obtain n q frames where c: "ensure_response_created jt su (s, out) = Inr (announced s n q, out @ frames)"
    "chat_ok (announced s n q)" "follows jt (s, out) (announced s n q, out @ frames)"
    using ensure_created [OF assms] .
  let ?s = "announced s n q"
  show ?thesis
  proof (cases "ca_content_started s")
    case True
    then show ?thesis using c by (intro that [of ?s frames]) (simp_all add: ensure_text_stream_started_def)
  next
    case False
    define i where "i = opt_or_default (ca_next_output_index s) (ca_message_output_index s)"
    define s2 where "s2 = (if ca_message_output_index s = None
      then ?s\<lparr>ca_next_output_index := ca_next_output_index s + 1, ca_message_output_index := Some i\<rparr> else ?s)"
    let ?t = "s2\<lparr>ca_next_sequence_number := Suc (Suc q), ca_content_started := True\<rparr>"
    have new: "ca_message_output_index s = None \<and> items_open ?s \<and> ca_full_text s = []" if "\<not> ca_completed s"
      using False c(2) that by (auto simp: chat_ok_def items_open_def)
    have fresh: "ca_reasoning_output_index s \<noteq> Some (ca_next_output_index s)" if "\<not> ca_completed s"
      using new [OF that] items_open_fresh [of ?s] by (auto simp: item_indices_def opt_list_def)
    obtain frames2 where p: "push_events jt
        [item_event ''response.output_item.added'' i (message_item_with_status (ca_message_id s) [] ''in_progress''),
         text_event ''response.content_part.added'' i (ca_message_id s)
           [(''content_index'', json_nat 0), (''part'', text_part [])]] (s2, out @ frames) =
        Inr (s2\<lparr>ca_next_sequence_number := Suc (Suc q)\<rparr>, (out @ frames) @ frames2)"
      "follows jt (?s, out @ frames) (?t, (out @ frames) @ frames2)"
      by (rule open_item [OF assms(1), where k = MessageKind and d = "ca_message_id s" and i = i and q = q and s = ?s and
            ?s2.0 = s2 and t = ?t and out = "out @ frames"])
        (use new fresh in \<open>auto simp: s2_def i_def item_at_def new_item_def\<close>)
    have run: "ensure_text_stream_started jt su (s, out) = Inr (?t, out @ frames @ frames2)"
      using False p(1)
      by (cases "ca_message_output_index s")
        (simp_all add: ensure_text_stream_started_def c(1) allocate_output_index_def i_def s2_def)
    have "items_open ?t" if "\<not> ca_completed s"
      using new [OF that] items_open_fresh [of ?s]
      by (auto simp: items_open_def item_indices_def opt_list_def s2_def i_def lessThan_Suc)
    then have "chat_ok ?t" using c(2) by (auto simp: chat_ok_def s2_def)
    then show ?thesis
      using that [OF run _ follows_trans [OF c(3)]] p(2) by (simp add: s2_def)
  qed
qed

subsection \<open>Deltas\<close>

text \<open>Events of one open item: the automaton moves that item only.\<close>

lemma indexed_run:
  assumes "\<not> ca_completed s" "ca_created_emitted s" "i < ca_next_output_index s"
    and "read_protocol_event (numbered (ca_next_sequence_number s) e) = Some (ca_next_sequence_number s, pe)"
    and "event_index pe = i" "pe \<noteq> PeCreated" "\<nexists>j k d. pe = PeItemAdded j k d" "\<nexists>out. pe = PeCompleted out"
    and "item_step jt pe (item_at s i) = Some it"
  shows "events_run jt (protocol_of s) (ca_next_sequence_number s) [e] =
    Some (Running (Suc (ca_next_sequence_number s)) True (List.map ((item_at s)(i := it)) [0..<ca_next_output_index s]))"
  using assms step_indexed [of i "ca_next_output_index s" pe jt "ca_next_sequence_number s" "item_at s"]
  by (simp add: protocol_of_def del: fun_upd_apply)

lemma open_index:
  assumes "chat_ok s" "\<not> ca_completed s"
  shows "ca_reasoning_started s \<Longrightarrow> \<exists>i. ca_reasoning_output_index s = Some i \<and> i < ca_next_output_index s"
    "ca_content_started s \<Longrightarrow> \<exists>i. ca_message_output_index s = Some i \<and> i < ca_next_output_index s \<and>
      ca_reasoning_output_index s \<noteq> Some i"
    "t \<in> set (ca_tool_calls s) \<Longrightarrow> tc_output_index t < ca_next_output_index s \<and>
      ca_reasoning_output_index s \<noteq> Some (tc_output_index t) \<and> ca_message_output_index s \<noteq> Some (tc_output_index t)"
proof -
  have o: "distinct (item_indices s)" "set (item_indices s) = {..<ca_next_output_index s}"
    "(ca_reasoning_started s \<longleftrightarrow> ca_reasoning_output_index s \<noteq> None)" "(ca_content_started s \<longleftrightarrow> ca_message_output_index s \<noteq> None)"
    using assms by (simp_all add: chat_ok_def items_open_def)
  have lt: "i < ca_next_output_index s" if "i \<in> set (item_indices s)" for i using that o(2) by simp
  show "ca_reasoning_started s \<Longrightarrow> \<exists>i. ca_reasoning_output_index s = Some i \<and> i < ca_next_output_index s"
    using lt o(3) by (auto simp: item_indices_def opt_list_def)
  show "ca_content_started s \<Longrightarrow> \<exists>i. ca_message_output_index s = Some i \<and> i < ca_next_output_index s \<and>
      ca_reasoning_output_index s \<noteq> Some i"
    using lt o(1,4) by (auto simp: item_indices_def opt_list_def)
  show "t \<in> set (ca_tool_calls s) \<Longrightarrow> tc_output_index t < ca_next_output_index s \<and>
      ca_reasoning_output_index s \<noteq> Some (tc_output_index t) \<and> ca_message_output_index s \<noteq> Some (tc_output_index t)"
    using lt [of "tc_output_index t"] o(1) by (auto simp: item_indices_def opt_list_def split: option.splits)
qed

lemma push_reasoning_ok:
  assumes "json_reads_back jt" "chat_ok s" "push_reasoning jt su delta (s, out) = Inr e"
  shows "chat_ok (fst e) \<and> follows jt (s, out) e \<and> (ca_completed s \<longrightarrow> ca_completed (fst e))"
proof (cases "delta = []")
  case True
  then show ?thesis using assms by (auto simp: push_reasoning_def)
next
  case False
  obtain s1 frames where c: "ensure_reasoning_stream_started jt su (s, out) = Inr (s1, out @ frames)"
    "chat_ok s1" "follows jt (s, out) (s1, out @ frames)" "ca_reasoning_started s1" "ca_completed s1 = ca_completed s"
    "ca_created_emitted s1"
    using ensure_reasoning [OF assms(1,2)] .
  let ?i = "opt_or_default 0 (ca_reasoning_output_index s1)" and ?q = "ca_next_sequence_number s1"
  let ?s2 = "s1\<lparr>ca_full_reasoning_text := ca_full_reasoning_text s1 @ delta\<rparr>"
  let ?events = "[text_event ''response.reasoning_text.delta'' ?i (ca_reasoning_id s1)
        [(''content_index'', json_nat 0), (''delta'', JStr delta)],
      text_event ''response.reasoning_summary_text.delta'' ?i (ca_reasoning_id s1)
        [(''summary_index'', json_nat 0), (''delta'', JStr delta)]]"
  let ?t = "?s2\<lparr>ca_next_sequence_number := Suc (Suc ?q)\<rparr>"
  obtain frames2 where p: "push_events jt ?events (?s2, out @ frames) = Inr (?t, (out @ frames) @ frames2)"
    "\<And>m. protocol_run jt m frames2 = events_run jt m ?q ?events"
    using push_events_ok [OF assms(1), of ?events ?s2 "out @ frames"] by auto
  have e: "e = (?t, out @ frames @ frames2)" using assms(3) False p(1) by (simp add: push_reasoning_def c(1))
  have ok: "chat_ok ?t" using c(2,4) by (auto simp: chat_ok_def items_open_def item_indices_def)
  have "follows jt (s1, out @ frames) (?t, out @ frames @ frames2)"
  proof (cases "ca_completed s")
    case True
    then show ?thesis using c(5) by (auto simp: follows_def protocol_of_def)
  next
    case False
    then obtain i where i: "ca_reasoning_output_index s1 = Some i" "i < ca_next_output_index s1"
      using open_index(1) [OF c(2) _ c(4)] c(5) by auto
    let ?it = "(item_at s1 i)\<lparr>pi_text := ca_full_reasoning_text s1 @ delta\<rparr>"
    have 1: "protocol_step jt (protocol_of s1) (?q, PeTextDelta i ReasoningKind (ca_reasoning_id s1) delta) =
        Some (Running (Suc ?q) True (List.map ((item_at s1)(i := ?it)) [0..<ca_next_output_index s1]))"
      using False c(5,6) i step_indexed [of i "ca_next_output_index s1" "PeTextDelta i ReasoningKind (ca_reasoning_id s1) delta"
          jt ?q "item_at s1"]
      by (simp add: protocol_of_def del: fun_upd_apply protocol_step.simps) (simp add: item_at_def)
    have 2: "protocol_step jt (Running (Suc ?q) True (List.map ((item_at s1)(i := ?it)) [0..<ca_next_output_index s1]))
        (Suc ?q, PeSummaryDelta i (ca_reasoning_id s1) delta) =
        Some (Running (Suc (Suc ?q)) True (List.map ((item_at s1)(i := ?it\<lparr>pi_summary := ca_full_reasoning_text s1 @ delta\<rparr>))
          [0..<ca_next_output_index s1]))"
      using i step_indexed [of i "ca_next_output_index s1" "PeSummaryDelta i (ca_reasoning_id s1) delta"
          jt "Suc ?q" "(item_at s1)(i := ?it)"]
      by (simp del: fun_upd_apply protocol_step.simps) (simp add: item_at_def)
    have "events_run jt (protocol_of s1) ?q ?events = Some (protocol_of ?t)"
      using False c(5,6) i by (simp add: 1 2 del: protocol_step.simps) (auto simp: protocol_of_def item_at_def)
    then show ?thesis by (auto simp: follows_def p(2))
  qed
  then show ?thesis using ok c(5) follows_trans [OF c(3)] by (auto simp: e)
qed

lemma push_text_ok:
  assumes "json_reads_back jt" "chat_ok s" "push_text jt su delta (s, out) = Inr e"
  shows "chat_ok (fst e) \<and> follows jt (s, out) e \<and> (ca_completed s \<longrightarrow> ca_completed (fst e))"
proof (cases "delta = []")
  case True
  then show ?thesis using assms by (auto simp: push_text_def)
next
  case False
  obtain s1 frames where c: "ensure_text_stream_started jt su (s, out) = Inr (s1, out @ frames)"
    "chat_ok s1" "follows jt (s, out) (s1, out @ frames)" "ca_content_started s1" "ca_completed s1 = ca_completed s"
    "ca_created_emitted s1"
    using ensure_text [OF assms(1,2)] .
  let ?i = "opt_or_default 0 (ca_message_output_index s1)" and ?q = "ca_next_sequence_number s1"
  let ?s2 = "s1\<lparr>ca_full_text := ca_full_text s1 @ delta\<rparr>"
  let ?event = "text_event ''response.output_text.delta'' ?i (ca_message_id s1)
        [(''content_index'', json_nat 0), (''delta'', JStr delta), (''logprobs'', JArr [])]"
  let ?t = "?s2\<lparr>ca_next_sequence_number := ?q + 1\<rparr>"
  obtain frame where p: "push_event jt ?event (?s2, out @ frames) = Inr (?t, (out @ frames) @ [frame])"
    "frame_event jt frame = Some (?q, PeTextDelta ?i MessageKind (ca_message_id s1) delta)"
    using push_event_ok [OF assms(1), of ?event ?s2 "out @ frames"] by auto
  have e: "e = (?t, out @ frames @ [frame])" using assms(3) False p(1) by (simp add: push_text_def c(1))
  have ok: "chat_ok ?t" using c(2,4) by (auto simp: chat_ok_def items_open_def item_indices_def)
  have "follows jt (s1, out @ frames) (?t, out @ frames @ [frame])"
  proof (cases "ca_completed s")
    case True
    then show ?thesis using c(5) by (auto simp: follows_def protocol_of_def)
  next
    case False
    then obtain i where i: "ca_message_output_index s1 = Some i" "i < ca_next_output_index s1" "ca_reasoning_output_index s1 \<noteq> Some i"
      using open_index(2) [OF c(2) _ c(4)] c(5) by auto
    have "protocol_step jt (protocol_of s1) (?q, PeTextDelta i MessageKind (ca_message_id s1) delta) = Some (protocol_of ?t)"
      using False c(5,6) i step_indexed [of i "ca_next_output_index s1" "PeTextDelta i MessageKind (ca_message_id s1) delta"
          jt ?q "item_at s1"]
      by (simp add: protocol_of_def del: fun_upd_apply protocol_step.simps) (auto simp: item_at_def)
    then show ?thesis using i(1) by (auto simp: follows_def p(2) protocol_of_def)
  qed
  then show ?thesis using ok c(5) follows_trans [OF c(3)] by (auto simp: e)
qed

subsection \<open>Tool calls\<close>

lemma position_of_Some: "position_of p xs = Some i \<Longrightarrow> i < length xs \<and> p (xs ! i)"
  by (induction xs arbitrary: i) (auto split: if_splits)

lemma position_of_None: "position_of p xs = None \<Longrightarrow> x \<in> set xs \<Longrightarrow> \<not> p x"
  by (induction xs) (auto split: if_splits)

lemma find_key: "distinct (List.map f xs) \<Longrightarrow> x \<in> set xs \<Longrightarrow> List.find (\<lambda>y. f y = f x) xs = Some x"
  by (induction xs) (auto simp: rev_image_eqI)

lemma find_update_other: "f y = f (xs ! p) \<Longrightarrow> f y \<noteq> j \<Longrightarrow> p < length xs \<Longrightarrow>
    List.find (\<lambda>z. f z = j) (xs[p := y]) = List.find (\<lambda>z. f z = j) xs"
  by (induction xs arbitrary: p) (auto split: nat.splits)

lemma find_snoc_other: "f y \<noteq> j \<Longrightarrow> List.find (\<lambda>z. f z = j) (xs @ [y]) = List.find (\<lambda>z. f z = j) xs"
  by (induction xs) auto

definition call_item_open :: "tool_state \<Rightarrow> protocol_item" where
  "call_item_open t =
     \<lparr>pi_kind = CallKind, pi_id = tc_call_id t, pi_text = tc_arguments t, pi_summary = [], pi_stage = Streaming\<rparr>"

lemma item_at_call:
  assumes "chat_ok s" "\<not> ca_completed s" "t \<in> set (ca_tool_calls s)"
  shows "item_at s (tc_output_index t) = call_item_open t"
proof -
  have "distinct (List.map tc_output_index (ca_tool_calls s))"
    using assms by (simp add: chat_ok_def items_open_def item_indices_def)
  then show ?thesis
    using open_index(3) [OF assms] find_key [OF _ assms(3), of tc_output_index] by (simp add: item_at_def call_item_open_def)
qed

text \<open>The call a delta belongs to: a known one with its id kept, or a new one with the next index.\<close>

lemma resolve_ok:
  assumes "chat_ok s" "resolve_tool_call_position su index call_id s = (p, s1)"
  shows "p < length (ca_tool_calls s1)" "call_id = Some c \<Longrightarrow> c \<noteq> [] \<Longrightarrow> tc_call_id (ca_tool_calls s1 ! p) = c"
    "(\<exists>a. s1 = s\<lparr>ca_active_positions := a\<rparr> \<and> (\<forall>x \<in> ran a. x < length (ca_tool_calls s))) \<or>
     (\<exists>a n new_id. s1 = s\<lparr>ca_drawn := n, ca_next_output_index := Suc (ca_next_output_index s),
        ca_tool_calls := ca_tool_calls s @ [tool_state_new new_id (ca_next_output_index s)], ca_active_positions := a\<rparr> \<and>
        p = length (ca_tool_calls s) \<and> (\<forall>x \<in> ran a. x < Suc (length (ca_tool_calls s))))"
proof -
  have range: "\<forall>x \<in> ran (ca_active_positions s). x < length (ca_tool_calls s)" using assms(1) by (simp add: chat_ok_def)
  consider (known) "Option.bind call_id (\<lambda>c. position_of (\<lambda>t. tc_call_id t = c) (ca_tool_calls s)) = Some p"
      "s1 = s\<lparr>ca_active_positions := (ca_active_positions s)(index \<mapsto> p)\<rparr>"
    | (active) "Option.bind call_id (\<lambda>c. position_of (\<lambda>t. tc_call_id t = c) (ca_tool_calls s)) = None"
        "ca_active_positions s index = Some p" "call_id = None \<or> tc_call_id (ca_tool_calls s ! p) = opt_or_default [] call_id" "s1 = s"
    | (new) n where "p = length (ca_tool_calls s)"
        "s1 = s\<lparr>ca_drawn := n, ca_next_output_index := Suc (ca_next_output_index s),
          ca_tool_calls := ca_tool_calls s @ [tool_state_new
            (case opt_filter (\<lambda>c. c \<noteq> []) call_id of Some c \<Rightarrow> c | None \<Rightarrow> fst (generate_call_id su (ca_drawn s)))
            (ca_next_output_index s)],
          ca_active_positions := (ca_active_positions s)(index \<mapsto> p)\<rparr>"
  proof (cases "Option.bind call_id (\<lambda>c. position_of (\<lambda>t. tc_call_id t = c) (ca_tool_calls s))")
    case None
    show thesis
    proof (cases "opt_filter (\<lambda>p. call_id = None \<or> tc_call_id (ca_tool_calls s ! p) = opt_or_default [] call_id)
        (ca_active_positions s index)")
      case N: None
      show thesis
        by (rule that(3) [where n = "case opt_filter (\<lambda>c. c \<noteq> []) call_id of Some c \<Rightarrow> ca_drawn s
              | None \<Rightarrow> snd (generate_call_id su (ca_drawn s))"])
          (use assms(2) None N in \<open>auto simp: resolve_tool_call_position_def Let_def case_prod_beta allocate_output_index_def
            split: option.split_asm option.split\<close>)
    next
      case (Some p')
      then have "p' = p \<and> s1 = s" using assms(2) None by (simp add: resolve_tool_call_position_def)
      then show thesis using that(2) None Some by simp
    qed
  next
    case (Some p')
    then have "p' = p \<and> s1 = s\<lparr>ca_active_positions := (ca_active_positions s)(index \<mapsto> p)\<rparr>"
      using assms(2) by (auto simp: resolve_tool_call_position_def)
    then show thesis using that(1) Some by simp
  qed
  note c = this
  show "p < length (ca_tool_calls s1)"
    using c by cases (use range in \<open>auto simp: bind_eq_Some_conv dest: position_of_Some intro: ranI\<close>)
  show "tc_call_id (ca_tool_calls s1 ! p) = c" if "call_id = Some c" "c \<noteq> []"
    using c that by cases (auto simp: bind_eq_Some_conv tool_state_new_def dest: position_of_Some)
  show "(\<exists>a. s1 = s\<lparr>ca_active_positions := a\<rparr> \<and> (\<forall>x \<in> ran a. x < length (ca_tool_calls s))) \<or>
     (\<exists>a n new_id. s1 = s\<lparr>ca_drawn := n, ca_next_output_index := Suc (ca_next_output_index s),
        ca_tool_calls := ca_tool_calls s @ [tool_state_new new_id (ca_next_output_index s)], ca_active_positions := a\<rparr> \<and>
        p = length (ca_tool_calls s) \<and> (\<forall>x \<in> ran a. x < Suc (length (ca_tool_calls s))))"
    using c
  proof cases
    case known
    then have "p < length (ca_tool_calls s)" by (auto simp: bind_eq_Some_conv dest: position_of_Some)
    then show ?thesis
      using known range by (intro disjI1 exI [of _ "(ca_active_positions s)(index \<mapsto> p)"]) (auto simp: ran_def)
  next
    case active
    then show ?thesis using range by (intro disjI1 exI [of _ "ca_active_positions s"]) simp
  next
    case new
    then show ?thesis using range
      by (intro disjI2 exI [of _ "(ca_active_positions s)(index \<mapsto> p)"] exI) (auto simp: ran_def less_Suc_eq)
  qed
qed

lemma apply_tool_delta_keeps:
  assumes "\<And>c. td_call_id delta = Some c \<Longrightarrow> c \<noteq> [] \<Longrightarrow> tc_call_id t = c"
  shows "tc_call_id (apply_tool_delta delta t) = tc_call_id t" "tc_output_index (apply_tool_delta delta t) = tc_output_index t"
    "tc_arguments (apply_tool_delta delta t) = tc_arguments t @ td_arguments delta"
    "tc_added_emitted (apply_tool_delta delta t)" "tc_done_emitted (apply_tool_delta delta t) = tc_done_emitted t"
  using assms by (auto simp: apply_tool_delta_def Let_def split: option.splits)

text \<open>The events of a delta.\<close>

definition delta_events :: "tool_call_delta \<Rightarrow> bool \<Rightarrow> tool_state \<Rightarrow> string \<Rightarrow> json list" where
  "delta_events delta known t rid =
     (if known then []
      else [item_event ''response.output_item.added'' (tc_output_index t)
              (function_call_item (tc_call_id t) (opt_or_default [] (tc_name t)) [] ''in_progress'')]) @
     (if td_arguments delta = [] then []
      else [text_event ''response.function_call_arguments.delta'' (tc_output_index t) (tc_call_id t)
              [(''response_id'', JStr rid), (''call_id'', JStr (tc_call_id t)), (''delta'', JStr (td_arguments delta))]])"

lemma observe_frames:
  assumes "json_reads_back jt" "ensure_response_created jt su (s, out) = Inr (s0, out0)"
    and "resolve_tool_call_position su (td_index delta) (td_call_id delta) s0 = (p, s1)"
    and "t = apply_tool_delta delta (ca_tool_calls s1 ! p)" "q = ca_next_sequence_number s1"
  obtains rid n frames where
    "observe_tool_call_delta jt su delta (s, out) =
       Inr (s1\<lparr>ca_tool_calls := (ca_tool_calls s1)[p := t], ca_drawn := n,
         ca_next_sequence_number := q + length (delta_events delta (tc_added_emitted (ca_tool_calls s1 ! p)) t rid)\<rparr>, out0 @ frames)"
    "\<And>m. protocol_run jt m frames = events_run jt m q (delta_events delta (tc_added_emitted (ca_tool_calls s1 ! p)) t rid)"
proof -
  let ?known = "tc_added_emitted (ca_tool_calls s1 ! p)"
  let ?s2 = "s1\<lparr>ca_tool_calls := (ca_tool_calls s1)[p := t]\<rparr>"
  let ?A = "delta_events (delta\<lparr>td_arguments := []\<rparr>) ?known t []"
  have okA: "list_all event_ok ?A" by (simp add: delta_events_def)
  obtain frames1 where 1: "push_events jt ?A (?s2, out0) =
      Inr (?s2\<lparr>ca_next_sequence_number := q + length ?A\<rparr>, out0 @ frames1)"
    "\<And>m. protocol_run jt m frames1 = events_run jt m q ?A"
    using push_events_ok [OF assms(1) okA, of ?s2 out0] by (auto simp: assms(5))
  let ?s3 = "?s2\<lparr>ca_next_sequence_number := q + length ?A\<rparr>"
  obtain rid n where r: "current_response_id su ?s3 = (rid, ?s3\<lparr>ca_drawn := n\<rparr>)" using current_response_id_state by blast
  define n' where "n' = (if td_arguments delta = [] then ca_drawn s1 else n)"
  let ?D = "delta_events delta True t rid" and ?s4 = "?s3\<lparr>ca_drawn := n'\<rparr>"
  have okD: "list_all event_ok ?D" by (simp add: delta_events_def)
  obtain frames2 where 2: "push_events jt ?D (?s4, out0 @ frames1) =
      Inr (?s4\<lparr>ca_next_sequence_number := q + length ?A + length ?D\<rparr>, (out0 @ frames1) @ frames2)"
    "\<And>m. protocol_run jt m frames2 = events_run jt m (q + length ?A) ?D"
    using push_events_ok [OF assms(1) okD, of ?s4 "out0 @ frames1"] by auto
  have all: "delta_events delta ?known t rid = ?A @ ?D" by (simp add: delta_events_def)
  have first: "(if ?known then Inr (?s2, out0)
      else push_event jt (item_event ''response.output_item.added'' (tc_output_index t)
        (function_call_item (tc_call_id t) (opt_or_default [] (tc_name t)) [] ''in_progress'')) (?s2, out0)) = Inr (?s3, out0 @ frames1)"
    using 1(1) by (cases ?known) (simp_all add: delta_events_def push_events_def assms(5))
  have "observe_tool_call_delta jt su delta (s, out) =
      Inr (?s4\<lparr>ca_next_sequence_number := q + length ?A + length ?D\<rparr>, out0 @ frames1 @ frames2)"
    using 2(1) r
    by (cases "td_arguments delta = []")
      (simp_all add: observe_tool_call_delta_def assms(2,3) Let_def first [unfolded assms(4)] assms(4) [symmetric] n'_def
        delta_events_def push_events_def)
  then show ?thesis
    using that [where n = n' and rid = rid and frames = "frames1 @ frames2"] 1(2) 2(2) unfolding all
    by (simp add: events_run_append protocol_run_append add.assoc)
qed

text \<open>A delta of an open call, and of a call it opens.\<close>

lemma delta_events_known:
  assumes "i < n" "f i = it" "pi_kind it = CallKind" "pi_stage it = Streaming" "pi_id it = tc_call_id t" "tc_output_index t = i"
  shows "events_run jt (Running q True (List.map f [0..<n])) q (delta_events delta True t rid) =
    Some (Running (q + length (delta_events delta True t rid)) True
      (List.map (f(i := it\<lparr>pi_text := pi_text it @ td_arguments delta\<rparr>)) [0..<n]))"
proof (cases "td_arguments delta = []")
  case True
  then have "f(i := it\<lparr>pi_text := pi_text it @ td_arguments delta\<rparr>) = f" using assms(2) by auto
  then show ?thesis using True by (simp add: delta_events_def)
next
  case False
  have "item_step jt (PeTextDelta i CallKind (tc_call_id t) (td_arguments delta)) (f i) =
      Some (it\<lparr>pi_text := pi_text it @ td_arguments delta\<rparr>)" using assms by simp
  then show ?thesis
    using False assms(1,6) step_indexed [of i n "PeTextDelta i CallKind (tc_call_id t) (td_arguments delta)" jt q f]
    by (simp add: delta_events_def del: fun_upd_apply protocol_step.simps item_step.simps)
qed

lemma delta_events_new:
  assumes "tc_output_index t = n"
  shows "events_run jt (Running q True (List.map f [0..<n])) q (delta_events delta False t rid) =
    Some (Running (q + length (delta_events delta False t rid)) True
      (List.map (f(n := (new_item CallKind (tc_call_id t))\<lparr>pi_text := td_arguments delta\<rparr>)) [0..<Suc n]))"
proof -
  have sp: "delta_events delta False t rid =
      [item_event ''response.output_item.added'' n
        (function_call_item (tc_call_id t) (opt_or_default [] (tc_name t)) [] ''in_progress'')] @ delta_events delta True t rid"
    by (simp add: delta_events_def assms)
  let ?it = "new_item CallKind (tc_call_id t)"
  have "pi_stage ?it = Streaming" "pi_kind ?it = CallKind" "pi_id ?it = tc_call_id t" "pi_text ?it = []" by (simp_all add: new_item_def)
  then have "events_run jt (Running (Suc q) True (List.map (f(n := ?it)) [0..<Suc n])) (Suc q) (delta_events delta True t rid) =
      Some (Running (Suc q + length (delta_events delta True t rid)) True
        (List.map (f(n := ?it\<lparr>pi_text := td_arguments delta\<rparr>)) [0..<Suc n]))"
    using delta_events_known [of n "Suc n" "f(n := ?it)" ?it t jt "Suc q" delta rid] assms by (simp del: upt.simps)
  then show ?thesis
    using step_added [of jt q f n CallKind "tc_call_id t"]
    by (simp add: sp del: upt.simps protocol_step.simps)
qed

lemma observe_ok:
  assumes "json_reads_back jt" "chat_ok s" "observe_tool_call_delta jt su delta (s, out) = Inr e"
  shows "chat_ok (fst e) \<and> follows jt (s, out) e \<and> (ca_completed s \<longrightarrow> ca_completed (fst e))"
proof -
  obtain n0 q0 frames0 where c: "ensure_response_created jt su (s, out) = Inr (announced s n0 q0, out @ frames0)"
    "chat_ok (announced s n0 q0)" "follows jt (s, out) (announced s n0 q0, out @ frames0)"
    using ensure_created [OF assms(1,2)] .
  let ?s0 = "announced s n0 q0"
  obtain p s1 where r: "resolve_tool_call_position su (td_index delta) (td_call_id delta) ?s0 = (p, s1)" by fastforce
  define old where "old = ca_tool_calls s1 ! p"
  define t where "t = apply_tool_delta delta old"
  obtain rid n frames where o: "observe_tool_call_delta jt su delta (s, out) =
       Inr (s1\<lparr>ca_tool_calls := (ca_tool_calls s1)[p := t], ca_drawn := n,
         ca_next_sequence_number := ca_next_sequence_number s1 + length (delta_events delta (tc_added_emitted old) t rid)\<rparr>,
         (out @ frames0) @ frames)"
    "\<And>m. protocol_run jt m frames = events_run jt m (ca_next_sequence_number s1) (delta_events delta (tc_added_emitted old) t rid)"
    by (rule observe_frames [OF assms(1) c(1) r t_def [unfolded old_def] refl, folded old_def]) (rule that)
  define s2 where "s2 = s1\<lparr>ca_tool_calls := (ca_tool_calls s1)[p := t], ca_drawn := n,
         ca_next_sequence_number := ca_next_sequence_number s1 + length (delta_events delta (tc_added_emitted old) t rid)\<rparr>"
  have e: "e = (s2, (out @ frames0) @ frames)" using o(1) assms(3) by (simp add: s2_def)
  have p: "p < length (ca_tool_calls s1)" by (rule resolve_ok(1) [OF c(2) r])
  have keeps: "tc_call_id t = tc_call_id old" "tc_output_index t = tc_output_index old"
    "tc_arguments t = tc_arguments old @ td_arguments delta" "tc_added_emitted t" "tc_done_emitted t = tc_done_emitted old"
    using apply_tool_delta_keeps [of delta old] resolve_ok(2) [OF c(2) r] by (simp_all add: t_def old_def)
  have same: "List.map tc_output_index ((ca_tool_calls s1)[p := t]) = List.map tc_output_index (ca_tool_calls s1)"
    using p keeps(2) by (simp add: map_update old_def list_update_same_conv)
  have fin: "ca_completed s2 = ca_completed s"
    using resolve_ok(3) [OF c(2) r] by (auto simp: s2_def)
  show ?thesis
  proof (cases "ca_completed s")
    case True
    then have "chat_ok s2"
      using resolve_ok(3) [OF c(2) r] c(2) by (auto simp: chat_ok_def s2_def)
    moreover have "follows jt (?s0, out @ frames0) e" using True fin by (auto simp: follows_def protocol_of_def e)
    ultimately show ?thesis using follows_trans [OF c(3)] fin by (simp add: e)
  next
    case False
    have open0: "items_open ?s0" using False c(2) by (simp add: chat_ok_def)
    show ?thesis
      using resolve_ok(3) [OF c(2) r]
    proof (elim disjE exE conjE)
      fix a assume a: "s1 = ?s0\<lparr>ca_active_positions := a\<rparr>" "\<forall>x\<in>ran a. x < length (ca_tool_calls ?s0)"
      have old: "old \<in> set (ca_tool_calls s)" "tc_added_emitted old" "\<not> tc_done_emitted old"
        using p open0 nth_mem [OF p] by (simp_all add: old_def a(1) items_open_def list_all_iff)
      have io: "items_open s2"
        using open0 same old keeps unfolding items_open_def item_indices_def s2_def a(1)
        by (auto simp: list_all_iff dest!: subsetD [OF set_update_subset_insert])
      have ok: "chat_ok s2" using a(2) io c(2) by (auto simp: chat_ok_def s2_def a(1))
      have i: "tc_output_index old < ca_next_output_index s"
        "ca_reasoning_output_index s \<noteq> Some (tc_output_index old)" "ca_message_output_index s \<noteq> Some (tc_output_index old)"
        using open_index(3) [OF c(2), of old] old(1) False by simp_all
      have it: "item_at ?s0 (tc_output_index old) = call_item_open old"
        using item_at_call [OF c(2), of old] False old(1) by simp
      have t_in: "t \<in> set (ca_tool_calls s2)" using p by (simp add: s2_def set_update_memI)
      have "item_at s2 j = ((item_at ?s0)(tc_output_index old := (call_item_open old)\<lparr>pi_text := tc_arguments t\<rparr>)) j" for j
      proof (cases "j = tc_output_index old")
        case True
        then show ?thesis
          using item_at_call [OF ok _ t_in] False fin keeps by (simp add: call_item_open_def)
      next
        case False
        then show ?thesis
          using find_update_other [of tc_output_index t "ca_tool_calls s" p j] keeps(2) p old_def a(1)
          by (simp add: item_at_def s2_def a(1))
      qed
      then have at': "item_at s2 = (item_at ?s0)(tc_output_index old := (call_item_open old)\<lparr>pi_text := tc_arguments t\<rparr>)" by blast
      have "events_run jt (protocol_of ?s0) q0 (delta_events delta True t rid) = Some (protocol_of s2)"
        using delta_events_known [of "tc_output_index old" "ca_next_output_index s" "item_at ?s0" "call_item_open old" t jt q0 delta rid]
          i it keeps False fin
        by (simp add: protocol_of_def at' del: fun_upd_apply) (simp add: call_item_open_def s2_def a(1) old(2))
      then have "follows jt (?s0, out @ frames0) e" using old(2) by (auto simp: follows_def e o(2) a(1))
      then show ?thesis using ok follows_trans [OF c(3)] fin False by (simp add: e)
    next
      fix a n1 new_id
      assume a: "s1 = ?s0\<lparr>ca_drawn := n1, ca_next_output_index := Suc (ca_next_output_index ?s0),
        ca_tool_calls := ca_tool_calls ?s0 @ [tool_state_new new_id (ca_next_output_index ?s0)], ca_active_positions := a\<rparr>"
        "p = length (ca_tool_calls ?s0)" "\<forall>x\<in>ran a. x < Suc (length (ca_tool_calls ?s0))"
      have old: "old = tool_state_new new_id (ca_next_output_index s)" by (simp add: old_def a(1,2))
      have fresh: "ca_next_output_index s \<notin> set (item_indices s)"
        using items_open_fresh [OF open0] by (simp add: item_indices_def)
      have calls: "ca_tool_calls s2 = ca_tool_calls s @ [t]" by (simp add: s2_def a(1,2))
      have new: "tc_output_index t = ca_next_output_index s" "\<not> tc_done_emitted t" "tc_arguments t = td_arguments delta"
        "\<not> tc_added_emitted old" using keeps by (simp_all add: old tool_state_new_def)
      have io: "items_open s2"
        using open0 fresh calls keeps(4) new unfolding items_open_def item_indices_def
        by (auto simp: s2_def a(1) lessThan_Suc)
      have ok: "chat_ok s2" using a(3) io c(2) by (auto simp: chat_ok_def calls) (auto simp: s2_def a(1))
      have "item_at s2 j = ((item_at ?s0)(ca_next_output_index s :=
          (new_item CallKind (tc_call_id t))\<lparr>pi_text := td_arguments delta\<rparr>)) j" for j
      proof (cases "j = ca_next_output_index s")
        case True
        then show ?thesis
          using item_at_call [OF ok, of t] False fin calls new by (simp add: call_item_open_def new_item_def)
      next
        case False
        then show ?thesis
          using find_snoc_other [of tc_output_index t j "ca_tool_calls s"] new(1)
          by (simp add: item_at_def calls) (simp add: s2_def a(1))
      qed
      then have at': "item_at s2 = (item_at ?s0)(ca_next_output_index s :=
          (new_item CallKind (tc_call_id t))\<lparr>pi_text := td_arguments delta\<rparr>)" by blast
      have "events_run jt (protocol_of ?s0) q0 (delta_events delta False t rid) = Some (protocol_of s2)"
        using delta_events_new [OF new(1), of jt q0 "item_at ?s0" delta rid] False fin
        by (simp add: protocol_of_def at' del: fun_upd_apply upt.simps) (simp add: s2_def a(1) new(4) del: upt.simps)
      then have "follows jt (?s0, out @ frames0) e" using new(4) by (auto simp: follows_def e o(2) a(1))
      then show ?thesis using ok follows_trans [OF c(3)] fin False by (simp add: e)
    qed
  qed
qed

subsection \<open>Completion\<close>

text \<open>Closing a reasoning or message item.\<close>

lemma close_item_run:
  assumes "i < n" "f i = it" "pi_stage it = Streaming" "pi_id it = d" "pi_text it = txt" "pi_kind it = k"
    "k = ReasoningKind \<Longrightarrow> pi_summary it = txt" "k \<noteq> CallKind"
    and "read_protocol_event (numbered q e1) = Some (q, PeTextDone i k d txt)"
    "read_protocol_event (numbered (Suc q) e2) = Some (Suc q, PePartDone i d txt)"
    "read_protocol_event (numbered (Suc (Suc q)) e3) = Some (Suc (Suc q), PeItemDone i item)"
    and "member_str item ''id'' = Some d" "kind_of_item item = Some k" "closed_item_text k item = Some txt"
  shows "events_run jt (Running q True (List.map f [0..<n])) q [e1, e2, e3] =
    Some (Running (q + 3) True (List.map (f(i := it\<lparr>pi_stage := ItemDone item\<rparr>)) [0..<n]))"
proof -
  have 1: "protocol_step jt (Running q True (List.map f [0..<n])) (q, PeTextDone i k d txt) =
      Some (Running (Suc q) True (List.map (f(i := it\<lparr>pi_stage := TextDone\<rparr>)) [0..<n]))"
    using assms(1-8) step_indexed [of i n "PeTextDone i k d txt" jt q f]
    by (simp del: protocol_step.simps fun_upd_apply) (metis protocol_item.surjective protocol_item.update_convs(3))
  have 2: "protocol_step jt (Running (Suc q) True (List.map (f(i := it\<lparr>pi_stage := TextDone\<rparr>)) [0..<n])) (Suc q, PePartDone i d txt) =
      Some (Running (Suc (Suc q)) True (List.map (f(i := it\<lparr>pi_stage := PartDone\<rparr>)) [0..<n]))"
    using assms(1-8) step_indexed [of i n "PePartDone i d txt" jt "Suc q" "f(i := it\<lparr>pi_stage := TextDone\<rparr>)"]
    by (simp del: protocol_step.simps)
  have 3: "protocol_step jt (Running (Suc (Suc q)) True (List.map (f(i := it\<lparr>pi_stage := PartDone\<rparr>)) [0..<n]))
      (Suc (Suc q), PeItemDone i item) =
      Some (Running (Suc (Suc (Suc q))) True (List.map (f(i := it\<lparr>pi_stage := ItemDone item\<rparr>)) [0..<n]))"
    using assms step_indexed [of i n "PeItemDone i item" jt "Suc (Suc q)" "f(i := it\<lparr>pi_stage := PartDone\<rparr>)"]
    by (simp del: protocol_step.simps)
  show ?thesis using assms(9-11) by (simp add: 1 2 3 eval_nat_numeral del: protocol_step.simps fun_upd_apply)
qed

text \<open>Calls: the final arguments, and the closed items of a list of calls.\<close>

definition args_ok :: "json_text \<Rightarrow> string \<Rightarrow> string \<Rightarrow> bool" where
  "args_ok jt old new \<longleftrightarrow> new = old \<or> jt_parse jt old = None \<and> jt_parse jt new \<noteq> None"

definition completes :: "json_text \<Rightarrow> tool_state \<Rightarrow> tool_state \<Rightarrow> bool" where
  "completes jt old new \<longleftrightarrow>
     tc_call_id new = tc_call_id old \<and> tc_output_index new = tc_output_index old \<and>
     args_ok jt (tc_arguments old) (tc_arguments new)"

definition call_item_closed :: "tool_state \<Rightarrow> protocol_item" where
  "call_item_closed t = (call_item_open t)\<lparr>pi_stage := ItemDone (call_item t)\<rparr>"

definition with_closed :: "tool_state list \<Rightarrow> (nat \<Rightarrow> protocol_item) \<Rightarrow> nat \<Rightarrow> protocol_item" where
  "with_closed ts f j =
     (case List.find (\<lambda>t. tc_output_index t = j) ts of Some t \<Rightarrow> call_item_closed t | None \<Rightarrow> f j)"

lemma close_call_run:
  assumes "tc_output_index t < n" "f (tc_output_index t) = call_item_open old" "completes jt old t"
  shows "events_run jt (Running q True (List.map f [0..<n])) q (call_done_events rid t) =
    Some (Running (Suc (Suc q)) True (List.map (f(tc_output_index t := call_item_closed t)) [0..<n]))"
proof -
  let ?i = "tc_output_index t" and ?it = "(call_item_open t)\<lparr>pi_stage := TextDone\<rparr>"
  have 1: "protocol_step jt (Running q True (List.map f [0..<n])) (q, PeTextDone ?i CallKind (tc_call_id t) (tc_arguments t)) =
      Some (Running (Suc q) True (List.map (f(?i := ?it)) [0..<n]))"
    using assms step_indexed [of ?i n "PeTextDone ?i CallKind (tc_call_id t) (tc_arguments t)" jt q f]
    by (auto simp: call_item_open_def completes_def args_ok_def simp del: protocol_step.simps fun_upd_apply)
  have 2: "protocol_step jt (Running (Suc q) True (List.map (f(?i := ?it)) [0..<n])) (Suc q, PeItemDone ?i (call_item t)) =
      Some (Running (Suc (Suc q)) True (List.map (f(?i := call_item_closed t)) [0..<n]))"
    using assms(1) step_indexed [of ?i n "PeItemDone ?i (call_item t)" jt "Suc q" "f(?i := ?it)"]
    by (simp add: call_item_open_def call_item_closed_def call_item_def del: protocol_step.simps)
  show ?thesis by (simp add: call_done_events_def 1 2 flip: call_item_def del: protocol_step.simps fun_upd_apply)
qed

lemma close_calls_run:
  assumes "distinct (List.map tc_output_index ts)"
    and "\<forall>t \<in> set ts. tc_output_index t < n \<and> (\<exists>old. f (tc_output_index t) = call_item_open old \<and> completes jt old t)"
  shows "events_run jt (Running q True (List.map f [0..<n])) q (concat (List.map (call_done_events rid) ts)) =
    Some (Running (q + 2 * length ts) True (List.map (with_closed ts f) [0..<n]))"
  using assms
proof (induction ts arbitrary: f q)
  case Nil
  show ?case by (simp add: with_closed_def [abs_def])
next
  case (Cons t ts)
  let ?i = "tc_output_index t" and ?f = "f(tc_output_index t := call_item_closed t)"
  obtain old where o: "?i < n" "f ?i = call_item_open old" "completes jt old t" using Cons.prems(2) by auto
  have "\<forall>t' \<in> set ts. tc_output_index t' \<noteq> ?i" using Cons.prems(1) by (auto simp: image_iff)
  then have none: "List.find (\<lambda>t'. tc_output_index t' = ?i) ts = None" by (simp add: find_None_iff)
  have "with_closed (t # ts) f j = with_closed ts ?f j" for j
    using none by (cases "j = ?i") (auto simp: with_closed_def split: option.split)
  then have eq: "with_closed (t # ts) f = with_closed ts ?f" by blast
  have rest: "\<forall>t' \<in> set ts. tc_output_index t' < n \<and> (\<exists>old. ?f (tc_output_index t') = call_item_open old \<and> completes jt old t')"
    using Cons.prems(2) \<open>\<forall>t' \<in> set ts. tc_output_index t' \<noteq> ?i\<close> by simp
  have len: "length (call_done_events rid t) = 2" by (simp add: call_done_events_def)
  have "events_run jt (Running (Suc (Suc q)) True (List.map ?f [0..<n])) (Suc (Suc q)) (concat (List.map (call_done_events rid) ts)) =
      Some (Running (Suc (Suc q) + 2 * length ts) True (List.map (with_closed ts ?f) [0..<n]))"
    by (rule Cons.IH) (use rest Cons.prems(1) in simp_all)
  then show ?case
    using close_call_run [of t n f old jt q rid] o by (simp add: events_run_append eq len del: fun_upd_apply)
qed

lemma complete_calls:
  assumes "json_reads_back jt"
  shows "try_map (complete_call jt full) olds = Inr calls \<Longrightarrow> list_all (\<lambda>t. \<not> tc_done_emitted t) olds \<Longrightarrow>
    list_all2 (completes jt) olds calls"
proof (induction olds arbitrary: calls)
  case (Cons t olds)
  obtain args st calls' where c: "normalize_tool_call_arguments jt (opt_or_default [] (tc_name t)) (tc_arguments t) full = Inr (args, st)"
    "try_map (complete_call jt full) olds = Inr calls'"
    "calls = t\<lparr>tc_arguments := args, tc_done_emitted := True\<rparr> # calls'"
    using Cons.prems by (auto simp: complete_call_def [of jt full t])
  have "args_ok jt (tc_arguments t) args"
  proof (cases "jt_parse jt (tc_arguments t)")
    case None
    then obtain params where p: "extract_tool_call_parameters jt (opt_or_default [] (tc_name t)) full = Some params"
      "jt_print jt (JObj params) = Some args"
      using c(1) by (auto simp: normalize_tool_call_arguments_def split: option.splits)
    have "json_wf (JObj params)" by (rule extracted_parameters_wf [OF assms p(1)])
    then obtain t' where "jt_print jt (JObj params) = Some t'" "jt_parse jt t' = Some (JObj params)"
      using assms unfolding json_reads_back_def by blast
    then show ?thesis using None p(2) by (simp add: args_ok_def)
  next
    case (Some v)
    then show ?thesis using c(1) by (simp add: normalize_tool_call_arguments_def args_ok_def)
  qed
  then show ?case using Cons c(2,3) by (simp add: completes_def)
qed simp

lemma pending_all:
  "length olds = length calls \<Longrightarrow> list_all (\<lambda>t. \<not> tc_done_emitted t) olds \<Longrightarrow>
    List.map snd (filter (\<lambda>(old, new). \<not> tc_done_emitted old) (zip olds calls)) = calls"
  by (induction olds calls rule: list_induct2) auto

text \<open>The items of the answer in the order of their indices.\<close>

definition listed_items :: "chat_stream \<Rightarrow> (nat \<times> json) list" where
  "listed_items s =
     List.map (\<lambda>i. (i, reasoning_item_with_status (ca_reasoning_id s) (ca_full_reasoning_text s) ''completed''))
       (opt_list (ca_reasoning_output_index s)) @
     List.map (\<lambda>i. (i, message_item_with_status (ca_message_id s) (ca_full_text s) ''completed''))
       (opt_list (ca_message_output_index s)) @
     List.map (\<lambda>t. (tc_output_index t, call_item t)) (ca_tool_calls s)"

lemma listed_items_order:
  assumes "distinct (item_indices s)" "set (item_indices s) = {..<n}"
    "ca_reasoning_started s \<longleftrightarrow> ca_reasoning_output_index s \<noteq> None" "ca_content_started s \<longleftrightarrow> ca_message_output_index s \<noteq> None"
  shows "length (current_output_items s) = n"
    "\<forall>j < n. (j, current_output_items s ! j) \<in> set (listed_items s)"
proof -
  let ?L = "listed_items s"
  have L: "current_output_items s = List.map snd (sort_key fst ?L)"
    using assms(3,4) by (cases "ca_reasoning_output_index s"; cases "ca_message_output_index s")
      (simp_all add: current_output_items_def listed_items_def opt_list_def)
  have keys: "List.map fst ?L = item_indices s"
    by (simp add: listed_items_def item_indices_def comp_def opt_list_def split: option.split)
  have "mset (List.map fst (sort_key fst ?L)) = mset (item_indices s)" by (simp flip: keys)
  then have d: "distinct (List.map fst (sort_key fst ?L))" and e: "set (List.map fst (sort_key fst ?L)) = {..<n}"
    using assms(1,2) mset_eq_imp_distinct_iff [of _ "item_indices s"] mset_eq_setD [of _ "item_indices s"] by blast+
  have k: "List.map fst (sort_key fst ?L) = [0..<n]"
    by (rule sorted_distinct_set_unique [OF sorted_sort_key d]) (simp_all only: sorted_upt distinct_upt e set_upt atLeast0LessThan)
  then have len: "length (sort_key fst ?L) = n" by (metis length_map length_upt minus_nat.diff_0)
  then show "length (current_output_items s) = n" by (simp add: L)
  show "\<forall>j < n. (j, current_output_items s ! j) \<in> set ?L"
  proof (intro allI impI)
    fix j assume j: "j < n"
    then have "fst (sort_key fst ?L ! j) = j" using k len by (metis add_0 length_map nth_map nth_upt minus_nat.diff_0)
    then have "sort_key fst ?L ! j = (j, current_output_items s ! j)" using j len by (simp add: L prod_eq_iff)
    then show "(j, current_output_items s ! j) \<in> set ?L" using j len by (metis nth_mem set_sort)
  qed
qed

text \<open>The automaton when every listed item is closed.\<close>

lemma completed_run:
  assumes "length items = n" "\<forall>j < n. pi_stage (f j) = ItemDone (items ! j)" "json_get r ''output'' = Some (JArr items)"
  shows "events_run jt (Running q True (List.map f [0..<n])) q [response_event ''response.completed'' r] = Some Finished"
proof -
  have "List.map (pi_stage \<circ> f) [0..<n] = List.map ItemDone items"
    by (rule nth_equalityI) (use assms in simp_all)
  then show ?thesis by (simp add: read_completed [OF assms(3)])
qed

lemma closed_listed:
  assumes s: "chat_ok s" "\<not> ca_completed s"
    and calls: "list_all2 (completes jt) (ca_tool_calls s) calls"
    and ts: "ts = sort_key tc_output_index calls"
    and f: "f = (\<lambda>j. if ca_reasoning_output_index s = Some j
        then (item_at s j)\<lparr>pi_stage := ItemDone (reasoning_item_with_status (ca_reasoning_id s) (ca_full_reasoning_text s) ''completed'')\<rparr>
      else if ca_message_output_index s = Some j
        then (item_at s j)\<lparr>pi_stage := ItemDone (message_item_with_status (ca_message_id s) (ca_full_text s) ''completed'')\<rparr>
      else item_at s j)"
  shows "distinct (List.map tc_output_index ts)"
    "\<forall>t \<in> set ts. tc_output_index t < ca_next_output_index s \<and>
      (\<exists>old. f (tc_output_index t) = call_item_open old \<and> completes jt old t)"
    "(j, item) \<in> set (listed_items (s\<lparr>ca_tool_calls := calls\<rparr>)) \<Longrightarrow> pi_stage (with_closed ts f j) = ItemDone item"
proof -
  have "items_open s" using s by (simp add: chat_ok_def)
  have same: "List.map tc_output_index calls = List.map tc_output_index (ca_tool_calls s)"
    using calls by (auto simp: list_eq_iff_nth_eq list_all2_conv_all_nth completes_def)
  have "mset (List.map tc_output_index ts) = mset (List.map tc_output_index calls)" by (simp add: ts)
  then show dist: "distinct (List.map tc_output_index ts)"
    using \<open>items_open s\<close> same mset_eq_imp_distinct_iff unfolding items_open_def item_indices_def by (metis distinct_append)
  have old: "\<exists>old \<in> set (ca_tool_calls s). completes jt old t" if "t \<in> set calls" for t
    using calls that by (metis in_set_conv_nth list_all2_conv_all_nth)
  have other: "tc_output_index t < ca_next_output_index s \<and> ca_reasoning_output_index s \<noteq> Some (tc_output_index t) \<and>
      ca_message_output_index s \<noteq> Some (tc_output_index t)" if "t \<in> set calls" for t
    using old [OF that] open_index(3) [OF s] unfolding completes_def by metis
  show "\<forall>t \<in> set ts. tc_output_index t < ca_next_output_index s \<and>
      (\<exists>old. f (tc_output_index t) = call_item_open old \<and> completes jt old t)"
  proof
    fix t assume "t \<in> set ts"
    then have t: "t \<in> set calls" by (simp add: ts)
    from old [OF this] obtain old where o: "old \<in> set (ca_tool_calls s)" "completes jt old t" by blast
    then have "f (tc_output_index t) = call_item_open old"
      using other [OF t] item_at_call [OF s o(1)] by (simp add: f completes_def)
    then show "tc_output_index t < ca_next_output_index s \<and>
      (\<exists>old. f (tc_output_index t) = call_item_open old \<and> completes jt old t)" using other [OF t] o(2) by blast
  qed
  assume j: "(j, item) \<in> set (listed_items (s\<lparr>ca_tool_calls := calls\<rparr>))"
  have find: "List.find (\<lambda>t. tc_output_index t = j) ts = None" if "\<forall>t \<in> set calls. tc_output_index t \<noteq> j"
    using that by (simp add: find_None_iff ts)
  have find': "List.find (\<lambda>t'. tc_output_index t' = tc_output_index t) ts = Some t" if "t \<in> set calls" for t
    using find_key [OF dist] that by (simp add: ts)
  from j consider
      "ca_reasoning_output_index s = Some j" "item = reasoning_item_with_status (ca_reasoning_id s) (ca_full_reasoning_text s) ''completed''"
    | "ca_message_output_index s = Some j" "item = message_item_with_status (ca_message_id s) (ca_full_text s) ''completed''"
    | t where "t \<in> set calls" "j = tc_output_index t" "item = call_item t"
    by (auto simp: listed_items_def opt_list_def split: option.splits)
  then show "pi_stage (with_closed ts f j) = ItemDone item"
  proof cases
    case 1
    then have "\<forall>t \<in> set calls. tc_output_index t \<noteq> j" using other by auto
    then show ?thesis using 1 find by (simp add: with_closed_def f)
  next
    case 2
    then have "ca_reasoning_output_index s \<noteq> Some j"
      using \<open>items_open s\<close> by (auto simp: items_open_def item_indices_def opt_list_def)
    moreover have "\<forall>t \<in> set calls. tc_output_index t \<noteq> j" using 2 other by auto
    ultimately show ?thesis using 2 find by (simp add: with_closed_def f)
  next
    case 3
    then show ?thesis using find' [OF 3(1)] by (simp add: with_closed_def call_item_closed_def)
  qed
qed

lemma emit_completion_ok:
  assumes "json_reads_back jt" "chat_ok s" "emit_completion jt su (s, out) = Inr e"
  shows "chat_ok (fst e) \<and> follows jt (s, out) e \<and> ca_completed (fst e)"
proof (cases "ca_completed s")
  case True
  then show ?thesis using assms by (auto simp: emit_completion_def)
next
  case False
  obtain n0 q frames0 where c: "ensure_response_created jt su (s, out) = Inr (announced s n0 q, out @ frames0)"
    "chat_ok (announced s n0 q)" "follows jt (s, out) (announced s n0 q, out @ frames0)"
    using ensure_created [OF assms(1,2)] .
  let ?s = "announced s n0 q" and ?n = "ca_next_output_index s"
  have open0: "items_open ?s" using c(2) False by (simp add: chat_ok_def)
  define R where "R = (if ca_reasoning_started s then reasoning_done_events s else [])"
  define M where "M = (if ca_content_started s then message_done_events s else [])"
  have same: "reasoning_done_events (announced s n q) = reasoning_done_events s"
    "message_done_events (announced s n q) = message_done_events s" for n q
    by (simp_all add: reasoning_done_events_def message_done_events_def)
  have okR: "list_all event_ok R" and okM: "list_all event_ok M"
    by (simp_all add: R_def M_def reasoning_done_events_def message_done_events_def Let_def)
  obtain frames1 where r: "push_events jt R (?s, out @ frames0) =
      Inr (?s\<lparr>ca_next_sequence_number := q + length R\<rparr>, (out @ frames0) @ frames1)"
    "\<And>m. protocol_run jt m frames1 = events_run jt m q R"
    using push_events_ok [OF assms(1) okR, of ?s "out @ frames0"] by auto
  let ?s1 = "?s\<lparr>ca_next_sequence_number := q + length R\<rparr>"
  obtain frames2 where m: "push_events jt M (?s1, (out @ frames0) @ frames1) =
      Inr (?s1\<lparr>ca_next_sequence_number := q + length R + length M\<rparr>, ((out @ frames0) @ frames1) @ frames2)"
    "\<And>m. protocol_run jt m frames2 = events_run jt m (q + length R) M"
    using push_events_ok [OF assms(1) okM, of ?s1 "(out @ frames0) @ frames1"] by auto
  let ?s2 = "?s1\<lparr>ca_next_sequence_number := q + length R + length M\<rparr>"
  have pr: "(if ca_reasoning_started ?s then push_events jt (reasoning_done_events ?s) (?s, out @ frames0)
      else Inr (?s, out @ frames0)) = Inr (?s1, (out @ frames0) @ frames1)"
    using r(1) by (cases "ca_reasoning_started s") (simp_all add: R_def push_events_def reasoning_done_events_def Let_def)
  have pm: "(if ca_content_started ?s1 then push_events jt (message_done_events ?s1) (?s1, (out @ frames0) @ frames1)
      else Inr (?s1, (out @ frames0) @ frames1)) = Inr (?s2, ((out @ frames0) @ frames1) @ frames2)"
    using m(1) by (cases "ca_content_started s") (simp_all add: M_def push_events_def message_done_events_def Let_def)
  let ?out2 = "((out @ frames0) @ frames1) @ frames2"
  define s2 where "s2 = ?s2"
  have s2: "ca_tool_calls s2 = ca_tool_calls s" "ca_full_text s2 = ca_full_text s" by (simp_all add: s2_def)
  have tail: "emit_completion jt su (s, out) = try_then (emit_pending_tool_completions jt su (s2, ?out2)) (\<lambda>(s, out).
         let (response_id, s) = current_response_id su s;
             (response, n) =
               build_response_object su response_id (ca_model s) (ca_created_at s) (current_output_items s) (ca_usage s)
                 ''completed'' (ca_drawn s)
         in try_then (push_event jt (response_event ''response.completed'' response) (s\<lparr>ca_drawn := n\<rparr>, out))
              (\<lambda>(s, out). Inr (s\<lparr>ca_completed := True\<rparr>, out)))"
    by (simp only: s2_def emit_completion_def prod.case c(1) try_then_simps pr pm False if_False)
  obtain rid n1 where rid: "current_response_id su s2 = (rid, s2\<lparr>ca_drawn := n1\<rparr>)" using current_response_id_state by blast
  obtain calls where calls: "try_map (complete_call jt (ca_full_text s)) (ca_tool_calls s) = Inr calls"
    using assms(3) False
    by (cases "try_map (complete_call jt (ca_full_text s)) (ca_tool_calls s)")
      (simp_all add: tail emit_pending_tool_completions_def rid s2)
  have fresh: "list_all (\<lambda>t. \<not> tc_done_emitted t) (ca_tool_calls s)"
    using open0 by (simp add: items_open_def list_all_iff)
  have comp: "list_all2 (completes jt) (ca_tool_calls ?s) calls" using complete_calls [OF assms(1) calls fresh] by simp
  define ts where "ts = sort_key tc_output_index calls"
  define C where "C = concat (List.map (call_done_events rid) ts)"
  have okC: "list_all event_ok C" by (auto simp: C_def list_all_iff call_done_events_def call_item_def [symmetric])
  let ?s3 = "s2\<lparr>ca_drawn := n1, ca_tool_calls := calls\<rparr>"
  obtain frames3 where p3: "push_events jt C (?s3, ?out2) =
      Inr (?s3\<lparr>ca_next_sequence_number := q + length R + length M + length C\<rparr>, ?out2 @ frames3)"
    "\<And>m. protocol_run jt m frames3 = events_run jt m (q + length R + length M) C"
    using push_events_ok [OF assms(1) okC, of ?s3 ?out2] by (auto simp: s2_def)
  let ?q4 = "q + length R + length M + length C"
  define s4 where "s4 = ?s3\<lparr>ca_next_sequence_number := ?q4\<rparr>"
  have s4: "ca_model s4 = ca_model s" "ca_created_at s4 = ca_created_at s" "ca_usage s4 = ca_usage s"
    "ca_next_sequence_number s4 = ?q4" "ca_tool_calls s4 = calls" by (simp_all add: s4_def s2_def)
  have pending: "emit_pending_tool_completions jt su (s2, ?out2) = Inr (s4, ?out2 @ frames3)"
    using p3(1) pending_all [OF list_all2_lengthD [OF comp]] fresh
    by (simp add: emit_pending_tool_completions_def rid s2 calls s4_def flip: C_def ts_def)
  obtain rid2 n2 where rid2: "current_response_id su s4 = (rid2, s4\<lparr>ca_drawn := n2\<rparr>)" using current_response_id_state by blast
  let ?items = "current_output_items (s4\<lparr>ca_drawn := n2\<rparr>)"
  obtain response n3 where resp: "build_response_object su rid2 (ca_model s) (ca_created_at s) ?items (ca_usage s) ''completed'' n2 =
      (response, n3)" by fastforce
  have items_wf: "list_all json_wf ?items"
    by (auto simp: list_all_iff current_output_items_def)
  have usage: "\<And>u. ca_usage s = Some u \<Longrightarrow> json_wf u" using c(2) by (simp add: chat_ok_def)
  have response: "json_wf response" "json_get response ''output'' = Some (JArr ?items)"
    using response_object(2,3) [where usage = "ca_usage s" and items = ?items and su = su and rid = rid2 and model = "ca_model s"
        and created = "ca_created_at s" and status = "''completed''" and n = n2] usage items_wf resp by simp_all
  let ?s5 = "s4\<lparr>ca_drawn := n3\<rparr>"
  obtain frame where f: "push_event jt (response_event ''response.completed'' response) (?s5, ?out2 @ frames3) =
      Inr (?s5\<lparr>ca_next_sequence_number := ?q4 + 1\<rparr>, (?out2 @ frames3) @ [frame])"
    "frame_event jt frame = read_protocol_event (numbered ?q4 (response_event ''response.completed'' response))"
    using push_event_ok [OF assms(1), of "response_event ''response.completed'' response" ?s5 "?out2 @ frames3"] response(1) by (auto simp: s4)
  let ?t = "?s5\<lparr>ca_next_sequence_number := ?q4 + 1, ca_completed := True\<rparr>"
  have e: "e = (?t, (?out2 @ frames3) @ [frame])"
    using assms(3) f(1) unfolding tail pending
    by (simp add: rid2 resp s4 del: append_assoc)
  define f0 where "f0 = (\<lambda>j. if ca_reasoning_output_index s = Some j
      then (item_at s j)\<lparr>pi_stage := ItemDone (reasoning_item_with_status (ca_reasoning_id s) (ca_full_reasoning_text s) ''completed'')\<rparr>
      else item_at s j)"
  define f1 where "f1 = (\<lambda>j. if ca_reasoning_output_index s = Some j
      then (item_at s j)\<lparr>pi_stage := ItemDone (reasoning_item_with_status (ca_reasoning_id s) (ca_full_reasoning_text s) ''completed'')\<rparr>
      else if ca_message_output_index s = Some j
      then (item_at s j)\<lparr>pi_stage := ItemDone (message_item_with_status (ca_message_id s) (ca_full_text s) ''completed'')\<rparr>
      else item_at s j)"
  have runR: "events_run jt (protocol_of ?s) q R = Some (Running (q + length R) True (List.map f0 [0..<?n]))"
  proof (cases "ca_reasoning_started s")
    case True
    then obtain i where i: "ca_reasoning_output_index s = Some i" "i < ?n" using open_index(1) [OF c(2)] False by auto
    then have "f0 = (item_at s)(i := (item_at s i)\<lparr>pi_stage := ItemDone (reasoning_item_with_status (ca_reasoning_id s) (ca_full_reasoning_text s) ''completed'')\<rparr>)"
      by (auto simp: f0_def)
    then show ?thesis
      using close_item_run [of i ?n "item_at s" "item_at s i" "ca_reasoning_id s" "ca_full_reasoning_text s" ReasoningKind q
          "reasoning_done_events s ! 0" "reasoning_done_events s ! 1" "reasoning_done_events s ! 2"
          "reasoning_item_with_status (ca_reasoning_id s) (ca_full_reasoning_text s) ''completed''" jt] i True False
      by (simp add: R_def reasoning_done_events_def protocol_of_def item_at_def Let_def)
  next
    case no: False
    then have "ca_reasoning_output_index s = None" using open0 by (simp add: items_open_def)
    then show ?thesis using no False by (simp add: R_def protocol_of_def f0_def [abs_def])
  qed
  have runM: "events_run jt (Running (q + length R) True (List.map f0 [0..<?n])) (q + length R) M =
      Some (Running (q + length R + length M) True (List.map f1 [0..<?n]))"
  proof (cases "ca_content_started s")
    case True
    then obtain i where i: "ca_message_output_index s = Some i" "i < ?n" "ca_reasoning_output_index s \<noteq> Some i"
      using open_index(2) [OF c(2)] False by auto
    then have "f1 = f0(i := (f0 i)\<lparr>pi_stage := ItemDone (message_item_with_status (ca_message_id s) (ca_full_text s) ''completed'')\<rparr>)"
      by (auto simp: f0_def f1_def)
    then show ?thesis
      using close_item_run [of i ?n f0 "f0 i" "ca_message_id s" "ca_full_text s" MessageKind "q + length R"
          "message_done_events s ! 0" "message_done_events s ! 1" "message_done_events s ! 2"
          "message_item_with_status (ca_message_id s) (ca_full_text s) ''completed''" jt] i True
      by (simp add: M_def message_done_events_def f0_def item_at_def Let_def)
  next
    case False
    then have "ca_message_output_index s = None" using open0 by (simp add: items_open_def)
    then show ?thesis using False by (simp add: M_def f0_def f1_def)
  qed
  have f1: "f1 = (\<lambda>j. if ca_reasoning_output_index ?s = Some j
        then (item_at ?s j)\<lparr>pi_stage := ItemDone (reasoning_item_with_status (ca_reasoning_id ?s) (ca_full_reasoning_text ?s) ''completed'')\<rparr>
      else if ca_message_output_index ?s = Some j
        then (item_at ?s j)\<lparr>pi_stage := ItemDone (message_item_with_status (ca_message_id ?s) (ca_full_text ?s) ''completed'')\<rparr>
      else item_at ?s j)"
    by (rule ext) (simp add: f1_def item_at_def)
  have open_s: "\<not> ca_completed ?s" using False by simp
  note closed = closed_listed [OF c(2) open_s comp ts_def f1]
  have lenC: "length (concat (List.map (call_done_events rid) ts)) = 2 * length ts"
    by (induction ts) (simp_all add: call_done_events_def)
  have runC: "events_run jt (Running (q + length R + length M) True (List.map f1 [0..<?n])) (q + length R + length M) C =
      Some (Running ?q4 True (List.map (with_closed ts f1) [0..<?n]))"
    using close_calls_run [OF closed(1), of ?n f1 jt "q + length R + length M" rid] closed(2)
    by (simp add: C_def lenC)
  have slots: "List.map tc_output_index (ca_tool_calls ?s) = List.map tc_output_index calls"
    using comp by (induction rule: list_all2_induct) (simp_all add: completes_def)
  have same: "item_indices (s4\<lparr>ca_drawn := n2\<rparr>) = item_indices ?s"
    using slots by (simp add: item_indices_def s4_def s2_def)
  have listed: "listed_items (s4\<lparr>ca_drawn := n2\<rparr>) = listed_items (?s\<lparr>ca_tool_calls := calls\<rparr>)"
    by (simp add: listed_items_def s4_def s2_def)
  have order: "length ?items = ?n" "\<forall>j < ?n. (j, ?items ! j) \<in> set (listed_items (s4\<lparr>ca_drawn := n2\<rparr>))"
    using listed_items_order [of "s4\<lparr>ca_drawn := n2\<rparr>" ?n] open0 unfolding same by (simp_all add: items_open_def s4_def s2_def)
  have "events_run jt (Running ?q4 True (List.map (with_closed ts f1) [0..<?n])) ?q4
      [response_event ''response.completed'' response] = Some Finished"
    using completed_run [OF order(1) _ response(2)] order(2) closed(3) unfolding listed by blast
  then have "follows jt (?s, out @ frames0) e"
    using f(2) runR runM runC
    by (auto simp: follows_def e r(2) m(2) p3(2) protocol_run_append protocol_of_def
        intro!: exI [of _ "frames1 @ frames2 @ frames3 @ [frame]"])
  moreover have "chat_ok ?t"
    using c(2) list_all2_lengthD [OF comp] by (simp add: chat_ok_def s4_def s2_def)
  ultimately show ?thesis using follows_trans [OF c(3)] by (simp add: e)
qed

subsection \<open>Lines, chunks and the whole stream\<close>

text \<open>What every operation of the adapter keeps.\<close>

definition advances :: "json_text \<Rightarrow> emission \<Rightarrow> emission \<Rightarrow> bool" where
  "advances jt e e' \<longleftrightarrow>
     chat_ok (fst e') \<and> follows jt e e' \<and> (ca_completed (fst e) \<longrightarrow> ca_completed (fst e'))"

lemma advances_refl: "chat_ok (fst e) \<Longrightarrow> advances jt e e"
  by (simp add: advances_def)

lemma advances_trans: "advances jt a b \<Longrightarrow> advances jt b c \<Longrightarrow> advances jt a c"
  by (auto simp: advances_def intro: follows_trans)

lemma advances_ok: "advances jt e e' \<Longrightarrow> chat_ok (fst e')"
  by (simp add: advances_def)

lemma try_fold_advances:
  assumes "\<And>x e e'. chat_ok (fst e) \<Longrightarrow> f x e = Inr e' \<Longrightarrow> advances jt e e'"
    and "chat_ok (fst e)" "try_fold f xs e = Inr e'"
  shows "advances jt e e'"
  using assms(2,3)
proof (induction xs arbitrary: e)
  case Nil
  then show ?case by (simp add: advances_refl)
next
  case (Cons x xs)
  then obtain e1 where e1: "f x e = Inr e1" "try_fold f xs e1 = Inr e'" by auto
  have a: "advances jt e e1" by (rule assms(1) [OF Cons.prems(1) e1(1)])
  show ?case by (rule advances_trans [OF a Cons.IH [OF advances_ok [OF a] e1(2)]])
qed

lemma observe_advances:
  "json_reads_back jt \<Longrightarrow> chat_ok (fst e) \<Longrightarrow> observe_tool_call_delta jt su delta e = Inr e' \<Longrightarrow> advances jt e e'"
  unfolding advances_def by (cases e) (auto dest: observe_ok)

lemma push_reasoning_advances:
  "json_reads_back jt \<Longrightarrow> chat_ok (fst e) \<Longrightarrow> push_reasoning jt su delta e = Inr e' \<Longrightarrow> advances jt e e'"
  unfolding advances_def by (cases e) (auto dest: push_reasoning_ok)

lemma push_text_advances:
  "json_reads_back jt \<Longrightarrow> chat_ok (fst e) \<Longrightarrow> push_text jt su delta e = Inr e' \<Longrightarrow> advances jt e e'"
  unfolding advances_def by (cases e) (auto dest: push_text_ok)

text \<open>Noting metadata and usage is invisible to the client.\<close>

lemma observe_metadata_silent:
  assumes "chat_ok s"
  shows "advances jt (s, out)
    ((observe_metadata v s)\<lparr>ca_usage := opt_or (usage_from_chat_value v) (ca_usage (observe_metadata v s))\<rparr>, out)"
  using assms
  by (auto simp: advances_def follows_def observe_metadata_def chat_ok_def items_open_def item_indices_def protocol_of_def
      opt_or_def usage_wf split: option.splits)

lemma process_line_advances:
  assumes "json_reads_back jt" "chat_ok (fst e)" "process_line jt su line e = Inr e'"
  shows "advances jt e e'"
proof -
  obtain s out where e: "e = (s, out)" by fastforce
  let ?data = "trim (drop 5 line)"
  consider "e' = e" | "emit_completion jt su e = Inr e'"
    | jv where "jt_parse jt ?data = Some jv" "prefix ''data:'' line" "?data \<noteq> []" "?data \<noteq> ''[DONE]''"
    using assms(3) that unfolding process_line_def e Let_def prod.case
    by (cases "prefix ''data:'' line"; cases "?data = []"; cases "?data = ''[DONE]''"; cases "jt_parse jt ?data") simp_all
  then show ?thesis
  proof cases
    case 1
    then show ?thesis using advances_refl assms(2) by simp
  next
    case 2
    then show ?thesis using emit_completion_ok assms(1,2) unfolding advances_def by (simp add: e)
  next
    case 3
    let ?m = "observe_metadata jv s"
    let ?e0 = "(?m\<lparr>ca_usage := opt_or (usage_from_chat_value jv) (ca_usage ?m)\<rparr>, out)"
    obtain calls e1 e2 where r: "try_fold (observe_tool_call_delta jt su) calls ?e0 = Inr e1"
      "push_reasoning jt su (extract_chat_delta_reasoning_text jv) e1 = Inr e2"
      "push_text jt su (extract_chat_delta_text jv) e2 = Inr e'"
      using assms(3) 3 by (auto simp: process_line_def e Let_def)
    have a0: "advances jt e ?e0" using observe_metadata_silent assms(2) by (simp add: e)
    have a1: "advances jt ?e0 e1"
      by (rule try_fold_advances [OF observe_advances [OF assms(1)] advances_ok [OF a0] r(1)])
    have a2: "advances jt e1 e2" by (rule push_reasoning_advances [OF assms(1) advances_ok [OF a1] r(2)])
    have a3: "advances jt e2 e'" by (rule push_text_advances [OF assms(1) advances_ok [OF a2] r(3)])
    show ?thesis by (rule advances_trans [OF advances_trans [OF advances_trans [OF a0 a1] a2] a3])
  qed
qed

lemma decoder_silent:
  "chat_ok (s\<lparr>ca_decoder := d\<rparr>) = chat_ok s" "protocol_of (s\<lparr>ca_decoder := d\<rparr>) = protocol_of s"
  by (simp_all add: chat_ok_def items_open_def item_indices_def protocol_of_def)

lemma chat_push_chunk_ok:
  assumes "json_reads_back jt" "chat_ok s" "chat_push_chunk jt su capacity chunk s = Inr (s', frames)"
  shows "chat_ok s' \<and> protocol_run jt (protocol_of s) frames = Some (protocol_of s')"
proof -
  obtain d ls where d: "try_fold (process_line jt su) ls (s\<lparr>ca_decoder := d\<rparr>, []) = Inr (s', frames)"
    using assms(3) by (auto simp: chat_push_chunk_def split: sum.splits)
  have "advances jt (s\<lparr>ca_decoder := d\<rparr>, []) (s', frames)"
    by (rule try_fold_advances [OF process_line_advances [OF assms(1)] _ d]) (simp_all add: decoder_silent assms(2))
  then show ?thesis by (auto simp: advances_def follows_def decoder_silent)
qed

lemma chat_finish_ok:
  assumes "json_reads_back jt" "chat_ok s" "chat_finish jt su s = Inr (s', frames)"
  shows "protocol_run jt (protocol_of s) frames = Some Finished"
proof -
  obtain d rest where d: "decoder_finish (ca_decoder s) = Inr (d, rest)"
    using assms(3) by (auto simp: chat_finish_def split: sum.splits)
  let ?e0 = "(s\<lparr>ca_decoder := d\<rparr>, [])"
  obtain e where e: "(case opt_filter (\<lambda>line. trim line \<noteq> []) rest of
        Some line \<Rightarrow> process_line jt su (trim_line_end line) ?e0 | None \<Rightarrow> Inr ?e0) = Inr e"
    "(if ca_completed (fst e) then Inr e else emit_completion jt su e) = Inr (s', frames)"
    using assms(3) by (force simp: chat_finish_def d split: prod.splits)
  have ok: "chat_ok (s\<lparr>ca_decoder := d\<rparr>)" using assms(2) by (simp add: decoder_silent)
  have a: "advances jt (s\<lparr>ca_decoder := d\<rparr>, []) e"
    using e(1) advances_refl [of ?e0 jt] process_line_advances [OF assms(1), of ?e0] ok by (simp split: option.splits)
  have b: "follows jt e (s', frames) \<and> ca_completed s'"
    using e(2) emit_completion_ok [OF assms(1) advances_ok [OF a], of su "snd e" "(s', frames)"]
    by (cases "ca_completed (fst e)") auto
  have "follows jt (s\<lparr>ca_decoder := d\<rparr>, []) (s', frames)"
    using a follows_trans [OF _ b [THEN conjunct1]] by (simp add: advances_def)
  then show ?thesis using b by (auto simp: follows_def decoder_silent protocol_of_def [of s'])
qed

lemma chat_stream_run_ok:
  assumes "json_reads_back jt" "chat_ok s" "chat_stream_run jt su chunks s = (frames, err)"
  shows "\<exists>end_state. protocol_run jt (protocol_of s) frames = Some end_state \<and> (err = None \<longrightarrow> end_state = Finished)"
  using assms(2,3)
proof (induction chunks arbitrary: s frames)
  case Nil
  then show ?case using chat_finish_ok [OF assms(1)] by (auto split: sum.splits)
next
  case (Cons c chunks)
  obtain capacity chunk where c: "c = (capacity, chunk)" by fastforce
  show ?case
  proof (cases "chat_push_chunk jt su capacity chunk s")
    case (Inl e)
    then show ?thesis using Cons.prems by (auto simp: c)
  next
    case (Inr r)
    obtain s1 frames1 rest where r: "r = (s1, frames1)" "chat_stream_run jt su chunks s1 = (rest, err)" "frames = frames1 @ rest"
      using Cons.prems Inr by (cases r) (auto simp: c split: prod.splits)
    have p: "chat_ok s1" "protocol_run jt (protocol_of s) frames1 = Some (protocol_of s1)"
      using chat_push_chunk_ok [OF assms(1) Cons.prems(1), of su capacity chunk s1 frames1] Inr r(1) by simp_all
    show ?thesis using Cons.IH [OF p(1) r(2)] p(2) r(3) by (auto simp: protocol_run_append)
  qed
qed

text \<open>
  C2: However a chat stream is cut into chunks and whatever its lines are, the frames the adapter sends,
  up to the completed answer, keep to the protocol of a Responses stream: they are numbered from zero
  without gaps, the answer is announced before any item, items have consecutive indices and only
  receive deltas while open, each item is closed with exactly the text of its deltas (a call's arguments
  possibly repaired), and the completed answer lists the closed items in the order they were opened. A
  stream that ends without an error is complete; one that fails has sent a prefix of such a stream.\<close>

theorem chat_stream_protocol:
  assumes "json_reads_back jt"
  shows "case chat_stream_run jt su chunks (chat_stream_new su n) of
    (frames, err) \<Rightarrow> \<exists>m. protocol_run jt (Running 0 False []) frames = Some m \<and> (err = None \<longrightarrow> m = Finished)"
  using chat_stream_run_ok [OF assms chat_new(1), of su chunks su n] chat_new(2) [of su n] by (auto split: prod.split)

end
