(* ===== verification/ChatChunks.thy ===== *)
theory ChatChunks
  imports ChatSafety
begin

text \<open>
  The adapter does not depend on how a chat stream is cut into chunks: whenever the stream ends without
  an error, the frames sent are those of the whole stream decoded at once. The decoder is read only by
  the chunk operations, and an operation appends to the frames without reading them.
\<close>

subsection \<open>Operations do not read the decoder or the frames so far\<close>

definition onto :: "line_decoder \<Rightarrow> string list \<Rightarrow> emission \<Rightarrow> emission" where
  "onto d pre = (\<lambda>(s, out). (s\<lparr>ca_decoder := d\<rparr>, pre @ out))"

definition natural :: "(emission \<Rightarrow> compat_error + emission) \<Rightarrow> bool" where
  "natural f \<longleftrightarrow> (\<forall>d pre e. f (onto d pre e) = map_sum id (onto d pre) (f e))"

lemma naturalI: "(\<And>d pre s out. f (s\<lparr>ca_decoder := d\<rparr>, pre @ out) = map_sum id (onto d pre) (f (s, out))) \<Longrightarrow> natural f"
  by (simp add: natural_def onto_def split_paired_all)

lemma natural_onto: "natural f \<Longrightarrow> f (onto d pre e) = map_sum id (onto d pre) (f e)"
  unfolding natural_def by blast

lemma onto_pair: "onto d pre (s, out) = (s\<lparr>ca_decoder := d\<rparr>, pre @ out)"
  by (simp add: onto_def)

lemma naturalD: "natural f \<Longrightarrow> f (s\<lparr>ca_decoder := d\<rparr>, pre @ out) = map_sum id (onto d pre) (f (s, out))"
  using natural_onto [of f d pre "(s, out)"] by (simp add: onto_def)

lemma natural_Inr: "natural Inr"
  by (rule naturalI) (simp add: onto_def)

lemma try_then_map_sum:
  "try_then (map_sum id h r) f = try_then r (\<lambda>x. f (h x))"
  "map_sum id h (try_then r g) = try_then r (\<lambda>x. map_sum id h (g x))"
  by (cases r; simp)+

lemma natural_then:
  assumes "natural f" "natural g"
  shows "natural (\<lambda>e. try_then (f e) g)"
  unfolding natural_def natural_onto [OF assms(1)]
  by (intro allI) (simp only: try_then_map_sum natural_onto [OF assms(2)])

lemma natural_then_const: "(\<And>x. natural (g x)) \<Longrightarrow> natural (\<lambda>e. try_then r (\<lambda>x. g x e))"
  by (cases r) (auto simp: natural_def)

lemma natural_if: "natural f \<Longrightarrow> natural g \<Longrightarrow> natural (\<lambda>e. if c then f e else g e)"
  by (cases c) (simp_all add: natural_def)

lemma natural_fold: "(\<And>x. natural (f x)) \<Longrightarrow> natural (try_fold f xs)"
proof (induction xs)
  case Nil
  then show ?case using natural_Inr by simp
next
  case (Cons x xs)
  then show ?case using natural_then [of "f x" "try_fold f xs"] by simp
qed

lemma natural_push: "natural (push_event jt event)"
  by (rule naturalI) (simp add: push_event_def onto_def split: sum.split)

lemma natural_pushes: "natural (push_events jt events)"
  unfolding push_events_def by (rule natural_fold [OF natural_push])

text \<open>Steps on the state alone that do not read the decoder.\<close>

lemma pure_steps:
  "current_response_id su (s\<lparr>ca_decoder := d\<rparr>) = apsnd (ca_decoder_update (\<lambda>_. d)) (current_response_id su s)"
  "allocate_output_index (s\<lparr>ca_decoder := d\<rparr>) = apsnd (ca_decoder_update (\<lambda>_. d)) (allocate_output_index s)"
  "resolve_tool_call_position su i c (s\<lparr>ca_decoder := d\<rparr>) =
     apsnd (ca_decoder_update (\<lambda>_. d)) (resolve_tool_call_position su i c s)"
  by (simp_all add: current_response_id_def allocate_output_index_def resolve_tool_call_position_def Let_def
      split: option.split prod.split)

lemma decoder_last:
  "s\<lparr>ca_decoder := d, ca_drawn := n\<rparr> = s\<lparr>ca_drawn := n, ca_decoder := d\<rparr>"
  "s\<lparr>ca_decoder := d, ca_created_emitted := b\<rparr> = s\<lparr>ca_created_emitted := b, ca_decoder := d\<rparr>"
  "s\<lparr>ca_decoder := d, ca_reasoning_started := b\<rparr> = s\<lparr>ca_reasoning_started := b, ca_decoder := d\<rparr>"
  "s\<lparr>ca_decoder := d, ca_content_started := b\<rparr> = s\<lparr>ca_content_started := b, ca_decoder := d\<rparr>"
  "s\<lparr>ca_decoder := d, ca_completed := b\<rparr> = s\<lparr>ca_completed := b, ca_decoder := d\<rparr>"
  "s\<lparr>ca_decoder := d, ca_reasoning_output_index := i\<rparr> = s\<lparr>ca_reasoning_output_index := i, ca_decoder := d\<rparr>"
  "s\<lparr>ca_decoder := d, ca_message_output_index := i\<rparr> = s\<lparr>ca_message_output_index := i, ca_decoder := d\<rparr>"
  "s\<lparr>ca_decoder := d, ca_tool_calls := ts\<rparr> = s\<lparr>ca_tool_calls := ts, ca_decoder := d\<rparr>"
  "s\<lparr>ca_decoder := d, ca_full_text := t\<rparr> = s\<lparr>ca_full_text := t, ca_decoder := d\<rparr>"
  "s\<lparr>ca_decoder := d, ca_full_reasoning_text := t\<rparr> = s\<lparr>ca_full_reasoning_text := t, ca_decoder := d\<rparr>"
  "s\<lparr>ca_decoder := d, ca_usage := u\<rparr> = s\<lparr>ca_usage := u, ca_decoder := d\<rparr>"
  "s\<lparr>ca_decoder := d, ca_next_output_index := k\<rparr> = s\<lparr>ca_next_output_index := k, ca_decoder := d\<rparr>"
  "s\<lparr>ca_decoder := d, ca_active_positions := a\<rparr> = s\<lparr>ca_active_positions := a, ca_decoder := d\<rparr>"
  by simp_all

text \<open>A flag set at the end of a step.\<close>

lemma natural_flags:
  "natural (\<lambda>(s, out). Inr (s\<lparr>ca_created_emitted := b\<rparr>, out))"
  "natural (\<lambda>(s, out). Inr (s\<lparr>ca_reasoning_started := b\<rparr>, out))"
  "natural (\<lambda>(s, out). Inr (s\<lparr>ca_content_started := b\<rparr>, out))"
  "natural (\<lambda>(s, out). Inr (s\<lparr>ca_completed := b\<rparr>, out))"
  by (rule naturalI, simp add: onto_def)+

lemma natural_created: "natural (ensure_response_created jt su)"
proof (rule naturalI)
  fix d pre s out
  obtain r s1 where r: "current_response_id su s = (r, s1)" by fastforce
  obtain shell n where n: "response_shell su r (ca_model s1) (ca_created_at s1) ''in_progress'' (ca_drawn s1) = (shell, n)" by fastforce
  show "ensure_response_created jt su (s\<lparr>ca_decoder := d\<rparr>, pre @ out) =
      map_sum id (onto d pre) (ensure_response_created jt su (s, out))"
    by (simp add: ensure_response_created_def pure_steps r n decoder_last naturalD [OF natural_then [OF natural_push natural_flags(1)]])
      (simp add: onto_def)
qed

lemma natural_started: "natural (ensure_reasoning_stream_started jt su)" "natural (ensure_text_stream_started jt su)"
  unfolding ensure_reasoning_stream_started_def [abs_def] ensure_text_stream_started_def [abs_def]
  by (rule natural_then [OF natural_created], rule naturalI,
      auto simp: allocate_output_index_def decoder_last naturalD [OF natural_then [OF natural_pushes natural_flags(2)]]
        naturalD [OF natural_then [OF natural_pushes natural_flags(3)]] onto_pair split: option.split)+

lemma natural_deltas: "natural (push_reasoning jt su delta)" "natural (push_text jt su delta)"
  unfolding push_reasoning_def [abs_def] push_text_def [abs_def]
  by (rule natural_if [OF natural_Inr natural_then], rule natural_started, rule naturalI,
      simp add: decoder_last naturalD [OF natural_pushes] naturalD [OF natural_push] Let_def)+

text \<open>The arguments' part of a tool call delta.\<close>

lemma natural_arguments:
  "natural (\<lambda>(s, out). case current_response_id su s of (response_id, s) \<Rightarrow> push_event jt (ev response_id) (s, out))"
  by (rule naturalI) (simp add: pure_steps naturalD [OF natural_push] case_prod_beta)

lemma natural_observe: "natural (observe_tool_call_delta jt su delta)"
  unfolding observe_tool_call_delta_def [abs_def]
  apply (rule natural_then [OF natural_created], rule naturalI)
  subgoal for d pre s out
    by (cases "resolve_tool_call_position su (td_index delta) (td_call_id delta) s")
      (auto simp: pure_steps(3) decoder_last Let_def naturalD [OF natural_arguments, simplified] onto_pair
         naturalD [OF natural_then [OF natural_push natural_arguments]] naturalD [OF natural_then [OF natural_push natural_Inr]])
  done

lemma natural_pending: "natural (emit_pending_tool_completions jt su)"
  apply (rule naturalI)
  subgoal for d pre s out
    by (cases "current_response_id su s"; cases "try_map (complete_call jt (ca_full_text (snd (current_response_id su s)))) (ca_tool_calls (snd (current_response_id su s)))")
      (simp_all add: emit_pending_tool_completions_def pure_steps decoder_last Let_def naturalD [OF natural_pushes])
  done

lemma natural_completion: "natural (emit_completion jt su)"
proof -
  have last: "natural (\<lambda>(s, out).
         let (response_id, s) = current_response_id su s;
             (response, n) =
               build_response_object su response_id (ca_model s) (ca_created_at s) (current_output_items s) (ca_usage s)
                 ''completed'' (ca_drawn s)
         in try_then (push_event jt (response_event ''response.completed'' response) (s\<lparr>ca_drawn := n\<rparr>, out))
              (\<lambda>(s, out). Inr (s\<lparr>ca_completed := True\<rparr>, out)))"
    apply (rule naturalI)
    subgoal for d pre s out
      by (cases "current_response_id su s")
        (simp add: pure_steps decoder_last naturalD [OF natural_then [OF natural_push natural_flags(4)]] case_prod_beta
           current_output_items_def)
    done
  have done_events: "reasoning_done_events (s\<lparr>ca_decoder := d\<rparr>) = reasoning_done_events s"
    "message_done_events (s\<lparr>ca_decoder := d\<rparr>) = message_done_events s" for s d
    by (simp_all add: reasoning_done_events_def message_done_events_def)
  have texts: "natural (\<lambda>(s, out). if ca_reasoning_started s then push_events jt (reasoning_done_events s) (s, out) else Inr (s, out))"
    "natural (\<lambda>(s, out). if ca_content_started s then push_events jt (message_done_events s) (s, out) else Inr (s, out))"
    by (rule naturalI, simp add: done_events naturalD [OF natural_pushes] onto_pair)+
  note run = natural_then [OF natural_created [of jt su]
      natural_then [OF texts(1) natural_then [OF texts(2) natural_then [OF natural_pending [of jt su] last]]]]
  show ?thesis
    apply (rule naturalI)
    subgoal for d pre s out
      using naturalD [OF run, where s = s and d = d and pre = pre and out = out]
      by (cases "ca_completed s") (simp_all add: emit_completion_def onto_pair case_prod_unfold Let_def)
    done
qed

lemma natural_line: "natural (process_line jt su line)"
proof -
  have seen: "natural (\<lambda>e. try_then (extract_chat_delta_tool_calls v) (\<lambda>calls.
      try_then (try_fold (observe_tool_call_delta jt su) calls e) (\<lambda>e.
      try_then (push_reasoning jt su (extract_chat_delta_reasoning_text v) e) (push_text jt su (extract_chat_delta_text v)))))" for v
    by (intro natural_then_const natural_then natural_fold natural_observe natural_deltas)
  have noted: "observe_metadata v (s\<lparr>ca_decoder := d\<rparr>) = (observe_metadata v s)\<lparr>ca_decoder := d\<rparr>" for v s d
    by (simp add: observe_metadata_def)
  show ?thesis
    apply (rule naturalI)
    subgoal for d pre s out
      by (cases "jt_parse jt (trim (drop 5 line))")
        (simp_all add: process_line_def Let_def noted decoder_last naturalD [OF seen] naturalD [OF natural_completion] onto_pair)
    done
qed

subsection \<open>The stream as a whole\<close>

text \<open>The lines of a stream and what follows its last line break.\<close>

definition lines_run ::
    "json_text \<Rightarrow> id_source \<Rightarrow> string list \<Rightarrow> string option \<Rightarrow> emission \<Rightarrow> compat_error + emission" where
  "lines_run jt su lines rest e =
     try_then (try_fold (process_line jt su) lines e) (\<lambda>e.
     try_then
       (case opt_filter (\<lambda>line. trim line \<noteq> []) rest of
          Some line \<Rightarrow> process_line jt su (trim_line_end line) e
        | None \<Rightarrow> Inr e)
       (\<lambda>e. if ca_completed (fst e) then Inr e else emit_completion jt su e))"

lemma natural_lines: "natural (lines_run jt su lines rest)"
proof -
  have 1: "natural (\<lambda>e. case opt_filter (\<lambda>line. trim line \<noteq> []) rest of
      Some line \<Rightarrow> process_line jt su (trim_line_end line) e | None \<Rightarrow> Inr e)"
    by (cases "opt_filter (\<lambda>line. trim line \<noteq> []) rest") (simp_all add: natural_Inr natural_line)
  have 2: "natural (\<lambda>e. if ca_completed (fst e) then Inr e else emit_completion jt su e)"
    by (rule naturalI) (simp add: naturalD [OF natural_completion] onto_pair)
  show ?thesis unfolding lines_run_def [abs_def] by (rule natural_then [OF natural_fold [OF natural_line] natural_then [OF 1 2]])
qed

text \<open>What the client got: all frames, or an error.\<close>

fun outcome :: "string list \<times> compat_error option \<Rightarrow> unit + string list" where
  "outcome (frames, None) = Inr frames"
| "outcome (_, Some _) = Inl ()"

definition frames_of :: "compat_error + emission \<Rightarrow> unit + string list" where
  "frames_of r = map_sum (\<lambda>_. ()) snd r"

lemma outcome_simps: "outcome (frames, err) = (if err = None then Inr frames else Inl ())"
  by (cases err) simp_all

lemma try_fold_append: "try_fold f (xs @ ys) e = try_then (try_fold f xs e) (try_fold f ys)"
  by (induction xs arbitrary: e) (simp_all add: try_then_def split: sum.split)

lemma frames_of_onto: "frames_of (map_sum id (onto d pre) r) = map_sum id ((@) pre) (frames_of r)"
  by (cases r) (simp_all add: frames_of_def onto_def case_prod_unfold)

lemma map_sum_nil [simp]: "map_sum id ((@) []) r = r"
  by (cases r) simp_all

lemma outcome_push:
  assumes "chat_push_chunk jt su capacity chunk s = Inr (s', out)"
  shows "outcome (chat_stream_run jt su ((capacity, chunk) # chunks) s) =
    map_sum id ((@) out) (outcome (chat_stream_run jt su chunks s'))"
  by (cases "chat_stream_run jt su chunks s'") (simp add: assms outcome_simps)

lemma finish_lines:
  "frames_of (chat_finish jt su s) =
     (case decoder_finish (ca_decoder s) of
        Inl _ \<Rightarrow> Inl ()
      | Inr (d, rest) \<Rightarrow> frames_of (lines_run jt su [] rest (s, [])))"
proof (cases "decoder_finish (ca_decoder s)")
  case (Inl a)
  then show ?thesis by (simp add: chat_finish_def frames_of_def)
next
  case (Inr r)
  obtain d rest where r: "r = (d, rest)" by fastforce
  have completion: "(\<lambda>(s, out). if ca_completed s then Inr (s, out) else emit_completion jt su (s, out)) =
      (\<lambda>e. if ca_completed (fst e) then Inr e else emit_completion jt su e)"
    by (simp add: fun_eq_iff)
  have "chat_finish jt su s = lines_run jt su [] rest (s\<lparr>ca_decoder := d\<rparr>, [] @ [])"
    by (cases "opt_filter (\<lambda>line. trim line \<noteq> []) rest") (simp_all add: chat_finish_def Inr r lines_run_def completion)
  also have "\<dots> = map_sum id (onto d []) (lines_run jt su [] rest (s, []))" by (rule naturalD [OF natural_lines])
  finally show ?thesis by (simp add: Inr r frames_of_onto)
qed

lemma lines_run_append:
  "lines_run jt su (ls @ ls') rest e = try_then (try_fold (process_line jt su) ls e) (lines_run jt su ls' rest)"
  by (cases "try_fold (process_line jt su) ls e") (simp_all add: lines_run_def try_fold_append)

lemma run_lines:
  "outcome (chat_stream_run jt su chunks s) =
     (case decoder_pushes chunks (ca_decoder s) of
        Inl _ \<Rightarrow> Inl ()
      | Inr (d, ls) \<Rightarrow>
          (case decoder_finish d of Inl _ \<Rightarrow> Inl () | Inr (_, rest) \<Rightarrow> frames_of (lines_run jt su ls rest (s, []))))"
proof (induction chunks arbitrary: s)
  case Nil
  have "outcome (chat_stream_run jt su [] s) = frames_of (chat_finish jt su s)"
    by (simp add: frames_of_def split: sum.split)
  then show ?case using finish_lines [of jt su s] by simp
next
  case (Cons c chunks)
  obtain capacity chunk where c: "c = (capacity, chunk)" by fastforce
  show ?case
  proof (cases "decoder_push capacity (ca_decoder s) chunk")
    case (Inl a)
    then show ?thesis by (simp add: c chat_push_chunk_def)
  next
    case (Inr r)
    obtain d ls where r: "r = (d, ls)" by fastforce
    have push: "chat_push_chunk jt su capacity chunk s = map_sum id (onto d []) (try_fold (process_line jt su) ls (s, []))"
      using naturalD [OF natural_fold [OF natural_line [of jt su]], where xs1 = ls and s = s and d = d and pre = "[]" and out = "[]"] by (simp add: chat_push_chunk_def Inr r)
    show ?thesis
    proof (cases "try_fold (process_line jt su) ls (s, [])")
      case (Inl a)
      then show ?thesis using push \<open>decoder_push _ _ _ = Inr r\<close>
        by (auto simp: c r lines_run_append frames_of_def split: sum.split)
    next
      case (Inr e)
      obtain s1 out1 where e: "e = (s1, out1)" by fastforce
      have 1: "frames_of (lines_run jt su ls' rest (s1, out1)) = map_sum id ((@) out1) (frames_of (lines_run jt su ls' rest (s1, [])))"
        for ls' rest
        using naturalD [OF natural_lines [of jt su ls' rest], where s = s1 and d = "ca_decoder s1" and pre = out1 and out = "[]"]
        by (simp add: frames_of_onto)
      have 2: "frames_of (lines_run jt su ls' rest (s1\<lparr>ca_decoder := d\<rparr>, [])) = frames_of (lines_run jt su ls' rest (s1, []))" for ls' rest
        using naturalD [OF natural_lines [of jt su ls' rest], where s = s1 and d = d and pre = "[]" and out = "[]"]
        by (simp add: frames_of_onto)
      have "chat_push_chunk jt su capacity chunk s = Inr (s1\<lparr>ca_decoder := d\<rparr>, out1)" using push Inr by (simp add: e onto_pair)
      then show ?thesis
        using Inr \<open>decoder_push _ _ _ = Inr r\<close> Cons.IH [of "s1\<lparr>ca_decoder := d\<rparr>"]
        by (auto simp: c r e lines_run_append outcome_push 1 2 simp del: chat_stream_run.simps split: sum.split)
    qed
  qed
qed

text \<open>
  C14: What the client gets does not depend on how the upstream's bytes are cut into chunks, nor on the
  decoder's buffer: if the bytes as a whole are UTF-8 and their lines, taken one by one, raise no error,
  every way of cutting them yields the frames of that one pass; otherwise every way ends in an error.\<close>

theorem chat_stream_chunks:
  "outcome (chat_stream_run jt su chunks (chat_stream_new su n)) =
     (let bytes = concat (List.map snd chunks); (lines, rest) = split_lines bytes in
      if utf8_text bytes
      then frames_of (lines_run jt su (List.map (trim_end_char carriage_return) lines) (if rest = [] then None else Some rest)
             (chat_stream_new su n, []))
      else Inl ())"
proof -
  have "ca_decoder (chat_stream_new su n) = decoder_default" by (simp add: chat_stream_new_def case_prod_beta)
  then have "outcome (chat_stream_run jt su chunks (chat_stream_new su n)) =
     (case decode_stream chunks of Inl _ \<Rightarrow> Inl () | Inr (ls, rest) \<Rightarrow> frames_of (lines_run jt su ls rest (chat_stream_new su n, [])))"
    unfolding run_lines decode_stream_def by (auto split: sum.split)
  then show ?thesis by (simp add: decode_stream_whole Let_def case_prod_beta)
qed

end
