(* ===== verification/ChatAnswer.thy ===== *)
theory ChatAnswer
  imports ChatChunks
begin

text \<open>
  A chat stream of text without tool calls is always translated in full: the run ends without an error
  and the completed answer carries the concatenated deltas. A concrete stream is evaluated.
\<close>

subsection \<open>What the operations change\<close>

text \<open>The texts, the calls and whether the answer is complete.\<close>

definition progress :: "chat_stream \<Rightarrow> string \<times> string \<times> tool_state list \<times> bool" where
  "progress s = (ca_full_reasoning_text s, ca_full_text s, ca_tool_calls s, ca_completed s)"

lemma progress_simps [simp]:
  "progress (s\<lparr>ca_next_sequence_number := q\<rparr>) = progress s" "progress (s\<lparr>ca_drawn := n\<rparr>) = progress s"
  "progress (s\<lparr>ca_created_emitted := b\<rparr>) = progress s" "progress (s\<lparr>ca_decoder := d\<rparr>) = progress s"
  "progress (s\<lparr>ca_reasoning_started := b\<rparr>) = progress s" "progress (s\<lparr>ca_content_started := b\<rparr>) = progress s"
  "progress (s\<lparr>ca_reasoning_output_index := i\<rparr>) = progress s" "progress (s\<lparr>ca_message_output_index := i\<rparr>) = progress s"
  "progress (s\<lparr>ca_next_output_index := k\<rparr>) = progress s" "progress (s\<lparr>ca_usage := u\<rparr>) = progress s"
  "progress (observe_metadata v s) = progress s"
  by (simp_all add: progress_def observe_metadata_def)

lemma push_event_progress: "push_event jt ev e = Inr e' \<Longrightarrow> progress (fst e') = progress (fst e)"
  by (cases e) (auto simp: push_event_def split: sum.splits)

lemma push_events_progress: "push_events jt evs e = Inr e' \<Longrightarrow> progress (fst e') = progress (fst e)"
  unfolding push_events_def by (induction evs arbitrary: e) (auto dest: push_event_progress)

lemma response_id_progress: "current_response_id su s = (r, s') \<Longrightarrow> progress s' = progress s"
  using current_response_id_state [of su s] by auto

lemma created_progress: "ensure_response_created jt su e = Inr e' \<Longrightarrow> progress (fst e') = progress (fst e)"
  by (cases e) (auto simp: ensure_response_created_def Let_def split: if_splits prod.splits
      dest!: push_event_progress response_id_progress)

lemma reasoning_progress: "ensure_reasoning_stream_started jt su e = Inr e' \<Longrightarrow> progress (fst e') = progress (fst e)"
  by (auto simp: ensure_reasoning_stream_started_def allocate_output_index_def Let_def split: if_splits prod.splits option.splits
      dest!: push_events_progress created_progress)

lemma text_progress: "ensure_text_stream_started jt su e = Inr e' \<Longrightarrow> progress (fst e') = progress (fst e)"
  by (auto simp: ensure_text_stream_started_def allocate_output_index_def Let_def split: if_splits prod.splits option.splits
      dest!: push_events_progress created_progress)

subsection \<open>Text deltas never fail\<close>

lemma push_reasoning_total:
  assumes "json_reads_back jt" "chat_ok s"
  shows "\<exists>s' out'. push_reasoning jt su delta (s, out) = Inr (s', out') \<and> chat_ok s' \<and>
    progress s' = (ca_full_reasoning_text s @ delta, ca_full_text s, ca_tool_calls s, ca_completed s)"
proof (cases "delta = []")
  case True
  then show ?thesis using assms(2) by (simp add: push_reasoning_def progress_def)
next
  case False
  obtain s1 frames where c: "ensure_reasoning_stream_started jt su (s, out) = Inr (s1, out @ frames)"
    using ensure_reasoning [OF assms] by metis
  let ?s2 = "s1\<lparr>ca_full_reasoning_text := ca_full_reasoning_text s1 @ delta\<rparr>"
  let ?events = "[text_event ''response.reasoning_text.delta'' (opt_or_default 0 (ca_reasoning_output_index s1)) (ca_reasoning_id s1)
        [(''content_index'', json_nat 0), (''delta'', JStr delta)],
      text_event ''response.reasoning_summary_text.delta'' (opt_or_default 0 (ca_reasoning_output_index s1)) (ca_reasoning_id s1)
        [(''summary_index'', json_nat 0), (''delta'', JStr delta)]]"
  obtain s' out' where p: "push_events jt ?events (?s2, out @ frames) = Inr (s', out')"
    using push_events_ok [OF assms(1), of ?events ?s2 "out @ frames"] by auto
  have r: "push_reasoning jt su delta (s, out) = Inr (s', out')" using False p by (simp add: push_reasoning_def c)
  show ?thesis
    using r push_reasoning_ok [OF assms r] push_events_progress [OF p] reasoning_progress [OF c] by (auto simp: progress_def)
qed

lemma push_text_total:
  assumes "json_reads_back jt" "chat_ok s"
  shows "\<exists>s' out'. push_text jt su delta (s, out) = Inr (s', out') \<and> chat_ok s' \<and>
    progress s' = (ca_full_reasoning_text s, ca_full_text s @ delta, ca_tool_calls s, ca_completed s)"
proof (cases "delta = []")
  case True
  then show ?thesis using assms(2) by (simp add: push_text_def progress_def)
next
  case False
  obtain s1 frames where c: "ensure_text_stream_started jt su (s, out) = Inr (s1, out @ frames)"
    using ensure_text [OF assms] by metis
  let ?s2 = "s1\<lparr>ca_full_text := ca_full_text s1 @ delta\<rparr>"
  let ?event = "text_event ''response.output_text.delta'' (opt_or_default 0 (ca_message_output_index s1)) (ca_message_id s1)
        [(''content_index'', json_nat 0), (''delta'', JStr delta), (''logprobs'', JArr [])]"
  obtain s' out' where p: "push_event jt ?event (?s2, out @ frames) = Inr (s', out')"
    using push_event_ok [OF assms(1), of ?event ?s2 "out @ frames"] by auto
  have r: "push_text jt su delta (s, out) = Inr (s', out')" using False p by (simp add: push_text_def c)
  show ?thesis
    using r push_text_ok [OF assms r] push_event_progress [OF p] text_progress [OF c] by (auto simp: progress_def)
qed

subsection \<open>Completing an answer without calls\<close>

lemma emit_completion_plain:
  assumes "json_reads_back jt" "chat_ok s" "\<not> ca_completed s" "ca_tool_calls s = []"
  shows "\<exists>s' frames frame q. emit_completion jt su (s, out) = Inr (s', out @ frames @ [frame]) \<and>
    frame_event jt frame = Some (q, PeCompleted (current_output_items s))"
proof -
  obtain n0 q frames0 where c: "ensure_response_created jt su (s, out) = Inr (announced s n0 q, out @ frames0)"
    using ensure_created [OF assms(1,2)] .
  let ?s = "announced s n0 q"
  define R where "R = (if ca_reasoning_started s then reasoning_done_events s else [])"
  define M where "M = (if ca_content_started s then message_done_events s else [])"
  have ok: "list_all event_ok R" "list_all event_ok M"
    by (simp_all add: R_def M_def reasoning_done_events_def message_done_events_def Let_def)
  obtain frames1 where r: "push_events jt R (?s, out @ frames0) =
      Inr (?s\<lparr>ca_next_sequence_number := q + length R\<rparr>, (out @ frames0) @ frames1)"
    using push_events_ok [OF assms(1) ok(1), of ?s "out @ frames0"] by auto
  let ?s1 = "?s\<lparr>ca_next_sequence_number := q + length R\<rparr>"
  obtain frames2 where m: "push_events jt M (?s1, (out @ frames0) @ frames1) =
      Inr (?s1\<lparr>ca_next_sequence_number := q + length R + length M\<rparr>, ((out @ frames0) @ frames1) @ frames2)"
    using push_events_ok [OF assms(1) ok(2), of ?s1 "(out @ frames0) @ frames1"] by auto
  define s2 where "s2 = ?s1\<lparr>ca_next_sequence_number := q + length R + length M\<rparr>"
  define out2 where "out2 = ((out @ frames0) @ frames1) @ frames2"
  have pr: "(if ca_reasoning_started ?s then push_events jt (reasoning_done_events ?s) (?s, out @ frames0)
      else Inr (?s, out @ frames0)) = Inr (?s1, (out @ frames0) @ frames1)"
    using r by (cases "ca_reasoning_started s") (simp_all add: R_def push_events_def reasoning_done_events_def Let_def)
  have pm: "(if ca_content_started ?s1 then push_events jt (message_done_events ?s1) (?s1, (out @ frames0) @ frames1)
      else Inr (?s1, (out @ frames0) @ frames1)) = Inr (s2, out2)"
    using m by (cases "ca_content_started s") (simp_all add: M_def push_events_def message_done_events_def Let_def s2_def out2_def)
  obtain rid n1 where rid: "current_response_id su s2 = (rid, s2\<lparr>ca_drawn := n1\<rparr>)" using current_response_id_state by blast
  define s3 where "s3 = s2\<lparr>ca_drawn := n1\<rparr>"
  have s3: "ca_tool_calls s3 = []" "ca_model s3 = ca_model s" "ca_created_at s3 = ca_created_at s" "ca_usage s3 = ca_usage s"
    "current_output_items s3 = current_output_items s"
    using assms(4) by (simp_all add: s3_def s2_def current_output_items_def)
  have "ca_tool_calls s2 = []" "s3\<lparr>ca_tool_calls := []\<rparr> = s3" using s3(1) by (simp_all add: s3_def)
  then have pending: "emit_pending_tool_completions jt su (s2, out2) = Inr (s3, out2)"
    by (simp add: emit_pending_tool_completions_def rid push_events_def s3(1) flip: s3_def)
  obtain rid2 n2 where rid2: "current_response_id su s3 = (rid2, s3\<lparr>ca_drawn := n2\<rparr>)" using current_response_id_state by blast
  have items: "current_output_items (s3\<lparr>ca_drawn := n2\<rparr>) = current_output_items s"
    using s3(5) by (simp add: current_output_items_def)
  obtain response n3 where resp: "build_response_object su rid2 (ca_model s) (ca_created_at s) (current_output_items s) (ca_usage s)
      ''completed'' n2 = (response, n3)" by fastforce
  have items_wf: "list_all json_wf (current_output_items s)"
    by (auto simp: list_all_iff current_output_items_def)
  have usage: "\<And>u. ca_usage s = Some u \<Longrightarrow> json_wf u" using assms(2) by (simp add: chat_ok_def)
  have response: "json_wf response" "json_get response ''output'' = Some (JArr (current_output_items s))"
    using response_object(2,3) [where usage = "ca_usage s" and items = "current_output_items s" and su = su and rid = rid2
        and model = "ca_model s" and created = "ca_created_at s" and status = "''completed''" and n = n2] usage items_wf resp by simp_all
  obtain frame where f: "push_event jt (response_event ''response.completed'' response) (s3\<lparr>ca_drawn := n3\<rparr>, out2) =
      Inr (s3\<lparr>ca_drawn := n3, ca_next_sequence_number := ca_next_sequence_number s3 + 1\<rparr>, out2 @ [frame])"
    "frame_event jt frame = Some (ca_next_sequence_number s3, PeCompleted (current_output_items s))"
    using push_event_ok [OF assms(1), of "response_event ''response.completed'' response" "s3\<lparr>ca_drawn := n3\<rparr>" out2] response
    by (auto simp: read_completed)
  have "\<exists>s'. emit_completion jt su (s, out) = Inr (s', out2 @ [frame])"
    by (simp only: emit_completion_def prod.case c try_then_simps pr pm pending assms(3) if_False Let_def rid2)
      (simp add: s3 items resp f(1))
  then show ?thesis using f(2) by (auto simp: out2_def)
qed

text \<open>The text of the completed answer.\<close>

lemma output_text_items:
  "output_text_from_items [] = []"
  "output_text_from_items (reasoning_item_with_status i t st # items) = output_text_from_items items"
  "output_text_from_items (message_item_with_status i t st # items) = t @ output_text_from_items items"
proof -
  have m: "json_get (message_item_with_status i t st) ''type'' = Some (JStr ''message'')"
    by (simp add: message_item_with_status_def json_get_obj)
  have r: "json_get (reasoning_item_with_status i t st) ''type'' = Some (JStr ''reasoning'')"
    by (simp add: reasoning_item_with_status_def json_get_obj)
  show "output_text_from_items [] = []" "output_text_from_items (reasoning_item_with_status i t st # items) = output_text_from_items items"
    by (simp_all add: output_text_from_items_def r json_as_str_def List.map_filter_def)
  have "closed_item_text MessageKind (message_item_with_status i t st) = Some t" by simp
  then obtain v where "json_get (message_item_with_status i t st) ''content'' = Some v" "extract_text v = t"
    unfolding closed_item_text_def by auto
  then show "output_text_from_items (message_item_with_status i t st # items) = t @ output_text_from_items items"
    by (simp add: output_text_from_items_def m json_as_str_def List.map_filter_def)
qed

lemma completed_text:
  assumes "chat_ok s" "\<not> ca_completed s" "ca_tool_calls s = []"
  shows "output_text_from_items (current_output_items s) = ca_full_text s"
proof -
  have o: "items_open s" using assms by (simp add: chat_ok_def)
  show ?thesis
    by (cases "ca_reasoning_output_index s"; cases "ca_message_output_index s")
      (use o assms(3) in \<open>auto simp: items_open_def current_output_items_def opt_list_def output_text_items\<close>)
qed

subsection \<open>A stream of text\<close>

definition data_of :: "string \<Rightarrow> string" where
  "data_of line = trim (drop 5 line)"

text \<open>A line that says nothing: not data, or empty data.\<close>

definition silent_line :: "string \<Rightarrow> bool" where
  "silent_line line \<longleftrightarrow> \<not> prefix ''data:'' line \<or> data_of line = []"

definition done_line :: "string \<Rightarrow> bool" where
  "done_line line \<longleftrightarrow> prefix ''data:'' line \<and> data_of line = ''[DONE]''"

text \<open>A line with the chunk \<open>v\<close>, which carries no tool calls.\<close>

definition text_line :: "json_text \<Rightarrow> string \<Rightarrow> json \<Rightarrow> bool" where
  "text_line jt line v \<longleftrightarrow>
     prefix ''data:'' line \<and> data_of line \<noteq> [] \<and> data_of line \<noteq> ''[DONE]'' \<and> jt_parse jt (data_of line) = Some v \<and>
     extract_chat_delta_tool_calls v = Inr []"

text \<open>What a line adds to the text.\<close>

definition line_text :: "json option \<Rightarrow> string" where
  "line_text v = (case v of Some v \<Rightarrow> extract_chat_delta_text v | None \<Rightarrow> [])"

lemma silent_line_run: "silent_line line \<Longrightarrow> process_line jt su line e = Inr e"
  by (cases e) (auto simp: silent_line_def process_line_def data_of_def Let_def)

lemma done_line_run: "done_line line \<Longrightarrow> process_line jt su line e = emit_completion jt su e"
  by (cases e) (auto simp: done_line_def process_line_def data_of_def Let_def)

lemma text_line_run:
  assumes "json_reads_back jt" "chat_ok s" "text_line jt line v"
  shows "\<exists>s' out'. process_line jt su line (s, out) = Inr (s', out') \<and> chat_ok s' \<and>
    progress s' = (ca_full_reasoning_text s @ extract_chat_delta_reasoning_text v, ca_full_text s @ extract_chat_delta_text v,
      ca_tool_calls s, ca_completed s)"
proof -
  define s0 where "s0 = (observe_metadata v s)\<lparr>ca_usage := opt_or (usage_from_chat_value v) (ca_usage (observe_metadata v s))\<rparr>"
  have s0: "chat_ok s0" "progress s0 = progress s"
    using observe_metadata_silent [OF assms(2), of jt out v] by (simp_all add: advances_def s0_def)
  obtain s1 out1 where 1: "push_reasoning jt su (extract_chat_delta_reasoning_text v) (s0, out) = Inr (s1, out1)" "chat_ok s1"
    "progress s1 = (ca_full_reasoning_text s0 @ extract_chat_delta_reasoning_text v, ca_full_text s0, ca_tool_calls s0, ca_completed s0)"
    using push_reasoning_total [OF assms(1) s0(1), of su "extract_chat_delta_reasoning_text v" out] by blast
  obtain s2 out2 where 2: "push_text jt su (extract_chat_delta_text v) (s1, out1) = Inr (s2, out2)" "chat_ok s2"
    "progress s2 = (ca_full_reasoning_text s1, ca_full_text s1 @ extract_chat_delta_text v, ca_tool_calls s1, ca_completed s1)"
    using push_text_total [OF assms(1) 1(2), of su "extract_chat_delta_text v" out1] by blast
  have "process_line jt su line (s, out) = Inr (s2, out2)"
    using assms(3) 1(1) 2(1) by (simp add: text_line_def process_line_def data_of_def s0_def Let_def)
  then show ?thesis using 1(3) 2(2,3) s0(2) by (auto simp: progress_def)
qed

lemma text_lines_run:
  assumes "json_reads_back jt" "chat_ok s" "\<not> ca_completed s" "ca_tool_calls s = []"
    and "list_all2 (\<lambda>line v. case v of Some v \<Rightarrow> text_line jt line v | None \<Rightarrow> silent_line line) lines vs"
  shows "\<exists>s' out'. try_fold (process_line jt su) lines (s, out) = Inr (s', out') \<and> chat_ok s' \<and> \<not> ca_completed s' \<and>
    ca_tool_calls s' = [] \<and> ca_full_text s' = ca_full_text s @ concat (List.map line_text vs)"
  using assms(5,2-4)
proof (induction lines vs arbitrary: s out rule: list_all2_induct)
  case Nil
  then show ?case by simp
next
  case (Cons line lines v vs)
  show ?case
  proof (cases v)
    case None
    then show ?thesis using Cons by (simp add: silent_line_run line_text_def)
  next
    case (Some w)
    obtain s1 out1 where 1: "process_line jt su line (s, out) = Inr (s1, out1)" "chat_ok s1"
      "progress s1 = (ca_full_reasoning_text s @ extract_chat_delta_reasoning_text w, ca_full_text s @ extract_chat_delta_text w,
        ca_tool_calls s, ca_completed s)"
      using text_line_run [OF assms(1) Cons.prems(1), of line w su out] Cons.hyps(1) Some by auto
    show ?thesis
      using 1 Cons.IH [of s1 out1] Cons.prems by (auto simp: Some progress_def line_text_def)
  qed
qed

lemma closing_lines_run:
  assumes "ca_completed s" "list_all (\<lambda>line. silent_line line \<or> done_line line) lines"
  shows "try_fold (process_line jt su) lines (s, out) = Inr (s, out)"
  using assms(2) by (induction lines) (auto simp: silent_line_run done_line_run emit_completion_def assms(1))

lemma ending_lines_run:
  assumes "json_reads_back jt" "chat_ok s" "\<not> ca_completed s" "ca_tool_calls s = []"
    and "list_all (\<lambda>line. silent_line line \<or> done_line line) lines"
  shows "\<exists>s' frames frame q. lines_run jt su lines None (s, out) = Inr (s', out @ frames @ [frame]) \<and>
    frame_event jt frame = Some (q, PeCompleted (current_output_items s))"
proof -
  obtain s' frames frame q where c: "emit_completion jt su (s, out) = Inr (s', out @ frames @ [frame])"
    "frame_event jt frame = Some (q, PeCompleted (current_output_items s))"
    using emit_completion_plain [OF assms(1-4), of su out] by blast
  have done_s': "ca_completed s'" using emit_completion_ok [OF assms(1,2) c(1)] by simp
  have "lines_run jt su lines None (s, out) = Inr (s', out @ frames @ [frame])"
    using assms(5)
  proof (induction lines)
    case Nil
    then show ?case using assms(3) c(1) by (simp add: lines_run_def)
  next
    case (Cons line lines)
    then show ?case
    proof (cases "silent_line line")
      case True
      then show ?thesis using Cons by (simp add: lines_run_def silent_line_run)
    next
      case False
      then show ?thesis
        using Cons.prems closing_lines_run [OF done_s', of lines jt su] done_s' by (simp add: lines_run_def done_line_run c(1))
    qed
  qed
  then show ?thesis using c(2) by blast
qed

text \<open>
  C15: A chat stream of text is translated in full, however it is cut: when its bytes are UTF-8 and its
  lines are chunks without tool calls (or say nothing), up to an end that may hold \<open>[DONE]\<close>, the run
  ends without an error, and its last frame is the completed answer, whose output text is the
  concatenation of the text of all chunks.\<close>

theorem chat_text_stream_answered:
  assumes "json_reads_back jt"
    and "utf8_text (concat (List.map snd chunks))" "split_lines (concat (List.map snd chunks)) = (raw @ ending, [])"
    and "list_all2 (\<lambda>line v. case v of Some v \<Rightarrow> text_line jt line v | None \<Rightarrow> silent_line line)
           (List.map (trim_end_char carriage_return) raw) vs"
    and "list_all (\<lambda>line. silent_line line \<or> done_line line) (List.map (trim_end_char carriage_return) ending)"
  shows "\<exists>frames frame q items.
    chat_stream_run jt su chunks (chat_stream_new su n) = (frames @ [frame], None) \<and>
    frame_event jt frame = Some (q, PeCompleted items) \<and>
    output_text_from_items items = concat (List.map line_text vs)"
proof -
  let ?s = "chat_stream_new su n"
  have s: "chat_ok ?s" "\<not> ca_completed ?s" "ca_tool_calls ?s = []" "ca_full_text ?s = []"
    using chat_new by (simp_all add: chat_stream_new_def case_prod_beta)
  obtain s1 out1 where 1: "try_fold (process_line jt su) (List.map (trim_end_char carriage_return) raw) (?s, []) = Inr (s1, out1)"
    "chat_ok s1" "\<not> ca_completed s1" "ca_tool_calls s1 = []" "ca_full_text s1 = concat (List.map line_text vs)"
    using text_lines_run [OF assms(1) s(1-3) assms(4), of su "[]"] s(4) by auto
  obtain s2 frames frame q where 2:
    "lines_run jt su (List.map (trim_end_char carriage_return) ending) None (s1, out1) = Inr (s2, out1 @ frames @ [frame])"
    "frame_event jt frame = Some (q, PeCompleted (current_output_items s1))"
    using ending_lines_run [OF assms(1) 1(2-4) assms(5), of su out1] by blast
  have "outcome (chat_stream_run jt su chunks ?s) = Inr (out1 @ frames @ [frame])"
    unfolding chat_stream_chunks using assms(2,3) by (simp add: lines_run_append 1(1) 2(1) frames_of_def)
  then have "chat_stream_run jt su chunks ?s = ((out1 @ frames) @ [frame], None)"
    by (cases "chat_stream_run jt su chunks ?s") (simp add: outcome_simps split: if_splits)
  moreover have "output_text_from_items (current_output_items s1) = concat (List.map line_text vs)"
    using completed_text [OF 1(2-4)] 1(5) by simp
  ultimately show ?thesis using 2(2) by (metis (no_types))
qed

subsection \<open>A concrete stream\<close>

definition demo_ids :: id_source where
  "demo_ids = \<lparr>su_uuid = (\<lambda>n. ''x''), su_now = int\<rparr>"

definition demo_chunk :: "string \<Rightarrow> json" where
  "demo_chunk t = JObj [(''choices'', JArr [JObj [(''delta'', JObj [(''content'', JStr t)])]])]"

definition demo_stream :: string where
  "demo_stream = ''data: '' @ demo_value (demo_chunk ''hel'') @ [newline, newline] @
     ''data: '' @ demo_value (demo_chunk ''lo'') @ [newline] @ ''data: [DONE]'' @ [newline]"

definition demo_chunks :: "(nat \<times> string) list" where
  "demo_chunks = [(64, take 30 demo_stream), (0, drop 30 demo_stream)]"

theorem chat_text_stream_answered_witness:
  "\<exists>frames frame q items.
     chat_stream_run demo_lib demo_ids demo_chunks (chat_stream_new demo_ids 0) = (frames @ [frame], None) \<and>
     frame_event demo_lib frame = Some (q, PeCompleted items) \<and> output_text_from_items items = ''hello''"
proof -
  let ?line = "\<lambda>t. ''data: '' @ demo_value (demo_chunk t)"
  have 1: "utf8_text (concat (List.map snd demo_chunks))" unfolding utf8_text_iff by code_simp
  have 2: "split_lines (concat (List.map snd demo_chunks)) = ([?line ''hel'', [], ?line ''lo''] @ [''data: [DONE]''], [])"
    by code_simp
  have 3: "list_all2 (\<lambda>line v. case v of Some v \<Rightarrow> text_line demo_lib line v | None \<Rightarrow> silent_line line)
      (List.map (trim_end_char carriage_return) [?line ''hel'', [], ?line ''lo''])
      [Some (demo_chunk ''hel''), None, Some (demo_chunk ''lo'')]"
    by code_simp
  have 4: "list_all (\<lambda>line. silent_line line \<or> done_line line) (List.map (trim_end_char carriage_return) [''data: [DONE]''])"
    by code_simp
  have 5: "concat (List.map line_text [Some (demo_chunk ''hel''), None, Some (demo_chunk ''lo'')]) = ''hello''" by code_simp
  show ?thesis
    using chat_text_stream_answered [OF demo_lib_reads_back 1 2 3 4, of demo_ids 0] unfolding 5 .
qed

text \<open>The same stream keeps to the protocol.\<close>

theorem chat_stream_protocol_witness:
  "case chat_stream_run demo_lib demo_ids demo_chunks (chat_stream_new demo_ids 0) of
    (frames, err) \<Rightarrow> \<exists>m. protocol_run demo_lib (Running 0 False []) frames = Some m \<and> (err = None \<longrightarrow> m = Finished)"
  by (rule chat_stream_protocol [OF demo_lib_reads_back])

end
